(* ===== verification/Scs_Prelude.thy ===== *)
theory Scs_Prelude
  imports Main "HOL-Library.AList" "HOL-Library.List_Lexorder" "HOL-Library.Char_ord" "HOL-Library.Product_Lexorder"
begin

text \<open>
  Shared vocabulary of the development: Python exceptions as values, dynamically typed
  JSON values and their coercions, \<open>sorted(set(...))\<close>, \<open>dict.fromkeys\<close>, and the small
  relational layer (filter, order by, update where) that the SQLite statements of the
  stores are written with.

  A Python \<open>str\<close> is a \<open>string\<close>, that is a list of characters with code points below 256;
  on such strings length, slicing, equality and the lexicographic order agree with
  Python's.  Code that depends on the UTF-8 length of a text is modelled on code-point
  lists instead, in its own theory.
\<close>

named_theorems exc_simps \<open>unfolding rules for the result sums of the operations\<close>
named_theorems table_simps \<open>rewrites for the relational layer\<close>

section \<open>Exceptions as values\<close>

text \<open>
  The exception classes the modelled code raises or catches, each with its message.  A
  fallible operation returns \<open>exc + 'a\<close>, with \<open>Inl\<close> for a raised exception.
\<close>

datatype exc =
    KeyError string
  | TypeError string
  | ValueError string
  | ValidationError string
  | RuntimeError string
  | CatalogError string
  | StorePathError string
  | ServiceBusyError string
  | ProviderUnavailableError string
  | IngestionCancelled string
  | FrameError string
  | IntegrityError string
  | OSError string
  | TimeoutError string
  | SqliteError string
  | IndexError string
  | OverflowError string
  | AttributeError string
  | ClientError string
  | ImportError string
  | HTTPException string

definition is_raise :: "exc + 'a \<Rightarrow> bool" where
  "is_raise r = (case r of Inl _ \<Rightarrow> True | Inr _ \<Rightarrow> False)"

lemma is_raise_simps [simp, exc_simps]:
  "is_raise (Inl e)" "\<not> is_raise (Inr x)"
  by (simp_all add: is_raise_def)

text \<open>Sequencing: a raised exception skips the rest.\<close>

definition and_then :: "exc + 'a \<Rightarrow> ('a \<Rightarrow> exc + 'b) \<Rightarrow> exc + 'b" where
  "and_then r f = (case r of Inl e \<Rightarrow> Inl e | Inr x \<Rightarrow> f x)"

lemma and_then_simps [simp, exc_simps]:
  "and_then (Inl e) f = Inl e" "and_then (Inr x) f = f x"
  by (simp_all add: and_then_def)

lemma and_then_Inr_iff: "and_then r f = Inr y \<longleftrightarrow> (\<exists>x. r = Inr x \<and> f x = Inr y)"
  by (cases r) simp_all

lemma and_then_Inl_iff: "and_then r f = Inl e \<longleftrightarrow> r = Inl e \<or> (\<exists>x. r = Inr x \<and> f x = Inl e)"
  by (cases r) simp_all

text \<open>
  Effectful code: an action takes the state and returns its value or exception with the
  state it leaves, which an exception does not undo.
\<close>

type_synonym ('s, 'a) act = "'s \<Rightarrow> (exc + 'a) \<times> 's"

definition act_return :: "'a \<Rightarrow> ('s, 'a) act" where
  "act_return x s = (Inr x, s)"

definition act_raise :: "exc \<Rightarrow> ('s, 'a) act" where
  "act_raise e s = (Inl e, s)"

definition act_lift :: "exc + 'a \<Rightarrow> ('s, 'a) act" where
  "act_lift r s = (r, s)"

definition act_bind :: "('s, 'a) act \<Rightarrow> ('a \<Rightarrow> ('s, 'b) act) \<Rightarrow> ('s, 'b) act" where
  "act_bind m f s = (case m s of (Inl e, s') \<Rightarrow> (Inl e, s') | (Inr x, s') \<Rightarrow> f x s')"

definition act_seq :: "('s, 'a) act \<Rightarrow> ('s, 'b) act \<Rightarrow> ('s, 'b) act" where
  "act_seq m n = act_bind m (\<lambda>_. n)"

definition act_handle :: "('s, 'a) act \<Rightarrow> (exc \<Rightarrow> ('s, 'a) act) \<Rightarrow> ('s, 'a) act" where
  "act_handle m h s = (case m s of (Inl e, s') \<Rightarrow> h e s' | (Inr x, s') \<Rightarrow> (Inr x, s'))"

definition act_modify :: "('s \<Rightarrow> 's) \<Rightarrow> ('s, unit) act" where
  "act_modify f s = (Inr (), f s)"

definition act_gets :: "('s \<Rightarrow> 'a) \<Rightarrow> ('s, 'a) act" where
  "act_gets f s = (Inr (f s), s)"

lemmas act_defs = act_return_def act_raise_def act_lift_def act_bind_def act_seq_def act_handle_def
  act_modify_def act_gets_def

text \<open>Correctness with two postconditions, for the value and for the exception.\<close>

definition act_ensures ::
  "('s \<Rightarrow> bool) \<Rightarrow> ('s, 'a) act \<Rightarrow> ('a \<Rightarrow> 's \<Rightarrow> bool) \<Rightarrow> (exc \<Rightarrow> 's \<Rightarrow> bool) \<Rightarrow> bool" where
  "act_ensures P m Q E =
     (\<forall>s. P s \<longrightarrow> (case m s of (Inl e, s') \<Rightarrow> E e s' | (Inr x, s') \<Rightarrow> Q x s'))"

lemma ensures_Inr: "act_ensures P m Q E \<Longrightarrow> P s \<Longrightarrow> m s = (Inr x, s') \<Longrightarrow> Q x s'"
  by (drule act_ensures_def [THEN iffD1, THEN spec [of _ s]]) simp

lemma ensures_Inl: "act_ensures P m Q E \<Longrightarrow> P s \<Longrightarrow> m s = (Inl e, s') \<Longrightarrow> E e s'"
  by (drule act_ensures_def [THEN iffD1, THEN spec [of _ s]]) simp

lemma ensuresI:
  assumes "\<And>s x s'. P s \<Longrightarrow> m s = (Inr x, s') \<Longrightarrow> Q x s'" "\<And>s e s'. P s \<Longrightarrow> m s = (Inl e, s') \<Longrightarrow> E e s'"
  shows "act_ensures P m Q E"
  using assms unfolding act_ensures_def by (simp split: prod.split sum.split)

lemma act_bind_Inr_iff:
  "act_bind m f s = (Inr y, t) \<longleftrightarrow> (\<exists>x s'. m s = (Inr x, s') \<and> f x s' = (Inr y, t))"
  by (cases "m s"; cases "fst (m s)") (auto simp: act_bind_def)

lemma act_bind_Inl_iff:
  "act_bind m f s = (Inl e, t) \<longleftrightarrow>
   m s = (Inl e, t) \<or> (\<exists>x s'. m s = (Inr x, s') \<and> f x s' = (Inl e, t))"
  by (cases "m s"; cases "fst (m s)") (auto simp: act_bind_def)

lemma act_handle_Inr_iff:
  "act_handle m h s = (Inr y, t) \<longleftrightarrow>
   m s = (Inr y, t) \<or> (\<exists>e s'. m s = (Inl e, s') \<and> h e s' = (Inr y, t))"
  by (cases "m s"; cases "fst (m s)") (auto simp: act_handle_def)

lemma act_handle_Inl_iff:
  "act_handle m h s = (Inl e, t) \<longleftrightarrow> (\<exists>e' s'. m s = (Inl e', s') \<and> h e' s' = (Inl e, t))"
  by (cases "m s"; cases "fst (m s)") (auto simp: act_handle_def)

lemma ensures_bind:
  assumes "act_ensures P m R E" "\<And>x. act_ensures (R x) (f x) Q E"
  shows "act_ensures P (act_bind m f) Q E"
  by (rule ensuresI)
     (auto simp: act_bind_Inr_iff act_bind_Inl_iff
       dest: ensures_Inr [OF assms(1)] ensures_Inl [OF assms(1)] ensures_Inr [OF assms(2)] ensures_Inl [OF assms(2)])

lemma ensures_seq:
  "act_ensures P m (\<lambda>_. R) E \<Longrightarrow> act_ensures R n Q E \<Longrightarrow> act_ensures P (act_seq m n) Q E"
  unfolding act_seq_def by (rule ensures_bind)

lemma ensures_handle:
  assumes "act_ensures P m Q R" "\<And>e. act_ensures (R e) (h e) Q E"
  shows "act_ensures P (act_handle m h) Q E"
  by (rule ensuresI)
     (auto simp: act_handle_Inr_iff act_handle_Inl_iff
       dest: ensures_Inr [OF assms(1)] ensures_Inl [OF assms(1)] ensures_Inr [OF assms(2)] ensures_Inl [OF assms(2)])

lemma ensures_return: "(\<And>s. P s \<Longrightarrow> Q x s) \<Longrightarrow> act_ensures P (act_return x) Q E"
  by (simp add: act_ensures_def act_return_def)

lemma ensures_raise: "(\<And>s. P s \<Longrightarrow> E e s) \<Longrightarrow> act_ensures P (act_raise e) Q E"
  by (simp add: act_ensures_def act_raise_def)

lemma ensures_lift:
  "(\<And>s x. P s \<Longrightarrow> r = Inr x \<Longrightarrow> Q x s) \<Longrightarrow> (\<And>s e. P s \<Longrightarrow> r = Inl e \<Longrightarrow> E e s) \<Longrightarrow>
   act_ensures P (act_lift r) Q E"
  by (auto simp: act_ensures_def act_lift_def split: sum.splits)

lemma ensures_modify: "(\<And>s. P s \<Longrightarrow> Q () (f s)) \<Longrightarrow> act_ensures P (act_modify f) Q E"
  by (simp add: act_ensures_def act_modify_def)

lemma ensures_gets: "(\<And>s. P s \<Longrightarrow> Q (f s) s) \<Longrightarrow> act_ensures P (act_gets f) Q E"
  by (simp add: act_ensures_def act_gets_def)

lemma ensures_weaken:
  assumes "act_ensures P m Q E" "\<And>s. P' s \<Longrightarrow> P s" "\<And>x s. Q x s \<Longrightarrow> Q' x s" "\<And>e s. E e s \<Longrightarrow> E' e s"
  shows "act_ensures P' m Q' E'"
  by (rule ensuresI)
     (blast intro: assms(2-4) ensures_Inr [OF assms(1)] ensures_Inl [OF assms(1)])+

lemma ensures_if:
  "(b \<Longrightarrow> act_ensures P m Q E) \<Longrightarrow> (\<not> b \<Longrightarrow> act_ensures P n Q E) \<Longrightarrow>
   act_ensures P (if b then m else n) Q E"
  by simp

lemmas ensures_intros = ensures_bind ensures_seq ensures_return ensures_raise ensures_lift
  ensures_modify ensures_gets

text \<open>An action that keeps a property of the state, whether it returns or raises.\<close>

definition act_keeps :: "('s \<Rightarrow> bool) \<Rightarrow> ('s, 'a) act \<Rightarrow> bool" where
  "act_keeps I m = act_ensures I m (\<lambda>_. I) (\<lambda>_. I)"

lemma keepsI: "(\<And>s r t. I s \<Longrightarrow> m s = (r, t) \<Longrightarrow> I t) \<Longrightarrow> act_keeps I m"
  unfolding act_keeps_def by (rule ensuresI) blast+

lemma keepsD: "act_keeps I m \<Longrightarrow> I s \<Longrightarrow> m s = (r, t) \<Longrightarrow> I t"
  unfolding act_keeps_def by (cases r) (auto dest: ensures_Inr ensures_Inl)

lemma keeps_bind: "act_keeps I m \<Longrightarrow> (\<And>x. act_keeps I (f x)) \<Longrightarrow> act_keeps I (act_bind m f)"
  unfolding act_keeps_def by (rule ensures_bind)

lemma keeps_seq: "act_keeps I m \<Longrightarrow> act_keeps I n \<Longrightarrow> act_keeps I (act_seq m n)"
  unfolding act_keeps_def by (rule ensures_seq)

lemma keeps_handle: "act_keeps I m \<Longrightarrow> (\<And>e. act_keeps I (h e)) \<Longrightarrow> act_keeps I (act_handle m h)"
  unfolding act_keeps_def by (rule ensures_handle)

lemma keeps_pure [intro!]:
  "act_keeps I (act_lift r)" "act_keeps I (act_gets g)" "act_keeps I (act_return x)" "act_keeps I (act_raise e)"
  unfolding act_keeps_def by (auto intro: ensures_lift ensures_gets ensures_return ensures_raise)

lemma keeps_modify: "(\<And>s. I s \<Longrightarrow> I (f s)) \<Longrightarrow> act_keeps I (act_modify f)"
  unfolding act_keeps_def by (rule ensures_modify)

lemma keeps_if: "(b \<Longrightarrow> act_keeps I m) \<Longrightarrow> (\<not> b \<Longrightarrow> act_keeps I n) \<Longrightarrow> act_keeps I (if b then m else n)"
  by simp

text \<open>An action for each element of a list, up to the first exception.\<close>

fun act_map :: "('a \<Rightarrow> ('s, 'b) act) \<Rightarrow> 'a list \<Rightarrow> ('s, 'b list) act" where
  "act_map f [] = act_return []"
| "act_map f (x # xs) = act_bind (f x) (\<lambda>y. act_bind (act_map f xs) (\<lambda>ys. act_return (y # ys)))"

lemma keeps_map: "(\<And>x. act_keeps I (f x)) \<Longrightarrow> act_keeps I (act_map f xs)"
  by (induction xs) (auto intro!: keeps_bind)

lemmas keeps_intros = keeps_bind keeps_seq keeps_handle keeps_if

lemma ensures_given: "(C \<Longrightarrow> act_ensures P m Q E) \<Longrightarrow> act_ensures (\<lambda>s. P s \<and> C) m Q E"
  by (cases C) (simp_all add: act_ensures_def)

section \<open>JSON values\<close>

text \<open>
  Values of type \<open>object\<close> that cross a JSON boundary.  Objects keep their entries as an
  association list, the reading of a key is \<open>map_of\<close>.  JSON numbers with a fraction do
  not occur in the values modelled with this type.
\<close>

datatype json =
    JNull
  | JBool bool
  | JInt int
  | JStr string
  | JList "json list"
  | JObj "(string \<times> json) list"

type_synonym dict = "(string \<times> json) list"

definition dict_get :: "dict \<Rightarrow> string \<Rightarrow> json \<Rightarrow> json" where
  "dict_get d k dflt = (case map_of d k of None \<Rightarrow> dflt | Some v \<Rightarrow> v)"

definition dict_has :: "dict \<Rightarrow> string \<Rightarrow> bool" where
  "dict_has d k = (map_of d k \<noteq> None)"

definition dict_set :: "dict \<Rightarrow> string \<Rightarrow> json \<Rightarrow> dict" where
  "dict_set d k v = AList.update k v d"

lemma map_of_dict_set [simp]: "map_of (dict_set d k v) = (map_of d)(k \<mapsto> v)"
  by (simp add: dict_set_def update_conv')

lemma dict_get_set [simp]:
  "dict_get (dict_set d k v) k' dflt = (if k' = k then v else dict_get d k' dflt)"
  by (simp add: dict_get_def)

lemma dict_has_set [simp]: "dict_has (dict_set d k v) k' = (k' = k \<or> dict_has d k')"
  by (auto simp: dict_has_def)

lemma dict_get_Nil [simp]: "dict_get [] k dflt = dflt"
  by (simp add: dict_get_def)

lemma dict_has_Nil [simp]: "\<not> dict_has [] k"
  by (simp add: dict_has_def)

section \<open>Text of values\<close>

text \<open>Decimal digits, \<open>repr\<close> and \<open>str\<close> of the values that occur in paths and messages.\<close>

definition digit_char :: "nat \<Rightarrow> char" where
  "digit_char d = char_of (48 + d)"

fun nat_digits :: "nat \<Rightarrow> string" where
  "nat_digits n = (if n < 10 then [digit_char n]
                   else nat_digits (n div 10) @ [digit_char (n mod 10)])"

declare nat_digits.simps [simp del]

definition int_str :: "int \<Rightarrow> string" where
  "int_str i = (if i < 0 then CHR ''-'' # nat_digits (nat (- i)) else nat_digits (nat i))"

definition hex_char :: "nat \<Rightarrow> char" where
  "hex_char d = (if d < 10 then char_of (48 + d) else char_of (87 + d))"

definition repr_char :: "char \<Rightarrow> char \<Rightarrow> string" where
  "repr_char quote c =
     (let n = (of_char c :: nat) in
      if c = quote \<or> n = 92 then [char_of (92::nat), c]
      else if n = 10 then [char_of (92::nat), CHR ''n'']
      else if n = 13 then [char_of (92::nat), CHR ''r'']
      else if n = 9 then [char_of (92::nat), CHR ''t'']
      else if n < 32 \<or> (127 \<le> n \<and> n \<le> 160) \<or> n = 173
        then [char_of (92::nat), CHR ''x'', hex_char (n div 16), hex_char (n mod 16)]
      else [c])"

definition repr_string :: "string \<Rightarrow> string" where
  "repr_string s =
     (let sq = char_of (39::nat); dq = char_of (34::nat);
          quote = (if sq \<in> set s \<and> dq \<notin> set s then dq else sq)
      in quote # concat (map (repr_char quote) s) @ [quote])"

fun intercalate :: "'a list \<Rightarrow> 'a list list \<Rightarrow> 'a list" where
  "intercalate sep [] = []"
| "intercalate sep [x] = x"
| "intercalate sep (x # y # ys) = x @ sep @ intercalate sep (y # ys)"

definition repr_string_list :: "string list \<Rightarrow> string" where
  "repr_string_list xs = ''['' @ intercalate '', '' (map repr_string xs) @ '']''"

fun py_repr :: "json \<Rightarrow> string" where
  "py_repr JNull = ''None''"
| "py_repr (JBool b) = (if b then ''True'' else ''False'')"
| "py_repr (JInt i) = int_str i"
| "py_repr (JStr s) = repr_string s"
| "py_repr (JList xs) = ''['' @ intercalate '', '' (map py_repr xs) @ '']''"
| "py_repr (JObj kvs) =
     ''{'' @ intercalate '', ''
       (map (\<lambda>kv. repr_string (fst kv) @ '': '' @ py_repr (snd kv)) kvs) @ ''}''"

definition py_str :: "json \<Rightarrow> string" where
  "py_str v = (case v of JStr s \<Rightarrow> s | _ \<Rightarrow> py_repr v)"

lemma py_str_JStr [simp]: "py_str (JStr s) = s"
  by (simp add: py_str_def)

text \<open>\<open>str(exc)\<close>: a \<open>KeyError\<close> shows the \<open>repr\<close> of its key, the others their message.\<close>

definition exc_str :: "exc \<Rightarrow> string" where
  "exc_str e =
     (case e of KeyError k \<Rightarrow> repr_string k
      | TypeError m \<Rightarrow> m | ValueError m \<Rightarrow> m | ValidationError m \<Rightarrow> m | RuntimeError m \<Rightarrow> m
      | CatalogError m \<Rightarrow> m | StorePathError m \<Rightarrow> m | ServiceBusyError m \<Rightarrow> m
      | ProviderUnavailableError m \<Rightarrow> m | IngestionCancelled m \<Rightarrow> m | FrameError m \<Rightarrow> m
      | IntegrityError m \<Rightarrow> m | OSError m \<Rightarrow> m | TimeoutError m \<Rightarrow> m
      | SqliteError m \<Rightarrow> m | IndexError m \<Rightarrow> m
      | OverflowError m \<Rightarrow> m | AttributeError m \<Rightarrow> m | ClientError m \<Rightarrow> m
      | ImportError m \<Rightarrow> m | HTTPException m \<Rightarrow> m)"

text \<open>Truth value of a value, as \<open>if v\<close> and \<open>v or w\<close> read it.\<close>

fun truthy :: "json \<Rightarrow> bool" where
  "truthy JNull = False"
| "truthy (JBool b) = b"
| "truthy (JInt i) = (i \<noteq> 0)"
| "truthy (JStr s) = (s \<noteq> [])"
| "truthy (JList xs) = (xs \<noteq> [])"
| "truthy (JObj kvs) = (kvs \<noteq> [])"

text \<open>\<open>str.strip\<close> removes white space at both ends.\<close>

definition is_space :: "char \<Rightarrow> bool" where
  "is_space c = (let n = (of_char c :: nat) in (9 \<le> n \<and> n \<le> 13) \<or> (28 \<le> n \<and> n \<le> 32) \<or> n = 133 \<or> n = 160)"

definition strip :: "string \<Rightarrow> string" where
  "strip s = rev (dropWhile is_space (rev (dropWhile is_space s)))"

text \<open>Iterating a value: lists, the keys of an object, the characters of a string.\<close>

fun py_iter :: "json \<Rightarrow> exc + json list" where
  "py_iter (JList xs) = Inr xs"
| "py_iter (JObj kvs) = Inr (map (\<lambda>kv. JStr (fst kv)) kvs)"
| "py_iter (JStr s) = Inr (map (\<lambda>c. JStr [c]) s)"
| "py_iter JNull = Inl (TypeError '''NoneType' object is not iterable'')"
| "py_iter (JBool _) = Inl (TypeError '''bool' object is not iterable'')"
| "py_iter (JInt _) = Inl (TypeError '''int' object is not iterable'')"

section \<open>Sorted sets and order-preserving de-duplication\<close>

text \<open>Python's \<open>sorted(set(xs))\<close>.\<close>

definition sorted_set :: "'a::linorder list \<Rightarrow> 'a list" where
  "sorted_set xs = sort (remdups xs)"

lemma set_sorted_set [simp]: "set (sorted_set xs) = set xs"
  by (simp add: sorted_set_def)

lemma sorted_sorted_set [simp]: "sorted (sorted_set xs)"
  by (simp add: sorted_set_def)

lemma distinct_sorted_set [simp]: "distinct (sorted_set xs)"
  by (simp add: sorted_set_def)

lemma sorted_set_Nil [simp]: "sorted_set [] = []"
  by (simp add: sorted_set_def)

lemma sorted_set_eq_Nil_iff [simp]: "sorted_set xs = [] \<longleftrightarrow> xs = []"
  by (metis set_sorted_set set_empty)

lemma sorted_set_cong: "set xs = set ys \<Longrightarrow> sorted_set xs = sorted_set ys"
  by (rule sorted_distinct_set_unique) simp_all

lemma sorted_set_idem: "sorted xs \<Longrightarrow> distinct xs \<Longrightarrow> sorted_set xs = xs"
  by (rule sorted_distinct_set_unique) simp_all

text \<open>Python's \<open>list(dict.fromkeys(xs))\<close>: first occurrences, in order.\<close>

fun dedup_onto :: "'a list \<Rightarrow> 'a list \<Rightarrow> 'a list" where
  "dedup_onto seen [] = []"
| "dedup_onto seen (x # xs) =
     (if x \<in> set seen then dedup_onto seen xs else x # dedup_onto (x # seen) xs)"

definition dedup :: "'a list \<Rightarrow> 'a list" where
  "dedup xs = dedup_onto [] xs"

lemma set_dedup_onto: "set (dedup_onto seen xs) = set xs - set seen"
  by (induction seen xs rule: dedup_onto.induct) auto

lemma distinct_dedup_onto: "distinct (dedup_onto seen xs)"
  by (induction seen xs rule: dedup_onto.induct) (auto simp: set_dedup_onto)

lemma length_dedup_onto: "length (dedup_onto seen xs) \<le> length xs"
  by (induction seen xs rule: dedup_onto.induct) auto

lemma set_dedup [simp]: "set (dedup xs) = set xs"
  by (simp add: dedup_def set_dedup_onto)

lemma distinct_dedup [simp]: "distinct (dedup xs)"
  by (simp add: dedup_def distinct_dedup_onto)

lemma length_dedup: "length (dedup xs) \<le> length xs"
  by (simp add: dedup_def length_dedup_onto)

section \<open>Counting\<close>

definition how_many :: "('a \<Rightarrow> bool) \<Rightarrow> 'a list \<Rightarrow> nat" where
  "how_many P xs = length (filter P xs)"

lemma how_many_update:
  "i < length xs \<Longrightarrow>
   how_many P (xs[i := x]) + of_bool (P (xs ! i)) = how_many P xs + of_bool (P x)"
proof (induction xs arbitrary: i)
  case Nil
  then show ?case by simp
next
  case (Cons y ys)
  show ?case
  proof (cases i)
    case 0
    then show ?thesis by (simp add: how_many_def)
  next
    case (Suc j)
    then show ?thesis using Cons by (simp add: how_many_def)
  qed
qed

lemma how_many_map: "(\<And>x. P (f x) = P x) \<Longrightarrow> how_many P (map f xs) = how_many P xs"
  by (induction xs) (auto simp: how_many_def)

lemma how_many_pos: "0 < how_many P xs \<longleftrightarrow> (\<exists>x\<in>set xs. P x)"
  by (induction xs) (auto simp: how_many_def)

lemma how_many_two:
  "i < length xs \<Longrightarrow> j < length xs \<Longrightarrow> i \<noteq> j \<Longrightarrow> P (xs ! i) \<Longrightarrow> P (xs ! j) \<Longrightarrow> 2 \<le> how_many P xs"
proof -
  assume a: "i < length xs" "j < length xs" "i \<noteq> j" "P (xs ! i)" "P (xs ! j)"
  then have "card {i, j} \<le> card {k. k < length xs \<and> P (xs ! k)}" by (intro card_mono) auto
  then show ?thesis using a(3) by (simp add: how_many_def length_filter_conv_card)
qed

lemma how_many_le: "how_many P xs \<le> length xs"
  by (simp add: how_many_def)

section \<open>The relational layer\<close>

text \<open>
  A table is the list of its rows in insertion (rowid) order.  \<open>order_by\<close> is a stable
  sort, so rows that compare equal stay in rowid order; SQL leaves the order of such rows
  open, and no property below depends on it.
\<close>

definition order_by :: "('r \<Rightarrow> 'k::linorder) \<Rightarrow> 'r list \<Rightarrow> 'r list" where
  "order_by k rows = sort_key k rows"

definition select_first :: "('r \<Rightarrow> 'k::linorder) \<Rightarrow> ('r \<Rightarrow> bool) \<Rightarrow> 'r list \<Rightarrow> 'r option" where
  "select_first k P rows = (case order_by k (filter P rows) of [] \<Rightarrow> None | r # _ \<Rightarrow> Some r)"

definition update_where :: "('r \<Rightarrow> bool) \<Rightarrow> ('r \<Rightarrow> 'r) \<Rightarrow> 'r list \<Rightarrow> 'r list" where
  "update_where P f rows = map (\<lambda>r. if P r then f r else r) rows"

lemma order_by_Nil_iff [table_simps]: "order_by k rows = [] \<longleftrightarrow> rows = []"
  by (metis order_by_def set_empty set_sort)

lemma set_order_by [simp, table_simps]: "set (order_by k rows) = set rows"
  by (simp add: order_by_def)

lemma select_first_None: "select_first k P rows = None \<longleftrightarrow> (\<forall>r\<in>set rows. \<not> P r)"
proof -
  have "select_first k P rows = None \<longleftrightarrow> order_by k (filter P rows) = []"
    by (simp add: select_first_def split: list.split)
  then show ?thesis by (simp add: order_by_Nil_iff filter_empty_conv)
qed

lemma select_first_Some:
  assumes "select_first k P rows = Some r"
  shows "r \<in> set rows" "P r" "\<And>r'. r' \<in> set rows \<Longrightarrow> P r' \<Longrightarrow> k r \<le> k r'"
proof -
  obtain rs where rs: "order_by k (filter P rows) = r # rs"
    using assms by (auto simp: select_first_def split: list.splits)
  then have "r \<in> set (filter P rows)"
    by (metis list.set_intros(1) set_order_by)
  then show "r \<in> set rows" "P r" by auto
  have "sorted (map k (r # rs))"
    using rs by (metis order_by_def sorted_sort_key)
  moreover fix r' assume "r' \<in> set rows" "P r'"
  then have "r' \<in> set (order_by k (filter P rows))" by simp
  then have "r' \<in> set (r # rs)" by (simp only: rs)
  ultimately show "k r \<le> k r'" by auto
qed

lemma length_update_where [simp]: "length (update_where P f rows) = length rows"
  by (simp add: update_where_def)

lemma set_update_where [table_simps]:
  "set (update_where P f rows) = {if P r then f r else r | r. r \<in> set rows}"
  by (auto simp: update_where_def)

lemma update_where_mem:
  "r' \<in> set (update_where P f rows) \<Longrightarrow> \<exists>r\<in>set rows. r' = (if P r then f r else r)"
  by (auto simp: update_where_def)

lemma set_update_where_unique:
  assumes "r \<in> set rows" "P r" "\<And>x. x \<in> set rows \<Longrightarrow> P x \<Longrightarrow> x = r"
  shows "set (update_where P f rows) = insert (f r) (set rows - {r})"
proof (intro set_eqI iffI)
  fix x assume "x \<in> set (update_where P f rows)"
  then obtain y where "y \<in> set rows" "x = (if P y then f y else y)"
    using update_where_mem by metis
  then show "x \<in> insert (f r) (set rows - {r})" using assms(2) assms(3) [of y] by (cases "P y") auto
next
  fix x assume x: "x \<in> insert (f r) (set rows - {r})"
  show "x \<in> set (update_where P f rows)"
  proof (cases "x = f r")
    case True
    then have "x = (if P r then f r else r)" using assms(2) by simp
    then show ?thesis using assms(1) by (auto simp: update_where_def)
  next
    case False
    then have "x \<in> set rows" "x = (if P x then f x else x)" using x assms(3) [of x] by auto
    then show ?thesis unfolding update_where_def set_map by (rule rev_image_eqI)
  qed
qed

lemma update_where_nothing: "(\<And>r. r \<in> set rows \<Longrightarrow> \<not> P r) \<Longrightarrow> update_where P f rows = rows"
  by (induction rows) (auto simp: update_where_def)

lemma map_update_where:
  "(\<And>r. g (f r) = g r) \<Longrightarrow> map g (update_where P f rows) = map g rows"
  by (simp add: update_where_def)

lemma find_update_where:
  "(\<And>r. Q (f r) = Q r) \<Longrightarrow>
   find Q (update_where P f rows) = map_option (\<lambda>r. if P r then f r else r) (find Q rows)"
  by (induction rows) (auto simp: update_where_def)

lemma find_unique:
  "r \<in> set rows \<Longrightarrow> P r \<Longrightarrow> (\<And>r'. r' \<in> set rows \<Longrightarrow> P r' \<Longrightarrow> r' = r) \<Longrightarrow> find P rows = Some r"
  by (metis find_None_iff2 find_Some_iff not_Some_eq nth_mem)

end
