(* ===== verification/Posix_Path.thy ===== *)
theory Posix_Path
  imports Scs_Prelude "HOL-Library.Sublist"
begin

text \<open>
  The part of Python's \<open>pathlib.PurePosixPath\<close> that the modelled code uses: parsing,
  \<open>str\<close>/\<open>as_posix\<close>, \<open>parts\<close>, \<open>is_absolute\<close>, \<open>/\<close>, \<open>parent(s)\<close>, \<open>name\<close> and
  \<open>relative_to\<close>.  A path is its root (empty, \<open>/\<close> or \<open>//\<close>) and its components, from
  which empty and \<open>.\<close> components have been dropped, as \<open>pathlib\<close> does when it parses;
  \<open>..\<close> components stay.
\<close>

section \<open>Splitting and joining\<close>

fun split_on :: "'a \<Rightarrow> 'a list \<Rightarrow> 'a list list" where
  "split_on sep [] = [[]]"
| "split_on sep (c # cs) =
     (if c = sep then [] # split_on sep cs
      else (case split_on sep cs of [] \<Rightarrow> [[c]] | w # ws \<Rightarrow> (c # w) # ws))"

lemma split_on_nonempty [simp]: "split_on sep s \<noteq> []"
  by (induction s) (auto split: list.splits)

lemma split_on_no_sep: "w \<in> set (split_on sep s) \<Longrightarrow> sep \<notin> set w"
  by (induction s arbitrary: w) (auto split: list.splits if_splits)

lemma split_on_word: "sep \<notin> set w \<Longrightarrow> split_on sep w = [w]"
  by (induction w) auto

lemma split_on_append: "sep \<notin> set w \<Longrightarrow> split_on sep (w @ sep # s) = w # split_on sep s"
  by (induction w) auto

lemma split_on_intercalate:
  "ws \<noteq> [] \<Longrightarrow> (\<And>w. w \<in> set ws \<Longrightarrow> sep \<notin> set w) \<Longrightarrow> split_on sep (intercalate [sep] ws) = ws"
proof (induction "[sep]" ws rule: intercalate.induct)
  case 1
  then show ?case by simp
next
  case (2 x)
  then show ?case by (simp add: split_on_word)
next
  case (3 x y ys)
  then show ?case by (simp add: split_on_append)
qed

lemma intercalate_Cons:
  "intercalate sep (x # xs) = (if xs = [] then x else x @ sep @ intercalate sep xs)"
  by (cases xs) auto

section \<open>Paths\<close>

record ppath =
  p_root :: string
  p_comps :: "string list"

definition parse_root :: "string \<Rightarrow> string" where
  "parse_root s =
     (if take 2 s = ''//'' \<and> take 3 s \<noteq> ''///'' then ''//''
      else if take 1 s = ''/'' then ''/'' else [])"

definition parse_path :: "string \<Rightarrow> ppath" where
  "parse_path s =
     \<lparr>p_root = parse_root s,
      p_comps = filter (\<lambda>w. w \<noteq> [] \<and> w \<noteq> ''.'') (split_on CHR ''/'' s)\<rparr>"

definition path_str :: "ppath \<Rightarrow> string" where
  "path_str p =
     (if p_root p = [] \<and> p_comps p = [] then ''.''
      else p_root p @ intercalate ''/'' (p_comps p))"

definition is_absolute :: "ppath \<Rightarrow> bool" where
  "is_absolute p = (p_root p \<noteq> [])"

definition path_parts :: "ppath \<Rightarrow> string list" where
  "path_parts p = (if p_root p = [] then p_comps p else p_root p # p_comps p)"

definition path_join :: "ppath \<Rightarrow> ppath \<Rightarrow> ppath" where
  "path_join p q = (if p_root q \<noteq> [] then q else p\<lparr>p_comps := p_comps p @ p_comps q\<rparr>)"

definition path_child :: "ppath \<Rightarrow> string \<Rightarrow> ppath" where
  "path_child p s = path_join p (parse_path s)"

definition path_parent :: "ppath \<Rightarrow> ppath" where
  "path_parent p = p\<lparr>p_comps := butlast (p_comps p)\<rparr>"

fun proper_prefixes_desc :: "'a list \<Rightarrow> 'a list list" where
  "proper_prefixes_desc xs = (if xs = [] then [] else butlast xs # proper_prefixes_desc (butlast xs))"

declare proper_prefixes_desc.simps [simp del]

definition path_parents :: "ppath \<Rightarrow> ppath list" where
  "path_parents p = map (\<lambda>cs. p\<lparr>p_comps := cs\<rparr>) (proper_prefixes_desc (p_comps p))"

definition path_name :: "ppath \<Rightarrow> string" where
  "path_name p = (if p_comps p = [] then [] else last (p_comps p))"

definition relative_to :: "ppath \<Rightarrow> ppath \<Rightarrow> ppath option" where
  "relative_to p base =
     (if p_root p = p_root base \<and> prefix (p_comps base) (p_comps p)
      then Some \<lparr>p_root = [], p_comps = drop (length (p_comps base)) (p_comps p)\<rparr>
      else None)"

definition is_relative_to :: "ppath \<Rightarrow> ppath \<Rightarrow> bool" where
  "is_relative_to p base = (relative_to p base \<noteq> None)"

section \<open>Well-formed paths and their laws\<close>

definition wf_comp :: "string \<Rightarrow> bool" where
  "wf_comp w = (w \<noteq> [] \<and> w \<noteq> ''.'' \<and> CHR ''/'' \<notin> set w)"

definition wf_path :: "ppath \<Rightarrow> bool" where
  "wf_path p = (p_root p \<in> {[], ''/'', ''//''} \<and> list_all wf_comp (p_comps p))"

lemma wf_parse_path: "wf_path (parse_path s)"
  by (auto simp: wf_path_def parse_path_def parse_root_def wf_comp_def list_all_iff
      dest: split_on_no_sep)

lemma intercalate_head:
  "ws \<noteq> [] \<Longrightarrow> hd ws \<noteq> [] \<Longrightarrow> \<exists>s. intercalate sep ws = hd (hd ws) # s"
  by (cases ws; cases "hd ws") (auto simp: intercalate_Cons)

lemma parse_root_path_str:
  assumes "wf_path p" "p_root p \<noteq> [] \<or> p_comps p \<noteq> []"
  shows "parse_root (p_root p @ intercalate ''/'' (p_comps p)) = p_root p"
proof (cases "p_comps p = []")
  case True
  then show ?thesis using assms by (auto simp: wf_path_def parse_root_def)
next
  case False
  then have "wf_comp (hd (p_comps p))"
    using assms(1) by (cases "p_comps p") (auto simp: wf_path_def)
  then have h: "hd (p_comps p) \<noteq> []" and c: "hd (hd (p_comps p)) \<noteq> CHR ''/''"
    by (auto simp: wf_comp_def dest: hd_in_set)
  obtain s where "intercalate ''/'' (p_comps p) = hd (hd (p_comps p)) # s"
    using intercalate_head [OF False h] by blast
  then show ?thesis using assms(1) c by (auto simp: wf_path_def parse_root_def)
qed

lemma split_on_root:
  "p_root p \<in> {[], ''/'', ''//''} \<Longrightarrow>
   filter (\<lambda>w. w \<noteq> [] \<and> w \<noteq> ''.'') (split_on CHR ''/'' (p_root p @ s)) =
   filter (\<lambda>w. w \<noteq> [] \<and> w \<noteq> ''.'') (split_on CHR ''/'' s)"
  by auto

lemma filter_wf_comps:
  "list_all wf_comp ws \<Longrightarrow> filter (\<lambda>w. w \<noteq> [] \<and> w \<noteq> ''.'') ws = ws"
  by (auto simp: list_all_iff wf_comp_def intro: filter_True)

lemma parse_path_str: "wf_path p \<Longrightarrow> parse_path (path_str p) = p"
proof (cases "p_root p = [] \<and> p_comps p = []")
  case True
  then show ?thesis by (cases p) (simp add: path_str_def parse_path_def parse_root_def)
next
  case False
  assume wf: "wf_path p"
  have "filter (\<lambda>w. w \<noteq> [] \<and> w \<noteq> ''.'') (split_on CHR ''/'' (intercalate ''/'' (p_comps p))) = p_comps p"
  proof (cases "p_comps p = []")
    case True
    then show ?thesis by simp
  next
    case ne: False
    have "split_on CHR ''/'' (intercalate ''/'' (p_comps p)) = p_comps p"
      using wf ne by (intro split_on_intercalate) (auto simp: wf_path_def wf_comp_def list_all_iff)
    then show ?thesis using wf by (simp add: filter_wf_comps wf_path_def)
  qed
  then show ?thesis
    using wf False parse_root_path_str [of p]
    by (cases p) (auto simp: path_str_def parse_path_def split_on_root wf_path_def)
qed

lemma relative_to_Some:
  "relative_to p base = Some r \<Longrightarrow>
   p_root r = [] \<and> p_root p = p_root base \<and> p_comps p = p_comps base @ p_comps r"
  by (auto simp: relative_to_def prefix_def split: if_splits)

lemma path_join_relative_to: "relative_to p base = Some r \<Longrightarrow> path_join base r = p"
  by (cases p) (auto dest!: relative_to_Some simp: path_join_def)

lemma relative_to_join:
  "p_root r = [] \<Longrightarrow> relative_to (path_join base r) base = Some r"
  by (cases r) (auto simp: relative_to_def path_join_def)

lemma is_relative_to_iff:
  "is_relative_to p base \<longleftrightarrow> p_root p = p_root base \<and> prefix (p_comps base) (p_comps p)"
  by (simp add: is_relative_to_def relative_to_def)

lemma is_relative_to_refl [simp]: "is_relative_to p p"
  by (simp add: is_relative_to_iff)

lemma is_relative_to_trans:
  "is_relative_to a b \<Longrightarrow> is_relative_to b c \<Longrightarrow> is_relative_to a c"
  by (auto simp: is_relative_to_iff)

lemma wf_relative_to: "relative_to p base = Some r \<Longrightarrow> wf_path p \<Longrightarrow> wf_path r"
  by (auto dest!: relative_to_Some simp: wf_path_def)

lemma set_proper_prefixes_desc: "set (proper_prefixes_desc xs) = {ys. strict_prefix ys xs}"
proof (induction xs rule: proper_prefixes_desc.induct)
  case (1 xs)
  show ?case
  proof (cases "xs = []")
    case True
    then show ?thesis by (simp add: proper_prefixes_desc.simps)
  next
    case False
    then obtain as a where xs: "xs = as @ [a]" by (metis append_butlast_last_id)
    have "set (proper_prefixes_desc xs) = insert as {ys. strict_prefix ys as}"
      using 1 [OF False] xs by (simp add: proper_prefixes_desc.simps [of "as @ [a]"])
    then show ?thesis by (auto simp: xs strict_prefix_def)
  qed
qed

lemma path_parents_iff:
  "q \<in> set (path_parents p) \<longleftrightarrow> is_relative_to p q \<and> q \<noteq> p"
  by (cases p; cases q)
     (auto simp: path_parents_def set_proper_prefixes_desc is_relative_to_iff strict_prefix_def)

end
