(* ===== verification/Job_Model.thy ===== *)
theory Job_Model
  imports Posix_Path
begin

text \<open>
  The data of \<open>src/src/scs/indexing/jobs.py\<close>: modes and statuses of an ingestion job, its
  row, the payload of a request, the validation of force-full manifests, and the merge of
  a queued request with a new one.  Timestamps are seconds (\<open>nat\<close>): the code writes them
  as fixed-width ISO-8601 strings with whole seconds, whose string order is the order of
  the instants.
\<close>

section \<open>Rows\<close>

datatype job_mode = Files | Full | ForceFull | Cleanup | DropIndex

datatype job_status =
  Queued | Running | Retrying | Cancelling | Completed | Failed | Cancelled

definition status_name :: "job_status \<Rightarrow> string" where
  "status_name s =
     (case s of Queued \<Rightarrow> ''queued'' | Running \<Rightarrow> ''running'' | Retrying \<Rightarrow> ''retrying''
      | Cancelling \<Rightarrow> ''cancelling'' | Completed \<Rightarrow> ''completed'' | Failed \<Rightarrow> ''failed''
      | Cancelled \<Rightarrow> ''cancelled'')"

definition active_queue_statuses :: "job_status list" where
  "active_queue_statuses = [Queued, Retrying]"

definition active_job_statuses :: "job_status list" where
  "active_job_statuses = active_queue_statuses @ [Running, Cancelling]"

record job =
  j_id :: string
  j_repo :: string
  j_store :: "string option"
  j_gen :: "string option"
  j_mode :: job_mode
  j_reason :: string
  j_payload :: dict
  j_status :: job_status
  j_phase :: string
  j_current :: int
  j_total :: int
  j_message :: string
  j_attempts :: int
  j_max_attempts :: int
  j_lease_owner :: "string option"
  j_lease_expires :: "nat option"
  j_error :: "string option"
  j_result :: "dict option"
  j_created :: nat
  j_updated :: nat
  j_finished :: "nat option"

fun queued_st :: "job_status \<Rightarrow> bool" where
  "queued_st Queued = True" | "queued_st Retrying = True" | "queued_st Running = False"
| "queued_st Cancelling = False" | "queued_st Completed = False" | "queued_st Failed = False"
| "queued_st Cancelled = False"

fun running_st :: "job_status \<Rightarrow> bool" where
  "running_st Queued = False" | "running_st Retrying = False" | "running_st Running = True"
| "running_st Cancelling = True" | "running_st Completed = False" | "running_st Failed = False"
| "running_st Cancelled = False"

abbreviation queued_status :: "job \<Rightarrow> bool" where
  "queued_status r \<equiv> queued_st (j_status r)"

abbreviation running_status :: "job \<Rightarrow> bool" where
  "running_status r \<equiv> running_st (j_status r)"

abbreviation active_status :: "job \<Rightarrow> bool" where
  "active_status r \<equiv> queued_status r \<or> running_status r"

lemma not_queued_and_running: "\<not> (queued_st s \<and> running_st s)"
  by (cases s) simp_all

lemma active_queue_statuses_iff [simp]: "s \<in> set active_queue_statuses \<longleftrightarrow> queued_st s"
  by (cases s) (simp_all add: active_queue_statuses_def)

lemma active_job_statuses_iff [simp]: "s \<in> set active_job_statuses \<longleftrightarrow> queued_st s \<or> running_st s"
  by (cases s) (simp_all add: active_job_statuses_def active_queue_statuses_def)

lemma running_st_iff: "running_st s \<longleftrightarrow> s = Running \<or> s = Cancelling"
  by (cases s) simp_all

lemma status_name_inj [simp]: "status_name s = status_name t \<longleftrightarrow> s = t"
  by (cases s; cases t) (simp_all add: status_name_def)

section \<open>Payloads\<close>

text \<open>\<open>_normalize_payload\<close>: a files request carries two sorted, duplicate-free path lists.\<close>

definition sorted_path_strings :: "json \<Rightarrow> exc + string list" where
  "sorted_path_strings v =
     (case py_iter v of Inl e \<Rightarrow> Inl e | Inr xs \<Rightarrow> Inr (sorted_set (map py_str xs)))"

definition json_strings :: "string list \<Rightarrow> json" where
  "json_strings xs = JList (map JStr xs)"

definition normalize_payload :: "job_mode \<Rightarrow> dict option \<Rightarrow> exc + dict" where
  "normalize_payload mode payload =
     (let normalized = (case payload of None \<Rightarrow> [] | Some d \<Rightarrow> d) in
      if mode = Files then
        (case sorted_path_strings (dict_get normalized ''file_paths'' (JList [])) of
           Inl e \<Rightarrow> Inl e
         | Inr fs \<Rightarrow>
             (let n1 = dict_set normalized ''file_paths'' (json_strings fs) in
              case sorted_path_strings (dict_get n1 ''deleted_paths'' (JList [])) of
                Inl e \<Rightarrow> Inl e
              | Inr ds \<Rightarrow> Inr (dict_set n1 ''deleted_paths'' (json_strings ds))))
      else Inr normalized)"

section \<open>Force-full manifests\<close>

record snapshot_file =
  sf_path :: string
  sf_hash :: string
  sf_language :: string
  sf_size :: int
  sf_ack :: bool

definition json_int :: "json \<Rightarrow> int option" where
  "json_int v = (case v of JInt i \<Rightarrow> Some i | JBool b \<Rightarrow> Some (if b then 1 else 0) | _ \<Rightarrow> None)"

definition json_str :: "json \<Rightarrow> string option" where
  "json_str v = (case v of JStr s \<Rightarrow> Some s | _ \<Rightarrow> None)"

definition py_truthy :: "json \<Rightarrow> bool" where
  "py_truthy v =
     (case v of JNull \<Rightarrow> False | JBool b \<Rightarrow> b | JInt i \<Rightarrow> i \<noteq> 0 | JStr s \<Rightarrow> s \<noteq> []
      | JList xs \<Rightarrow> xs \<noteq> [] | JObj kvs \<Rightarrow> kvs \<noteq> [])"

text \<open>\<open>Path(rel_path)\<close> is absolute or has a \<open>..\<close> component.\<close>

definition unsafe_rel_path :: "string \<Rightarrow> bool" where
  "unsafe_rel_path s =
     (is_absolute (parse_path s) \<or> ''..'' \<in> set (path_parts (parse_path s)))"

definition check_snapshot_file :: "dict \<Rightarrow> snapshot_file option" where
  "check_snapshot_file file =
     (case (json_str (dict_get file ''rel_path'' JNull), json_str (dict_get file ''content_hash'' JNull),
            json_str (dict_get file ''language'' JNull), json_int (dict_get file ''byte_size'' JNull)) of
        (Some rel, Some h, Some lang, Some sz) \<Rightarrow>
          (if rel = [] \<or> unsafe_rel_path rel \<or> h = [] \<or> sz < 0 then None
           else Some \<lparr>sf_path = rel, sf_hash = h, sf_language = lang, sf_size = sz,
                      sf_ack = py_truthy (dict_get file ''acknowledged'' (JBool False))\<rparr>)
      | _ \<Rightarrow> None)"

fun check_snapshot_files :: "string list \<Rightarrow> dict list \<Rightarrow> exc + snapshot_file list" where
  "check_snapshot_files seen [] = Inr []"
| "check_snapshot_files seen (file # files) =
     (case check_snapshot_file file of
        None \<Rightarrow> Inl (ValueError ''Invalid force-full snapshot file'')
      | Some sf \<Rightarrow>
          if sf_path sf \<in> set seen
          then Inl (ValueError (''Duplicate force-full snapshot path: '' @ sf_path sf))
          else (case check_snapshot_files (sf_path sf # seen) files of
                  Inl e \<Rightarrow> Inl e
                | Inr rest \<Rightarrow> Inr (sf # rest)))"

definition normalize_force_snapshot_files :: "dict list \<Rightarrow> exc + snapshot_file list" where
  "normalize_force_snapshot_files files =
     (case check_snapshot_files [] files of
        Inl e \<Rightarrow> Inl e
      | Inr sfs \<Rightarrow> Inr (sort_key sf_path sfs))"

definition snapshot_file_dict :: "snapshot_file \<Rightarrow> dict" where
  "snapshot_file_dict sf =
     [(''rel_path'', JStr (sf_path sf)), (''content_hash'', JStr (sf_hash sf)),
      (''language'', JStr (sf_language sf)), (''byte_size'', JInt (sf_size sf)),
      (''acknowledged'', JBool (sf_ack sf))]"

record force_snapshot =
  fs_store :: json
  fs_gen :: json
  fs_files :: "snapshot_file list"

definition opt_str :: "string option \<Rightarrow> json" where
  "opt_str s = (case s of None \<Rightarrow> JNull | Some t \<Rightarrow> JStr t)"

definition snapshot_json :: "force_snapshot \<Rightarrow> json" where
  "snapshot_json snap =
     JObj [(''store_id'', fs_store snap), (''store_generation'', fs_gen snap),
           (''files'', JList (map (\<lambda>f. JObj (snapshot_file_dict f)) (fs_files snap)))]"

fun json_dicts :: "json list \<Rightarrow> dict list option" where
  "json_dicts [] = Some []"
| "json_dicts (JObj d # vs) = map_option ((#) d) (json_dicts vs)"
| "json_dicts (_ # vs) = None"

text \<open>\<open>_force_snapshot\<close>: the validated manifest stored in a payload.\<close>

definition read_force_snapshot :: "dict \<Rightarrow> exc + force_snapshot" where
  "read_force_snapshot payload =
     (case dict_get payload ''force_full_snapshot'' JNull of
        JObj snapshot \<Rightarrow>
          (case dict_get snapshot ''files'' JNull of
             JList files \<Rightarrow>
               (case json_dicts files of
                  None \<Rightarrow> Inl (ValueError ''Force-full snapshot files are invalid'')
                | Some ds \<Rightarrow>
                    (case normalize_force_snapshot_files ds of
                       Inl e \<Rightarrow> Inl e
                     | Inr sfs \<Rightarrow>
                         Inr \<lparr>fs_store = dict_get snapshot ''store_id'' JNull,
                              fs_gen = dict_get snapshot ''store_generation'' JNull,
                              fs_files = sfs\<rparr>))
           | _ \<Rightarrow> Inl (ValueError ''Force-full snapshot files are invalid''))
      | _ \<Rightarrow> Inl (ValueError ''Force-full job has no durable snapshot''))"

section \<open>Merging requests\<close>

definition mode_rank :: "job_mode \<Rightarrow> nat" where
  "mode_rank m =
     (case m of Cleanup \<Rightarrow> 0 | Files \<Rightarrow> 1 | Full \<Rightarrow> 2 | ForceFull \<Rightarrow> 3 | DropIndex \<Rightarrow> 4)"

text \<open>
  The iteration of \<open>_merge_payload\<close> over a stored path list.  Stored lists hold strings
  only, because every request is normalised; the code raises for the other element types
  that JSON could hold except for lists of plain numbers, which never get there.
\<close>

fun strings_of :: "json list \<Rightarrow> exc + string list" where
  "strings_of [] = Inr []"
| "strings_of (JStr s # vs) = (case strings_of vs of Inl e \<Rightarrow> Inl e | Inr ss \<Rightarrow> Inr (s # ss))"
| "strings_of (_ # vs) = Inl (TypeError ''unhashable type'')"

definition stored_paths :: "dict \<Rightarrow> string \<Rightarrow> exc + string list" where
  "stored_paths d k =
     (case py_iter (dict_get d k (JList [])) of Inl e \<Rightarrow> Inl e | Inr vs \<Rightarrow> strings_of vs)"

definition only_snapshot :: "dict \<Rightarrow> dict" where
  "only_snapshot d = filter (\<lambda>kv. fst kv = ''force_full_snapshot'') d"

definition merge_payload ::
  "job_mode \<Rightarrow> dict \<Rightarrow> job_mode \<Rightarrow> dict \<Rightarrow> exc + job_mode \<times> dict" where
  "merge_payload existing_mode existing_payload new_mode new_payload =
     (if existing_mode = DropIndex \<or> new_mode = DropIndex then Inr (DropIndex, [])
      else
        let winner = (if mode_rank new_mode > mode_rank existing_mode then new_mode
                      else existing_mode) in
        if winner = Full \<or> winner = Cleanup then Inr (winner, [])
        else if winner = ForceFull then
          (if new_mode = ForceFull then Inr (winner, only_snapshot new_payload)
           else if existing_mode = ForceFull then Inr (winner, only_snapshot existing_payload)
           else Inr (winner, []))
        else
          (case (stored_paths existing_payload ''file_paths'', stored_paths new_payload ''file_paths'',
                 stored_paths existing_payload ''deleted_paths'', stored_paths new_payload ''deleted_paths'') of
             (Inr f1, Inr f2, Inr d1, Inr d2) \<Rightarrow>
               Inr (Files, [(''file_paths'', json_strings (sorted_set (f1 @ f2))),
                            (''deleted_paths'', json_strings (sorted_set (d1 @ d2)))])
           | (Inl e, _, _, _) \<Rightarrow> Inl e
           | (_, Inl e, _, _) \<Rightarrow> Inl e
           | (_, _, Inl e, _) \<Rightarrow> Inl e
           | (_, _, _, Inl e) \<Rightarrow> Inl e))"

end
