(* ===== verification/Job_Store.thy ===== *)
theory Job_Store
  imports Job_Merge
begin

text \<open>
  The operations of \<open>IngestionJobStore\<close> (\<open>src/src/scs/indexing/jobs.py\<close>).  The table
  \<open>ingestion_jobs\<close> is the list of its rows in rowid order.  Every operation runs in one
  SQLite transaction, so an operation is a function from the table to either an exception
  (the transaction is rolled back, the table is unchanged) or the new table and the
  returned value.  The clock and the random part of a fresh job id are arguments.  The
  two uniqueness constraints of the schema are checked by \<open>execute_statement\<close> after each statement
  that can violate them.
\<close>

type_synonym jobs = "job list"

section \<open>The table and its constraints\<close>

definition unique_queued :: "jobs \<Rightarrow> bool" where
  "unique_queued rows = distinct (map j_repo (filter queued_status rows))"

definition schema_ok :: "jobs \<Rightarrow> bool" where
  "schema_ok rows = (distinct (map j_id rows) \<and> unique_queued rows)"

definition execute_statement :: "jobs \<Rightarrow> exc + jobs" where
  "execute_statement rows =
     (if schema_ok rows then Inr rows
      else Inl (IntegrityError ''UNIQUE constraint failed: ingestion_jobs''))"

definition find_job :: "string \<Rightarrow> jobs \<Rightarrow> job option" where
  "find_job i rows = find (\<lambda>r. j_id r = i) rows"

definition update_id :: "string \<Rightarrow> (job \<Rightarrow> job) \<Rightarrow> jobs \<Rightarrow> jobs" where
  "update_id i f rows = update_where (\<lambda>r. j_id r = i) f rows"

definition get_locked :: "string \<Rightarrow> jobs \<Rightarrow> exc + jobs \<times> job" where
  "get_locked i rows =
     (case find_job i rows of None \<Rightarrow> Inl (KeyError i) | Some r \<Rightarrow> Inr (rows, r))"

text \<open>\<open>COALESCE(store_id, repo_path)\<close>.\<close>

definition store_key :: "job \<Rightarrow> string" where
  "store_key r = (case j_store r of None \<Rightarrow> j_repo r | Some s \<Rightarrow> s)"

section \<open>Requests\<close>

record request =
  q_repo :: string
  q_store :: "string option"
  q_gen :: "string option"
  q_mode :: job_mode
  q_reason :: string
  q_payload :: "dict option"
  q_max :: int

definition new_job :: "nat \<Rightarrow> string \<Rightarrow> request \<Rightarrow> dict \<Rightarrow> job" where
  "new_job now i q payload =
     \<lparr>j_id = i, j_repo = q_repo q, j_store = q_store q, j_gen = q_gen q, j_mode = q_mode q,
      j_reason = q_reason q, j_payload = payload, j_status = Queued, j_phase = ''queued'',
      j_current = 0, j_total = 0, j_message = '''', j_attempts = 0, j_max_attempts = q_max q,
      j_lease_owner = None, j_lease_expires = None, j_error = None, j_result = None,
      j_created = now, j_updated = now, j_finished = None\<rparr>"

definition deletion_row :: "string \<Rightarrow> jobs \<Rightarrow> job option" where
  "deletion_row repo rows =
     select_first j_created (\<lambda>r. j_repo r = repo \<and> j_mode r = DropIndex \<and> active_status r) rows"

definition queued_row :: "string \<Rightarrow> jobs \<Rightarrow> job option" where
  "queued_row repo rows = select_first j_created (\<lambda>r. j_repo r = repo \<and> queued_status r) rows"

definition coalesce_into :: "nat \<Rightarrow> request \<Rightarrow> job_mode \<Rightarrow> dict \<Rightarrow> job \<Rightarrow> job" where
  "coalesce_into now q m p r =
     r\<lparr>j_mode := m, j_reason := (if q_reason q \<noteq> [] then q_reason q else j_reason r),
       j_payload := p, j_updated := now, j_status := Queued, j_error := None\<rparr>"

definition enqueue :: "nat \<Rightarrow> string \<Rightarrow> request \<Rightarrow> jobs \<Rightarrow> exc + jobs \<times> job" where
  "enqueue now fresh q rows =
     and_then (normalize_payload (q_mode q) (q_payload q)) (\<lambda>payload.
       case deletion_row (q_repo q) rows of
         Some d \<Rightarrow>
           if q_mode q = DropIndex then Inr (rows, d)
           else Inl (ValueError ''repository deletion is in progress'')
       | None \<Rightarrow>
           (case queued_row (q_repo q) rows of
              Some r \<Rightarrow>
                and_then (merge_payload (j_mode r) (j_payload r) (q_mode q) payload) (\<lambda>(m, p).
                  and_then (execute_statement (update_id (j_id r) (coalesce_into now q m p) rows))
                    (get_locked (j_id r)))
            | None \<Rightarrow>
                and_then (execute_statement (rows @ [new_job now fresh q payload])) (get_locked fresh)))"

section \<open>Claiming and leases\<close>

definition claimable :: "jobs \<Rightarrow> job \<Rightarrow> bool" where
  "claimable rows r =
     (queued_status r \<and> \<not> (\<exists>s\<in>set rows. store_key s = store_key r \<and> running_status s))"

text \<open>\<open>CASE mode WHEN 'cleanup' THEN 1 ELSE 0 END, created_at\<close>.\<close>

definition claim_key :: "job \<Rightarrow> nat \<times> nat" where
  "claim_key r = (if j_mode r = Cleanup then 1 else 0, j_created r)"

definition start_job :: "nat \<Rightarrow> string \<Rightarrow> nat \<Rightarrow> job \<Rightarrow> job" where
  "start_job now owner lease r =
     r\<lparr>j_status := Running, j_phase := ''running'', j_lease_owner := Some owner,
       j_lease_expires := Some (now + lease), j_updated := now\<rparr>"

definition claim_next :: "nat \<Rightarrow> string \<Rightarrow> nat \<Rightarrow> jobs \<Rightarrow> exc + jobs \<times> job option" where
  "claim_next now owner lease rows =
     (case select_first claim_key (claimable rows) rows of
        None \<Rightarrow> Inr (rows, None)
      | Some r \<Rightarrow>
          and_then (get_locked (j_id r) (update_id (j_id r) (start_job now owner lease) rows))
            (\<lambda>(rows', j). Inr (rows', Some j)))"

definition heartbeat :: "nat \<Rightarrow> string \<Rightarrow> string \<Rightarrow> nat \<Rightarrow> jobs \<Rightarrow> jobs" where
  "heartbeat now i owner lease rows =
     update_where (\<lambda>r. j_id r = i \<and> running_status r)
       (\<lambda>r. r\<lparr>j_lease_owner := Some owner, j_lease_expires := Some (now + lease), j_updated := now\<rparr>)
       rows"

definition update_progress ::
  "nat \<Rightarrow> string \<Rightarrow> string \<Rightarrow> int \<Rightarrow> int \<Rightarrow> string \<Rightarrow> jobs \<Rightarrow> jobs" where
  "update_progress now i phase cur tot message rows =
     update_where (\<lambda>r. j_id r = i \<and> running_status r)
       (\<lambda>r. r\<lparr>j_phase := phase, j_current := max 0 cur, j_total := max 0 tot,
              j_message := message, j_updated := now\<rparr>)
       rows"

section \<open>Force-full snapshots\<close>

definition install_force_full_snapshot ::
  "nat \<Rightarrow> string \<Rightarrow> dict list \<Rightarrow> jobs \<Rightarrow> exc + jobs \<times> job" where
  "install_force_full_snapshot now i files rows =
     and_then (normalize_force_snapshot_files files) (\<lambda>sfs.
       case find_job i rows of
         None \<Rightarrow> Inl (KeyError i)
       | Some r \<Rightarrow>
           if j_mode r \<noteq> ForceFull then Inl (ValueError (''Job '' @ i @ '' is not force_full''))
           else if dict_has (j_payload r) ''force_full_snapshot'' then get_locked i rows
           else
             (let snap = \<lparr>fs_store = opt_str (j_store r), fs_gen = opt_str (j_gen r), fs_files = sfs\<rparr>;
                  p = dict_set (j_payload r) ''force_full_snapshot'' (snapshot_json snap)
              in get_locked i (update_id i (\<lambda>r. r\<lparr>j_payload := p, j_updated := now\<rparr>) rows)))"

definition ack_files :: "string list \<Rightarrow> snapshot_file list \<Rightarrow> snapshot_file list" where
  "ack_files paths fs = map (\<lambda>f. if sf_path f \<in> set paths then f\<lparr>sf_ack := True\<rparr> else f) fs"

definition acknowledge_force_full_snapshot_files ::
  "nat \<Rightarrow> string \<Rightarrow> string list \<Rightarrow> jobs \<Rightarrow> exc + jobs \<times> job" where
  "acknowledge_force_full_snapshot_files now i rel_paths rows =
     (let expected = sorted_set rel_paths in
      if expected = [] then get_locked i rows
      else
        (case find_job i rows of
           None \<Rightarrow> Inl (KeyError i)
         | Some r \<Rightarrow>
             and_then (read_force_snapshot (j_payload r)) (\<lambda>snap.
               let known = map sf_path (fs_files snap);
                   unknown = sorted_set (filter (\<lambda>p. p \<notin> set known) expected) in
               if unknown \<noteq> []
               then Inl (ValueError (''Force snapshot does not contain paths: '' @ repr_string_list unknown))
               else if \<not> running_status r
               then Inl (RuntimeError (''Force snapshot job '' @ i @ '' is no longer active''))
               else
                 (let p = dict_set (j_payload r) ''force_full_snapshot''
                            (snapshot_json (snap\<lparr>fs_files := ack_files expected (fs_files snap)\<rparr>))
                  in get_locked i (update_id i (\<lambda>r. r\<lparr>j_payload := p, j_updated := now\<rparr>) rows)))))"

section \<open>Finishing a job\<close>

definition finish_job :: "nat \<Rightarrow> job_status \<Rightarrow> dict \<Rightarrow> job \<Rightarrow> job" where
  "finish_job now status result r =
     r\<lparr>j_status := status, j_phase := status_name status, j_current := j_total r,
       j_message := '''', j_lease_owner := None, j_lease_expires := None, j_error := None,
       j_result := Some result, j_updated := now, j_finished := Some now\<rparr>"

definition complete :: "nat \<Rightarrow> string \<Rightarrow> dict \<Rightarrow> jobs \<Rightarrow> exc + jobs \<times> job" where
  "complete now i result rows =
     (case find_job i rows of
        None \<Rightarrow> Inl (KeyError i)
      | Some r \<Rightarrow>
          (let status = (if j_status r = Cancelling then Cancelled else Completed)
           in get_locked i (update_id i (finish_job now status result) rows)))"

definition absorb_into :: "nat \<Rightarrow> job_mode \<Rightarrow> dict \<Rightarrow> job \<Rightarrow> job" where
  "absorb_into now m p r = r\<lparr>j_mode := m, j_payload := p, j_updated := now\<rparr>"

definition merged_away :: "nat \<Rightarrow> int \<Rightarrow> string \<Rightarrow> job \<Rightarrow> job" where
  "merged_away now attempts error r =
     r\<lparr>j_status := Cancelled, j_phase := ''cancelled'', j_attempts := attempts,
       j_lease_owner := None, j_lease_expires := None, j_error := Some error,
       j_updated := now, j_finished := Some now\<rparr>"

definition fail_row :: "nat \<Rightarrow> job_status \<Rightarrow> int \<Rightarrow> string \<Rightarrow> job \<Rightarrow> job" where
  "fail_row now status attempts error r =
     r\<lparr>j_status := status, j_phase := status_name status, j_attempts := attempts,
       j_message := '''', j_lease_owner := None, j_lease_expires := None, j_error := Some error,
       j_updated := now, j_finished := (if status = Failed then Some now else None)\<rparr>"

definition fail_or_retry :: "nat \<Rightarrow> string \<Rightarrow> string \<Rightarrow> jobs \<Rightarrow> exc + jobs \<times> job" where
  "fail_or_retry now i error rows =
     (case find_job i rows of
        None \<Rightarrow> Inl (KeyError i)
      | Some r \<Rightarrow>
          (let attempts = j_attempts r + 1;
               status = (if attempts \<ge> j_max_attempts r then Failed else Queued);
               queued = (if status = Queued
                         then select_first j_created
                                (\<lambda>s. j_repo s = j_repo r \<and> queued_status s \<and> j_id s \<noteq> i) rows
                         else None)
           in case queued of
                Some q \<Rightarrow>
                  and_then (merge_payload (j_mode q) (j_payload q) (j_mode r) (j_payload r)) (\<lambda>(m, p).
                    get_locked (j_id q)
                      (update_id i (merged_away now attempts (error @ ''; merged into queued follow-up job''))
                        (update_id (j_id q) (absorb_into now m p) rows)))
              | None \<Rightarrow>
                  and_then (execute_statement (update_id i (fail_row now status attempts error) rows))
                    (get_locked i)))"

section \<open>Cancelling\<close>

definition cancel_queued :: "nat \<Rightarrow> job \<Rightarrow> job" where
  "cancel_queued now r =
     r\<lparr>j_status := Cancelled, j_phase := ''cancelled'', j_updated := now, j_finished := Some now\<rparr>"

definition cancel_running :: "nat \<Rightarrow> job \<Rightarrow> job" where
  "cancel_running now r = r\<lparr>j_status := Cancelling, j_phase := ''cancelling'', j_updated := now\<rparr>"

definition release_cancelled :: "nat \<Rightarrow> job \<Rightarrow> job" where
  "release_cancelled now r =
     r\<lparr>j_status := Cancelled, j_phase := ''cancelled'', j_lease_owner := None,
       j_lease_expires := None, j_updated := now, j_finished := Some now\<rparr>"

definition request_cancel :: "nat \<Rightarrow> string \<Rightarrow> jobs \<Rightarrow> exc + jobs \<times> job" where
  "request_cancel now i rows =
     (case find_job i rows of
        None \<Rightarrow> Inl (KeyError i)
      | Some r \<Rightarrow>
          get_locked i
            (if j_status r \<in> set active_queue_statuses then update_id i (cancel_queued now) rows
             else if j_status r = Running then update_id i (cancel_running now) rows
             else rows))"

fun get_all_locked :: "string list \<Rightarrow> jobs \<Rightarrow> exc + job list" where
  "get_all_locked [] rows = Inr []"
| "get_all_locked (i # is) rows =
     and_then (get_locked i rows) (\<lambda>(_, j). and_then (get_all_locked is rows) (\<lambda>js. Inr (j # js)))"

definition request_cancel_all :: "nat \<Rightarrow> jobs \<Rightarrow> exc + jobs \<times> job list" where
  "request_cancel_all now rows =
     (let picked = order_by (\<lambda>r. (j_created r, j_id r))
                     (filter (\<lambda>r. active_status r \<and> j_mode r \<noteq> DropIndex) rows);
          rows1 = update_where (\<lambda>r. queued_status r \<and> j_mode r \<noteq> DropIndex) (release_cancelled now) rows;
          rows2 = update_where (\<lambda>r. j_status r = Running \<and> j_mode r \<noteq> DropIndex) (cancel_running now) rows1
      in and_then (get_all_locked (map j_id picked) rows2) (\<lambda>js. Inr (rows2, js)))"

definition mark_cancelled :: "nat \<Rightarrow> string \<Rightarrow> jobs \<Rightarrow> exc + jobs \<times> job" where
  "mark_cancelled now i rows = get_locked i (update_id i (release_cancelled now) rows)"

definition get_job :: "string \<Rightarrow> jobs \<Rightarrow> job option" where
  "get_job i rows = find_job i rows"

definition cancellation_requested :: "string \<Rightarrow> jobs \<Rightarrow> bool" where
  "cancellation_requested i rows =
     (case get_job i rows of None \<Rightarrow> False | Some r \<Rightarrow> j_status r = Cancelling)"

definition active_deletion :: "string \<Rightarrow> jobs \<Rightarrow> job option" where
  "active_deletion repo rows =
     select_first j_created
       (\<lambda>r. j_repo r = repo \<and> j_mode r = DropIndex \<and> j_status r \<in> set active_job_statuses) rows"

section \<open>Reclaiming stale leases\<close>

text \<open>
  \<open>other_owner\<close> is the argument \<open>lease_owner\<close> when \<open>reclaim_other_owners\<close> is set and the
  owner is not empty, the only combination in which the owner clause is added.
\<close>

definition owner_mismatch :: "string option \<Rightarrow> job \<Rightarrow> bool" where
  "owner_mismatch other_owner r =
     (case other_owner of None \<Rightarrow> False | Some owner \<Rightarrow> j_lease_owner r \<noteq> Some owner)"

definition stale :: "nat \<Rightarrow> string option \<Rightarrow> job \<Rightarrow> bool" where
  "stale now other_owner r =
     (running_status r \<and>
      (case j_lease_expires r of
         None \<Rightarrow> False
       | Some t \<Rightarrow> t < now \<or> owner_mismatch other_owner r))"

definition reclaim_row :: "nat \<Rightarrow> job_status \<Rightarrow> int \<Rightarrow> string \<Rightarrow> job \<Rightarrow> job" where
  "reclaim_row now status attempts error r =
     r\<lparr>j_status := status, j_phase := status_name status, j_attempts := attempts,
       j_lease_owner := None, j_lease_expires := None, j_error := Some error,
       j_updated := now, j_finished := (if status = Failed then Some now else None)\<rparr>"

definition reclaim_one :: "nat \<Rightarrow> string option \<Rightarrow> job \<Rightarrow> jobs \<Rightarrow> exc + jobs \<times> job" where
  "reclaim_one now other_owner r rows =
     (case queued_row (j_repo r) rows of
        Some q \<Rightarrow>
          and_then (merge_payload (j_mode q) (j_payload q) (j_mode r) (j_payload r)) (\<lambda>(m, p).
            get_locked (j_id q)
              (update_id (j_id r) (\<lambda>s. merged_away now (j_attempts s) ''Reclaimed into queued follow-up job'' s)
                (update_id (j_id q) (absorb_into now m p) rows)))
      | None \<Rightarrow>
          (let mismatch = owner_mismatch other_owner r;
               attempts = (if mismatch then j_attempts r else j_attempts r + 1);
               status = (if attempts \<ge> j_max_attempts r then Failed else Queued);
               error = (if mismatch then ''Reclaimed from previous worker process''
                        else ''Lease expired while job was running'')
           in and_then (execute_statement (update_id (j_id r) (reclaim_row now status attempts error) rows))
                (get_locked (j_id r))))"

fun reclaim_each :: "nat \<Rightarrow> string option \<Rightarrow> job list \<Rightarrow> jobs \<Rightarrow> exc + jobs \<times> job list" where
  "reclaim_each now other_owner [] rows = Inr (rows, [])"
| "reclaim_each now other_owner (r # rs) rows =
     and_then (reclaim_one now other_owner r rows) (\<lambda>(rows', j).
       and_then (reclaim_each now other_owner rs rows') (\<lambda>(rows'', js). Inr (rows'', j # js)))"

definition reclaim_stale_running :: "nat \<Rightarrow> string option \<Rightarrow> jobs \<Rightarrow> exc + jobs \<times> job list" where
  "reclaim_stale_running now other_owner rows =
     reclaim_each now other_owner (order_by j_created (filter (stale now other_owner) rows)) rows"

section \<open>Reading the queue\<close>

definition newest_first :: "job \<Rightarrow> int \<times> int" where
  "newest_first r = (- int (j_updated r), - int (j_created r))"

definition list_recent :: "string option \<Rightarrow> job_status option \<Rightarrow> int \<Rightarrow> jobs \<Rightarrow> job list" where
  "list_recent repo status limit rows =
     take (nat (max 1 (min limit 200)))
       (order_by newest_first
         (filter (\<lambda>r. (case repo of None \<Rightarrow> True | Some p \<Rightarrow> p = [] \<or> j_repo r = p)
                    \<and> (case status of None \<Rightarrow> True | Some s \<Rightarrow> j_status r = s)) rows))"

text \<open>The last sort key of \<open>repository_job_state\<close> is \<open>rowid DESC\<close>: the stable sort runs over
  the reversed table.\<close>

definition repository_job_state :: "string \<Rightarrow> jobs \<Rightarrow> job option \<times> job option" where
  "repository_job_state repo rows =
     (select_first newest_first
        (\<lambda>r. j_repo r = repo \<and> j_status r \<in> set active_job_statuses) (rev rows),
      select_first newest_first (\<lambda>r. j_repo r = repo) (rev rows))"

definition has_active :: "jobs \<Rightarrow> bool" where
  "has_active rows = list_ex (\<lambda>r. j_status r \<in> set active_job_statuses) rows"

end
