(* ===== verification/Job_Invariants.thy ===== *)
theory Job_Invariants
  imports Job_Store
begin

text \<open>
  The invariant of the job table and its preservation by every operation.  The invariant
  is a condition on each row (\<open>row_ok\<close>) and one on each pair of different rows
  (\<open>compatible\<close>); operations change one row at a time, so preservation reduces to the new
  row and its pairs (lemma \<open>inv_update\<close>).
\<close>

section \<open>The invariant\<close>

definition row_ok :: "job \<Rightarrow> bool" where
  "row_ok r =
     (payload_ok (j_mode r) (j_payload r) \<and> 0 \<le> j_attempts r
      \<and> (active_status r \<longrightarrow> j_attempts r < j_max_attempts r)
      \<and> (running_status r \<longleftrightarrow> j_lease_owner r \<noteq> None)
      \<and> (running_status r \<longleftrightarrow> j_lease_expires r \<noteq> None)
      \<and> (active_status r \<longleftrightarrow> j_finished r = None))"

text \<open>
  Two different rows: not both queued for one repository, not both running on one store,
  not both deletions of one repository, and no queued index work for the repository and
  store an active deletion owns.
\<close>

definition excludes :: "job \<Rightarrow> job \<Rightarrow> bool" where
  "excludes r s =
     ((queued_status r \<and> queued_status s \<and> j_repo r = j_repo s)
      \<or> (running_status r \<and> running_status s \<and> store_key r = store_key s)
      \<or> (active_status r \<and> active_status s \<and> j_repo r = j_repo s
          \<and> j_mode r = DropIndex \<and> j_mode s = DropIndex)
      \<or> (active_status r \<and> j_mode r = DropIndex \<and> queued_status s
          \<and> j_repo r = j_repo s \<and> store_key r = store_key s))"

definition compatible :: "job \<Rightarrow> job \<Rightarrow> bool" where
  "compatible r s = (\<not> excludes r s \<and> \<not> excludes s r)"

definition job_inv :: "jobs \<Rightarrow> bool" where
  "job_inv rows =
     (distinct (map j_id rows) \<and> (\<forall>r\<in>set rows. row_ok r)
      \<and> (\<forall>r\<in>set rows. \<forall>s\<in>set rows. j_id r \<noteq> j_id s \<longrightarrow> compatible r s))"

lemma job_inv_Nil [simp]: "job_inv []"
  by (simp add: job_inv_def)

lemma job_invD:
  assumes "job_inv rows"
  shows "distinct (map j_id rows)" "r \<in> set rows \<Longrightarrow> row_ok r"
    "r \<in> set rows \<Longrightarrow> s \<in> set rows \<Longrightarrow> j_id r \<noteq> j_id s \<Longrightarrow> compatible r s"
  using assms by (simp_all add: job_inv_def)

lemma compatible_sym: "compatible r s \<longleftrightarrow> compatible s r"
  by (auto simp: compatible_def)

lemma compatible_terminal: "\<not> active_status r \<Longrightarrow> compatible r s"
  unfolding compatible_def excludes_def by blast

text \<open>A queued row has to avoid queued rows of its repository, and running deletions of its
  repository if it is a deletion or shares their store.\<close>

lemma compatible_queuedI:
  assumes "queued_status r" "j_repo s = j_repo r \<Longrightarrow> \<not> queued_status s"
    "j_repo s = j_repo r \<Longrightarrow> running_status s \<Longrightarrow> j_mode s = DropIndex \<Longrightarrow>
       j_mode r \<noteq> DropIndex \<and> store_key s \<noteq> store_key r"
  shows "compatible r s"
  using assms not_queued_and_running unfolding compatible_def excludes_def by metis

lemma compatible_runningI:
  assumes "running_status r" "store_key s = store_key r \<Longrightarrow> \<not> running_status s"
    "j_mode r = DropIndex \<Longrightarrow> j_repo s = j_repo r \<Longrightarrow> active_status s \<Longrightarrow> j_mode s \<noteq> DropIndex"
    "j_mode r = DropIndex \<Longrightarrow> j_repo s = j_repo r \<Longrightarrow> store_key s = store_key r \<Longrightarrow> \<not> queued_status s"
  shows "compatible r s"
  using assms not_queued_and_running unfolding compatible_def excludes_def by metis

lemma compatibleD:
  assumes "compatible r s" "j_repo s = j_repo r"
  shows "queued_status r \<Longrightarrow> \<not> queued_status s"
    "active_status r \<Longrightarrow> active_status s \<Longrightarrow> j_mode r = DropIndex \<Longrightarrow> j_mode s \<noteq> DropIndex"
    "active_status r \<Longrightarrow> j_mode r = DropIndex \<Longrightarrow> store_key s = store_key r \<Longrightarrow> \<not> queued_status s"
    "queued_status r \<Longrightarrow> active_status s \<Longrightarrow> store_key s = store_key r \<Longrightarrow> j_mode s \<noteq> DropIndex"
  using assms unfolding compatible_def excludes_def by metis+

lemma compatible_running: "compatible r s \<Longrightarrow> running_status r \<Longrightarrow> running_status s \<Longrightarrow> store_key r \<noteq> store_key s"
  unfolding compatible_def excludes_def by metis

section \<open>Rows by id\<close>

lemma find_job_Some:
  "find_job i rows = Some r \<Longrightarrow> r \<in> set rows \<and> j_id r = i"
  by (auto simp: find_job_def find_Some_iff)

lemma find_job_eq:
  "distinct (map j_id rows) \<Longrightarrow> r \<in> set rows \<Longrightarrow> find_job (j_id r) rows = Some r"
  unfolding find_job_def by (rule find_unique) (auto simp: distinct_map inj_on_def)

lemma find_job_eqI:
  "distinct (map j_id rows) \<Longrightarrow> r \<in> set rows \<Longrightarrow> j_id r = i \<Longrightarrow> find_job i rows = Some r"
  using find_job_eq by blast

lemma map_id_update_id [simp]:
  "(\<And>r. j_id (f r) = j_id r) \<Longrightarrow> map j_id (update_id i f rows) = map j_id rows"
  by (simp add: update_id_def map_update_where)

lemma set_update_id: "set (update_id i f rows) = {if j_id r = i then f r else r | r. r \<in> set rows}"
  by (simp add: update_id_def set_update_where)

lemma find_job_update_id:
  "(\<And>r. j_id (f r) = j_id r) \<Longrightarrow>
   find_job k (update_id i f rows) = map_option (\<lambda>r. if k = i then f r else r) (find_job k rows)"
  unfolding find_job_def update_id_def
  by (subst find_update_where) (auto simp: find_Some_iff intro!: option.map_cong)

lemma get_locked_update_id:
  "(\<And>r. j_id (f r) = j_id r) \<Longrightarrow> find_job i rows = Some r \<Longrightarrow>
   get_locked i (update_id i f rows) = Inr (update_id i f rows, f r)"
  by (simp add: get_locked_def find_job_update_id)

lemma distinct_ids_inj:
  "distinct (map j_id rows) \<Longrightarrow> r \<in> set rows \<Longrightarrow> s \<in> set rows \<Longrightarrow> j_id r = j_id s \<Longrightarrow> r = s"
  by (auto simp: distinct_map inj_on_def)

lemma set_update_row:
  assumes "distinct (map j_id rows)" "r \<in> set rows"
  shows "set (update_id (j_id r) f rows) = insert (f r) (set rows - {r})"
proof -
  have same: "s = r" if "s \<in> set rows" "j_id s = j_id r" for s
    using distinct_ids_inj [OF assms(1) that(1) assms(2) that(2)] .
  show ?thesis
    unfolding update_id_def by (rule set_update_where_unique) (use assms(2) same in auto)
qed

section \<open>One-row updates\<close>

lemma inv_update:
  assumes inv: "job_inv rows" and r: "find_job i rows = Some r"
    and id: "\<And>x. j_id (f x) = j_id x" and ok: "row_ok (f r)"
    and compat: "\<And>s. s \<in> set rows \<Longrightarrow> j_id s \<noteq> i \<Longrightarrow> compatible (f r) s"
  shows "job_inv (update_id i f rows)"
proof -
  note dist = job_invD(1) [OF inv]
  from find_job_Some [OF r] have mem: "r \<in> set rows" and ri: "j_id r = i" by auto
  have row: "x \<in> set (update_id i f rows) \<longleftrightarrow> x = f r \<or> (x \<in> set rows \<and> j_id x \<noteq> i)" for x
    using mem ri by (auto simp: set_update_id dest: distinct_ids_inj [OF dist mem])
  have "row_ok x" if "x \<in> set (update_id i f rows)" for x
    using that ok job_invD(2) [OF inv] by (auto simp: row)
  moreover have "compatible x y"
    if "x \<in> set (update_id i f rows)" "y \<in> set (update_id i f rows)" "j_id x \<noteq> j_id y" for x y
    using that compat job_invD(3) [OF inv] id ri compatible_sym unfolding row by metis
  ultimately show ?thesis
    using dist id by (simp add: job_inv_def)
qed

lemma inv_update_terminal:
  assumes "job_inv rows" "find_job i rows = Some r" "\<And>x. j_id (f x) = j_id x"
    "row_ok (f r)" "\<not> active_status (f r)"
  shows "job_inv (update_id i f rows)"
  using assms by (intro inv_update) (auto intro: compatible_terminal)

text \<open>A change that claims no more than the row already does.\<close>

definition claims_no_more :: "job \<Rightarrow> job \<Rightarrow> bool" where
  "claims_no_more r' r =
     (j_repo r' = j_repo r \<and> store_key r' = store_key r
      \<and> (queued_status r' \<longrightarrow> queued_status r) \<and> (running_status r' \<longrightarrow> running_status r)
      \<and> (active_status r' \<and> j_mode r' = DropIndex \<longrightarrow> j_mode r = DropIndex))"

lemma store_key_eq: "j_store r' = j_store r \<Longrightarrow> j_repo r' = j_repo r \<Longrightarrow> store_key r' = store_key r"
  by (simp add: store_key_def split: option.split)

lemma claims_no_moreI:
  assumes "j_repo r' = j_repo r" "j_store r' = j_store r"
    and "queued_status r' \<Longrightarrow> queued_status r" "running_status r' \<Longrightarrow> running_status r"
    and "active_status r' \<Longrightarrow> j_mode r' = DropIndex \<Longrightarrow> j_mode r = DropIndex"
  shows "claims_no_more r' r"
  using assms store_key_eq unfolding claims_no_more_def by metis

lemma compatible_less: "claims_no_more r' r \<Longrightarrow> compatible r s \<Longrightarrow> compatible r' s"
  unfolding claims_no_more_def compatible_def excludes_def by (elim conjE) metis

lemma inv_update_less:
  assumes inv: "job_inv rows" and r: "find_job i rows = Some r"
    and "\<And>x. j_id (f x) = j_id x" "row_ok (f r)" "claims_no_more (f r) r"
  shows "job_inv (update_id i f rows)"
proof (rule inv_update [OF inv r assms(3,4)])
  fix s assume "s \<in> set rows" "j_id s \<noteq> i"
  then have "compatible r s" using job_invD(3) [OF inv] find_job_Some [OF r] by auto
  then show "compatible (f r) s" using assms(5) by (rule compatible_less [rotated])
qed

lemma inv_imp_schema: "job_inv rows \<Longrightarrow> schema_ok rows"
proof -
  assume inv: "job_inv rows"
  have "inj_on j_repo (set (filter queued_status rows))"
  proof (rule inj_onI)
    fix r s assume *: "r \<in> set (filter queued_status rows)" "s \<in> set (filter queued_status rows)"
      "j_repo r = j_repo s"
    then have "\<not> compatible r s" by (simp add: compatible_def excludes_def)
    then show "r = s"
      using * job_invD(3) [OF inv] distinct_ids_inj [OF job_invD(1) [OF inv]] by auto
  qed
  moreover have "distinct rows" using job_invD(1) [OF inv] by (simp add: distinct_map)
  ultimately show ?thesis
    using job_invD(1) [OF inv] by (simp add: schema_ok_def unique_queued_def distinct_map)
qed

lemma execute_statement_inv [simp]: "job_inv rows \<Longrightarrow> execute_statement rows = Inr rows"
  by (simp add: execute_statement_def inv_imp_schema)

lemma get_locked_fst: "get_locked i rows = Inr (rows', j) \<Longrightarrow> rows' = rows \<and> find_job i rows = Some j"
  by (auto simp: get_locked_def split: option.splits)

section \<open>Changes of many rows\<close>

lemma claims_no_more_refl [simp]: "claims_no_more r r"
  by (simp add: claims_no_more_def)

lemma compatible_less2:
  "claims_no_more r' r \<Longrightarrow> claims_no_more s' s \<Longrightarrow> compatible r s \<Longrightarrow> compatible r' s'"
  by (metis compatible_less compatible_sym)

lemma inv_update_where:
  assumes inv: "job_inv rows" and id: "\<And>r. j_id (f r) = j_id r"
    and ok: "\<And>r. r \<in> set rows \<Longrightarrow> P r \<Longrightarrow> row_ok r \<Longrightarrow> row_ok (f r)"
    and less: "\<And>r. r \<in> set rows \<Longrightarrow> P r \<Longrightarrow> claims_no_more (f r) r"
  shows "job_inv (update_where P f rows)"
proof -
  define g where "g r = (if P r then f r else r)" for r
  have rows': "update_where P f rows = map g rows"
    by (simp add: update_where_def g_def [abs_def])
  have g: "j_id (g r) = j_id r" "r \<in> set rows \<Longrightarrow> row_ok (g r)"
    "r \<in> set rows \<Longrightarrow> claims_no_more (g r) r" for r
    using id ok less job_invD(2) [OF inv] by (auto simp: g_def)
  have "j_id \<circ> g = j_id" by (auto simp: g)
  then have "distinct (map j_id (map g rows))"
    using job_invD(1) [OF inv] by simp
  moreover have "compatible x y" if "x \<in> set (map g rows)" "y \<in> set (map g rows)" "j_id x \<noteq> j_id y" for x y
  proof -
    obtain r s where "r \<in> set rows" "s \<in> set rows" "x = g r" "y = g s" "j_id r \<noteq> j_id s"
      using \<open>x \<in> set (map g rows)\<close> \<open>y \<in> set (map g rows)\<close> \<open>j_id x \<noteq> j_id y\<close> by (auto simp: g(1))
    then show ?thesis
      using compatible_less2 [OF g(3) g(3)] job_invD(3) [OF inv] by simp
  qed
  ultimately show ?thesis unfolding rows' job_inv_def using g(2) by auto
qed

lemma inv_update_id:
  assumes "job_inv rows" "find_job i rows = Some r" "\<And>r. j_id (f r) = j_id r"
    "row_ok r \<Longrightarrow> row_ok (f r)" "claims_no_more (f r) r"
  shows "job_inv (update_id i f rows)"
  using assms job_invD(2) [OF assms(1)] find_job_Some [OF assms(2)] by (intro inv_update_less) auto

lemma inv_append:
  assumes inv: "job_inv rows" and "j_id r \<notin> j_id ` set rows" "row_ok r"
    and "\<And>s. s \<in> set rows \<Longrightarrow> compatible r s"
  shows "job_inv (rows @ [r])"
  using assms compatible_sym by (auto simp: job_inv_def)

lemma update_id_commute:
  assumes "i \<noteq> k" "\<And>r. j_id (f r) = j_id r" "\<And>r. j_id (g r) = j_id r"
  shows "update_id i f (update_id k g rows) = update_id k g (update_id i f rows)"
  using assms by (auto simp: update_id_def update_where_def)

section \<open>Row changes of the operations\<close>

lemmas row_changes = coalesce_into_def start_job_def finish_job_def absorb_into_def merged_away_def
  fail_row_def cancel_queued_def cancel_running_def release_cancelled_def reclaim_row_def

lemma row_changes_id [simp]:
  "j_id (coalesce_into now q m p r) = j_id r" "j_id (start_job now owner lease r) = j_id r"
  "j_id (finish_job now st res r) = j_id r" "j_id (absorb_into now m p r) = j_id r"
  "j_id (merged_away now a e r) = j_id r" "j_id (fail_row now st a e r) = j_id r"
  "j_id (cancel_queued now r) = j_id r" "j_id (cancel_running now r) = j_id r"
  "j_id (release_cancelled now r) = j_id r" "j_id (reclaim_row now st a e r) = j_id r"
  by (simp_all add: row_changes)

lemma find_found:
  assumes "job_inv rows" "r \<in> set rows"
  shows "find_job (j_id r) rows = Some r"
  using assms by (auto intro: find_job_eq job_invD(1))

lemma queued_row_Some:
  "queued_row repo rows = Some q \<Longrightarrow> q \<in> set rows \<and> j_repo q = repo \<and> queued_status q"
  unfolding queued_row_def by (auto dest: select_first_Some)

lemma queued_row_None:
  "queued_row repo rows = None \<longleftrightarrow> (\<forall>r\<in>set rows. j_repo r = repo \<longrightarrow> \<not> queued_status r)"
  by (auto simp: queued_row_def select_first_None)

lemma deletion_row_Some:
  "deletion_row repo rows = Some d \<Longrightarrow>
   d \<in> set rows \<and> j_repo d = repo \<and> j_mode d = DropIndex \<and> active_status d"
  unfolding deletion_row_def by (auto dest: select_first_Some)

lemma deletion_row_None:
  "deletion_row repo rows = None \<longleftrightarrow>
   (\<forall>r\<in>set rows. j_repo r = repo \<and> j_mode r = DropIndex \<longrightarrow> \<not> active_status r)"
  by (auto simp: deletion_row_def select_first_None)

lemma queued_row_eqI:
  assumes inv: "job_inv rows" and q: "q \<in> set rows" "queued_status q" "j_repo q = repo"
  shows "queued_row repo rows = Some q"
proof -
  obtain q' where q': "queued_row repo rows = Some q'"
    using queued_row_None [of repo rows] q by (cases "queued_row repo rows") auto
  have "\<not> compatible q q'" using queued_row_Some [OF q'] q by (simp add: compatible_def excludes_def)
  then have "q' = q"
    using job_invD(3) [OF inv] distinct_ids_inj [OF job_invD(1) [OF inv]] queued_row_Some [OF q'] q(1)
    by blast
  with q' show ?thesis by simp
qed

section \<open>Enqueue\<close>

definition request_ok :: "request \<Rightarrow> bool" where
  "request_ok q =
     (0 < q_max q \<and> (q_mode q = Cleanup \<longrightarrow> readable_paths (case q_payload q of None \<Rightarrow> [] | Some d \<Rightarrow> d)))"

lemma normalized_payload_ok:
  "request_ok q \<Longrightarrow> normalize_payload (q_mode q) (q_payload q) = Inr p \<Longrightarrow> payload_ok (q_mode q) p"
  by (cases "q_mode q")
     (auto simp: request_ok_def payload_ok_def normalize_payload_other dest: normalize_payload_Files)

lemma enqueue_new_inv:
  assumes inv: "job_inv rows" and fresh: "fresh \<notin> j_id ` set rows" and q: "request_ok q"
    and p: "payload_ok (q_mode q) p"
    and "deletion_row (q_repo q) rows = None" "queued_row (q_repo q) rows = None"
  shows "job_inv (rows @ [new_job now fresh q p])"
proof (rule inv_append [OF inv])
  show "row_ok (new_job now fresh q p)"
    using p q by (simp add: row_ok_def new_job_def request_ok_def)
  fix s assume "s \<in> set rows"
  then show "compatible (new_job now fresh q p) s"
    using assms(5,6) unfolding deletion_row_None queued_row_None
    by (intro compatible_queuedI) (auto simp: new_job_def)
qed (use fresh in \<open>simp add: new_job_def\<close>)

lemma enqueue_coalesce_inv:
  assumes inv: "job_inv rows" and del: "deletion_row (q_repo q) rows = None"
    and r: "queued_row (q_repo q) rows = Some r" and p: "payload_ok m p"
  shows "job_inv (update_id (j_id r) (coalesce_into now q m p) rows)"
proof (rule inv_update [OF inv])
  from queued_row_Some [OF r] have r': "r \<in> set rows" "j_repo r = q_repo q" "queued_status r" by auto
  show "find_job (j_id r) rows = Some r" by (rule find_found [OF inv r'(1)])
  show "row_ok (coalesce_into now q m p r)"
    using job_invD(2) [OF inv r'(1)] r'(3) p not_queued_and_running
    by (auto simp: row_ok_def coalesce_into_def)
  fix s assume s: "s \<in> set rows" "j_id s \<noteq> j_id r"
  then have "compatible r s" using job_invD(3) [OF inv r'(1)] by auto
  moreover have "\<not> (active_status s \<and> j_mode s = DropIndex \<and> j_repo s = j_repo r)"
    using del s(1) r'(2) unfolding deletion_row_None by auto
  ultimately show "compatible (coalesce_into now q m p r) s"
    using r'(3) compatibleD(1) [of r s] by (intro compatible_queuedI) (auto simp: coalesce_into_def)
qed simp

lemma get_locked_updated:
  assumes "job_inv rows" "r \<in> set rows" "\<And>r. j_id (f r) = j_id r"
  shows "get_locked (j_id r) (update_id (j_id r) f rows) = Inr (update_id (j_id r) f rows, f r)"
  using assms by (intro get_locked_update_id find_found) auto

lemma enqueue_cases:
  assumes inv: "job_inv rows" and fresh: "fresh \<notin> j_id ` set rows" and ok: "request_ok q"
    and p: "normalize_payload (q_mode q) (q_payload q) = Inr p"
  obtains
    (owned) d where "deletion_row (q_repo q) rows = Some d" "q_mode q = DropIndex"
      "enqueue now fresh q rows = Inr (rows, d)"
  | (blocked) d where "deletion_row (q_repo q) rows = Some d" "q_mode q \<noteq> DropIndex"
      "enqueue now fresh q rows = Inl (ValueError ''repository deletion is in progress'')"
  | (merged) r m p' where "deletion_row (q_repo q) rows = None" "queued_row (q_repo q) rows = Some r"
      "merge_payload (j_mode r) (j_payload r) (q_mode q) p = Inr (m, p')" "payload_ok m p'"
      "job_inv (update_id (j_id r) (coalesce_into now q m p') rows)"
      "enqueue now fresh q rows =
         Inr (update_id (j_id r) (coalesce_into now q m p') rows, coalesce_into now q m p' r)"
  | (added) "deletion_row (q_repo q) rows = None" "queued_row (q_repo q) rows = None"
      "job_inv (rows @ [new_job now fresh q p])"
      "enqueue now fresh q rows = Inr (rows @ [new_job now fresh q p], new_job now fresh q p)"
proof (cases "deletion_row (q_repo q) rows")
  case (Some d)
  then show ?thesis using owned blocked p by (cases "q_mode q = DropIndex") (auto simp: enqueue_def)
next
  case del: None
  have pok: "payload_ok (q_mode q) p" by (rule normalized_payload_ok [OF ok p])
  show ?thesis
  proof (cases "queued_row (q_repo q) rows")
    case None
    let ?j = "new_job now fresh q p"
    have inv': "job_inv (rows @ [?j])" by (rule enqueue_new_inv [OF inv fresh ok pok del None])
    have "find_job (j_id ?j) (rows @ [?j]) = Some ?j" by (rule find_found [OF inv']) simp
    then have "get_locked fresh (rows @ [?j]) = Inr (rows @ [?j], ?j)"
      by (simp add: get_locked_def new_job_def)
    with added del None inv' p show ?thesis by (simp add: enqueue_def)
  next
    case (Some r)
    have r: "r \<in> set rows" "payload_ok (j_mode r) (j_payload r)"
      using queued_row_Some [OF Some] job_invD(2) [OF inv] by (auto simp: row_ok_def)
    obtain m p' where mp: "merge_payload (j_mode r) (j_payload r) (q_mode q) p = Inr (m, p')" "payload_ok m p'"
      using merge_total [OF r(2) pok] by blast
    have inv': "job_inv (update_id (j_id r) (coalesce_into now q m p') rows)"
      by (rule enqueue_coalesce_inv [OF inv del Some mp(2)])
    show ?thesis
      using merged [OF del Some mp inv'] del Some p mp inv' get_locked_updated [OF inv r(1)]
      by (simp add: enqueue_def)
  qed
qed

lemma enqueue_inv:
  assumes "job_inv rows" "fresh \<notin> j_id ` set rows" "request_ok q"
    and run: "enqueue now fresh q rows = Inr (rows', j)"
  shows "job_inv rows'"
proof -
  obtain p where p: "normalize_payload (q_mode q) (q_payload q) = Inr p"
    using run by (auto simp: enqueue_def and_then_Inr_iff)
  show ?thesis
    by (rule enqueue_cases [OF assms(1,2,3) p, of now]) (use assms run in auto)
qed

section \<open>Claim, heartbeat, progress, snapshots\<close>

lemma claim_next_cases:
  assumes inv: "job_inv rows"
  obtains
    (idle) "\<forall>r\<in>set rows. \<not> claimable rows r" "claim_next now owner lease rows = Inr (rows, None)"
  | (claimed) r where "r \<in> set rows" "claimable rows r"
      "\<forall>s\<in>set rows. claimable rows s \<longrightarrow> claim_key r \<le> claim_key s"
      "claim_next now owner lease rows =
         Inr (update_id (j_id r) (start_job now owner lease) rows, Some (start_job now owner lease r))"
proof (cases "select_first claim_key (claimable rows) rows")
  case None
  have "\<forall>r\<in>set rows. \<not> claimable rows r" using None by (simp add: select_first_None)
  moreover have "claim_next now owner lease rows = Inr (rows, None)" using None by (simp add: claim_next_def)
  ultimately show ?thesis by (rule idle)
next
  case (Some r)
  note r = select_first_Some [OF Some]
  show ?thesis
    using claimed [OF r(1,2)] r(3) Some get_locked_updated [OF inv r(1)] by (simp add: claim_next_def)
qed

lemma start_job_inv:
  assumes inv: "job_inv rows" and r: "r \<in> set rows" "claimable rows r"
  shows "job_inv (update_id (j_id r) (start_job now owner lease) rows)"
proof (rule inv_update [OF inv find_found [OF inv r(1)]])
  let ?r = "start_job now owner lease r"
  have rq: "queued_status r" using r(2) by (simp add: claimable_def)
  show "row_ok ?r"
    using job_invD(2) [OF inv r(1)] rq by (auto simp: row_ok_def start_job_def)
  have f: "running_status ?r" "\<not> queued_status ?r" "j_repo ?r = j_repo r" "store_key ?r = store_key r"
    "j_mode ?r = j_mode r"
    by (simp_all add: start_job_def) (rule store_key_eq; simp)
  fix s assume s: "s \<in> set rows" "j_id s \<noteq> j_id r"
  have c: "compatible r s" using job_invD(3) [OF inv r(1) s(1)] s(2) by auto
  have key: "store_key s = store_key r \<Longrightarrow> \<not> running_status s"
    using r(2) s(1) by (auto simp: claimable_def)
  show "compatible ?r s"
  proof (rule compatible_runningI)
    show "store_key s = store_key ?r \<Longrightarrow> \<not> running_status s" by (simp only: f(4) key not_False_eq_True)
    show "j_mode ?r = DropIndex \<Longrightarrow> j_repo s = j_repo ?r \<Longrightarrow> active_status s \<Longrightarrow> j_mode s \<noteq> DropIndex"
      using compatibleD(2) [OF c] rq unfolding f(3,5) by blast
    show "j_mode ?r = DropIndex \<Longrightarrow> j_repo s = j_repo ?r \<Longrightarrow> store_key s = store_key ?r \<Longrightarrow>
        \<not> queued_status s"
      using compatibleD(3) [OF c] rq unfolding f(3-5) by blast
  qed (rule f(1))
qed simp

lemma claim_next_inv:
  assumes "job_inv rows" "claim_next now owner lease rows = Inr (rows', j)"
  shows "job_inv rows'"
  by (rule claim_next_cases [OF assms(1), of now owner lease])
     (use assms start_job_inv in auto)

lemma heartbeat_inv: "job_inv rows \<Longrightarrow> job_inv (heartbeat now i owner lease rows)"
  unfolding heartbeat_def
  by (rule inv_update_where) (auto simp: row_ok_def intro!: claims_no_moreI)

lemma update_progress_inv: "job_inv rows \<Longrightarrow> job_inv (update_progress now i ph cur tot msg rows)"
  unfolding update_progress_def
  by (rule inv_update_where) (auto simp: row_ok_def intro!: claims_no_moreI)

lemma set_payload_inv:
  assumes inv: "job_inv rows" and r: "find_job i rows = Some r"
    and "payload_ok (j_mode r) (j_payload r) \<Longrightarrow> payload_ok (j_mode r) p"
  shows "job_inv (update_id i (\<lambda>r. r\<lparr>j_payload := p, j_updated := now\<rparr>) rows)"
  by (rule inv_update_id [OF inv r])
     (use assms(3) in \<open>auto simp: row_ok_def intro!: claims_no_moreI\<close>)

lemma payload_ok_set_snapshot:
  "payload_ok m d \<Longrightarrow> payload_ok m (dict_set d ''force_full_snapshot'' v)"
  by (simp add: payload_ok_def readable_paths_def stored_paths_def)

lemma install_snapshot_inv:
  assumes inv: "job_inv rows" and run: "install_force_full_snapshot now i files rows = Inr (rows', j)"
  shows "job_inv rows'"
proof -
  obtain r where r: "find_job i rows = Some r"
    using run by (auto simp: install_force_full_snapshot_def and_then_Inr_iff split: option.splits)
  then show ?thesis
    using run inv
    by (auto simp: install_force_full_snapshot_def and_then_Inr_iff Let_def split: if_splits
        dest!: get_locked_fst intro!: set_payload_inv payload_ok_set_snapshot)
qed

lemma acknowledge_inv:
  assumes inv: "job_inv rows"
    and run: "acknowledge_force_full_snapshot_files now i paths rows = Inr (rows', j)"
  shows "job_inv rows'"
proof (cases "paths = []")
  case True
  then show ?thesis using run inv
    by (auto simp: acknowledge_force_full_snapshot_files_def dest!: get_locked_fst)
next
  case False
  then obtain r where r: "find_job i rows = Some r"
    using run by (auto simp: acknowledge_force_full_snapshot_files_def Let_def split: option.splits)
  then show ?thesis
    using run inv False
    by (auto simp: acknowledge_force_full_snapshot_files_def and_then_Inr_iff Let_def split: if_splits
        dest!: get_locked_fst intro!: set_payload_inv payload_ok_set_snapshot)
qed

section \<open>Finishing, failing, cancelling\<close>

text \<open>A change of a row to a terminal status.\<close>

lemma inv_terminal:
  assumes "job_inv rows" "find_job i rows = Some r" "\<And>r. j_id (f r) = j_id r"
    and "j_repo (f r) = j_repo r" "j_store (f r) = j_store r" "\<not> active_status (f r)"
    and "j_mode (f r) = j_mode r" "j_payload (f r) = j_payload r" "j_attempts r \<le> j_attempts (f r)"
    and "j_lease_owner (f r) = None" "j_lease_expires (f r) = None" "j_finished (f r) \<noteq> None"
  shows "job_inv (update_id i f rows)"
  using assms by (intro inv_update_id) (auto simp: row_ok_def intro!: claims_no_moreI)

lemma complete_inv:
  assumes inv: "job_inv rows" and run: "complete now i res rows = Inr (rows', j)"
  shows "job_inv rows'"
proof -
  obtain r where r: "find_job i rows = Some r"
    using run by (auto simp: complete_def split: option.splits)
  then have rows': "rows' = update_id i (finish_job now (if j_status r = Cancelling then Cancelled else Completed) res) rows"
    using run by (auto simp: complete_def Let_def dest!: get_locked_fst)
  show ?thesis unfolding rows' by (rule inv_terminal [OF inv r]) (simp_all add: finish_job_def)
qed

lemma mark_cancelled_inv:
  assumes inv: "job_inv rows" and run: "mark_cancelled now i rows = Inr (rows', j)"
  shows "job_inv rows'"
proof -
  have g: "get_locked i (update_id i (release_cancelled now) rows) = Inr (rows', j)"
    using run by (simp add: mark_cancelled_def)
  then obtain r where r: "find_job i rows = Some r"
    by (auto simp: get_locked_def find_job_update_id split: option.splits)
  have rows': "rows' = update_id i (release_cancelled now) rows" using get_locked_fst [OF g] by simp
  show ?thesis unfolding rows' by (rule inv_terminal [OF inv r]) (simp_all add: release_cancelled_def)
qed

lemma request_cancel_inv:
  assumes inv: "job_inv rows" and run: "request_cancel now i rows = Inr (rows', j)"
  shows "job_inv rows'"
proof -
  obtain r where r: "find_job i rows = Some r"
    using run by (auto simp: request_cancel_def split: option.splits)
  have rows': "rows' = (if queued_status r then update_id i (cancel_queued now) rows
      else if j_status r = Running then update_id i (cancel_running now) rows else rows)"
    using run r by (auto simp: request_cancel_def dest!: get_locked_fst)
  have rok: "row_ok r" using job_invD(2) [OF inv] find_job_Some [OF r] by auto
  have "job_inv (update_id i (cancel_queued now) rows)" if q: "queued_status r"
    using rok q not_queued_and_running [of "j_status r"]
    by (intro inv_terminal [OF inv r]) (auto simp: cancel_queued_def row_ok_def)
  moreover have "job_inv (update_id i (cancel_running now) rows)" if "j_status r = Running"
    using rok that
    by (intro inv_update_id [OF inv r]) (auto simp: cancel_running_def row_ok_def intro!: claims_no_moreI)
  ultimately show ?thesis using inv by (simp add: rows')
qed

lemma release_all_inv:
  "job_inv rows \<Longrightarrow>
   job_inv (update_where (\<lambda>r. queued_status r \<and> j_mode r \<noteq> DropIndex) (release_cancelled now) rows)"
  by (rule inv_update_where) (auto simp: release_cancelled_def row_ok_def intro!: claims_no_moreI)

lemma cancel_all_running_inv:
  "job_inv rows \<Longrightarrow>
   job_inv (update_where (\<lambda>r. j_status r = Running \<and> j_mode r \<noteq> DropIndex) (cancel_running now) rows)"
  by (rule inv_update_where) (auto simp: cancel_running_def row_ok_def intro!: claims_no_moreI)

lemma request_cancel_all_inv:
  "job_inv rows \<Longrightarrow> request_cancel_all now rows = Inr (rows', js) \<Longrightarrow> job_inv rows'"
  by (auto simp: request_cancel_all_def Let_def and_then_Inr_iff intro!: release_all_inv cancel_all_running_inv)

text \<open>A running job that merges into the queued follow-up of its repository.\<close>

lemma absorb_inv:
  assumes inv: "job_inv rows" and r: "find_job i rows = Some r" "running_status r"
    and q: "q \<in> set rows" "queued_status q" "j_repo q = j_repo r"
    and mp: "merge_payload (j_mode q) (j_payload q) (j_mode r) (j_payload r) = Inr (m, p)"
    and f: "\<And>r. j_id (f r) = j_id r" "\<not> active_status (f r)" "row_ok (f r)"
  shows "job_inv (update_id i f (update_id (j_id q) (absorb_into now m p) rows))"
proof -
  have ri: "r \<in> set rows" "j_id r = i" using find_job_Some [OF r(1)] by auto
  have qr: "j_id q \<noteq> i"
    using distinct_ids_inj [OF job_invD(1) [OF inv] q(1) ri(1)] q(2) r(2) ri(2) not_queued_and_running by auto
  let ?rows1 = "update_id i f rows" and ?q = "absorb_into now m p q"
  have inv1: "job_inv ?rows1" by (rule inv_update_terminal [OF inv r(1) f(1,3,2)])
  have rok: "row_ok q" "payload_ok (j_mode q) (j_payload q)" "payload_ok (j_mode r) (j_payload r)"
    using job_invD(2) [OF inv] q(1) ri(1) by (auto simp: row_ok_def)
  obtain m' p' where "merge_payload (j_mode q) (j_payload q) (j_mode r) (j_payload r) = Inr (m', p')"
    "payload_ok m' p'" using merge_total [OF rok(2,3)] by blast
  then have pok: "payload_ok m p" using mp by simp
  have mode: "m = DropIndex \<Longrightarrow> j_mode q = DropIndex \<or> j_mode r = DropIndex"
    using merge_mode [OF mp] by (auto split: if_splits)
  have fq: "find_job (j_id q) ?rows1 = Some q"
    using find_found [OF inv q(1)] qr by (simp add: find_job_update_id f)
  have "job_inv (update_id (j_id q) (absorb_into now m p) ?rows1)"
  proof (rule inv_update [OF inv1 fq])
    show "row_ok ?q" using rok(1) pok by (auto simp: row_ok_def absorb_into_def)
    fix s assume s: "s \<in> set ?rows1" "j_id s \<noteq> j_id q"
    show "compatible ?q s"
    proof (cases "s \<in> set rows \<and> j_id s \<noteq> i")
      case False
      then have "s = f r"
        using s(1) distinct_ids_inj [OF job_invD(1) [OF inv] _ ri(1)] ri(2)
        by (auto simp: set_update_id split: if_splits)
      then show ?thesis using compatible_terminal [OF f(2)] compatible_sym by blast
    next
      case True
      have cq: "compatible q s" and cr: "compatible r s"
        using job_invD(3) [OF inv] q(1) ri s(2) True by auto
      have key: "store_key ?q = store_key q" by (rule store_key_eq) (simp_all add: absorb_into_def)
      have attrs: "j_mode ?q = m" "j_repo ?q = j_repo q" "j_status ?q = j_status q"
        by (simp_all add: absorb_into_def)
      show ?thesis
        using q(2,3) mode compatibleD(1) [OF cq] compatibleD(2,4) [OF cq] compatibleD(2) [OF cr] r(2)
        by (intro compatible_queuedI) (auto simp: key attrs)
    qed
  qed simp
  then show ?thesis using qr f(1) by (subst update_id_commute) auto
qed

text \<open>A running job that goes back to the queue of a repository without a follow-up.\<close>

lemma requeue_inv:
  assumes inv: "job_inv rows" and r: "find_job i rows = Some r" "running_status r"
    and none: "\<And>s. s \<in> set rows \<Longrightarrow> j_repo s = j_repo r \<Longrightarrow> j_id s \<noteq> i \<Longrightarrow> \<not> queued_status s"
    and f: "\<And>r. j_id (f r) = j_id r" "j_status (f r) = Queued" "j_repo (f r) = j_repo r"
      "j_store (f r) = j_store r" "j_mode (f r) = j_mode r" "row_ok (f r)"
  shows "job_inv (update_id i f rows)"
proof (rule inv_update [OF inv r(1) f(1,6)])
  fix s assume s: "s \<in> set rows" "j_id s \<noteq> i"
  have c: "compatible r s" using job_invD(3) [OF inv] find_job_Some [OF r(1)] s by auto
  have key: "store_key (f r) = store_key r" by (rule store_key_eq [OF f(4,3)])
  show "compatible (f r) s"
    using none [OF s(1) _ s(2)] compatibleD(2) [OF c] compatible_running [OF c r(2)] r(2) f(2,3,5)
    by (intro compatible_queuedI) (auto simp: key)
qed

lemma fail_or_retry_cases:
  assumes inv: "job_inv rows" and r: "find_job i rows = Some r" "running_status r"
  obtains
    (failed) "j_max_attempts r \<le> j_attempts r + 1"
      "fail_or_retry now i e rows =
         Inr (update_id i (fail_row now Failed (j_attempts r + 1) e) rows, fail_row now Failed (j_attempts r + 1) e r)"
      "job_inv (update_id i (fail_row now Failed (j_attempts r + 1) e) rows)"
  | (requeued) "j_attempts r + 1 < j_max_attempts r" "queued_row (j_repo r) rows = None"
      "fail_or_retry now i e rows =
         Inr (update_id i (fail_row now Queued (j_attempts r + 1) e) rows, fail_row now Queued (j_attempts r + 1) e r)"
      "job_inv (update_id i (fail_row now Queued (j_attempts r + 1) e) rows)"
  | (merged) q m p where "j_attempts r + 1 < j_max_attempts r" "queued_row (j_repo r) rows = Some q"
      "merge_payload (j_mode q) (j_payload q) (j_mode r) (j_payload r) = Inr (m, p)"
      "fail_or_retry now i e rows =
         Inr (update_id i (merged_away now (j_attempts r + 1) (e @ ''; merged into queued follow-up job''))
                (update_id (j_id q) (absorb_into now m p) rows), absorb_into now m p q)"
      "job_inv (update_id i (merged_away now (j_attempts r + 1) (e @ ''; merged into queued follow-up job''))
                (update_id (j_id q) (absorb_into now m p) rows))"
proof -
  have ri: "r \<in> set rows" "j_id r = i" using find_job_Some [OF r(1)] by auto
  have rok: "row_ok r" by (rule job_invD(2) [OF inv ri(1)])
  have other: "s \<in> set rows \<and> j_repo s = j_repo r \<and> queued_status s \<and> j_id s \<noteq> i
      \<longleftrightarrow> s \<in> set rows \<and> j_repo s = j_repo r \<and> queued_status s" for s
  proof -
    have "s = r" if "s \<in> set rows" "j_id s = i"
      using distinct_ids_inj [OF job_invD(1) [OF inv] that(1) ri(1)] that(2) ri(2) by simp
    then show ?thesis using r(2) not_queued_and_running by blast
  qed
  have sel: "select_first j_created (\<lambda>s. j_repo s = j_repo r \<and> queued_status s \<and> j_id s \<noteq> i) rows
      = queued_row (j_repo r) rows"
  proof -
    have "filter (\<lambda>s. j_repo s = j_repo r \<and> queued_status s \<and> j_id s \<noteq> i) rows
        = filter (\<lambda>s. j_repo s = j_repo r \<and> queued_status s) rows"
      using other by (intro filter_cong [OF refl]) blast
    then show ?thesis unfolding select_first_def queued_row_def by (simp only:)
  qed
  show ?thesis
  proof (cases "j_max_attempts r \<le> j_attempts r + 1")
    case True
    let ?f = "fail_row now Failed (j_attempts r + 1) e"
    have inv': "job_inv (update_id i ?f rows)"
      by (rule inv_terminal [OF inv r(1)]) (simp_all add: fail_row_def)
    show ?thesis
      using True inv' get_locked_updated [OF inv ri(1), of ?f] ri(2) r(1)
      by (intro failed) (simp_all add: fail_or_retry_def Let_def)
  next
    case False
    show ?thesis
    proof (cases "queued_row (j_repo r) rows")
      case None
      let ?f = "fail_row now Queued (j_attempts r + 1) e"
      have inv': "job_inv (update_id i ?f rows)"
        by (rule requeue_inv [OF inv r])
           (use None rok False queued_row_None in \<open>auto simp: fail_row_def row_ok_def\<close>)
      show ?thesis
        using False None inv' get_locked_updated [OF inv ri(1), of ?f] ri(2) r(1) sel
        by (intro requeued) (simp_all add: fail_or_retry_def Let_def)
    next
      case (Some q)
      note q = queued_row_Some [OF Some]
      have "payload_ok (j_mode q) (j_payload q)" "payload_ok (j_mode r) (j_payload r)"
        using job_invD(2) [OF inv] q ri(1) by (auto simp: row_ok_def)
      from merge_total [OF this] obtain m p
        where mp: "merge_payload (j_mode q) (j_payload q) (j_mode r) (j_payload r) = Inr (m, p)" by blast
      let ?f = "merged_away now (j_attempts r + 1) (e @ ''; merged into queued follow-up job'')"
      have inv': "job_inv (update_id i ?f (update_id (j_id q) (absorb_into now m p) rows))"
        by (rule absorb_inv [OF inv r]) (use q mp rok in \<open>auto simp: merged_away_def row_ok_def\<close>)
      have "j_id q \<noteq> i" using other [of q] q by blast
      then have "get_locked (j_id q) (update_id i ?f (update_id (j_id q) (absorb_into now m p) rows))
          = Inr (update_id i ?f (update_id (j_id q) (absorb_into now m p) rows), absorb_into now m p q)"
        using find_found [OF inv] q by (simp add: get_locked_def find_job_update_id)
      with False Some mp inv' r(1) sel show ?thesis
        by (intro merged) (simp_all add: fail_or_retry_def Let_def)
    qed
  qed
qed

lemma fail_or_retry_inv:
  assumes "job_inv rows" "find_job i rows = Some r" "running_status r"
    and "fail_or_retry now i e rows = Inr (rows', j)"
  shows "job_inv rows'"
  by (rule fail_or_retry_cases [OF assms(1-3), of now e]) (use assms(4) in auto)

section \<open>Reclaiming\<close>

definition running_rows :: "jobs \<Rightarrow> job set" where
  "running_rows rows = {r \<in> set rows. running_status r}"

lemma running_rows_update:
  assumes inv: "job_inv rows" and r: "r \<in> set rows" and "\<not> running_status (f r)"
  shows "running_rows (update_id (j_id r) f rows) = running_rows rows - {r}"
  unfolding running_rows_def set_update_row [OF job_invD(1) [OF inv] r] using assms(3) by auto

lemma running_rows_absorb:
  assumes inv: "job_inv rows" and q: "q \<in> set rows" "queued_status q"
  shows "running_rows (update_id (j_id q) (absorb_into now m p) rows) = running_rows rows"
proof -
  have "\<not> running_status (absorb_into now m p q)" "\<not> running_status q"
    using q(2) not_queued_and_running by (auto simp: absorb_into_def)
  then show ?thesis
    unfolding running_rows_def set_update_row [OF job_invD(1) [OF inv] q(1)] by auto
qed

lemma reclaim_one_ok:
  assumes inv: "job_inv rows" and r: "r \<in> running_rows rows"
  shows "\<exists>rows' j. reclaim_one now other r rows = Inr (rows', j) \<and> job_inv rows'
    \<and> running_rows rows' = running_rows rows - {r}"
proof -
  have mem: "r \<in> set rows" and run: "running_status r" using r by (auto simp: running_rows_def)
  have rok: "row_ok r" by (rule job_invD(2) [OF inv mem])
  note found = find_found [OF inv mem]
  show ?thesis
  proof (cases "queued_row (j_repo r) rows")
    case (Some q)
    note q = queued_row_Some [OF Some]
    have pok: "payload_ok (j_mode q) (j_payload q)" "payload_ok (j_mode r) (j_payload r)"
      using job_invD(2) [OF inv] q rok by (auto simp: row_ok_def)
    obtain m p where mp: "merge_payload (j_mode q) (j_payload q) (j_mode r) (j_payload r) = Inr (m, p)"
      using merge_total [OF pok] by blast
    let ?f = "\<lambda>s. merged_away now (j_attempts s) ''Reclaimed into queued follow-up job'' s"
    let ?g = "absorb_into now m p"
    let ?rows' = "update_id (j_id r) ?f (update_id (j_id q) ?g rows)"
    have qr: "j_id q \<noteq> j_id r"
      using distinct_ids_inj [OF job_invD(1) [OF inv] _ mem, of q] q run not_queued_and_running by blast
    have inv': "job_inv ?rows'"
      by (rule absorb_inv [OF inv found run]) (use q mp rok in \<open>auto simp: merged_away_def row_ok_def\<close>)
    have "running_rows (update_id (j_id r) ?f rows) = running_rows rows - {r}"
      by (rule running_rows_update [OF inv mem]) (simp_all add: merged_away_def)
    moreover have "?rows' = update_id (j_id q) ?g (update_id (j_id r) ?f rows)"
      using qr by (subst update_id_commute) auto
    moreover have inv1: "job_inv (update_id (j_id r) ?f rows)"
      using rok by (intro inv_terminal [OF inv found]) (auto simp: merged_away_def row_ok_def)
    moreover have "q \<in> set (update_id (j_id r) ?f rows)"
      using q qr by (auto simp: set_update_id)
    ultimately have "running_rows ?rows' = running_rows rows - {r}"
      using running_rows_absorb q by auto
    moreover have "get_locked (j_id q) ?rows' = Inr (?rows', ?g q)"
      using find_found [OF inv] q qr by (simp add: get_locked_def find_job_update_id)
    ultimately show ?thesis using Some mp inv' by (simp add: reclaim_one_def)
  next
    case None
    define a where "a = (if owner_mismatch other r then j_attempts r else j_attempts r + 1)"
    define st where "st = (if j_max_attempts r \<le> a then Failed else Queued)"
    define e where "e = (if owner_mismatch other r then ''Reclaimed from previous worker process''
      else ''Lease expired while job was running'')"
    let ?f = "reclaim_row now st a e"
    have ok: "row_ok (?f r)"
      using rok run by (auto simp: row_ok_def reclaim_row_def st_def a_def)
    have inv': "job_inv (update_id (j_id r) ?f rows)"
    proof (cases "st = Failed")
      case True
      then show ?thesis using ok by (intro inv_update_terminal [OF inv found]) (auto simp: reclaim_row_def)
    next
      case False
      then show ?thesis using ok None queued_row_None
        by (intro requeue_inv [OF inv found run]) (auto simp: reclaim_row_def st_def)
    qed
    have "running_rows (update_id (j_id r) ?f rows) = running_rows rows - {r}"
      by (rule running_rows_update [OF inv mem]) (auto simp: reclaim_row_def st_def)
    then show ?thesis
      using None inv' get_locked_updated [OF inv mem, of ?f]
      by (simp add: reclaim_one_def Let_def a_def [symmetric] st_def [symmetric] e_def [symmetric])
  qed
qed

lemma reclaim_each_ok:
  assumes "job_inv rows" "set rs \<subseteq> running_rows rows" "distinct rs"
  shows "\<exists>rows' js. reclaim_each now other rs rows = Inr (rows', js) \<and> job_inv rows'
    \<and> running_rows rows' = running_rows rows - set rs"
  using assms
proof (induction rs arbitrary: rows)
  case (Cons r rs)
  obtain rows1 j where 1: "reclaim_one now other r rows = Inr (rows1, j)" "job_inv rows1"
    "running_rows rows1 = running_rows rows - {r}"
    using reclaim_one_ok [OF Cons.prems(1)] Cons.prems(2) by (meson list.set_intros(1) subset_iff)
  have "set rs \<subseteq> running_rows rows1" using Cons.prems 1(3) by auto
  from Cons.IH [OF 1(2) this] obtain rows' js where
    "reclaim_each now other rs rows1 = Inr (rows', js)" "job_inv rows'"
    "running_rows rows' = running_rows rows1 - set rs"
    using Cons.prems(3) by auto
  with 1 show ?case by auto
qed simp

lemma reclaim_stale_ok:
  assumes inv: "job_inv rows"
  shows "\<exists>rows' js. reclaim_stale_running now other rows = Inr (rows', js) \<and> job_inv rows'
    \<and> running_rows rows' = {r \<in> running_rows rows. \<not> stale now other r}"
proof -
  let ?rs = "order_by j_created (filter (stale now other) rows)"
  have "set ?rs \<subseteq> running_rows rows" by (auto simp: running_rows_def stale_def)
  moreover have "distinct ?rs"
    using job_invD(1) [OF inv] by (simp add: order_by_def distinct_map)
  ultimately obtain rows' js where "reclaim_each now other ?rs rows = Inr (rows', js)" "job_inv rows'"
    "running_rows rows' = running_rows rows - set ?rs"
    using reclaim_each_ok [OF inv] by blast
  moreover have "running_rows rows - set ?rs = {r \<in> running_rows rows. \<not> stale now other r}"
    by (auto simp: running_rows_def)
  ultimately show ?thesis by (simp add: reclaim_stale_running_def)
qed

end
