(* ===== verification/Job_Service.thy ===== *)
theory Job_Service
  imports Job_Invariants
begin

text \<open>
  What the other tasks of the daemon do to the job table while the worker is busy: enqueue,
  cancel one job, cancel all, renew a lease, report progress.  The locale
  \<open>table_neighbour\<close> is the contract the worker relies on; the requests satisfy it.
\<close>

section \<open>Rows the worker owns\<close>

definition running_id :: "string \<Rightarrow> jobs \<Rightarrow> bool" where
  "running_id i rows = (\<exists>r\<in>set rows. j_id r = i \<and> running_status r)"

lemma running_idE:
  assumes "running_id i rows" "job_inv rows"
  obtains r where "find_job i rows = Some r" "running_status r"
  using assms find_found by (auto simp: running_id_def)

lemma running_id_update:
  assumes "running_id k rows" "\<And>r. j_id (f r) = j_id r"
    and "\<And>r. r \<in> set rows \<Longrightarrow> j_id r = i \<Longrightarrow> running_status r \<Longrightarrow> running_status (f r)"
  shows "running_id k (update_id i f rows)"
proof -
  obtain r where r: "r \<in> set rows" "j_id r = k" "running_status r"
    using assms(1) by (auto simp: running_id_def)
  let ?r = "if j_id r = i then f r else r"
  have "?r \<in> set (update_id i f rows)" using r(1) by (auto simp: set_update_id)
  moreover have "j_id ?r = k \<and> running_status ?r" using r assms(2,3) by auto
  ultimately show ?thesis unfolding running_id_def by blast
qed

lemma running_id_update_where:
  assumes "running_id k rows" "\<And>r. j_id (f r) = j_id r"
    and "\<And>r. r \<in> set rows \<Longrightarrow> P r \<Longrightarrow> running_status r \<Longrightarrow> running_status (f r)"
  shows "running_id k (update_where P f rows)"
proof -
  obtain r where r: "r \<in> set rows" "j_id r = k" "running_status r"
    using assms(1) by (auto simp: running_id_def)
  let ?r = "if P r then f r else r"
  have "?r \<in> set (update_where P f rows)" using r(1) by (auto simp: set_update_where)
  moreover have "j_id ?r = k \<and> running_status ?r" using r assms(2,3) by auto
  ultimately show ?thesis unfolding running_id_def by blast
qed

section \<open>The contract\<close>

locale table_neighbour =
  fixes other :: "nat \<Rightarrow> jobs \<Rightarrow> jobs"
  assumes other_inv: "job_inv rows \<Longrightarrow> job_inv (other k rows)"
    and other_running: "job_inv rows \<Longrightarrow> running_id i rows \<Longrightarrow> running_id i (other k rows)"

section \<open>Requests\<close>

text \<open>
  Enqueue requests of the daemon and the watcher use the default of three attempts and
  carry a payload only for a files request.
\<close>

definition service_request ::
  "string \<Rightarrow> string option \<Rightarrow> string option \<Rightarrow> job_mode \<Rightarrow> string \<Rightarrow> string list \<Rightarrow> string list \<Rightarrow> request" where
  "service_request repo store gen mode reason files deleted =
     \<lparr>q_repo = repo, q_store = store, q_gen = gen, q_mode = mode, q_reason = reason,
      q_payload = (if mode = Files then Some (files_payload files deleted) else None), q_max = 3\<rparr>"

datatype table_request =
    Enqueue nat string string "string option" "string option" job_mode string "string list" "string list"
  | Cancel nat string
  | CancelAll nat
  | Heartbeat nat string string nat
  | Progress nat string string int int string

definition keep_rows :: "jobs \<Rightarrow> exc + jobs \<times> 'a \<Rightarrow> jobs" where
  "keep_rows rows r = (case r of Inl _ \<Rightarrow> rows | Inr (rows', _) \<Rightarrow> rows')"

fun apply_request :: "table_request \<Rightarrow> jobs \<Rightarrow> jobs" where
  "apply_request (Enqueue now fresh repo store gen mode reason fs ds) rows =
     keep_rows rows (enqueue now fresh (service_request repo store gen mode reason fs ds) rows)"
| "apply_request (Cancel now i) rows = keep_rows rows (request_cancel now i rows)"
| "apply_request (CancelAll now) rows = keep_rows rows (request_cancel_all now rows)"
| "apply_request (Heartbeat now i owner lease) rows = heartbeat now i owner lease rows"
| "apply_request (Progress now i phase cur tot msg) rows = update_progress now i phase cur tot msg rows"

definition serve :: "(nat \<Rightarrow> table_request list) \<Rightarrow> nat \<Rightarrow> jobs \<Rightarrow> jobs" where
  "serve plan k rows = fold apply_request (plan k) rows"

lemma service_request_ok: "request_ok (service_request repo store gen mode reason fs ds)"
  by (simp add: request_ok_def service_request_def)

lemma enqueue_InrE:
  assumes inv: "job_inv rows" and ok: "request_ok q" and run: "enqueue now fresh q rows = Inr (rows', j)"
  obtains (owned) "rows' = rows"
  | (merged) r m p where "queued_row (q_repo q) rows = Some r"
      "rows' = update_id (j_id r) (coalesce_into now q m p) rows" "job_inv rows'"
  | (added) p where "rows' = rows @ [new_job now fresh q p]" "job_inv rows'"
proof -
  obtain p where p: "normalize_payload (q_mode q) (q_payload q) = Inr p"
    using run by (auto simp: enqueue_def and_then_Inr_iff)
  have pok: "payload_ok (q_mode q) p" by (rule normalized_payload_ok [OF ok p])
  show ?thesis
  proof (cases "deletion_row (q_repo q) rows")
    case (Some d)
    then show ?thesis using owned run p by (auto simp: enqueue_def split: if_splits)
  next
    case del: None
    show ?thesis
    proof (cases "queued_row (q_repo q) rows")
      case None
      have "schema_ok (rows @ [new_job now fresh q p])" "rows' = rows @ [new_job now fresh q p]"
        using run p del None by (auto simp: enqueue_def execute_statement_def split: if_splits dest!: get_locked_fst)
      then show ?thesis
        using added enqueue_new_inv [OF inv _ ok pok del None] by (auto simp: schema_ok_def new_job_def)
    next
      case (Some r)
      have "payload_ok (j_mode r) (j_payload r)"
        using queued_row_Some [OF Some] job_invD(2) [OF inv] by (auto simp: row_ok_def)
      then obtain m p' where mp: "merge_payload (j_mode r) (j_payload r) (q_mode q) p = Inr (m, p')" "payload_ok m p'"
        using merge_total pok by blast
      have inv': "job_inv (update_id (j_id r) (coalesce_into now q m p') rows)"
        by (rule enqueue_coalesce_inv [OF inv del Some mp(2)])
      have "rows' = update_id (j_id r) (coalesce_into now q m p') rows"
        using run p del Some mp inv' by (auto simp: enqueue_def dest!: get_locked_fst)
      then show ?thesis using merged [OF Some] inv' by simp
    qed
  qed
qed

lemma coalesce_running:
  assumes inv: "job_inv rows" and r: "queued_row repo rows = Some r" and i: "running_id i rows"
  shows "running_id i (update_id (j_id r) (coalesce_into now q m p) rows)"
proof (rule running_id_update [OF i])
  fix s assume s: "s \<in> set rows" "j_id s = j_id r" "running_status s"
  then have "s = r" using distinct_ids_inj [OF job_invD(1) [OF inv]] queued_row_Some [OF r] by blast
  then show "running_status (coalesce_into now q m p s)"
    using s(3) queued_row_Some [OF r] not_queued_and_running by blast
qed simp

lemma enqueue_running:
  assumes inv: "job_inv rows" and q: "request_ok q" and run: "enqueue now fresh q rows = Inr (rows', j)"
  shows "job_inv rows' \<and> (running_id i rows \<longrightarrow> running_id i rows')"
  by (rule enqueue_InrE [OF assms])
     (use inv coalesce_running [OF inv] in \<open>auto simp: running_id_def\<close>)

lemma request_cancel_running:
  assumes inv: "job_inv rows" and run: "request_cancel now k rows = Inr (rows', j)" and i: "running_id i rows"
  shows "running_id i rows'"
proof -
  obtain r where r: "find_job k rows = Some r"
    using run by (auto simp: request_cancel_def split: option.splits)
  have same: "s = r" if "s \<in> set rows" "j_id s = k" for s
    using find_job_eqI [OF job_invD(1) [OF inv] that] r by simp
  have "running_id i (update_id k (cancel_queued now) rows)" if "queued_status r"
    using that same not_queued_and_running by (intro running_id_update [OF i]) auto
  moreover have "running_id i (update_id k (cancel_running now) rows)"
    by (intro running_id_update [OF i]) (auto simp: cancel_running_def)
  moreover have "rows' = (if queued_status r then update_id k (cancel_queued now) rows
      else if j_status r = Running then update_id k (cancel_running now) rows else rows)"
    using run r by (auto simp: request_cancel_def dest!: get_locked_fst)
  ultimately show ?thesis using i by simp
qed

lemma request_cancel_all_running:
  assumes "request_cancel_all now rows = Inr (rows', js)" "running_id i rows"
  shows "running_id i rows'"
proof -
  let ?rows1 = "update_where (\<lambda>r. queued_status r \<and> j_mode r \<noteq> DropIndex) (release_cancelled now) rows"
  have "running_id i ?rows1"
    using not_queued_and_running by (intro running_id_update_where [OF assms(2)]) auto
  then have "running_id i (update_where (\<lambda>r. j_status r = Running \<and> j_mode r \<noteq> DropIndex)
      (cancel_running now) ?rows1)"
    by (rule running_id_update_where) (auto simp: cancel_running_def)
  then show ?thesis
    using assms(1) by (auto simp: request_cancel_all_def Let_def and_then_Inr_iff)
qed

lemma install_running:
  assumes "install_force_full_snapshot now k files rows = Inr (rows', j)" "running_id i rows"
  shows "running_id i rows'"
proof -
  obtain p where "rows' = rows \<or> rows' = update_id k (\<lambda>r. r\<lparr>j_payload := p, j_updated := now\<rparr>) rows"
    using assms(1)
    by (auto simp: install_force_full_snapshot_def and_then_Inr_iff Let_def split: option.splits if_splits
        dest!: get_locked_fst)
  then show ?thesis using assms(2) by (auto intro: running_id_update)
qed

lemma acknowledge_running:
  assumes "acknowledge_force_full_snapshot_files now k paths rows = Inr (rows', j)" "running_id i rows"
  shows "running_id i rows'"
proof -
  obtain p where "rows' = rows \<or> rows' = update_id k (\<lambda>r. r\<lparr>j_payload := p, j_updated := now\<rparr>) rows"
    using assms(1)
    by (auto simp: acknowledge_force_full_snapshot_files_def and_then_Inr_iff Let_def
        split: option.splits if_splits dest!: get_locked_fst)
  then show ?thesis using assms(2) by (auto intro: running_id_update)
qed

lemma heartbeat_running: "running_id i rows \<Longrightarrow> running_id i (heartbeat now k owner lease rows)"
  unfolding heartbeat_def by (rule running_id_update_where) auto

lemma update_progress_running: "running_id i rows \<Longrightarrow> running_id i (update_progress now k ph cur tot msg rows)"
  unfolding update_progress_def by (rule running_id_update_where) auto

lemma apply_request_ok:
  assumes inv: "job_inv rows"
  shows "job_inv (apply_request a rows) \<and> (running_id i rows \<longrightarrow> running_id i (apply_request a rows))"
proof (cases a)
  case (Enqueue now fresh repo store gen mode reason fs ds)
  then show ?thesis
    using inv enqueue_running [OF inv service_request_ok]
    by (auto simp: keep_rows_def split: sum.split)
next
  case (Cancel now k)
  then show ?thesis
    using inv request_cancel_inv [OF inv] request_cancel_running [OF inv]
    by (auto simp: keep_rows_def split: sum.split)
next
  case (CancelAll now)
  then show ?thesis
    using inv request_cancel_all_inv [OF inv] request_cancel_all_running
    by (auto simp: keep_rows_def split: sum.split)
qed (use inv heartbeat_inv heartbeat_running update_progress_inv update_progress_running in auto)

lemma apply_requests_ok:
  "job_inv rows \<Longrightarrow>
   job_inv (fold apply_request as rows) \<and> (running_id i rows \<longrightarrow> running_id i (fold apply_request as rows))"
  by (induction as arbitrary: rows) (use apply_request_ok in auto)

interpretation requests: table_neighbour "serve plan" for plan
  by unfold_locales (use apply_requests_ok in \<open>auto simp: serve_def\<close>)

section \<open>What an accepted index request leaves\<close>

lemma enqueue_index:
  assumes inv: "job_inv rows" and ok: "request_ok q" and del: "deletion_row (q_repo q) rows = None"
    and run: "enqueue now fresh q rows = Inr (rows', j)"
  shows "j \<in> set rows' \<and> j_repo j = q_repo q \<and> queued_status j \<and> mode_rank (q_mode q) \<le> mode_rank (j_mode j)
    \<and> (queued_row (q_repo q) rows = None \<longrightarrow> j_store j = q_store q \<and> j_gen j = q_gen q
         \<and> j_mode j = q_mode q \<and> normalize_payload (q_mode q) (q_payload q) = Inr (j_payload j))"
proof -
  obtain p where p: "normalize_payload (q_mode q) (q_payload q) = Inr p"
    using run by (auto simp: enqueue_def and_then_Inr_iff)
  show ?thesis
  proof (cases "queued_row (q_repo q) rows")
    case None
    have "execute_statement (rows @ [new_job now fresh q p]) = Inr (rows @ [new_job now fresh q p])"
      "get_locked fresh (rows @ [new_job now fresh q p]) = Inr (rows', j)"
      using run p del None by (auto simp: enqueue_def and_then_Inr_iff execute_statement_def split: if_splits)
    moreover from this have "j = new_job now fresh q p"
      by (auto simp: execute_statement_def schema_ok_def new_job_def find_job_def find_Some_iff nth_append
          split: if_splits dest!: get_locked_fst intro: ccontr)
    ultimately show ?thesis using None p by (auto simp: new_job_def dest!: get_locked_fst)
  next
    case (Some r)
    note r = queued_row_Some [OF Some]
    obtain m p' where mp: "merge_payload (j_mode r) (j_payload r) (q_mode q) p = Inr (m, p')"
      "execute_statement (update_id (j_id r) (coalesce_into now q m p') rows) = Inr (update_id (j_id r) (coalesce_into now q m p') rows)"
      "get_locked (j_id r) (update_id (j_id r) (coalesce_into now q m p') rows) = Inr (rows', j)"
      using run p del Some by (auto simp: enqueue_def and_then_Inr_iff execute_statement_def split: if_splits)
    have "rows' = update_id (j_id r) (coalesce_into now q m p') rows" "j = coalesce_into now q m p' r"
      using mp(3) get_locked_updated [OF inv, of r "coalesce_into now q m p'"] r by simp_all
    then show ?thesis
      using r merge_mode [OF mp(1)] Some set_update_row [OF job_invD(1) [OF inv], of r "coalesce_into now q m p'"]
      by (auto simp: coalesce_into_def split: if_splits)
  qed
qed

end
