(* ===== verification/Repository_Paths.thy ===== *)
theory Repository_Paths
  imports Posix_Path
begin

text \<open>
  Repository path policy: \<open>src/src/scs/indexing/repository_paths.py\<close>,
  \<open>src/src/scs/source_paths.py\<close> and \<open>src/src/scs/mcp/paths.py\<close>.  The file system is a
  record of the calls the code makes on it; it is an argument of every definition.
\<close>

record file_system =
  fs_resolve :: "ppath \<Rightarrow> exc + ppath"            \<comment> \<open>\<open>Path.resolve()\<close>\<close>
  fs_resolve_strict :: "ppath \<Rightarrow> exc + ppath"     \<comment> \<open>\<open>Path.resolve(strict=True)\<close>\<close>
  fs_listdir :: "ppath \<Rightarrow> exc + string list"
  fs_is_file :: "ppath \<Rightarrow> bool"
  fs_is_dir :: "ppath \<Rightarrow> bool"
  fs_expanduser :: "ppath \<Rightarrow> ppath"
  fs_cwd :: ppath
  fs_home :: ppath

section \<open>Canonical paths\<close>

text \<open>\<open>str.lower\<close> on code points below 256.\<close>

definition lower_char :: "char \<Rightarrow> char" where
  "lower_char c =
     (let n = (of_char c :: nat) in
      if (65 \<le> n \<and> n \<le> 90) \<or> (192 \<le> n \<and> n \<le> 222 \<and> n \<noteq> 215) then char_of (n + 32) else c)"

definition lower :: "string \<Rightarrow> string" where
  "lower s = map lower_char s"

definition true_case_child :: "file_system \<Rightarrow> ppath \<Rightarrow> string \<Rightarrow> ppath" where
  "true_case_child fs parent component =
     (case fs_listdir fs parent of
        Inl _ \<Rightarrow> path_child parent component
      | Inr entries \<Rightarrow>
          (case find (\<lambda>entry. lower entry = lower component) entries of
             Some entry \<Rightarrow> path_child parent entry
           | None \<Rightarrow> path_child parent component))"

definition canonical_from :: "file_system \<Rightarrow> ppath \<Rightarrow> ppath" where
  "canonical_from fs resolved =
     foldl (true_case_child fs) (parse_path (hd (path_parts resolved))) (tl (path_parts resolved))"

definition canonicalize_repo_path :: "file_system \<Rightarrow> ppath \<Rightarrow> exc + string" where
  "canonicalize_repo_path fs path =
     and_then (fs_resolve fs path) (\<lambda>resolved. Inr (path_str (canonical_from fs resolved)))"

section \<open>Nested repositories and the home directory\<close>

definition canonical_path :: "file_system \<Rightarrow> ppath \<Rightarrow> exc + ppath" where
  "canonical_path fs path =
     and_then (canonicalize_repo_path fs path) (\<lambda>s. Inr (parse_path s))"

fun nearest_parent :: "file_system \<Rightarrow> ppath \<Rightarrow> ppath option \<Rightarrow> string list \<Rightarrow> exc + ppath option" where
  "nearest_parent fs candidate best [] = Inr best"
| "nearest_parent fs candidate best (raw # raws) =
     and_then (canonical_path fs (parse_path raw)) (\<lambda>existing.
       if candidate = existing then nearest_parent fs candidate best raws
       else if relative_to candidate existing = None then nearest_parent fs candidate best raws
       else
         (case best of
            None \<Rightarrow> nearest_parent fs candidate (Some existing) raws
          | Some b \<Rightarrow>
              if length (path_parts existing) > length (path_parts b)
              then nearest_parent fs candidate (Some existing) raws
              else nearest_parent fs candidate best raws))"

definition find_indexed_parent_repo :: "file_system \<Rightarrow> ppath \<Rightarrow> string list \<Rightarrow> exc + string option" where
  "find_indexed_parent_repo fs repo indexed =
     and_then (canonical_path fs repo) (\<lambda>candidate.
       and_then (nearest_parent fs candidate None indexed) (\<lambda>best.
         Inr (map_option path_str best)))"

definition is_user_home_repo_path :: "file_system \<Rightarrow> ppath \<Rightarrow> exc + bool" where
  "is_user_home_repo_path fs repo =
     and_then (canonical_path fs repo) (\<lambda>candidate.
       and_then (canonical_path fs (fs_home fs)) (\<lambda>home. Inr (candidate = home)))"

definition assert_not_user_home_repo :: "file_system \<Rightarrow> ppath \<Rightarrow> exc + unit" where
  "assert_not_user_home_repo fs repo =
     and_then (is_user_home_repo_path fs repo) (\<lambda>home.
       if home then
         and_then (canonicalize_repo_path fs repo) (\<lambda>s.
           Inl (ValueError (''Cannot ingest the user's home directory: '' @ s
             @ ''. Choose a specific repository folder instead.'')))
       else Inr ())"

definition assert_not_nested_under_indexed_repo ::
  "file_system \<Rightarrow> string list \<Rightarrow> ppath \<Rightarrow> exc + unit" where
  "assert_not_nested_under_indexed_repo fs indexed repo =
     and_then (find_indexed_parent_repo fs repo indexed) (\<lambda>parent.
       case parent of
         None \<Rightarrow> Inr ()
       | Some p \<Rightarrow>
           if p = [] then Inr ()
           else and_then (canonicalize_repo_path fs repo) (\<lambda>s.
             Inl (ValueError (''Cannot ingest nested repository '' @ s
               @ ''; parent repository is already indexed: '' @ p))))"

definition assert_ingestable_repo_path :: "file_system \<Rightarrow> string list \<Rightarrow> ppath \<Rightarrow> exc + unit" where
  "assert_ingestable_repo_path fs indexed repo =
     and_then (assert_not_user_home_repo fs repo) (\<lambda>_.
       assert_not_nested_under_indexed_repo fs indexed repo)"

section \<open>Duplicate repository entries\<close>

text \<open>
  \<open>deduplicate_repo_entries\<close>: the graph statistics map each stored repository path to its
  file count; \<open>delete\<close> says whether deleting a path succeeds.
\<close>

fun group_by :: "('a \<Rightarrow> 'k) \<Rightarrow> ('k \<times> 'a list) list \<Rightarrow> 'a list \<Rightarrow> ('k \<times> 'a list) list" where
  "group_by k acc [] = acc"
| "group_by k acc (x # xs) =
     group_by k
       (if k x \<in> fst ` set acc
        then map (\<lambda>(key, ys). if key = k x then (key, ys @ [x]) else (key, ys)) acc
        else acc @ [(k x, [x])]) xs"

record merged_group =
  mg_canonical :: string
  mg_kept :: string
  mg_removed :: "string list"

definition merge_group :: "string \<times> (string \<times> int) list \<Rightarrow> merged_group" where
  "merge_group g =
     (let sorted_group = sort_key (\<lambda>(_, count). - count) (snd g) in
      \<lparr>mg_canonical = fst g, mg_kept = fst (hd sorted_group),
       mg_removed = map fst (tl sorted_group)\<rparr>)"

definition deduplicate_repo_entries ::
  "(string \<Rightarrow> string) \<Rightarrow> (string \<Rightarrow> bool) \<Rightarrow> (string \<times> int) list \<Rightarrow> nat \<times> nat \<times> merged_group list" where
  "deduplicate_repo_entries canonical deletable stats =
     (let groups = filter (\<lambda>(_, g). length g > 1) (group_by (\<lambda>(path, _). canonical path) [] stats);
          details = map merge_group groups
      in (length groups, length (filter deletable (concat (map mg_removed details))), details))"

section \<open>Source files inside a repository\<close>

text \<open>\<open>os.path.abspath\<close>: join with the working directory, then drop \<open>..\<close> lexically.\<close>

fun normalize_comps :: "string list \<Rightarrow> string list \<Rightarrow> string list" where
  "normalize_comps acc [] = rev acc"
| "normalize_comps acc (c # cs) =
     (if c = ''..'' then normalize_comps (case acc of [] \<Rightarrow> [] | _ # as \<Rightarrow> as) cs
      else normalize_comps (c # acc) cs)"

definition abspath :: "file_system \<Rightarrow> ppath \<Rightarrow> ppath" where
  "abspath fs p =
     (let q = path_join (fs_cwd fs) p in q\<lparr>p_comps := normalize_comps [] (p_comps q)\<rparr>)"

fun alias_parent :: "file_system \<Rightarrow> ppath \<Rightarrow> ppath \<Rightarrow> ppath list \<Rightarrow> ppath option" where
  "alias_parent fs absolute repo [] = None"
| "alias_parent fs absolute repo (parent # parents) =
     (case fs_resolve fs parent of
        Inl _ \<Rightarrow> alias_parent fs absolute repo parents
      | Inr r \<Rightarrow>
          if r = repo then map_option (path_join repo) (relative_to absolute parent)
          else alias_parent fs absolute repo parents)"

definition lexical_file_in_repo :: "file_system \<Rightarrow> ppath \<Rightarrow> ppath \<Rightarrow> ppath option" where
  "lexical_file_in_repo fs file repo =
     (let absolute = abspath fs file in
      case relative_to absolute repo of
        Some r \<Rightarrow> Some (path_join repo r)
      | None \<Rightarrow> alias_parent fs absolute repo (path_parents absolute))"

definition source_candidate :: "file_system \<Rightarrow> ppath option \<Rightarrow> string \<Rightarrow> ppath" where
  "source_candidate fs root file =
     (let expanded = fs_expanduser fs (parse_path file) in
      case root of
        Some r \<Rightarrow> if is_absolute expanded then expanded else path_join r expanded
      | None \<Rightarrow> expanded)"

definition resolve_source :: "file_system \<Rightarrow> bool \<Rightarrow> ppath \<Rightarrow> exc + ppath" where
  "resolve_source fs strict p = (if strict then fs_resolve_strict fs p else fs_resolve fs p)"

definition check_source ::
  "file_system \<Rightarrow> bool \<Rightarrow> ppath option \<Rightarrow> ppath \<Rightarrow> exc + string" where
  "check_source fs require_file root candidate =
     (case resolve_source fs require_file candidate of
        Inl _ \<Rightarrow> Inl (ValueError (''source path does not exist: '' @ path_str candidate))
      | Inr resolved \<Rightarrow>
          if require_file \<and> \<not> fs_is_file fs resolved
          then Inl (ValueError (''source path is not a file: '' @ path_str resolved))
          else
            (case root of
               None \<Rightarrow> Inr (path_str (abspath fs candidate))
             | Some r \<Rightarrow>
                 (case lexical_file_in_repo fs candidate r of
                    None \<Rightarrow> Inl (ValueError (''source path escapes repository: '' @ path_str resolved))
                  | Some lexical \<Rightarrow>
                      if \<not> is_relative_to resolved r
                      then Inl (ValueError (''source path escapes repository: '' @ path_str resolved))
                      else Inr (path_str lexical))))"

definition validated_source_path ::
  "file_system \<Rightarrow> string \<Rightarrow> string option \<Rightarrow> bool \<Rightarrow> exc + string" where
  "validated_source_path fs file repo require_file =
     (case repo of
        None \<Rightarrow> check_source fs require_file None (source_candidate fs None file)
      | Some r \<Rightarrow>
          and_then (fs_resolve fs (parse_path r)) (\<lambda>root.
            check_source fs require_file (Some root) (source_candidate fs (Some root) file)))"

section \<open>Inputs of the tools\<close>

definition canonical_repo_path :: "file_system \<Rightarrow> string option \<Rightarrow> exc + string option" where
  "canonical_repo_path fs repo =
     (if repo = Some '''' then Inl (ValueError ''repo_path must be a non-empty string'')
      else
        (let candidate = (case repo of None \<Rightarrow> fs_cwd fs | Some r \<Rightarrow> parse_path r) in
         case fs_resolve_strict fs (fs_expanduser fs candidate) of
           Inl _ \<Rightarrow> Inl (ValueError (''repository path is unavailable: '' @ path_str candidate))
         | Inr resolved \<Rightarrow>
             if \<not> fs_is_dir fs resolved
             then Inl (ValueError (''repository path is not a directory: '' @ path_str resolved))
             else Inr (Some (path_str resolved))))"

definition canonical_repository_identity :: "file_system \<Rightarrow> string \<Rightarrow> exc + string" where
  "canonical_repository_identity fs repo =
     (if repo = [] then Inl (ValueError ''repo_path must be a non-empty string'')
      else canonicalize_repo_path fs (fs_expanduser fs (parse_path repo)))"

definition contained_file_path :: "file_system \<Rightarrow> string \<Rightarrow> string option \<Rightarrow> exc + string" where
  "contained_file_path fs file repo = validated_source_path fs file repo True"

definition contained_deleted_path :: "string \<Rightarrow> exc + string" where
  "contained_deleted_path file =
     (let path = parse_path file in
      if is_absolute path \<or> ''..'' \<in> set (path_parts path)
      then Inl (ValueError (''deleted path must remain repository-relative: '' @ file))
      else if path_str path \<in> {'''', ''.''} then Inl (ValueError ''deleted path must identify a file'')
      else Inr (path_str path))"

section \<open>The nearest indexed parent\<close>

definition proper_ancestor :: "ppath \<Rightarrow> ppath \<Rightarrow> bool" where
  "proper_ancestor e c = (e \<in> set (path_parents c))"

lemma proper_ancestor_iff: "proper_ancestor e c \<longleftrightarrow> is_relative_to c e \<and> e \<noteq> c"
  by (simp add: proper_ancestor_def path_parents_iff)

lemma ancestor_length: "is_relative_to c e \<Longrightarrow> length (path_parts e) \<le> length (path_parts c)"
  by (auto simp: is_relative_to_iff path_parts_def prefix_length_le)

lemma ancestors_ordered:
  assumes "is_relative_to c a" "is_relative_to c b" "length (path_parts a) \<le> length (path_parts b)"
  shows "is_relative_to b a"
proof -
  have "prefix (p_comps a) (p_comps b)"
    using assms by (auto simp: is_relative_to_iff path_parts_def split: if_splits
      intro: prefix_length_prefix)
  with assms show ?thesis by (auto simp: is_relative_to_iff)
qed

text \<open>What the loop of \<open>find_indexed_parent_repo\<close> has found after some of the roots.\<close>

definition nearest_so_far :: "ppath \<Rightarrow> ppath set \<Rightarrow> ppath option \<Rightarrow> bool" where
  "nearest_so_far c seen best =
     (case best of
        None \<Rightarrow> (\<forall>e\<in>seen. \<not> proper_ancestor e c)
      | Some b \<Rightarrow> b \<in> seen \<and> proper_ancestor b c
          \<and> (\<forall>e\<in>seen. proper_ancestor e c \<longrightarrow> is_relative_to b e))"

definition canonical_roots :: "file_system \<Rightarrow> string list \<Rightarrow> ppath set" where
  "canonical_roots fs raws = {e. \<exists>raw\<in>set raws. canonical_path fs (parse_path raw) = Inr e}"

lemma nearest_so_far_skip:
  "nearest_so_far c seen best \<Longrightarrow> \<not> proper_ancestor e c \<Longrightarrow> nearest_so_far c (insert e seen) best"
  by (auto simp: nearest_so_far_def split: option.splits)

lemma nearest_so_far_keep:
  assumes "nearest_so_far c seen (Some b)" "proper_ancestor e c" "length (path_parts e) \<le> length (path_parts b)"
  shows "nearest_so_far c (insert e seen) (Some b)"
  using assms ancestors_ordered [of c e b] by (auto simp: nearest_so_far_def proper_ancestor_iff)

lemma nearest_so_far_take:
  assumes "nearest_so_far c seen best" "proper_ancestor e c"
    and "\<And>b. best = Some b \<Longrightarrow> length (path_parts b) < length (path_parts e)"
  shows "nearest_so_far c (insert e seen) (Some e)"
proof -
  have "is_relative_to e x" if "x \<in> seen" "proper_ancestor x c" for x
  proof (cases best)
    case None
    then show ?thesis using assms(1) that by (simp add: nearest_so_far_def)
  next
    case (Some b)
    then have "is_relative_to b x" "is_relative_to c b"
      using assms(1) that by (auto simp: nearest_so_far_def proper_ancestor_iff)
    then have "length (path_parts x) \<le> length (path_parts e)"
      using ancestor_length [of b x] assms(3) [OF Some] by simp
    then show ?thesis using ancestors_ordered that(2) assms(2) by (auto simp: proper_ancestor_iff)
  qed
  then show ?thesis using assms(2) by (auto simp: nearest_so_far_def)
qed

lemma nearest_parent_correct:
  assumes "nearest_so_far c seen best" "nearest_parent fs c best raws = Inr result"
  shows "nearest_so_far c (seen \<union> canonical_roots fs raws) result"
  using assms
proof (induction raws arbitrary: seen best)
  case Nil
  then show ?case by (simp add: canonical_roots_def)
next
  case (Cons raw raws)
  obtain e where e: "canonical_path fs (parse_path raw) = Inr e"
    using Cons.prems(2) by (cases "canonical_path fs (parse_path raw)") auto
  have seen: "seen \<union> canonical_roots fs (raw # raws) = insert e seen \<union> canonical_roots fs raws"
    using e by (auto simp: canonical_roots_def)
  have anc: "proper_ancestor e c \<longleftrightarrow> c \<noteq> e \<and> relative_to c e \<noteq> None"
    by (auto simp: proper_ancestor_iff is_relative_to_def)
  consider (skip) "\<not> proper_ancestor e c" "nearest_parent fs c best raws = Inr result"
    | (keep) b where "best = Some b" "proper_ancestor e c" "length (path_parts e) \<le> length (path_parts b)"
        "nearest_parent fs c best raws = Inr result"
    | (take) "proper_ancestor e c" "\<forall>b. best = Some b \<longrightarrow> length (path_parts b) < length (path_parts e)"
        "nearest_parent fs c (Some e) raws = Inr result"
    using Cons.prems(2) e anc by (auto split: if_splits option.splits)
  then show ?case
  proof cases
    case skip
    then show ?thesis using Cons.IH [OF nearest_so_far_skip [OF Cons.prems(1)]] seen by simp
  next
    case keep
    then show ?thesis
      using Cons.IH [OF nearest_so_far_keep [of c seen b e]] Cons.prems(1) seen by simp
  next
    case take
    then show ?thesis
      using Cons.IH [OF nearest_so_far_take [OF Cons.prems(1)]] seen by simp
  qed
qed

text \<open>Aux: The nested-repository check finds the nearest indexed parent: when it returns
  nothing, no indexed root is a proper ancestor of the candidate; when it returns a path,
  that path is an indexed root, a proper ancestor, and lies below every other indexed
  ancestor.  The indexed roots may come in any order and with repetitions.\<close>

theorem indexed_parent_is_nearest:
  assumes "find_indexed_parent_repo fs repo indexed = Inr result"
    and "canonical_path fs repo = Inr candidate"
  shows "\<exists>best. result = map_option path_str best
     \<and> nearest_so_far candidate (canonical_roots fs indexed) best"
proof -
  obtain best where best: "nearest_parent fs candidate None indexed = Inr best"
    and "result = map_option path_str best"
    using assms by (auto simp: find_indexed_parent_repo_def and_then_Inr_iff)
  moreover have "nearest_so_far candidate {} None" by (simp add: nearest_so_far_def)
  ultimately show ?thesis using nearest_parent_correct by fastforce
qed

definition plain_fs :: file_system where
  "plain_fs = \<lparr>fs_resolve = Inr, fs_resolve_strict = Inr, fs_listdir = \<lambda>_. Inl (OSError ''''),
     fs_is_file = \<lambda>_. True, fs_is_dir = \<lambda>_. True, fs_expanduser = id,
     fs_cwd = parse_path ''/w'', fs_home = parse_path ''/home/u''\<rparr>"

lemma plain_fs_canonical:
  "canonical_path plain_fs (parse_path ''/a/b/c'') = Inr (parse_path ''/a/b/c'')"
  "canonical_path plain_fs (parse_path ''/a'') = Inr (parse_path ''/a'')"
  "canonical_path plain_fs (parse_path ''/a/b'') = Inr (parse_path ''/a/b'')"
  by code_simp+

theorem indexed_parent_is_nearest_witness:
  "\<exists>best. Some ''/a/b'' = map_option path_str best
     \<and> nearest_so_far (parse_path ''/a/b/c'') (canonical_roots plain_fs [''/a'', ''/a/b'', ''/a'']) best"
proof (rule indexed_parent_is_nearest)
  show "find_indexed_parent_repo plain_fs (parse_path ''/a/b/c'') [''/a'', ''/a/b'', ''/a''] = Inr (Some ''/a/b'')"
    by code_simp
qed (rule plain_fs_canonical)

section \<open>Containment\<close>

lemma join_relative_inside:
  "map_option (path_join repo) (relative_to a b) = Some p \<Longrightarrow> is_relative_to p repo"
  by (auto simp: is_relative_to_iff path_join_def dest!: relative_to_Some)

lemma alias_parent_inside:
  "alias_parent fs absolute repo parents = Some p \<Longrightarrow> is_relative_to p repo"
  by (induction parents) (auto split: sum.splits if_splits intro: join_relative_inside)

lemma lexical_file_inside: "lexical_file_in_repo fs file repo = Some p \<Longrightarrow> is_relative_to p repo"
  by (auto simp: lexical_file_in_repo_def Let_def is_relative_to_iff path_join_def
      split: option.splits dest!: relative_to_Some alias_parent_inside)

text \<open>Aux: A source path accepted for a repository names a file inside it twice over: the
  returned identity is lexically below the resolved root, and the file the candidate
  resolves to is below it as well, so a symbolic link cannot lead out of the repository;
  when a file is required, it is one.\<close>

theorem validated_source_path_contained:
  assumes "validated_source_path fs file (Some repo) require_file = Inr s"
  shows "\<exists>root lexical target. fs_resolve fs (parse_path repo) = Inr root
     \<and> resolve_source fs require_file (source_candidate fs (Some root) file) = Inr target
     \<and> s = path_str lexical \<and> is_relative_to lexical root \<and> is_relative_to target root
     \<and> (require_file \<longrightarrow> fs_is_file fs target)"
proof -
  obtain root where root: "fs_resolve fs (parse_path repo) = Inr root"
    and check: "check_source fs require_file (Some root) (source_candidate fs (Some root) file) = Inr s"
    using assms by (auto simp: validated_source_path_def and_then_Inr_iff)
  obtain target where target: "resolve_source fs require_file (source_candidate fs (Some root) file) = Inr target"
    using check by (auto simp: check_source_def split: sum.splits)
  obtain lexical where "lexical_file_in_repo fs (source_candidate fs (Some root) file) root = Some lexical"
    "is_relative_to target root" "s = path_str lexical" "require_file \<longrightarrow> fs_is_file fs target"
    using check target by (auto simp: check_source_def split: option.splits if_splits)
  with root target lexical_file_inside show ?thesis by blast
qed

theorem validated_source_path_contained_witness:
  "\<exists>root lexical target. fs_resolve plain_fs (parse_path ''/a'') = Inr root
     \<and> resolve_source plain_fs True (source_candidate plain_fs (Some root) ''x.py'') = Inr target
     \<and> ''/a/x.py'' = path_str lexical \<and> is_relative_to lexical root \<and> is_relative_to target root
     \<and> (True \<longrightarrow> fs_is_file plain_fs target)"
  by (rule validated_source_path_contained) code_simp

text \<open>Aux: An accepted deletion path is repository-relative: it is not absolute, has no
  \<open>..\<close> component, stays below whatever repository it is joined to, is not the repository
  itself, and accepting it again changes nothing.\<close>

theorem contained_deleted_path_safe:
  assumes "contained_deleted_path file = Inr s"
  shows "\<not> is_absolute (parse_path s) \<and> ''..'' \<notin> set (path_parts (parse_path s))
     \<and> is_relative_to (path_join repo (parse_path s)) repo \<and> path_join repo (parse_path s) \<noteq> repo
     \<and> contained_deleted_path s = Inr s"
proof -
  define p where "p = parse_path file"
  have p: "\<not> is_absolute p" "''..'' \<notin> set (path_parts p)" "s = path_str p" "path_str p \<noteq> ''.''"
    using assms by (auto simp: contained_deleted_path_def p_def Let_def split: if_splits)
  have s: "parse_path s = p"
    unfolding p(3) by (rule parse_path_str) (simp add: p_def wf_parse_path)
  have root: "p_root p = []" using p(1) by (simp add: is_absolute_def)
  have comps: "p_comps p \<noteq> []" using p(4) root by (auto simp: path_str_def)
  have "is_relative_to (path_join repo (parse_path s)) repo" "path_join repo (parse_path s) \<noteq> repo"
    using s root comps by (cases repo; simp add: path_join_def is_relative_to_iff)+
  moreover have "contained_deleted_path s = Inr s"
    using assms p s by (auto simp: contained_deleted_path_def Let_def p_def split: if_splits)
  ultimately show ?thesis using p s by simp
qed

theorem contained_deleted_path_safe_witness:
  "\<not> is_absolute (parse_path ''a/b'') \<and> ''..'' \<notin> set (path_parts (parse_path ''a/b''))
     \<and> is_relative_to (path_join (parse_path ''/r'') (parse_path ''a/b'')) (parse_path ''/r'')
     \<and> path_join (parse_path ''/r'') (parse_path ''a/b'') \<noteq> parse_path ''/r''
     \<and> contained_deleted_path ''a/b'' = Inr ''a/b''"
  by (rule contained_deleted_path_safe [of "''./a//b/''"]) code_simp

end
