(* ===== verification/Job_Runner.thy ===== *)
theory Job_Runner
  imports Job_Service Repository_Paths
begin

text \<open>
  \<open>IngestionJobRunner\<close> (\<open>src/src/scs/indexing/runner.py\<close>).  \<open>run_once\<close> is an action on the
  job table and a log of what the runner did.  Between two of its accesses to the table
  the event loop runs other tasks (requests that enqueue or cancel, the heartbeat):
  \<open>en_other k\<close> is what they do to the table before access number \<open>k\<close>.  The daemon's hooks
  and the pipeline are further functions of the environment.  Publishing an event hands it
  to the broker, which does not raise.
\<close>

section \<open>The environment and the log\<close>

datatype run_event =
    Claimed string
  | Started
  | Executed dict
  | HookCompleted
  | HookFailed
  | Published job_status

record run_state =
  rn_rows :: jobs
  rn_log :: "run_event list"

type_synonym pipeline_result = "dict \<times> string option"

record runner_env =
  en_now :: "nat \<Rightarrow> nat"
  en_other :: "nat \<Rightarrow> jobs \<Rightarrow> jobs"
  en_owner :: string
  en_lease :: nat
  en_fs :: file_system
  en_started :: "job \<Rightarrow> exc + unit"
  en_completed :: "job \<Rightarrow> exc + unit"
  en_failed :: "job \<Rightarrow> exc + unit"
  en_deleter :: "job \<Rightarrow> exc + dict"
  en_open :: "job \<Rightarrow> exc + unit"
  en_files :: "job \<Rightarrow> ppath list \<Rightarrow> string list \<Rightarrow> exc + pipeline_result"
  en_cleanup :: "job \<Rightarrow> exc + pipeline_result"
  en_full :: "job \<Rightarrow> exc + pipeline_result"
  en_manifest :: "job \<Rightarrow> exc + dict list"
  en_force :: "job \<Rightarrow> dict list \<Rightarrow> string list list \<times> (exc + pipeline_result)"

definition table_op ::
  "runner_env \<Rightarrow> nat \<Rightarrow> (nat \<Rightarrow> jobs \<Rightarrow> exc + jobs \<times> 'a) \<Rightarrow> (run_state, 'a) act" where
  "table_op env k f s =
     (let rows = en_other env k (rn_rows s) in
      case f (en_now env k) rows of
        Inl e \<Rightarrow> (Inl e, s\<lparr>rn_rows := rows\<rparr>)
      | Inr (rows', x) \<Rightarrow> (Inr x, s\<lparr>rn_rows := rows'\<rparr>))"

definition table_read :: "runner_env \<Rightarrow> nat \<Rightarrow> (jobs \<Rightarrow> 'a) \<Rightarrow> (run_state, 'a) act" where
  "table_read env k g = table_op env k (\<lambda>_ rows. Inr (rows, g rows))"

definition log_event :: "run_event \<Rightarrow> (run_state, unit) act" where
  "log_event ev = act_modify (\<lambda>s. s\<lparr>rn_log := rn_log s @ [ev]\<rparr>)"

definition publish :: "job \<Rightarrow> (run_state, unit) act" where
  "publish job = log_event (Published (j_status job))"

section \<open>Executing a job\<close>

definition unacknowledged :: "json option \<Rightarrow> exc + dict list" where
  "unacknowledged raw =
     (case raw of
        Some (JObj snapshot) \<Rightarrow>
          (case dict_get snapshot ''files'' JNull of
             JList files \<Rightarrow>
               (case json_dicts files of
                  None \<Rightarrow> Inl (RuntimeError ''Force-full job snapshot files are invalid'')
                | Some ds \<Rightarrow>
                    Inr (filter (\<lambda>d. \<not> py_truthy (dict_get d ''acknowledged'' (JBool False))) ds))
           | _ \<Rightarrow> Inl (RuntimeError ''Force-full job snapshot files are invalid''))
      | _ \<Rightarrow> Inl (RuntimeError ''Force-full job snapshot is invalid''))"

definition force_snapshot_for_job :: "runner_env \<Rightarrow> job \<Rightarrow> (run_state, dict list) act" where
  "force_snapshot_for_job env job =
     (if dict_get (j_payload job) ''force_full_snapshot'' JNull = JNull then
        act_bind (act_lift (en_manifest env job)) (\<lambda>records.
          act_bind (table_op env 4 (\<lambda>now. install_force_full_snapshot now (j_id job) records)) (\<lambda>job'.
            act_lift (unacknowledged (map_of (j_payload job') ''force_full_snapshot''))))
      else act_lift (unacknowledged (map_of (j_payload job) ''force_full_snapshot'')))"

text \<open>The pipeline calls back with each committed batch, in order, before it goes on.\<close>

fun acknowledge_batches :: "runner_env \<Rightarrow> job \<Rightarrow> string list list \<Rightarrow> (run_state, unit) act" where
  "acknowledge_batches env job [] = act_return ()"
| "acknowledge_batches env job (b # bs) =
     act_seq (table_op env 5 (\<lambda>now. acknowledge_force_full_snapshot_files now (j_id job) b))
       (acknowledge_batches env job bs)"

definition run_pipeline :: "runner_env \<Rightarrow> job \<Rightarrow> (run_state, pipeline_result) act" where
  "run_pipeline env job =
     (case j_mode job of
        Files \<Rightarrow>
          act_bind (act_lift (stored_paths (j_payload job) ''file_paths'')) (\<lambda>fs.
            act_bind (act_lift (stored_paths (j_payload job) ''deleted_paths'')) (\<lambda>ds.
              act_lift (en_files env job (map parse_path fs) ds)))
      | Cleanup \<Rightarrow> act_lift (en_cleanup env job)
      | Full \<Rightarrow> act_lift (en_full env job)
      | ForceFull \<Rightarrow>
          act_bind (force_snapshot_for_job env job) (\<lambda>snapshot.
            act_seq (acknowledge_batches env job (fst (en_force env job snapshot)))
              (act_lift (snd (en_force env job snapshot))))
      | DropIndex \<Rightarrow> act_raise (ValueError ''Unsupported indexing job mode: drop_index''))"

definition stop_if_cancelled :: "runner_env \<Rightarrow> nat \<Rightarrow> job \<Rightarrow> string \<Rightarrow> (run_state, unit) act" where
  "stop_if_cancelled env k job msg =
     act_bind (table_read env k (cancellation_requested (j_id job))) (\<lambda>c.
       if c then act_raise (IngestionCancelled msg) else act_return ())"

definition execute_job :: "runner_env \<Rightarrow> job \<Rightarrow> (run_state, dict) act" where
  "execute_job env job =
     (if j_mode job = DropIndex then act_lift (en_deleter env job)
      else
        act_seq (act_lift (assert_not_user_home_repo (en_fs env) (parse_path (j_repo job))))
       (act_seq (stop_if_cancelled env 2 job ''ingestion cancelled before graph open'')
       (act_seq (act_lift (en_open env job))
       (act_seq (stop_if_cancelled env 3 job ''ingestion cancelled after graph open'')
       (act_bind (run_pipeline env job) (\<lambda>(result, degraded).
          case degraded of
            None \<Rightarrow> act_return result
          | Some d \<Rightarrow> if d \<noteq> [] then act_raise (RuntimeError d) else act_return result))))))"

section \<open>One turn of the worker\<close>

definition run_claimed :: "runner_env \<Rightarrow> job \<Rightarrow> (run_state, unit) act" where
  "run_claimed env job =
     act_seq (act_lift (en_started env job))
    (act_seq (log_event Started)
    (act_seq (publish job)
    (act_bind (execute_job env job) (\<lambda>result.
     act_seq (log_event (Executed result))
    (act_bind (table_read env 6 (get_job (j_id job))) (\<lambda>current.
     act_bind
       (if (case current of None \<Rightarrow> False | Some c \<Rightarrow> j_status c = Cancelling)
        then table_op env 7 (\<lambda>now. mark_cancelled now (j_id job))
        else
          act_seq (act_lift (en_completed env job))
         (act_seq (log_event HookCompleted)
           (table_op env 8 (\<lambda>now. complete now (j_id job) result))))
       publish))))))"

definition run_failed :: "runner_env \<Rightarrow> job \<Rightarrow> exc \<Rightarrow> (run_state, unit) act" where
  "run_failed env job e =
     (case e of
        IngestionCancelled _ \<Rightarrow>
          act_bind (table_op env 9 (\<lambda>now. mark_cancelled now (j_id job))) publish
      | _ \<Rightarrow>
          act_bind (table_op env 10 (\<lambda>now. fail_or_retry now (j_id job) (exc_str e))) (\<lambda>final.
            if j_status final = Failed
            then act_seq (act_lift (en_failed env final)) (act_seq (log_event HookFailed) (publish final))
            else publish final))"

definition run_once :: "runner_env \<Rightarrow> (run_state, bool) act" where
  "run_once env =
     act_bind (table_op env 0 (\<lambda>now. claim_next now (en_owner env) (en_lease env))) (\<lambda>claimed.
       case claimed of
         None \<Rightarrow> act_return False
       | Some job \<Rightarrow>
           act_seq (log_event (Claimed (j_id job)))
          (act_seq (act_handle (run_claimed env job) (run_failed env job))
             (act_return True)))"

text \<open>\<open>start\<close> recovers the leases of earlier processes before the worker loop is created.\<close>

definition start_runner :: "nat \<Rightarrow> string \<Rightarrow> jobs \<Rightarrow> exc + jobs \<times> job list" where
  "start_runner now owner rows = reclaim_stale_running now (if owner = [] then None else Some owner) rows"

section \<open>What one turn guarantees\<close>

text \<open>
  \<open>working\<close>: the invariant holds and the claimed row is still running or cancelling.
  \<open>released\<close>: it is neither any more.
\<close>

definition working :: "string \<Rightarrow> run_state \<Rightarrow> bool" where
  "working i s = (job_inv (rn_rows s) \<and> running_id i (rn_rows s))"

definition released :: "string \<Rightarrow> run_state \<Rightarrow> bool" where
  "released i s = (job_inv (rn_rows s) \<and> \<not> running_id i (rn_rows s))"

lemma table_op_Inr:
  assumes "table_op env k f s = (Inr x, s')"
  shows "\<exists>rows'. f (en_now env k) (en_other env k (rn_rows s)) = Inr (rows', x) \<and> s' = s\<lparr>rn_rows := rows'\<rparr>"
  using assms
  by (cases "f (en_now env k) (en_other env k (rn_rows s))") (auto simp: table_op_def Let_def)

lemma table_op_Inl:
  assumes "table_op env k f s = (Inl e, s')"
  shows "f (en_now env k) (en_other env k (rn_rows s)) = Inl e \<and> s' = s\<lparr>rn_rows := en_other env k (rn_rows s)\<rparr>"
  using assms
  by (cases "f (en_now env k) (en_other env k (rn_rows s))") (auto simp: table_op_def Let_def)

locale peaceful_runner =
  fixes env :: runner_env
  assumes neighbour: "table_neighbour (en_other env)"

sublocale peaceful_runner \<subseteq> table_neighbour "en_other env"
  by (rule neighbour)

context peaceful_runner
begin

lemma ensures_table_op:
  assumes "\<And>rows rows' x L. job_inv rows \<Longrightarrow> running_id i rows \<Longrightarrow> f (en_now env k) rows = Inr (rows', x) \<Longrightarrow>
      G L \<Longrightarrow> Q x \<lparr>rn_rows = rows', rn_log = L\<rparr>"
    and "\<And>rows e L. job_inv rows \<Longrightarrow> running_id i rows \<Longrightarrow> f (en_now env k) rows = Inl e \<Longrightarrow>
      G L \<Longrightarrow> E e \<lparr>rn_rows = rows, rn_log = L\<rparr>"
  shows "act_ensures (\<lambda>s. working i s \<and> G (rn_log s)) (table_op env k f) Q E"
proof (rule ensuresI)
  fix s x s' assume s: "working i s \<and> G (rn_log s)" and run: "table_op env k f s = (Inr x, s')"
  have rows: "job_inv (en_other env k (rn_rows s))" "running_id i (en_other env k (rn_rows s))"
    using s other_inv other_running unfolding working_def by blast+
  obtain rows' where "f (en_now env k) (en_other env k (rn_rows s)) = Inr (rows', x)"
    and s': "s' = s\<lparr>rn_rows := rows'\<rparr>"
    using table_op_Inr [OF run] by blast
  from assms(1) [OF rows this(1)] s have "Q x \<lparr>rn_rows = rows', rn_log = rn_log s\<rparr>" by blast
  then show "Q x s'" unfolding s' by (cases s) simp
next
  fix s e s' assume s: "working i s \<and> G (rn_log s)" and run: "table_op env k f s = (Inl e, s')"
  have rows: "job_inv (en_other env k (rn_rows s))" "running_id i (en_other env k (rn_rows s))"
    using s other_inv other_running unfolding working_def by blast+
  from assms(2) [OF rows] table_op_Inl [OF run] s
  have "E e \<lparr>rn_rows = en_other env k (rn_rows s), rn_log = rn_log s\<rparr>" by blast
  then show "E e s'" using table_op_Inl [OF run] by (cases s) simp
qed

abbreviation at_log :: "string \<Rightarrow> (run_event list \<Rightarrow> bool) \<Rightarrow> run_state \<Rightarrow> bool" where
  "at_log i G s \<equiv> working i s \<and> G (rn_log s)"

lemma ensures_quiet_op:
  assumes "\<And>rows rows' x. job_inv rows \<Longrightarrow> running_id i rows \<Longrightarrow> f (en_now env k) rows = Inr (rows', x) \<Longrightarrow>
      job_inv rows' \<and> running_id i rows'"
  shows "act_ensures (at_log i G) (table_op env k f) (\<lambda>_. at_log i G) (\<lambda>_. at_log i G)"
proof (rule ensures_table_op)
  fix rows rows' x L
  assume *: "job_inv rows" "running_id i rows" "f (en_now env k) rows = Inr (rows', x)" and "G L"
  then show "at_log i G \<lparr>rn_rows = rows', rn_log = L\<rparr>"
    using assms [OF *] by (simp add: working_def)
qed (simp add: working_def)

lemma ensures_quiet_lift: "act_ensures (at_log i G) (act_lift r) (\<lambda>_. at_log i G) (\<lambda>_. at_log i G)"
  by (rule ensures_lift) auto

lemma ensures_quiet_read: "act_ensures (at_log i G) (table_read env k g) (\<lambda>_. at_log i G) (\<lambda>_. at_log i G)"
  unfolding table_read_def by (rule ensures_quiet_op) auto

lemma quiet_install:
  "act_ensures (at_log i G) (table_op env k (\<lambda>now. install_force_full_snapshot now j files))
     (\<lambda>_. at_log i G) (\<lambda>_. at_log i G)"
  by (rule ensures_quiet_op) (blast intro: install_snapshot_inv install_running)

lemma quiet_acknowledge:
  "act_ensures (at_log i G) (table_op env k (\<lambda>now. acknowledge_force_full_snapshot_files now j paths))
     (\<lambda>_. at_log i G) (\<lambda>_. at_log i G)"
  by (rule ensures_quiet_op) (blast intro: acknowledge_inv acknowledge_running)

lemma quiet_acknowledge_batches:
  "act_ensures (at_log i G) (acknowledge_batches env job bs) (\<lambda>_. at_log i G) (\<lambda>_. at_log i G)"
proof (induction bs)
  case Nil
  then show ?case by (simp add: ensures_return)
next
  case (Cons b bs)
  show ?case unfolding acknowledge_batches.simps by (rule ensures_seq [OF quiet_acknowledge Cons])
qed

lemma quiet_snapshot:
  "act_ensures (at_log i G) (force_snapshot_for_job env job) (\<lambda>_. at_log i G) (\<lambda>_. at_log i G)"
  unfolding force_snapshot_for_job_def
  by (intro ensures_if ensures_bind [OF ensures_quiet_lift] ensures_bind [OF quiet_install] ensures_quiet_lift)

lemma quiet_pipeline:
  "act_ensures (at_log i G) (run_pipeline env job) (\<lambda>_. at_log i G) (\<lambda>_. at_log i G)"
  unfolding run_pipeline_def
  by (cases "j_mode job"; simp only: job_mode.case)
     (intro ensures_bind [OF ensures_quiet_lift] ensures_bind [OF quiet_snapshot]
       ensures_seq [OF quiet_acknowledge_batches] ensures_quiet_lift ensures_raise; assumption)+

lemma quiet_stop:
  "act_ensures (at_log i G) (stop_if_cancelled env k job msg) (\<lambda>_. at_log i G) (\<lambda>_. at_log i G)"
  unfolding stop_if_cancelled_def
  by (intro ensures_bind [OF ensures_quiet_read] ensures_if ensures_raise ensures_return)

lemma quiet_execute:
  "act_ensures (at_log i G) (execute_job env job) (\<lambda>_. at_log i G) (\<lambda>_. at_log i G)"
proof -
  have fin: "act_ensures (at_log i G)
      ((\<lambda>(result, degraded). case degraded of None \<Rightarrow> act_return result
          | Some d \<Rightarrow> if d \<noteq> [] then act_raise (RuntimeError d) else act_return result) x)
      (\<lambda>_. at_log i G) (\<lambda>_. at_log i G)" for x :: pipeline_result
    by (cases x; cases "snd x") (auto intro: ensures_raise ensures_return)
  show ?thesis
    unfolding execute_job_def
    by (intro ensures_if ensures_quiet_lift ensures_seq [OF ensures_quiet_lift] ensures_seq [OF quiet_stop]
        ensures_bind [OF quiet_pipeline] fin)
qed

end

section \<open>The end of a turn\<close>

lemma not_running_after:
  assumes f: "\<And>r. \<not> running_status (f r)" "\<And>r. j_id (f r) = j_id r"
  shows "\<not> running_id i (update_id i f rows)"
  using f by (auto simp: running_id_def set_update_id split: if_splits)

lemma complete_ok:
  assumes inv: "job_inv rows" and i: "running_id i rows"
  shows "\<exists>rows' j. complete now i res rows = Inr (rows', j) \<and> job_inv rows' \<and> \<not> running_id i rows'
    \<and> j_status j \<in> {Completed, Cancelled}"
proof -
  obtain r where r: "find_job i rows = Some r" "running_status r" by (rule running_idE [OF i inv])
  let ?st = "if j_status r = Cancelling then Cancelled else Completed"
  have "complete now i res rows = Inr (update_id i (finish_job now ?st res) rows, finish_job now ?st res r)"
    using r get_locked_update_id [OF row_changes_id(3) r(1)] by (simp add: complete_def Let_def)
  moreover from this have "job_inv (update_id i (finish_job now ?st res) rows)" by (rule complete_inv [OF inv])
  moreover have "\<not> running_id i (update_id i (finish_job now ?st res) rows)"
    by (rule not_running_after) (simp_all add: finish_job_def)
  ultimately show ?thesis by (simp add: finish_job_def)
qed

lemma mark_ok:
  assumes inv: "job_inv rows" and i: "running_id i rows"
  shows "\<exists>rows' j. mark_cancelled now i rows = Inr (rows', j) \<and> job_inv rows' \<and> \<not> running_id i rows'
    \<and> j_status j = Cancelled"
proof -
  obtain r where r: "find_job i rows = Some r" "running_status r" by (rule running_idE [OF i inv])
  have "mark_cancelled now i rows = Inr (update_id i (release_cancelled now) rows, release_cancelled now r)"
    using get_locked_update_id [OF row_changes_id(9) r(1)] by (simp add: mark_cancelled_def)
  moreover from this have "job_inv (update_id i (release_cancelled now) rows)" by (rule mark_cancelled_inv [OF inv])
  moreover have "\<not> running_id i (update_id i (release_cancelled now) rows)"
    by (rule not_running_after) (simp_all add: release_cancelled_def)
  ultimately show ?thesis by (simp add: release_cancelled_def)
qed

lemma fail_ok:
  assumes inv: "job_inv rows" and i: "running_id i rows"
  shows "\<exists>rows' j. fail_or_retry now i e rows = Inr (rows', j) \<and> job_inv rows' \<and> \<not> running_id i rows'
    \<and> j_status j \<noteq> Completed"
proof -
  obtain r where r: "find_job i rows = Some r" "running_status r" by (rule running_idE [OF i inv])
  show ?thesis
  proof (rule fail_or_retry_cases [OF inv r, of now e], goal_cases)
    case 1
    moreover have "\<not> running_id i (update_id i (fail_row now Failed (j_attempts r + 1) e) rows)"
      by (rule not_running_after) (simp_all add: fail_row_def)
    ultimately show ?case by (simp add: fail_row_def)
  next
    case 2
    moreover have "\<not> running_id i (update_id i (fail_row now Queued (j_attempts r + 1) e) rows)"
      by (rule not_running_after) (simp_all add: fail_row_def)
    ultimately show ?case by (simp add: fail_row_def)
  next
    case (3 q m p)
    let ?f = "merged_away now (j_attempts r + 1) (e @ ''; merged into queued follow-up job'')"
    have "\<not> running_id i (update_id i ?f (update_id (j_id q) (absorb_into now m p) rows))"
      by (rule not_running_after) (simp_all add: merged_away_def)
    moreover have "j_status (absorb_into now m p q) \<noteq> Completed"
      using queued_row_Some [OF 3(2)] by (auto simp: absorb_into_def)
    ultimately show ?case using 3(4,5) by simp
  qed
qed

text \<open>The log of a turn that claimed row \<open>i\<close>: no other row is claimed, and nothing but a
  finished execution whose hook has run is published as completed.\<close>

definition clean_log :: "string \<Rightarrow> run_event list \<Rightarrow> bool" where
  "clean_log i l =
     ((\<exists>l'. l = Claimed i # l' \<and> (\<forall>j. Claimed j \<notin> set l')) \<and>
      (\<forall>l1 l2. l = l1 @ Published Completed # l2 \<longrightarrow> (\<exists>l0 res. l1 = l0 @ [Executed res, HookCompleted])))"

lemma snoc_split:
  "l @ [ev] = l1 @ x # l2 \<longleftrightarrow> (l2 = [] \<and> ev = x \<and> l1 = l) \<or> (\<exists>l3. l2 = l3 @ [ev] \<and> l = l1 @ x # l3)"
  by (cases l2 rule: rev_cases) auto

lemma clean_log_snoc:
  assumes "clean_log i l" "\<And>j. ev \<noteq> Claimed j"
    and "ev = Published Completed \<Longrightarrow> \<exists>l0 res. l = l0 @ [Executed res, HookCompleted]"
  shows "clean_log i (l @ [ev])"
proof -
  obtain l' where "l = Claimed i # l'" "\<forall>j. Claimed j \<notin> set l'"
    using assms(1) by (auto simp: clean_log_def)
  then have "\<exists>l'. l @ [ev] = Claimed i # l' \<and> (\<forall>j. Claimed j \<notin> set l')"
    using assms(2) by (intro exI [of _ "l' @ [ev]"]) (simp, metis)
  moreover have "\<forall>l1 l2. l @ [ev] = l1 @ Published Completed # l2 \<longrightarrow>
      (\<exists>l0 res. l1 = l0 @ [Executed res, HookCompleted])"
    using assms(1,3) unfolding clean_log_def snoc_split by blast
  ultimately show ?thesis unfolding clean_log_def by blast
qed

lemma clean_log_claim [simp]: "clean_log i [Claimed i]"
  by (auto simp: clean_log_def Cons_eq_append_conv)

context peaceful_runner
begin

lemma ensures_log:
  assumes "\<And>L. G L \<Longrightarrow> H (L @ [ev])"
  shows "act_ensures (at_log i G) (log_event ev) (\<lambda>_. at_log i H) E"
  unfolding log_event_def by (rule ensures_modify) (use assms in \<open>auto simp: working_def\<close>)

lemma ensures_released_log:
  assumes "\<And>L. G L \<Longrightarrow> H (L @ [ev])"
  shows "act_ensures (\<lambda>s. released i s \<and> G (rn_log s)) (log_event ev) (\<lambda>_ s. released i s \<and> H (rn_log s)) E"
  unfolding log_event_def by (rule ensures_modify) (use assms in \<open>auto simp: released_def\<close>)

lemma ensures_final:
  assumes "\<And>rows. job_inv rows \<Longrightarrow> running_id i rows \<Longrightarrow>
      \<exists>rows' j. f (en_now env k) rows = Inr (rows', j) \<and> job_inv rows' \<and> \<not> running_id i rows' \<and> P j"
  shows "act_ensures (at_log i G) (table_op env k f) (\<lambda>j s. released i s \<and> G (rn_log s) \<and> P j) E"
proof (rule ensures_table_op)
  fix rows rows' x L
  assume *: "job_inv rows" "running_id i rows" and "f (en_now env k) rows = Inr (rows', x)" "G L"
  then show "released i \<lparr>rn_rows = rows', rn_log = L\<rparr> \<and> G (rn_log \<lparr>rn_rows = rows', rn_log = L\<rparr>) \<and> P x"
    using assms [OF *] by (auto simp: released_def)
next
  fix rows e L assume *: "job_inv rows" "running_id i rows" "f (en_now env k) rows = Inl e"
  then show "E e \<lparr>rn_rows = rows, rn_log = L\<rparr>" using assms [OF *(1,2)] by auto
qed

lemma ensures_publish:
  assumes "\<And>L. G L \<Longrightarrow> P j \<Longrightarrow> H (L @ [Published (j_status j)])"
  shows "act_ensures (\<lambda>s. released i s \<and> G (rn_log s) \<and> P j) (publish j)
     (\<lambda>_ s. released i s \<and> H (rn_log s)) E"
  unfolding publish_def log_event_def
  by (rule ensures_modify) (use assms in \<open>auto simp: released_def\<close>)

lemma run_claimed_ensures:
  assumes "j_status job = Running" and i: "i = j_id job"
  shows "act_ensures (at_log i (clean_log i)) (run_claimed env job)
     (\<lambda>_ s. released i s \<and> clean_log i (rn_log s)) (\<lambda>_. at_log i (clean_log i))"
proof -
  let ?Exec = "\<lambda>L. clean_log i L \<and> (\<exists>l0 res. L = l0 @ [Executed res])"
  let ?Hook = "\<lambda>L. clean_log i L \<and> (\<exists>l0 res. L = l0 @ [Executed res, HookCompleted])"
  have hook: "?Hook (L @ [HookCompleted])" if "?Exec L" for L
    using that by (auto intro!: clean_log_snoc)
  have weak: "act_ensures (at_log i ?Exec) m Q (\<lambda>_. at_log i ?Exec) \<Longrightarrow>
      act_ensures (at_log i ?Exec) m Q (\<lambda>_. at_log i (clean_log i))" for m Q
    by (erule ensures_weaken) auto
  have fin1: "act_ensures (at_log i ?Exec) (table_op env 7 (\<lambda>now. mark_cancelled now (j_id job)))
      (\<lambda>j s. released i s \<and> ?Exec (rn_log s) \<and> j_status j = Cancelled) (\<lambda>_. at_log i (clean_log i))"
    unfolding i by (rule ensures_final) (rule mark_ok)
  have fin2: "act_ensures (at_log i ?Hook) (table_op env 8 (\<lambda>now. complete now (j_id job) result))
      (\<lambda>j s. released i s \<and> ?Hook (rn_log s) \<and> j_status j \<in> {Completed, Cancelled}) (\<lambda>_. at_log i (clean_log i))"
    for result
    unfolding i by (rule ensures_final) (rule complete_ok)
  have pub: "act_ensures (\<lambda>s. released i s \<and> (?Exec (rn_log s) \<and> j_status j = Cancelled
        \<or> ?Hook (rn_log s) \<and> j_status j \<in> {Completed, Cancelled})) (publish j)
      (\<lambda>_ s. released i s \<and> clean_log i (rn_log s)) (\<lambda>_. at_log i (clean_log i))" for j
    unfolding publish_def log_event_def
    by (rule ensures_modify) (auto simp: released_def intro!: clean_log_snoc)
  have finish: "act_ensures (at_log i ?Exec)
      (act_bind (if b then table_op env 7 (\<lambda>now. mark_cancelled now (j_id job))
        else act_seq (act_lift (en_completed env job)) (act_seq (log_event HookCompleted)
           (table_op env 8 (\<lambda>now. complete now (j_id job) result)))) publish)
      (\<lambda>_ s. released i s \<and> clean_log i (rn_log s)) (\<lambda>_. at_log i (clean_log i))" for b result
  proof (rule ensures_bind [OF _ pub], cases b)
    case True
    then show "act_ensures (at_log i ?Exec)
      (if b then table_op env 7 (\<lambda>now. mark_cancelled now (j_id job))
        else act_seq (act_lift (en_completed env job)) (act_seq (log_event HookCompleted)
           (table_op env 8 (\<lambda>now. complete now (j_id job) result))))
      (\<lambda>j s. released i s \<and> (?Exec (rn_log s) \<and> j_status j = Cancelled
        \<or> ?Hook (rn_log s) \<and> j_status j \<in> {Completed, Cancelled})) (\<lambda>_. at_log i (clean_log i))"
      using fin1 by simp (erule ensures_weaken; simp)
  next
    case False
    have "act_ensures (at_log i ?Exec)
      (act_seq (act_lift (en_completed env job)) (act_seq (log_event HookCompleted)
           (table_op env 8 (\<lambda>now. complete now (j_id job) result))))
      (\<lambda>j s. released i s \<and> ?Hook (rn_log s) \<and> j_status j \<in> {Completed, Cancelled}) (\<lambda>_. at_log i (clean_log i))"
      by (intro ensures_seq [OF weak [OF ensures_quiet_lift]] ensures_seq [OF ensures_log fin2] hook)
    then show "act_ensures (at_log i ?Exec)
      (if b then table_op env 7 (\<lambda>now. mark_cancelled now (j_id job))
        else act_seq (act_lift (en_completed env job)) (act_seq (log_event HookCompleted)
           (table_op env 8 (\<lambda>now. complete now (j_id job) result))))
      (\<lambda>j s. released i s \<and> (?Exec (rn_log s) \<and> j_status j = Cancelled
        \<or> ?Hook (rn_log s) \<and> j_status j \<in> {Completed, Cancelled})) (\<lambda>_. at_log i (clean_log i))"
      using False by simp (erule ensures_weaken; simp)
  qed
  show ?thesis
    unfolding run_claimed_def publish_def
    by (intro ensures_seq [OF ensures_quiet_lift] ensures_seq [OF ensures_log [where H = "clean_log i"]]
        ensures_bind [OF quiet_execute] ensures_seq [OF ensures_log [where H = ?Exec]]
        ensures_bind [OF weak [OF ensures_quiet_read]] finish [unfolded publish_def])
      (auto simp: assms(1) intro!: clean_log_snoc)
qed

lemma run_failed_ensures:
  assumes i: "i = j_id job"
  shows "act_ensures (at_log i (clean_log i)) (run_failed env job e)
     (\<lambda>_ s. released i s \<and> clean_log i (rn_log s)) (\<lambda>_ s. released i s \<and> clean_log i (rn_log s))"
proof -
  let ?R = "\<lambda>s. released i s \<and> clean_log i (rn_log s)"
  have mark: "act_ensures (at_log i (clean_log i)) (table_op env 9 (\<lambda>now. mark_cancelled now (j_id job)))
      (\<lambda>j s. released i s \<and> clean_log i (rn_log s) \<and> j_status j = Cancelled) E" for E
    unfolding i by (rule ensures_final) (rule mark_ok)
  have fail: "act_ensures (at_log i (clean_log i)) (table_op env 10 (\<lambda>now. fail_or_retry now (j_id job) m))
      (\<lambda>j s. released i s \<and> clean_log i (rn_log s) \<and> j_status j \<noteq> Completed) E" for E m
    unfolding i by (rule ensures_final) (rule fail_ok)
  have pub: "act_ensures (\<lambda>s. released i s \<and> clean_log i (rn_log s) \<and> j_status j \<noteq> Completed) (publish j)
      (\<lambda>_. ?R) (\<lambda>_. ?R)" for j
    by (rule ensures_publish) (auto intro: clean_log_snoc)
  have hook: "act_ensures (\<lambda>s. released i s \<and> clean_log i (rn_log s) \<and> j_status j \<noteq> Completed)
      (act_seq (act_lift (en_failed env j)) (act_seq (log_event HookFailed) (publish j))) (\<lambda>_. ?R) (\<lambda>_. ?R)" for j
    unfolding publish_def log_event_def
    by (rule ensures_seq [where R = "\<lambda>s. ?R s \<and> j_status j \<noteq> Completed"], rule ensures_lift, simp, simp,
        rule ensures_seq [where R = "\<lambda>s. ?R s \<and> j_status j \<noteq> Completed"])
       (rule ensures_modify; auto simp: released_def intro!: clean_log_snoc)+
  have generic: "act_ensures (at_log i (clean_log i))
      (act_bind (table_op env 10 (\<lambda>now. fail_or_retry now (j_id job) m)) (\<lambda>final.
            if j_status final = Failed
            then act_seq (act_lift (en_failed env final)) (act_seq (log_event HookFailed) (publish final))
            else publish final)) (\<lambda>_. ?R) (\<lambda>_. ?R)" for m
    by (intro ensures_bind [OF fail] ensures_if hook pub)
  have cancelled: "act_ensures (at_log i (clean_log i))
      (act_bind (table_op env 9 (\<lambda>now. mark_cancelled now (j_id job))) publish) (\<lambda>_. ?R) (\<lambda>_. ?R)"
    by (rule ensures_bind [OF mark], rule ensures_weaken [OF pub]) auto
  show ?thesis
    unfolding run_failed_def by (cases e) (simp_all only: exc.case generic cancelled)
qed

lemma run_once_result:
  assumes inv: "job_inv (rn_rows s)" and log: "rn_log s = []" and run: "run_once env s = (r, s')"
  shows "job_inv (rn_rows s') \<and>
    ((r = Inr False \<and> rn_log s' = []) \<or>
     (\<exists>i. r \<noteq> Inr False \<and> clean_log i (rn_log s') \<and> \<not> running_id i (rn_rows s')))"
proof -
  let ?rows = "en_other env 0 (rn_rows s)"
  have inv0: "job_inv ?rows" by (rule other_inv [OF inv])
  note start = claim_next_cases [OF inv0, of "en_now env 0" "en_owner env" "en_lease env"]
  show ?thesis
  proof (rule start)
    assume "claim_next (en_now env 0) (en_owner env) (en_lease env) ?rows = Inr (?rows, None)"
    then have "r = Inr False \<and> s' = s\<lparr>rn_rows := ?rows\<rparr>"
      using run by (simp add: run_once_def act_bind_def table_op_def act_return_def)
    then show ?thesis using inv0 log by simp
  next
    fix j assume j: "j \<in> set ?rows" "claimable ?rows j"
      and claim: "claim_next (en_now env 0) (en_owner env) (en_lease env) ?rows =
        Inr (update_id (j_id j) (start_job (en_now env 0) (en_owner env) (en_lease env)) ?rows,
             Some (start_job (en_now env 0) (en_owner env) (en_lease env) j))"
    let ?f = "start_job (en_now env 0) (en_owner env) (en_lease env)"
    let ?job = "?f j"
    define s1 where "s1 = \<lparr>rn_rows = update_id (j_id j) ?f ?rows, rn_log = [Claimed (j_id ?job)]\<rparr>"
    have "?job \<in> set (rn_rows s1)" using set_update_row [OF job_invD(1) [OF inv0] j(1)] by (simp add: s1_def)
    then have "running_id (j_id ?job) (rn_rows s1)"
      unfolding running_id_def by (rule bexI [rotated]) (simp add: start_job_def)
    then have s1: "at_log (j_id ?job) (clean_log (j_id ?job)) s1"
      using start_job_inv [OF inv0 j] by (simp add: s1_def working_def)
    have rest: "act_seq (act_handle (run_claimed env ?job) (run_failed env ?job)) (act_return True) s1 = (r, s')"
      using run claim log
      by (cases s) (simp add: run_once_def act_bind_def table_op_def act_seq_def log_event_def act_modify_def s1_def)
    have st: "j_status ?job = Running" by (simp add: start_job_def)
    have turn: "act_ensures (at_log (j_id ?job) (clean_log (j_id ?job)))
        (act_seq (act_handle (run_claimed env ?job) (run_failed env ?job)) (act_return True))
        (\<lambda>b s. b \<and> released (j_id ?job) s \<and> clean_log (j_id ?job) (rn_log s))
        (\<lambda>_ s. released (j_id ?job) s \<and> clean_log (j_id ?job) (rn_log s))"
      by (rule ensures_seq [OF ensures_handle [OF run_claimed_ensures [OF st refl] run_failed_ensures [OF refl]]])
         (rule ensures_return, simp)
    have "r \<noteq> Inr False \<and> released (j_id ?job) s' \<and> clean_log (j_id ?job) (rn_log s')"
    proof (cases r)
      case (Inl e)
      then show ?thesis using ensures_Inl [OF turn, of s1 e s'] s1 rest by simp
    next
      case (Inr b)
      then show ?thesis using ensures_Inr [OF turn, of s1 b s'] s1 rest by simp
    qed
    then show ?thesis by (auto simp: released_def)
  qed
qed

end

interpretation served: peaceful_runner "env\<lparr>en_other := serve plan\<rparr>" for env plan
  by unfold_locales (simp_all add: requests.other_inv requests.other_running)

text \<open>C2: One turn of the worker, with any sequence of enqueue, cancel and lease requests of
  other tasks interleaved at every await, keeps the invariant of the table; when it claimed
  a row, that row is no longer running when the turn ends, whatever the hooks and the
  pipeline returned or raised; and a job is published as completed only right after its
  execution returned normally and the completion hook ran.\<close>

theorem run_once_settles_job:
  assumes "job_inv (rn_rows s)" "rn_log s = []"
    and "run_once (env\<lparr>en_other := serve plan\<rparr>) s = (r, s')"
  shows "job_inv (rn_rows s') \<and>
    ((r = Inr False \<and> rn_log s' = []) \<or>
     (\<exists>i. r \<noteq> Inr False \<and> clean_log i (rn_log s') \<and> \<not> running_id i (rn_rows s')))"
  using assms by (rule served.run_once_result)

definition demo_env :: runner_env where
  "demo_env = \<lparr>en_now = \<lambda>k. k, en_other = \<lambda>_ rows. rows, en_owner = ''w'', en_lease = 300,
     en_fs = plain_fs, en_started = \<lambda>_. Inr (), en_completed = \<lambda>_. Inr (), en_failed = \<lambda>_. Inr (),
     en_deleter = \<lambda>_. Inr [], en_open = \<lambda>_. Inr (), en_files = \<lambda>_ _ _. Inr ([], None),
     en_cleanup = \<lambda>_. Inr ([], None), en_full = \<lambda>_. Inr ([], None), en_manifest = \<lambda>_. Inr [],
     en_force = \<lambda>_ _. ([], Inr ([], None))\<rparr>"

definition demo_plan :: "nat \<Rightarrow> table_request list" where
  "demo_plan k =
     (if k = 0 then [Enqueue 0 ''j1'' ''/r'' None None Full ''push'' [] []]
      else if k = 6 then [Enqueue 1 ''j2'' ''/r'' None None Files ''save'' [''a''] [], Cancel 2 ''j1'']
      else [])"

definition demo_state :: run_state where
  "demo_state = \<lparr>rn_rows = [], rn_log = []\<rparr>"

definition demo_run :: "(exc + bool) \<times> run_state" where
  "demo_run = run_once (demo_env\<lparr>en_other := serve demo_plan\<rparr>) demo_state"

theorem run_once_settles_job_witness:
  "job_inv (rn_rows (snd demo_run)) \<and>
    ((fst demo_run = Inr False \<and> rn_log (snd demo_run) = []) \<or>
     (\<exists>i. fst demo_run \<noteq> Inr False \<and> clean_log i (rn_log (snd demo_run))
        \<and> \<not> running_id i (rn_rows (snd demo_run))))"
  by (rule run_once_settles_job [where s = demo_state and env = demo_env and plan = demo_plan])
     (simp_all add: demo_state_def demo_run_def)

lemma demo_run_cancelled:
  "fst demo_run = Inr True \<and>
   rn_log (snd demo_run) = [Claimed ''j1'', Started, Published Running, Executed [], Published Cancelled]
   \<and> map j_status (rn_rows (snd demo_run)) = [Cancelled, Queued]"
  by code_simp

end
