(* ===== verification/Job_Queue.thy ===== *)
theory Job_Queue
  imports Job_Runner
begin

text \<open>
  The queue as a transition system: the durable table together with the row the one worker
  of the process is executing, if any.  Other tasks send requests at any time, the worker
  claims, reports and finishes, the process may crash and a new one recovers the leases
  before it claims.  Then what single operations promise.
\<close>

section \<open>The transition system\<close>

record queue_sys =
  qs_rows :: jobs
  qs_worker :: "string option"

inductive queue_step :: "queue_sys \<Rightarrow> queue_sys \<Rightarrow> bool" where
  request: "queue_step \<lparr>qs_rows = rows, qs_worker = w\<rparr> \<lparr>qs_rows = apply_request a rows, qs_worker = w\<rparr>"
| claim: "claim_next now owner lease rows = Inr (rows', Some j) \<Longrightarrow>
    queue_step \<lparr>qs_rows = rows, qs_worker = None\<rparr> \<lparr>qs_rows = rows', qs_worker = Some (j_id j)\<rparr>"
| install: "install_force_full_snapshot now i files rows = Inr (rows', j) \<Longrightarrow>
    queue_step \<lparr>qs_rows = rows, qs_worker = Some i\<rparr> \<lparr>qs_rows = rows', qs_worker = Some i\<rparr>"
| acknowledge: "acknowledge_force_full_snapshot_files now i paths rows = Inr (rows', j) \<Longrightarrow>
    queue_step \<lparr>qs_rows = rows, qs_worker = Some i\<rparr> \<lparr>qs_rows = rows', qs_worker = Some i\<rparr>"
| finish: "complete now i result rows = Inr (rows', j) \<Longrightarrow>
    queue_step \<lparr>qs_rows = rows, qs_worker = Some i\<rparr> \<lparr>qs_rows = rows', qs_worker = None\<rparr>"
| failure: "fail_or_retry now i error rows = Inr (rows', j) \<Longrightarrow>
    queue_step \<lparr>qs_rows = rows, qs_worker = Some i\<rparr> \<lparr>qs_rows = rows', qs_worker = None\<rparr>"
| stopped: "mark_cancelled now i rows = Inr (rows', j) \<Longrightarrow>
    queue_step \<lparr>qs_rows = rows, qs_worker = Some i\<rparr> \<lparr>qs_rows = rows', qs_worker = None\<rparr>"
| crash: "queue_step \<lparr>qs_rows = rows, qs_worker = w\<rparr> \<lparr>qs_rows = rows, qs_worker = None\<rparr>"
| restart: "start_runner now owner rows = Inr (rows', js) \<Longrightarrow>
    queue_step \<lparr>qs_rows = rows, qs_worker = None\<rparr> \<lparr>qs_rows = rows', qs_worker = None\<rparr>"

inductive_cases queue_stepE: "queue_step s t"

inductive queue_reachable :: "queue_sys \<Rightarrow> bool" where
  initial: "queue_reachable \<lparr>qs_rows = [], qs_worker = None\<rparr>"
| step: "queue_reachable s \<Longrightarrow> queue_step s t \<Longrightarrow> queue_reachable t"

definition queue_inv :: "queue_sys \<Rightarrow> bool" where
  "queue_inv s =
     (job_inv (qs_rows s) \<and> (\<forall>i. qs_worker s = Some i \<longrightarrow> running_id i (qs_rows s)))"

lemma claim_running:
  assumes inv: "job_inv rows" and claim: "claim_next now owner lease rows = Inr (rows', Some j)"
  shows "running_id (j_id j) rows'"
proof (rule claim_next_cases [OF inv, of now owner lease])
  fix r assume r: "r \<in> set rows"
    and eq: "claim_next now owner lease rows =
      Inr (update_id (j_id r) (start_job now owner lease) rows, Some (start_job now owner lease r))"
  then have "rows' = update_id (j_id r) (start_job now owner lease) rows" "j = start_job now owner lease r"
    using claim by auto
  then have "j \<in> set rows'" "running_status j"
    using set_update_row [OF job_invD(1) [OF inv] r] by (auto simp: start_job_def)
  then show ?thesis unfolding running_id_def by blast
qed (use claim in simp)

lemma queue_inv_step: "queue_step s t \<Longrightarrow> queue_inv s \<Longrightarrow> queue_inv t"
proof (induction rule: queue_step.induct)
  case (request rows w a)
  then show ?case using apply_request_ok by (auto simp: queue_inv_def)
next
  case (claim now owner lease rows rows' j)
  then show ?case using claim_next_inv claim_running by (auto simp: queue_inv_def)
next
  case (install now i files rows rows' j)
  then show ?case using install_snapshot_inv install_running by (auto simp: queue_inv_def)
next
  case (acknowledge now i paths rows rows' j)
  then show ?case using acknowledge_inv acknowledge_running by (auto simp: queue_inv_def)
next
  case (finish now i result rows rows' j)
  then show ?case using complete_inv by (auto simp: queue_inv_def)
next
  case (failure now i error rows rows' j)
  then show ?case
    using fail_or_retry_inv by (auto simp: queue_inv_def elim!: running_idE)
next
  case (stopped now i rows rows' j)
  then show ?case using mark_cancelled_inv by (auto simp: queue_inv_def)
next
  case (restart now owner rows rows' js)
  then show ?case
    using reclaim_stale_ok [of rows now "if owner = [] then None else Some owner"]
    by (auto simp: queue_inv_def start_runner_def)
qed (simp add: queue_inv_def)

lemma queue_reachable_inv: "queue_reachable s \<Longrightarrow> queue_inv s"
  by (induction rule: queue_reachable.induct) (auto simp: queue_inv_def [of "\<lparr>qs_rows = [], qs_worker = None\<rparr>"]
      intro: queue_inv_step)

section \<open>Safety of every reachable queue\<close>

text \<open>C1: In every state the queue can reach, through any interleaving of requests, worker
  steps, crashes and restarts: job ids are unique; a repository has at most one queued job
  and a store at most one running job; a job holds a lease exactly while it runs; an
  unfinished job has attempts left; a finished one has its finish time; a deletion is the
  only unfinished deletion of its repository and no index job of its repository and store
  is queued beside it; and the job the worker executes is one the table shows as running.\<close>

theorem queue_safety:
  assumes "queue_reachable s"
  shows "distinct (map j_id (qs_rows s))
    \<and> (\<forall>r\<in>set (qs_rows s). \<forall>t\<in>set (qs_rows s). j_id r \<noteq> j_id t \<longrightarrow>
         \<not> (queued_status r \<and> queued_status t \<and> j_repo r = j_repo t)
       \<and> \<not> (running_status r \<and> running_status t \<and> store_key r = store_key t)
       \<and> \<not> (j_mode r = DropIndex \<and> active_status r \<and> j_repo r = j_repo t
            \<and> (j_mode t = DropIndex \<and> active_status t \<or> queued_status t \<and> store_key r = store_key t)))
    \<and> (\<forall>r\<in>set (qs_rows s).
         (running_status r \<longleftrightarrow> j_lease_owner r \<noteq> None \<and> j_lease_expires r \<noteq> None)
       \<and> (active_status r \<longrightarrow> j_attempts r < j_max_attempts r)
       \<and> (active_status r \<longleftrightarrow> j_finished r = None))
    \<and> (\<forall>i. qs_worker s = Some i \<longrightarrow> (\<exists>r\<in>set (qs_rows s). j_id r = i \<and> running_status r))"
proof -
  have inv: "queue_inv s" by (rule queue_reachable_inv [OF assms])
  then have ji: "job_inv (qs_rows s)" by (simp add: queue_inv_def)
  have pair: "\<not> (queued_status r \<and> queued_status t \<and> j_repo r = j_repo t)
       \<and> \<not> (running_status r \<and> running_status t \<and> store_key r = store_key t)
       \<and> \<not> (j_mode r = DropIndex \<and> active_status r \<and> j_repo r = j_repo t
            \<and> (j_mode t = DropIndex \<and> active_status t \<or> queued_status t \<and> store_key r = store_key t))"
    if "r \<in> set (qs_rows s)" "t \<in> set (qs_rows s)" "j_id r \<noteq> j_id t" for r t
    using job_invD(3) [OF ji that] unfolding compatible_def excludes_def by blast
  have row: "(running_status r \<longleftrightarrow> j_lease_owner r \<noteq> None \<and> j_lease_expires r \<noteq> None)
       \<and> (active_status r \<longrightarrow> j_attempts r < j_max_attempts r)
       \<and> (active_status r \<longleftrightarrow> j_finished r = None)"
    if "r \<in> set (qs_rows s)" for r
    using job_invD(2) [OF ji that] unfolding row_ok_def by blast
  have worker: "\<forall>i. qs_worker s = Some i \<longrightarrow> (\<exists>r\<in>set (qs_rows s). j_id r = i \<and> running_status r)"
    using inv by (auto simp: queue_inv_def running_id_def)
  show ?thesis by (intro conjI ballI impI job_invD(1) [OF ji] pair row worker)
qed

definition demo_queue :: queue_sys where
  "demo_queue =
     \<lparr>qs_rows = apply_request (Enqueue 1 ''j2'' ''/r'' None None Files ''save'' [''a''] [])
        (update_id ''j1'' (start_job 1 ''w'' 300)
          [new_job 0 ''j1'' (service_request ''/r'' None None Full ''push'' [] []) []]),
      qs_worker = Some ''j1''\<rparr>"

lemma demo_queue_reachable: "queue_reachable demo_queue"
proof -
  let ?r0 = "[new_job 0 ''j1'' (service_request ''/r'' None None Full ''push'' [] []) []]"
  let ?r1 = "update_id ''j1'' (start_job 1 ''w'' 300) ?r0"
  have "queue_reachable \<lparr>qs_rows = apply_request (Enqueue 0 ''j1'' ''/r'' None None Full ''push'' [] []) [],
      qs_worker = None\<rparr>"
    by (rule queue_reachable.step [OF queue_reachable.initial queue_step.request])
  moreover have "apply_request (Enqueue 0 ''j1'' ''/r'' None None Full ''push'' [] []) [] = ?r0"
    by code_simp
  ultimately have r0: "queue_reachable \<lparr>qs_rows = ?r0, qs_worker = None\<rparr>" by simp
  have "claim_next 1 ''w'' 300 ?r0 = Inr (?r1, Some (start_job 1 ''w'' 300 (hd ?r0)))" by code_simp
  from queue_reachable.step [OF r0 queue_step.claim [OF this]]
  have "queue_reachable \<lparr>qs_rows = ?r1, qs_worker = Some ''j1''\<rparr>" by (simp add: new_job_def)
  from queue_reachable.step [OF this queue_step.request] show ?thesis unfolding demo_queue_def .
qed

theorem queue_safety_witness:
  "\<exists>s::queue_sys. map j_status (qs_rows s) = [Running, Queued] \<and> qs_worker s = Some ''j1''
    \<and> distinct (map j_id (qs_rows s))"
proof (intro exI conjI)
  show "map j_status (qs_rows demo_queue) = [Running, Queued]" by code_simp
  show "qs_worker demo_queue = Some ''j1''" by code_simp
  show "distinct (map j_id (qs_rows demo_queue))"
    by (rule queue_safety [OF demo_queue_reachable, THEN conjunct1])
qed

section \<open>Claiming\<close>

text \<open>C3: \<open>claim_next\<close> hands out work exactly when there is some: it returns nothing only
  when every queued job waits for a running job of its store; otherwise it returns a queued
  job of an idle store that comes first (cleanups last, then the oldest), marks that row
  running under the caller's lease, and changes no other row.\<close>

theorem claim_next_fair:
  assumes "job_inv rows"
  shows "\<exists>rows' result. claim_next now owner lease rows = Inr (rows', result) \<and>
    (case result of
       None \<Rightarrow> rows' = rows \<and> (\<forall>r\<in>set rows. queued_status r \<longrightarrow>
         (\<exists>t\<in>set rows. running_status t \<and> store_key t = store_key r))
     | Some j \<Rightarrow> \<exists>r\<in>set rows. j = start_job now owner lease r \<and> queued_status r
         \<and> (\<forall>t\<in>set rows. running_status t \<longrightarrow> store_key t \<noteq> store_key r)
         \<and> (\<forall>t\<in>set rows. claimable rows t \<longrightarrow> claim_key r \<le> claim_key t)
         \<and> set rows' = insert j (set rows - {r}))"
proof (rule claim_next_cases [OF assms, of now owner lease])
  assume "\<forall>r\<in>set rows. \<not> claimable rows r" "claim_next now owner lease rows = Inr (rows, None)"
  then show ?thesis by (auto simp: claimable_def)
next
  fix r assume r: "r \<in> set rows" "claimable rows r"
    "\<forall>t\<in>set rows. claimable rows t \<longrightarrow> claim_key r \<le> claim_key t"
    "claim_next now owner lease rows =
       Inr (update_id (j_id r) (start_job now owner lease) rows, Some (start_job now owner lease r))"
  moreover have "set (update_id (j_id r) (start_job now owner lease) rows)
      = insert (start_job now owner lease r) (set rows - {r})"
    by (rule set_update_row [OF job_invD(1) [OF assms] r(1)])
  ultimately show ?thesis by (auto simp: claimable_def)
qed

definition demo_rows :: jobs where
  "demo_rows =
     [new_job 5 ''c'' (service_request ''/a'' None None Cleanup '''' [] []) [],
      new_job 6 ''b'' (service_request ''/b'' (Some ''s'') None Full '''' [] []) [],
      new_job 7 ''d'' (service_request ''/d'' (Some ''s'') None ForceFull '''' [] []) []]"

lemma demo_rows_inv: "job_inv demo_rows"
  by code_simp

theorem claim_next_fair_witness:
  "\<exists>rows' result. claim_next 9 ''w'' 300 demo_rows = Inr (rows', result) \<and> result \<noteq> None \<and>
     (case result of None \<Rightarrow> rows' = demo_rows | Some j \<Rightarrow> j_id j = ''b'')"
proof -
  obtain rows' result where "claim_next 9 ''w'' 300 demo_rows = Inr (rows', result)"
    using claim_next_fair [OF demo_rows_inv, of 9 "''w''" 300] by blast
  moreover have "claim_next 9 ''w'' 300 demo_rows =
     Inr (update_id ''b'' (start_job 9 ''w'' 300) demo_rows, Some (start_job 9 ''w'' 300 (demo_rows ! 1)))"
    by code_simp
  ultimately show ?thesis by (auto simp: demo_rows_def new_job_def start_job_def)
qed

section \<open>Deletions own their repository\<close>

lemma active_deletion_unique:
  assumes inv: "job_inv rows" and d: "d \<in> set rows" "j_mode d = DropIndex" "active_status d"
  shows "deletion_row (j_repo d) rows = Some d"
proof -
  obtain d' where d': "deletion_row (j_repo d) rows = Some d'"
    using deletion_row_None [of "j_repo d" rows] d by (cases "deletion_row (j_repo d) rows") auto
  note * = deletion_row_Some [OF d']
  have "\<not> compatible d d'" using * d unfolding compatible_def excludes_def by simp
  then have "d' = d"
    using job_invD(3) [OF inv d(1)] * distinct_ids_inj [OF job_invD(1) [OF inv]] d(1) by blast
  with d' show ?thesis by simp
qed

text \<open>Aux: While a deletion of a repository is queued or running, every index request for that
  repository is refused and leaves the table as it is, and every further deletion request
  returns the deletion already there without creating another; an accepted deletion request
  on a repository without one leaves exactly such a job.\<close>

theorem deletion_owns_repository:
  assumes inv: "job_inv rows" and q: "request_ok q" "normalize_payload (q_mode q) (q_payload q) = Inr p"
    and fresh: "fresh \<notin> j_id ` set rows"
  shows "(\<forall>d\<in>set rows. j_repo d = q_repo q \<and> j_mode d = DropIndex \<and> active_status d \<longrightarrow>
      enqueue now fresh q rows =
        (if q_mode q = DropIndex then Inr (rows, d)
         else Inl (ValueError ''repository deletion is in progress'')))
    \<and> (q_mode q = DropIndex \<longrightarrow> (\<exists>rows' d. enqueue now fresh q rows = Inr (rows', d) \<and>
        d \<in> set rows' \<and> j_repo d = q_repo q \<and> j_mode d = DropIndex \<and> active_status d))"
proof (intro conjI ballI impI)
  fix d assume "d \<in> set rows" "j_repo d = q_repo q \<and> j_mode d = DropIndex \<and> active_status d"
  then have "deletion_row (q_repo q) rows = Some d" using active_deletion_unique [OF inv] by metis
  then show "enqueue now fresh q rows = (if q_mode q = DropIndex then Inr (rows, d)
         else Inl (ValueError ''repository deletion is in progress''))"
    using q(2) by (simp add: enqueue_def)
next
  assume drop: "q_mode q = DropIndex"
  show "\<exists>rows' d. enqueue now fresh q rows = Inr (rows', d) \<and>
        d \<in> set rows' \<and> j_repo d = q_repo q \<and> j_mode d = DropIndex \<and> active_status d"
  proof (rule enqueue_cases [OF inv fresh q, of now], goal_cases)
    case (1 d)
    then show ?case using deletion_row_Some by blast
  next
    case (3 r m p')
    have "m = DropIndex" using merge_mode [OF 3(3)] drop by (cases "j_mode r") (auto simp: mode_rank_def)
    moreover have "coalesce_into now q m p' r \<in> set (update_id (j_id r) (coalesce_into now q m p') rows)"
      using set_update_row [OF job_invD(1) [OF inv]] queued_row_Some [OF 3(2)] by blast
    ultimately show ?case using 3(6) queued_row_Some [OF 3(2)] by (auto simp: coalesce_into_def)
  next
    case 4
    then show ?case using drop by (auto simp: new_job_def)
  qed (use drop in simp)
qed

definition demo_deletion :: jobs where
  "demo_deletion = [new_job 5 ''d'' (service_request ''/a'' None None DropIndex '''' [] []) []]"

theorem deletion_owns_repository_witness:
  "enqueue 6 ''n'' (service_request ''/a'' None None Full ''push'' [] []) demo_deletion =
     Inl (ValueError ''repository deletion is in progress'')"
proof -
  let ?q = "service_request ''/a'' None None Full ''push'' [] []"
  have inv: "job_inv demo_deletion" by code_simp
  have norm: "normalize_payload (q_mode ?q) (q_payload ?q) = Inr []" by code_simp
  have fresh: "''n'' \<notin> j_id ` set demo_deletion" by code_simp
  have d: "hd demo_deletion \<in> set demo_deletion" by (simp add: demo_deletion_def)
  have own: "j_repo (hd demo_deletion) = q_repo ?q \<and> j_mode (hd demo_deletion) = DropIndex
      \<and> active_status (hd demo_deletion)" by code_simp
  have mode: "q_mode ?q \<noteq> DropIndex" by code_simp
  from deletion_owns_repository [OF inv service_request_ok norm fresh, of 6, THEN conjunct1] d own
  have "enqueue 6 ''n'' ?q demo_deletion =
      (if q_mode ?q = DropIndex then Inr (demo_deletion, hd demo_deletion)
       else Inl (ValueError ''repository deletion is in progress''))" by blast
  with mode show ?thesis by (simp only: if_False)
qed

section \<open>Failure and retry\<close>

text \<open>Aux: \<open>fail_or_retry\<close> on a job that runs never raises and always takes the job off the
  worker: with its attempts used up it fails; otherwise it goes back to the queue with one
  attempt more, or, when the repository already has a queued follow-up, it is closed and
  its work is merged into that follow-up.  No other row changes.\<close>

theorem fail_or_retry_outcome:
  assumes inv: "job_inv rows" and r: "find_job i rows = Some r" "running_status r"
  shows "\<exists>rows' j. fail_or_retry now i e rows = Inr (rows', j) \<and> job_inv rows' \<and> \<not> running_id i rows' \<and>
    (if j_max_attempts r \<le> j_attempts r + 1
     then j = fail_row now Failed (j_attempts r + 1) e r \<and> set rows' = insert j (set rows - {r})
     else
       (case queued_row (j_repo r) rows of
          None \<Rightarrow> j = fail_row now Queued (j_attempts r + 1) e r \<and> set rows' = insert j (set rows - {r})
        | Some q \<Rightarrow> \<exists>m p. merge_payload (j_mode q) (j_payload q) (j_mode r) (j_payload r) = Inr (m, p)
            \<and> j = absorb_into now m p q
            \<and> set rows' = {j, merged_away now (j_attempts r + 1) (e @ ''; merged into queued follow-up job'') r}
                \<union> (set rows - {q, r})))"
proof -
  have ri: "r \<in> set rows" "j_id r = i" using find_job_Some [OF r(1)] by auto
  note row = set_update_row [OF job_invD(1) [OF inv] ri(1), unfolded ri(2)]
  obtain rows1 j1 where ok: "fail_or_retry now i e rows = Inr (rows1, j1)" "\<not> running_id i rows1"
    using fail_ok [OF inv] r ri unfolding running_id_def by blast
  show ?thesis
  proof (rule fail_or_retry_cases [OF inv r, of now e], goal_cases)
    case 1
    then show ?case using ok row by auto
  next
    case 2
    then show ?case using ok row by auto
  next
    case (3 q m p)
    have q: "q \<in> set rows" "queued_status q" using queued_row_Some [OF 3(2)] by auto
    let ?g = "absorb_into now m p"
      and ?f = "merged_away now (j_attempts r + 1) (e @ ''; merged into queued follow-up job'')"
    let ?rows1 = "update_id (j_id q) ?g rows"
    have ne: "j_id q \<noteq> i"
      using distinct_ids_inj [OF job_invD(1) [OF inv] q(1) ri(1)] q(2) r(2) ri(2)
        not_queued_and_running [of "j_status r"] by auto
    have set1: "set ?rows1 = insert (?g q) (set rows - {q})"
      by (rule set_update_row [OF job_invD(1) [OF inv] q(1)])
    have "distinct (map j_id ?rows1)" using job_invD(1) [OF inv] by simp
    moreover have "r \<in> set ?rows1" using set1 ri ne by auto
    ultimately have "set (update_id i ?f ?rows1) = insert (?f r) (set ?rows1 - {r})"
      using set_update_row ri(2) by blast
    also have "\<dots> = {?g q, ?f r} \<union> (set rows - {q, r})"
    proof -
      have "?g q \<noteq> r" using ne ri(2) row_changes_id(4) by metis
      then show ?thesis unfolding set1 by blast
    qed
    finally show ?case using 3 ok by simp
  qed
qed

text \<open>A job three attempts old with an older running row and a queued follow-up.\<close>

definition demo_busy :: jobs where
  "demo_busy =
     [start_job 1 ''w'' 300 (new_job 0 ''j1'' (service_request ''/r'' None None Full '''' [] []) []),
      new_job 2 ''j2'' (service_request ''/r'' None None Files '''' [] []) (files_payload [''a''] [])]"

lemma demo_busy_facts:
  "job_inv demo_busy" "find_job ''j1'' demo_busy = Some (hd demo_busy)" "running_status (hd demo_busy)"
  "queued_row (j_repo (hd demo_busy)) demo_busy = Some (demo_busy ! 1)"
  "\<not> j_max_attempts (hd demo_busy) \<le> j_attempts (hd demo_busy) + 1"
  by code_simp+

theorem fail_or_retry_outcome_witness:
  "\<exists>rows' j. fail_or_retry 3 ''j1'' ''boom'' demo_busy = Inr (rows', j) \<and> \<not> running_id ''j1'' rows'
     \<and> (\<exists>m p. merge_payload Files (files_payload [''a''] []) Full [] = Inr (m, p)
         \<and> j = absorb_into 3 m p (demo_busy ! 1))"
  using fail_or_retry_outcome [OF demo_busy_facts(1-3), of 3 "''boom''"] demo_busy_facts(4,5)
  by (auto simp: demo_busy_def new_job_def start_job_def service_request_def)

text \<open>C5: A cancellation that was requested while a job ran is lost when the attempt fails
  with attempts left: the job returns to the queue as \<open>queued\<close> and can be claimed again.\<close>

theorem failed_cancelling_job_is_requeued:
  assumes "job_inv rows" "find_job i rows = Some r" "j_status r = Cancelling"
    and "j_attempts r + 1 < j_max_attempts r" "queued_row (j_repo r) rows = None"
  shows "\<exists>rows' j. fail_or_retry now i e rows = Inr (rows', j) \<and> j_id j = i \<and> j_status j = Queued
    \<and> \<not> cancellation_requested i rows'"
proof -
  have "running_status r" using assms(3) by simp
  then show ?thesis
  proof (rule fail_or_retry_cases [OF assms(1,2), of now e], goal_cases)
    case 2
    let ?f = "fail_row now Queued (j_attempts r + 1) e"
    have "find_job i (update_id i ?f rows) = Some (?f r)"
      using assms(2) by (simp add: find_job_update_id)
    with 2 show ?case
      using find_job_Some [OF assms(2)] by (simp add: cancellation_requested_def get_job_def fail_row_def)
  qed (use assms(4,5) in auto)
qed

definition demo_cancelling :: jobs where
  "demo_cancelling =
     [cancel_running 2 (start_job 1 ''w'' 300 (new_job 0 ''j1'' (service_request ''/r'' None None Full '''' [] []) []))]"

theorem failed_cancelling_job_is_requeued_witness:
  "\<exists>rows' j. fail_or_retry 3 ''j1'' ''boom'' demo_cancelling = Inr (rows', j) \<and> j_id j = ''j1''
    \<and> j_status j = Queued \<and> \<not> cancellation_requested ''j1'' rows'"
  by (rule failed_cancelling_job_is_requeued [where r = "hd demo_cancelling"]) code_simp+

end
