(* ===== verification/Job_Snapshot.thy ===== *)
theory Job_Snapshot
  imports Job_Queue
begin

text \<open>
  The durable manifest of a force-full job: reading back what was written, installing it
  once, acknowledging batches, and what requeueing does to it.  Bulk cancellation and the
  recovery at start-up end the theory.
\<close>

section \<open>Round trip of a manifest\<close>

definition valid_file :: "snapshot_file \<Rightarrow> bool" where
  "valid_file sf =
     (sf_path sf \<noteq> [] \<and> \<not> unsafe_rel_path (sf_path sf) \<and> sf_hash sf \<noteq> [] \<and> 0 \<le> sf_size sf)"

definition valid_manifest :: "snapshot_file list \<Rightarrow> bool" where
  "valid_manifest sfs =
     (list_all valid_file sfs \<and> sorted (map sf_path sfs) \<and> distinct (map sf_path sfs))"

lemma check_snapshot_file_Some: "check_snapshot_file d = Some sf \<Longrightarrow> valid_file sf"
  by (auto simp: check_snapshot_file_def valid_file_def split: option.splits if_splits)

lemma check_snapshot_file_dict: "valid_file sf \<Longrightarrow> check_snapshot_file (snapshot_file_dict sf) = Some sf"
  by (cases sf)
     (simp add: check_snapshot_file_def snapshot_file_dict_def valid_file_def dict_get_def json_str_def
       json_int_def py_truthy_def)

lemma check_snapshot_files_Inr:
  "check_snapshot_files seen ds = Inr sfs \<Longrightarrow>
   list_all valid_file sfs \<and> distinct (map sf_path sfs) \<and> set (map sf_path sfs) \<inter> set seen = {}"
proof (induction seen ds arbitrary: sfs rule: check_snapshot_files.induct)
  case (2 seen d ds)
  then show ?case
    by (fastforce split: option.splits if_splits sum.splits dest: check_snapshot_file_Some)
qed simp

lemma check_snapshot_files_dicts:
  "list_all valid_file sfs \<Longrightarrow> distinct (map sf_path sfs) \<Longrightarrow> set (map sf_path sfs) \<inter> set seen = {} \<Longrightarrow>
   check_snapshot_files seen (map snapshot_file_dict sfs) = Inr sfs"
  by (induction sfs arbitrary: seen) (auto simp: check_snapshot_file_dict)

lemma normalize_manifest_valid: "normalize_force_snapshot_files ds = Inr sfs \<Longrightarrow> valid_manifest sfs"
  by (auto simp: normalize_force_snapshot_files_def valid_manifest_def list_all_iff distinct_map
      split: sum.splits dest!: check_snapshot_files_Inr)

lemma normalize_manifest_dicts:
  "valid_manifest sfs \<Longrightarrow> normalize_force_snapshot_files (map snapshot_file_dict sfs) = Inr sfs"
  by (simp add: normalize_force_snapshot_files_def valid_manifest_def check_snapshot_files_dicts
      sorted_sort_id sort_key_id_if_sorted)

lemma json_dicts_map [simp]: "json_dicts (map (\<lambda>x. JObj (g x)) xs) = Some (map g xs)"
  by (induction xs) auto

lemma read_force_snapshot_valid: "read_force_snapshot p = Inr snap \<Longrightarrow> valid_manifest (fs_files snap)"
  by (auto simp: read_force_snapshot_def split: json.splits option.splits sum.splits
      dest: normalize_manifest_valid)

lemma read_written_snapshot:
  assumes "valid_manifest (fs_files snap)"
  shows "read_force_snapshot (dict_set p ''force_full_snapshot'' (snapshot_json snap)) = Inr snap"
  unfolding read_force_snapshot_def snapshot_json_def
  by (cases snap) (use assms in \<open>simp add: dict_get_def normalize_manifest_dicts\<close>)

lemma valid_manifest_ack: "valid_manifest sfs \<Longrightarrow> valid_manifest (ack_files paths sfs)"
proof -
  have "map sf_path (ack_files paths sfs) = map sf_path sfs" by (simp add: ack_files_def)
  moreover have "list_all valid_file sfs \<Longrightarrow> list_all valid_file (ack_files paths sfs)"
    by (auto simp: ack_files_def list_all_iff valid_file_def)
  ultimately show "valid_manifest sfs \<Longrightarrow> ?thesis" by (simp add: valid_manifest_def)
qed

section \<open>Install once\<close>

text \<open>Aux: Installing a manifest freezes it: after the first successful installation the
  stored manifest reads back as the validated, sorted file list with the store binding of
  the row, and every later installation for the job, with any other valid file list, leaves
  the table unchanged and returns the same job.\<close>

theorem force_manifest_is_frozen:
  assumes inv: "job_inv rows" and r: "find_job i rows = Some r"
    and fresh: "\<not> dict_has (j_payload r) ''force_full_snapshot''"
    and first: "install_force_full_snapshot now i files rows = Inr (rows1, j)"
    and valid: "normalize_force_snapshot_files other = Inr sfs2"
  shows "\<exists>sfs. normalize_force_snapshot_files files = Inr sfs \<and> valid_manifest sfs
    \<and> read_force_snapshot (j_payload j) =
        Inr \<lparr>fs_store = opt_str (j_store r), fs_gen = opt_str (j_gen r), fs_files = sfs\<rparr>
    \<and> install_force_full_snapshot later i other rows1 = Inr (rows1, j)"
proof -
  obtain sfs where sfs: "normalize_force_snapshot_files files = Inr sfs"
    using first by (auto simp: install_force_full_snapshot_def and_then_Inr_iff)
  define snap where "snap = \<lparr>fs_store = opt_str (j_store r), fs_gen = opt_str (j_gen r), fs_files = sfs\<rparr>"
  define p where "p = dict_set (j_payload r) ''force_full_snapshot'' (snapshot_json snap)"
  let ?f = "\<lambda>r. r\<lparr>j_payload := p, j_updated := now\<rparr>"
  have mode: "j_mode r = ForceFull"
    using first r sfs by (auto simp: install_force_full_snapshot_def split: if_splits)
  have "get_locked i (update_id i ?f rows) = Inr (rows1, j)"
    using first r sfs mode fresh
    by (simp add: install_force_full_snapshot_def Let_def snap_def p_def)
  then have rows1: "rows1 = update_id i ?f rows" and j: "j = ?f r"
    using get_locked_update_id [of ?f i rows r] r by auto
  have found: "find_job i rows1 = Some j" using r by (simp add: rows1 j find_job_update_id)
  have "valid_manifest sfs" by (rule normalize_manifest_valid [OF sfs])
  moreover from this have "read_force_snapshot (j_payload j) = Inr snap"
    by (simp add: j p_def read_written_snapshot snap_def)
  moreover have "install_force_full_snapshot later i other rows1 = Inr (rows1, j)"
    using valid found mode
    by (simp add: install_force_full_snapshot_def j p_def get_locked_def)
  ultimately show ?thesis using sfs by (simp add: snap_def)
qed

definition demo_file :: "string \<Rightarrow> dict" where
  "demo_file path =
     [(''rel_path'', JStr path), (''content_hash'', JStr ''h''), (''language'', JStr ''python''),
      (''byte_size'', JInt 3)]"

definition demo_force :: jobs where
  "demo_force = [start_job 1 ''w'' 300 (new_job 0 ''j1'' (service_request ''/r'' None None ForceFull '''' [] []) [])]"

theorem force_manifest_is_frozen_witness:
  "\<exists>rows1 j. install_force_full_snapshot 2 ''j1'' [demo_file ''b'', demo_file ''a''] demo_force = Inr (rows1, j)
     \<and> install_force_full_snapshot 3 ''j1'' [demo_file ''c''] rows1 = Inr (rows1, j)"
proof -
  obtain rows1 j where run: "install_force_full_snapshot 2 ''j1'' [demo_file ''b'', demo_file ''a''] demo_force = Inr (rows1, j)"
  proof (cases "install_force_full_snapshot 2 ''j1'' [demo_file ''b'', demo_file ''a''] demo_force")
    case (Inl e)
    moreover have "\<not> is_raise (install_force_full_snapshot 2 ''j1'' [demo_file ''b'', demo_file ''a''] demo_force)"
      by code_simp
    ultimately show ?thesis by simp
  next
    case (Inr x)
    with that show ?thesis by (cases x) simp
  qed
  have "job_inv demo_force" "find_job ''j1'' demo_force = Some (hd demo_force)"
    "\<not> dict_has (j_payload (hd demo_force)) ''force_full_snapshot''"
    by code_simp+
  moreover have "normalize_force_snapshot_files [demo_file ''c''] =
      Inr [\<lparr>sf_path = ''c'', sf_hash = ''h'', sf_language = ''python'', sf_size = 3, sf_ack = False\<rparr>]"
    by code_simp
  ultimately show ?thesis using force_manifest_is_frozen [OF _ _ _ run] run by blast
qed

section \<open>Acknowledging batches\<close>

text \<open>Aux: Acknowledging a batch of a running force job whose paths the manifest holds
  records exactly these paths: the manifest reads back with these files acknowledged and
  nothing else changed, so the files still pending are the old pending ones less the batch;
  a batch with a path the manifest does not hold is refused.\<close>

theorem acknowledge_exactly:
  assumes inv: "job_inv rows" and r: "find_job i rows = Some r" "running_status r"
    and snap: "read_force_snapshot (j_payload r) = Inr snap" and some: "paths \<noteq> []"
  shows "(set paths \<subseteq> set (map sf_path (fs_files snap)) \<longrightarrow>
      (\<exists>rows' j. acknowledge_force_full_snapshot_files now i paths rows = Inr (rows', j)
        \<and> set rows' = insert j (set rows - {r})
        \<and> read_force_snapshot (j_payload j) = Inr (snap\<lparr>fs_files := ack_files paths (fs_files snap)\<rparr>)
        \<and> pending_snapshot (j_payload j) =
            Some (filter (\<lambda>p. p \<notin> set paths) (map sf_path (filter (\<lambda>f. \<not> sf_ack f) (fs_files snap))))))
    \<and> (\<not> set paths \<subseteq> set (map sf_path (fs_files snap)) \<longrightarrow>
      (\<exists>msg. acknowledge_force_full_snapshot_files now i paths rows = Inl (ValueError msg)))"
proof (intro conjI impI)
  let ?exp = "sorted_set paths" and ?known = "map sf_path (fs_files snap)"
  have ack_exp: "ack_files ?exp = ack_files paths" by (simp add: ack_files_def [abs_def])
  have exp: "?exp \<noteq> []" using some by simp
  {
    assume known: "set paths \<subseteq> set ?known"
    define snap' where "snap' = snap\<lparr>fs_files := ack_files paths (fs_files snap)\<rparr>"
    define p where "p = dict_set (j_payload r) ''force_full_snapshot'' (snapshot_json snap')"
    let ?f = "\<lambda>r. r\<lparr>j_payload := p, j_updated := now\<rparr>"
    have "filter (\<lambda>p. p \<notin> set ?known) ?exp = []" using known by (auto simp: filter_empty_conv)
    then have "acknowledge_force_full_snapshot_files now i paths rows = get_locked i (update_id i ?f rows)"
      using r snap exp
      by (simp add: acknowledge_force_full_snapshot_files_def Let_def ack_exp snap'_def p_def)
    also have "\<dots> = Inr (update_id i ?f rows, ?f r)" by (rule get_locked_update_id) (use r in simp_all)
    finally have run: "acknowledge_force_full_snapshot_files now i paths rows = Inr (update_id i ?f rows, ?f r)" .
    have rows': "set (update_id i ?f rows) = insert (?f r) (set rows - {r})"
      using set_update_row [OF job_invD(1) [OF inv], of r ?f] find_job_Some [OF r(1)] by simp
    have read: "read_force_snapshot p = Inr snap'"
      unfolding p_def
      by (rule read_written_snapshot)
         (simp add: snap'_def valid_manifest_ack read_force_snapshot_valid [OF snap])
    have "filter (\<lambda>f. \<not> sf_ack f) (ack_files paths fs) = filter (\<lambda>f. sf_path f \<notin> set paths) (filter (\<lambda>f. \<not> sf_ack f) fs)"
      for fs by (induction fs) (auto simp: ack_files_def)
    then have "pending_snapshot p =
        Some (filter (\<lambda>p. p \<notin> set paths) (map sf_path (filter (\<lambda>f. \<not> sf_ack f) (fs_files snap))))"
      using read by (simp add: pending_snapshot_def p_def snap'_def filter_map o_def)
    with run rows' read
    show "\<exists>rows' j. acknowledge_force_full_snapshot_files now i paths rows = Inr (rows', j)
        \<and> set rows' = insert j (set rows - {r})
        \<and> read_force_snapshot (j_payload j) = Inr (snap\<lparr>fs_files := ack_files paths (fs_files snap)\<rparr>)
        \<and> pending_snapshot (j_payload j) =
            Some (filter (\<lambda>p. p \<notin> set paths) (map sf_path (filter (\<lambda>f. \<not> sf_ack f) (fs_files snap))))"
      unfolding snap'_def by (intro exI [of _ "update_id i ?f rows"] exI [of _ "?f r"]) simp
  }
  assume unknown: "\<not> set paths \<subseteq> set ?known"
  then have "filter (\<lambda>p. p \<notin> set ?known) ?exp \<noteq> []" by (auto simp: filter_empty_conv)
  then show "\<exists>msg. acknowledge_force_full_snapshot_files now i paths rows = Inl (ValueError msg)"
    using r snap exp by (simp add: acknowledge_force_full_snapshot_files_def Let_def)
qed

definition demo_snapshot :: force_snapshot where
  "demo_snapshot = \<lparr>fs_store = JNull, fs_gen = JNull, fs_files =
     [\<lparr>sf_path = ''a'', sf_hash = ''h'', sf_language = ''python'', sf_size = 3, sf_ack = False\<rparr>,
      \<lparr>sf_path = ''b'', sf_hash = ''h'', sf_language = ''python'', sf_size = 3, sf_ack = False\<rparr>]\<rparr>"

definition demo_frozen :: jobs where
  "demo_frozen =
     [start_job 1 ''w'' 300
        (new_job 0 ''j1'' (service_request ''/r'' None None ForceFull '''' [] [])
          [(''force_full_snapshot'', snapshot_json demo_snapshot)])]"

lemma demo_frozen_facts:
  "job_inv demo_frozen" "find_job ''j1'' demo_frozen = Some (hd demo_frozen)"
  "running_status (hd demo_frozen)"
  "read_force_snapshot (j_payload (hd demo_frozen)) = Inr demo_snapshot"
  by code_simp+

theorem acknowledge_exactly_witness:
  "\<exists>rows' j. acknowledge_force_full_snapshot_files 5 ''j1'' [''b''] demo_frozen = Inr (rows', j)
     \<and> pending_snapshot (j_payload j) = Some [''a'']"
proof -
  have "set [''b''] \<subseteq> set (map sf_path (fs_files demo_snapshot))" by (simp add: demo_snapshot_def)
  then obtain rows' j where "acknowledge_force_full_snapshot_files 5 ''j1'' [''b''] demo_frozen = Inr (rows', j)"
    "pending_snapshot (j_payload j) = Some (filter (\<lambda>p. p \<notin> set [''b''])
       (map sf_path (filter (\<lambda>f. \<not> sf_ack f) (fs_files demo_snapshot))))"
    using acknowledge_exactly [OF demo_frozen_facts, of "[''b'']" 5] by blast
  then show ?thesis by (simp add: demo_snapshot_def)
qed

section \<open>A requeued force job and a newer force request\<close>

text \<open>Aux: When a running force job with a manifest fails and a newer force request for the
  repository is already queued, the queued request takes over the manifest of the failed
  attempt, so it resumes the old file set instead of discovering its own.\<close>

theorem queued_force_inherits_old_manifest:
  assumes inv: "job_inv rows" and r: "find_job i rows = Some r" "running_status r" "j_mode r = ForceFull"
    and q: "queued_row (j_repo r) rows = Some q" "j_mode q = ForceFull"
    and left: "j_attempts r + 1 < j_max_attempts r"
  shows "\<exists>rows' j. fail_or_retry now i e rows = Inr (rows', j) \<and> j_id j = j_id q \<and> j_status j = j_status q
    \<and> map_of (j_payload j) ''force_full_snapshot'' = map_of (j_payload r) ''force_full_snapshot''"
proof -
  obtain m p where mp: "merge_payload ForceFull (j_payload q) ForceFull (j_payload r) = Inr (m, p)"
    "\<exists>rows'. fail_or_retry now i e rows = Inr (rows', absorb_into now m p q)"
  proof (rule fail_or_retry_cases [OF inv r(1,2), of now e], goal_cases)
    case (3 q' m p)
    have "q' = q" using 3(3) q(1) by simp
    then show ?case using 3(1) [of m p] 3(4,5) r(3) q(2) by auto
  qed (use left q(1) in auto)
  have "map_of (only_snapshot d) ''force_full_snapshot'' = map_of d ''force_full_snapshot''" for d
    by (induction d) (auto simp: only_snapshot_def)
  then have "map_of p ''force_full_snapshot'' = map_of (j_payload r) ''force_full_snapshot''"
    using mp(1) by (auto simp: merge_payload_def)
  moreover obtain rows' where "fail_or_retry now i e rows = Inr (rows', absorb_into now m p q)"
    using mp(2) by blast
  ultimately show ?thesis by (simp add: absorb_into_def)
qed

definition demo_superseded :: jobs where
  "demo_superseded = demo_frozen @ [new_job 2 ''j2'' (service_request ''/r'' None None ForceFull '''' [] []) []]"

theorem queued_force_inherits_old_manifest_witness:
  "\<exists>rows' j. fail_or_retry 3 ''j1'' ''boom'' demo_superseded = Inr (rows', j)
    \<and> j_id j = j_id (demo_superseded ! 1) \<and> j_status j = j_status (demo_superseded ! 1)
    \<and> map_of (j_payload j) ''force_full_snapshot''
      = map_of (j_payload (hd demo_superseded)) ''force_full_snapshot''"
  by (rule queued_force_inherits_old_manifest) code_simp+

section \<open>Cancelling everything\<close>

text \<open>Aux: \<open>request_cancel_all\<close> reaches every unfinished index job and no deletion: afterwards
  no index job is queued, every running one is asked to stop, rows of deletions and of
  finished jobs are untouched, and the jobs returned are the index jobs that were unfinished,
  oldest first.\<close>

theorem cancel_all_spares_deletions:
  assumes inv: "job_inv rows"
  shows "\<exists>rows' js. request_cancel_all now rows = Inr (rows', js) \<and> job_inv rows'
    \<and> (\<forall>r\<in>set rows'. j_mode r \<noteq> DropIndex \<longrightarrow> active_status r \<longrightarrow> j_status r = Cancelling)
    \<and> (\<forall>r\<in>set rows. j_mode r = DropIndex \<or> \<not> active_status r \<longrightarrow> r \<in> set rows')
    \<and> map j_id js = map j_id (order_by (\<lambda>r. (j_created r, j_id r))
         (filter (\<lambda>r. active_status r \<and> j_mode r \<noteq> DropIndex) rows))
    \<and> set js \<subseteq> set rows'"
proof -
  let ?P = "\<lambda>r. queued_status r \<and> j_mode r \<noteq> DropIndex" and ?f = "release_cancelled now"
  let ?Q = "\<lambda>r. j_status r = Running \<and> j_mode r \<noteq> DropIndex" and ?g = "cancel_running now"
  let ?rows1 = "update_where ?P ?f rows"
  let ?rows2 = "update_where ?Q ?g ?rows1"
  let ?picked = "order_by (\<lambda>r. (j_created r, j_id r)) (filter (\<lambda>r. active_status r \<and> j_mode r \<noteq> DropIndex) rows)"
  have inv2: "job_inv ?rows2" by (intro cancel_all_running_inv release_all_inv inv)
  have ids: "map j_id ?rows2 = map j_id rows"
    by (simp add: map_update_where)
  have all: "\<exists>js. get_all_locked is ?rows2 = Inr js \<and> map j_id js = is \<and> set js \<subseteq> set ?rows2"
    if "set is \<subseteq> set (map j_id rows)" for "is"
    using that
  proof (induction "is")
    case (Cons i "is")
    have "i \<in> j_id ` set ?rows2"
      using Cons.prems unfolding ids [symmetric] by simp
    then obtain r where r: "find_job i ?rows2 = Some r" "r \<in> set ?rows2" "j_id r = i"
      using find_found [OF inv2] by blast
    with Cons show ?case by (auto simp: get_locked_def)
  qed simp
  have "set (map j_id ?picked) \<subseteq> set (map j_id rows)" by auto
  from all [OF this] obtain js where js: "get_all_locked (map j_id ?picked) ?rows2 = Inr js"
    "map j_id js = map j_id ?picked" "set js \<subseteq> set ?rows2" by blast
  then have run: "request_cancel_all now rows = Inr (?rows2, js)"
    by (simp add: request_cancel_all_def Let_def)
  have stopping: "j_status r = Cancelling" if st: "r \<in> set ?rows2" "j_mode r \<noteq> DropIndex" "active_status r" for r
  proof -
    obtain t where t: "t \<in> set ?rows1" "r = (if ?Q t then ?g t else t)"
      using update_where_mem [OF st(1)] by blast
    obtain u where u: "u \<in> set rows" "t = (if ?P u then ?f u else u)"
      using update_where_mem [OF t(1)] by blast
    show ?thesis
    proof (cases "?Q t")
      case True
      then show ?thesis using t(2) by (simp add: cancel_running_def)
    next
      case False
      then have "r = t" using t(2) by (simp only: if_False)
      moreover have "\<not> ?P u"
      proof
        assume "?P u"
        then have "j_status r = Cancelled" using u(2) \<open>r = t\<close> by (simp add: release_cancelled_def)
        then show False using st(3) by simp
      qed
      ultimately show ?thesis using st(2,3) False u(2) running_st_iff by auto
    qed
  qed
  have kept: "r \<in> set ?rows2" if "r \<in> set rows" "j_mode r = DropIndex \<or> \<not> active_status r" for r
  proof -
    have "\<not> ?P r" "\<not> ?Q r" using that(2) by auto
    then show ?thesis unfolding set_update_where using that(1) by force
  qed
  show ?thesis
    by (rule exI [of _ ?rows2], rule exI [of _ js])
       (intro conjI ballI impI run inv2 js(2,3); (rule stopping kept; assumption))
qed

theorem cancel_all_spares_deletions_witness:
  "\<exists>rows' js. request_cancel_all 9 (demo_busy @ demo_deletion) = Inr (rows', js)
     \<and> (\<forall>r\<in>set rows'. j_mode r \<noteq> DropIndex \<longrightarrow> active_status r \<longrightarrow> j_status r = Cancelling)
     \<and> hd demo_deletion \<in> set rows'"
proof -
  have inv: "job_inv (demo_busy @ demo_deletion)" by code_simp
  have d: "hd demo_deletion \<in> set (demo_busy @ demo_deletion)" "j_mode (hd demo_deletion) = DropIndex"
    by (simp_all add: demo_deletion_def new_job_def service_request_def)
  from cancel_all_spares_deletions [OF inv, of 9] d show ?thesis by blast
qed

section \<open>Recovery at start-up\<close>

text \<open>Aux: Recovery at start-up never raises and leaves only live work running: afterwards
  every running row belongs to the starting worker and its lease has not expired, the rows
  that ran before with such a lease are untouched, and the invariant holds.\<close>

theorem restart_recovers_leases:
  assumes inv: "job_inv rows" and owner: "owner \<noteq> []"
  shows "\<exists>rows' js. start_runner now owner rows = Inr (rows', js) \<and> job_inv rows'
    \<and> running_rows rows' =
        {r \<in> running_rows rows. j_lease_owner r = Some owner \<and> (\<exists>t. j_lease_expires r = Some t \<and> now \<le> t)}"
proof -
  have "\<not> stale now (Some owner) r \<longleftrightarrow>
      j_lease_owner r = Some owner \<and> (\<exists>t. j_lease_expires r = Some t \<and> now \<le> t)"
    if "r \<in> running_rows rows" for r
    using that job_invD(2) [OF inv, of r]
    by (auto simp: running_rows_def stale_def owner_mismatch_def row_ok_def split: option.splits)
  then have "{r \<in> running_rows rows. \<not> stale now (Some owner) r} =
      {r \<in> running_rows rows. j_lease_owner r = Some owner \<and> (\<exists>t. j_lease_expires r = Some t \<and> now \<le> t)}"
    by blast
  then show ?thesis
    using reclaim_stale_ok [OF inv, of now "Some owner"] owner by (simp add: start_runner_def)
qed

theorem restart_recovers_leases_witness:
  "\<exists>rows' js. start_runner 2 ''new'' demo_busy = Inr (rows', js) \<and> job_inv rows'
    \<and> running_rows rows' =
        {r \<in> running_rows demo_busy. j_lease_owner r = Some ''new'' \<and> (\<exists>t. j_lease_expires r = Some t \<and> 2 \<le> t)}"
  by (rule restart_recovers_leases) (simp_all add: demo_busy_facts)

end
