(* ===== verification/Sha256.thy ===== *)
theory Sha256
  imports Scs_Prelude "HOL-Library.Word"
begin

text \<open>
  SHA-256, as \<open>hashlib.sha256\<close> computes it, on 32-bit words, and its lowercase hexadecimal
  digest.  Store identities, tombstone names and graph node ids are such digests, so their
  shape is proved here instead of assumed.  Texts are encoded in UTF-8 first.
\<close>

unbundle bit_operations_syntax

section \<open>Encoding and padding\<close>

definition utf8_char :: "char \<Rightarrow> nat list" where
  "utf8_char c =
     (let n = (of_char c :: nat) in if n < 128 then [n] else [192 + n div 64, 128 + n mod 64])"

definition utf8 :: "string \<Rightarrow> nat list" where
  "utf8 s = concat (map utf8_char s)"

fun be_bytes :: "nat \<Rightarrow> nat \<Rightarrow> nat list" where
  "be_bytes 0 n = []"
| "be_bytes (Suc k) n = be_bytes k (n div 256) @ [n mod 256]"

definition sha_pad :: "nat list \<Rightarrow> nat list" where
  "sha_pad bs =
     bs @ [128] @ replicate ((119 - length bs mod 64) mod 64) 0 @ be_bytes 8 (8 * length bs)"

fun be_words :: "nat list \<Rightarrow> 32 word list" where
  "be_words (a # b # c # d # bs) =
     of_nat (a * 16777216 + b * 65536 + c * 256 + d) # be_words bs"
| "be_words _ = []"

section \<open>The compression function\<close>

text \<open>
  The round constants and the initial state are the first 32 bits of the fractional parts of
  the cube roots of the first 64 primes and of the square roots of the first eight.
  \<open>root_bits d n k r\<close> refines \<open>r\<close> by its \<open>k\<close> lowest bits to the integer \<open>d\<close>-th root of \<open>n\<close>.
\<close>

fun root_bits :: "nat \<Rightarrow> nat \<Rightarrow> nat \<Rightarrow> nat \<Rightarrow> nat" where
  "root_bits d n 0 r = r"
| "root_bits d n (Suc k) r = root_bits d n k (if (r + 2 ^ k) ^ d \<le> n then r + 2 ^ k else r)"

definition fraction_bits :: "nat \<Rightarrow> nat \<Rightarrow> 32 word" where
  "fraction_bits d p = of_nat (root_bits d (p * 2 ^ (32 * d)) 36 0)"

definition primes_below :: "nat \<Rightarrow> nat list" where
  "primes_below n = filter (\<lambda>p. list_all (\<lambda>q. p mod q \<noteq> 0) [2..<p]) [2..<n]"

definition sha_k :: "32 word list" where
  "sha_k = map (fraction_bits 3) (primes_below 312)"

definition sha_h0 :: "32 word list" where
  "sha_h0 = map (fraction_bits 2) (primes_below 20)"

definition small_sigma0 :: "32 word \<Rightarrow> 32 word" where
  "small_sigma0 x = word_rotr 7 x XOR word_rotr 18 x XOR drop_bit 3 x"

definition small_sigma1 :: "32 word \<Rightarrow> 32 word" where
  "small_sigma1 x = word_rotr 17 x XOR word_rotr 19 x XOR drop_bit 10 x"

text \<open>The message schedule, newest word first.\<close>

fun sha_extend :: "nat \<Rightarrow> 32 word list \<Rightarrow> 32 word list" where
  "sha_extend 0 ws = ws"
| "sha_extend (Suc n) ws =
     sha_extend n ((small_sigma1 (ws ! 1) + ws ! 6 + small_sigma0 (ws ! 14) + ws ! 15) # ws)"

definition sha_schedule :: "32 word list \<Rightarrow> 32 word list" where
  "sha_schedule block = rev (sha_extend 48 (rev block))"

fun sha_round :: "32 word list \<Rightarrow> 32 word \<times> 32 word \<Rightarrow> 32 word list" where
  "sha_round [a, b, c, d, e, f, g, h] (k, w) =
     (let t1 = h + (word_rotr 6 e XOR word_rotr 11 e XOR word_rotr 25 e)
                 + ((e AND f) XOR (NOT e AND g)) + k + w;
          t2 = (word_rotr 2 a XOR word_rotr 13 a XOR word_rotr 22 a)
                 + ((a AND b) XOR (a AND c) XOR (b AND c))
      in [t1 + t2, a, b, c, d + t1, e, f, g])"
| "sha_round st _ = st"

definition sha_compress :: "32 word list \<Rightarrow> 32 word list \<Rightarrow> 32 word list" where
  "sha_compress st block =
     map2 (+) st (foldl sha_round st (zip sha_k (sha_schedule block)))"

function sha_blocks :: "32 word list \<Rightarrow> 32 word list \<Rightarrow> 32 word list" where
  "sha_blocks st ws = (if ws = [] then st else sha_blocks (sha_compress st (take 16 ws)) (drop 16 ws))"
  by pat_completeness auto
termination by (relation "measure (\<lambda>(_, ws). length ws)") auto

declare sha_blocks.simps [simp del]

section \<open>Hexadecimal digest\<close>

fun hex_digits :: "nat \<Rightarrow> nat \<Rightarrow> string" where
  "hex_digits 0 n = []"
| "hex_digits (Suc k) n = hex_digits k (n div 16) @ [hex_char (n mod 16)]"

definition sha256_bytes :: "nat list \<Rightarrow> string" where
  "sha256_bytes bs =
     concat (map (\<lambda>w. hex_digits 8 (unat w)) (sha_blocks sha_h0 (be_words (sha_pad bs))))"

definition sha256_hex :: "string \<Rightarrow> string" where
  "sha256_hex s = sha256_bytes (utf8 s)"

section \<open>Shape of a digest\<close>

definition lower_hex :: "char \<Rightarrow> bool" where
  "lower_hex c =
     (let n = (of_char c :: nat) in (48 \<le> n \<and> n \<le> 57) \<or> (97 \<le> n \<and> n \<le> 102))"

lemma lower_hex_char: "d < 16 \<Longrightarrow> lower_hex (hex_char d)"
  by (auto simp: lower_hex_def hex_char_def Let_def)

lemma length_hex_digits [simp]: "length (hex_digits k n) = k"
  by (induction k arbitrary: n) auto

lemma lower_hex_digits: "list_all lower_hex (hex_digits k n)"
  by (induction k arbitrary: n) (auto simp: lower_hex_char)

lemma length_sha_round: "length st = 8 \<Longrightarrow> length (sha_round st kw) = 8"
  by (cases "(st, kw)" rule: sha_round.cases) (auto simp: Let_def)

lemma length_sha_compress: "length st = 8 \<Longrightarrow> length (sha_compress st block) = 8"
proof -
  have "length (foldl sha_round st xs) = 8" if "length st = 8" for st xs
    using that by (induction xs arbitrary: st) (auto simp: length_sha_round)
  then show "length st = 8 \<Longrightarrow> ?thesis" by (simp add: sha_compress_def)
qed

lemma length_sha_blocks: "length st = 8 \<Longrightarrow> length (sha_blocks st ws) = 8"
  by (induction st ws rule: sha_blocks.induct)
     (subst sha_blocks.simps, simp add: length_sha_compress)

lemma sha256_bytes_shape: "length (sha256_bytes bs) = 64 \<and> list_all lower_hex (sha256_bytes bs)"
proof -
  define ws where "ws = sha_blocks sha_h0 (be_words (sha_pad bs))"
  have "length (primes_below 20) = 8" by code_simp
  then have "length ws = 8" unfolding ws_def by (intro length_sha_blocks) (simp add: sha_h0_def)
  then have "length (concat (map (\<lambda>w. hex_digits 8 (unat w)) ws)) = 64"
    by (simp add: length_concat o_def sum_list_triv)
  moreover have "list_all lower_hex (concat (map (\<lambda>w. hex_digits 8 (unat w)) ws))"
    using lower_hex_digits by (auto simp: list_all_iff)
  ultimately show ?thesis by (simp add: sha256_bytes_def ws_def)
qed

lemma sha256_hex_shape: "length (sha256_hex s) = 64 \<and> list_all lower_hex (sha256_hex s)"
  unfolding sha256_hex_def by (rule sha256_bytes_shape)

end
