(* ===== verification/Store_Paths.thy ===== *)
theory Store_Paths
  imports Repository_Paths Sha256
begin

text \<open>
  Identities of project stores and the paths they own: \<open>src/src/scs/storage/models.py\<close>,
  \<open>src/src/scs/storage/paths.py\<close> and \<open>validate_scs_home\<close> of \<open>src/src/scs/paths.py\<close>.
\<close>

section \<open>Identities\<close>

definition canonical_repository_root :: "file_system \<Rightarrow> string \<Rightarrow> exc + string" where
  "canonical_repository_root fs root = canonicalize_repo_path fs (parse_path root)"

definition store_id_for_root :: "file_system \<Rightarrow> string \<Rightarrow> exc + string" where
  "store_id_for_root fs root =
     and_then (canonical_repository_root fs root) (\<lambda>canonical. Inr (sha256_hex canonical))"

definition is_store_id :: "string \<Rightarrow> bool" where
  "is_store_id s = (length s = 64 \<and> list_all lower_hex s)"

definition validate_store_id :: "string \<Rightarrow> exc + string" where
  "validate_store_id s =
     (if is_store_id s then Inr s
      else Inl (ValueError ''store_id must be a 64-character lowercase SHA-256 digest''))"

definition lower_alnum :: "char \<Rightarrow> bool" where
  "lower_alnum c =
     (let n = (of_char c :: nat) in (48 \<le> n \<and> n \<le> 57) \<or> (97 \<le> n \<and> n \<le> 122))"

definition is_generation :: "string \<Rightarrow> bool" where
  "is_generation s =
     (case s of
        [] \<Rightarrow> False
      | c # cs \<Rightarrow> lower_alnum c \<and> length cs \<le> 63
          \<and> list_all (\<lambda>c. lower_alnum c \<or> c = CHR ''_'' \<or> c = CHR ''-'') cs)"

definition validate_store_generation :: "string \<Rightarrow> exc + string" where
  "validate_store_generation s =
     (if is_generation s then Inr s
      else Inl (ValueError
        ''store generation must be 1-64 lowercase alphanumeric, '_' or '-' characters''))"

lemma store_id_for_root_valid: "store_id_for_root fs root = Inr i \<Longrightarrow> is_store_id i"
  using sha256_hex_shape by (auto simp: store_id_for_root_def and_then_Inr_iff is_store_id_def)

section \<open>Contained paths\<close>

definition validate_scs_home :: "file_system \<Rightarrow> ppath \<Rightarrow> exc + ppath" where
  "validate_scs_home fs home = fs_resolve fs (fs_expanduser fs home)"

definition assert_contained :: "file_system \<Rightarrow> ppath \<Rightarrow> ppath \<Rightarrow> exc + ppath" where
  "assert_contained fs container candidate =
     and_then (fs_resolve fs container) (\<lambda>c.
       and_then (fs_resolve fs candidate) (\<lambda>p.
         if is_relative_to p c then Inr p
         else Inl (StorePathError (''Project store path '' @ path_str p @ '' escapes '' @ path_str c))))"

record store_paths =
  sp_home :: ppath
  sp_projects :: ppath
  sp_store :: ppath
  sp_generations :: ppath
  sp_active :: ppath
  sp_database :: ppath
  sp_vector_index :: ppath
  sp_provider_metadata :: ppath
  sp_current_pointer :: ppath

definition resolve_store_paths :: "file_system \<Rightarrow> ppath \<Rightarrow> string \<Rightarrow> string \<Rightarrow> exc + store_paths" where
  "resolve_store_paths fs home store generation =
     and_then (validate_scs_home fs home) (\<lambda>safe_home.
     and_then (validate_store_id store) (\<lambda>safe_store.
     and_then (validate_store_generation generation) (\<lambda>safe_generation.
     and_then (assert_contained fs safe_home (path_child safe_home ''projects'')) (\<lambda>projects.
     and_then (assert_contained fs projects (path_child projects safe_store)) (\<lambda>st.
     and_then (assert_contained fs st (path_child st ''generations'')) (\<lambda>generations.
     and_then (assert_contained fs generations (path_child generations safe_generation)) (\<lambda>active.
     and_then (assert_contained fs active (path_child active ''index.db'')) (\<lambda>database.
     and_then (assert_contained fs active (path_child active ''index.usearch'')) (\<lambda>vectors.
     and_then (assert_contained fs active (path_child active ''provider.json'')) (\<lambda>metadata.
     and_then (assert_contained fs st (path_child st ''CURRENT'')) (\<lambda>pointer.
       Inr \<lparr>sp_home = safe_home, sp_projects = projects, sp_store = st, sp_generations = generations,
            sp_active = active, sp_database = database, sp_vector_index = vectors,
            sp_provider_metadata = metadata, sp_current_pointer = pointer\<rparr>)))))))))))"

definition tombstone_prefix :: "string \<Rightarrow> string" where
  "tombstone_prefix store = ''.deleted-'' @ store @ ''-''"

definition tombstone_name :: "string \<Rightarrow> string \<Rightarrow> string" where
  "tombstone_name store deletion_id = tombstone_prefix store @ take 16 (sha256_hex deletion_id)"

definition retired_project_store_path :: "file_system \<Rightarrow> ppath \<Rightarrow> string \<Rightarrow> string \<Rightarrow> exc + ppath" where
  "retired_project_store_path fs home store deletion_id =
     and_then (validate_scs_home fs home) (\<lambda>safe_home.
     and_then (validate_store_id store) (\<lambda>safe_store.
     and_then (assert_contained fs safe_home (path_child safe_home ''projects'')) (\<lambda>projects.
       assert_contained fs projects (path_child projects (tombstone_name safe_store deletion_id)))))"

section \<open>Containment\<close>

text \<open>
  The documented behaviour of \<open>Path.resolve\<close> that the containment rests on: a resolved path
  resolves to itself.
\<close>

definition resolves_once :: "file_system \<Rightarrow> bool" where
  "resolves_once fs = (\<forall>p q. fs_resolve fs p = Inr q \<longrightarrow> fs_resolve fs q = Inr q)"

lemma assert_contained_inside:
  assumes "resolves_once fs" "fs_resolve fs c = Inr c" "assert_contained fs c p = Inr q"
  shows "is_relative_to q c \<and> fs_resolve fs q = Inr q"
  using assms by (auto simp: assert_contained_def and_then_Inr_iff resolves_once_def split: if_splits)

text \<open>Aux: Every path of a resolved project store lies below the resolved home: the projects
  directory below home, the store below projects, a generation below its store, the
  database, vectors and provider metadata below the generation, whatever symbolic links the
  file system holds; otherwise the resolution raises.\<close>

theorem store_paths_contained:
  assumes fs: "resolves_once fs" and run: "resolve_store_paths fs home store generation = Inr p"
  shows "is_relative_to (sp_projects p) (sp_home p) \<and> is_relative_to (sp_store p) (sp_projects p)
     \<and> is_relative_to (sp_generations p) (sp_store p) \<and> is_relative_to (sp_active p) (sp_generations p)
     \<and> (\<forall>q\<in>{sp_database p, sp_vector_index p, sp_provider_metadata p}. is_relative_to q (sp_active p))
     \<and> is_relative_to (sp_current_pointer p) (sp_store p)
     \<and> (\<forall>q\<in>{sp_projects p, sp_store p, sp_active p, sp_database p, sp_vector_index p,
              sp_provider_metadata p, sp_current_pointer p}. is_relative_to q (sp_home p))
     \<and> is_store_id store \<and> is_generation generation"
proof -
  have home: "fs_resolve fs (sp_home p) = Inr (sp_home p)"
    using run fs
    by (auto simp: resolve_store_paths_def and_then_Inr_iff validate_scs_home_def resolves_once_def)
  have steps: "assert_contained fs (sp_home p) (path_child (sp_home p) ''projects'') = Inr (sp_projects p)"
    "assert_contained fs (sp_projects p) (path_child (sp_projects p) store) = Inr (sp_store p)"
    "assert_contained fs (sp_store p) (path_child (sp_store p) ''generations'') = Inr (sp_generations p)"
    "assert_contained fs (sp_generations p) (path_child (sp_generations p) generation) = Inr (sp_active p)"
    "assert_contained fs (sp_active p) (path_child (sp_active p) ''index.db'') = Inr (sp_database p)"
    "assert_contained fs (sp_active p) (path_child (sp_active p) ''index.usearch'') = Inr (sp_vector_index p)"
    "assert_contained fs (sp_active p) (path_child (sp_active p) ''provider.json'') = Inr (sp_provider_metadata p)"
    "assert_contained fs (sp_store p) (path_child (sp_store p) ''CURRENT'') = Inr (sp_current_pointer p)"
    using run
    by (auto simp: resolve_store_paths_def and_then_Inr_iff validate_store_id_def
        validate_store_generation_def split: if_splits)
  note inside = assert_contained_inside [OF fs]
  have projects: "is_relative_to (sp_projects p) (sp_home p) \<and> fs_resolve fs (sp_projects p) = Inr (sp_projects p)"
    by (rule inside [OF home steps(1)])
  then have st: "is_relative_to (sp_store p) (sp_projects p) \<and> fs_resolve fs (sp_store p) = Inr (sp_store p)"
    using inside [OF _ steps(2)] by blast
  then have gens: "is_relative_to (sp_generations p) (sp_store p) \<and> fs_resolve fs (sp_generations p) = Inr (sp_generations p)"
    using inside [OF _ steps(3)] by blast
  then have active: "is_relative_to (sp_active p) (sp_generations p) \<and> fs_resolve fs (sp_active p) = Inr (sp_active p)"
    using inside [OF _ steps(4)] by blast
  have files: "is_relative_to (sp_database p) (sp_active p)" "is_relative_to (sp_vector_index p) (sp_active p)"
    "is_relative_to (sp_provider_metadata p) (sp_active p)" "is_relative_to (sp_current_pointer p) (sp_store p)"
    using inside [OF _ steps(5)] inside [OF _ steps(6)] inside [OF _ steps(7)] inside [OF _ steps(8)] active st
    by blast+
  have ids: "is_store_id store" "is_generation generation"
    using run
    by (auto simp: resolve_store_paths_def and_then_Inr_iff validate_store_id_def
        validate_store_generation_def split: if_splits)
  note trans = is_relative_to_trans
  have up: "is_relative_to (sp_store p) (sp_home p)" using trans st projects by blast
  have up2: "is_relative_to (sp_active p) (sp_home p)" using trans active gens up by blast
  show ?thesis using projects st gens active files ids up up2 trans by blast
qed

lemma plain_fs_resolves_once: "resolves_once plain_fs"
  by (simp add: resolves_once_def plain_fs_def)

definition demo_store :: string where
  "demo_store = replicate 64 CHR ''a''"

theorem store_paths_contained_witness:
  "\<exists>p. resolve_store_paths plain_fs (parse_path ''/h'') demo_store ''g1'' = Inr p
     \<and> path_str (sp_database p) = ''/h/projects/'' @ demo_store @ ''/generations/g1/index.db''
     \<and> is_relative_to (sp_database p) (sp_active p)"
proof -
  have "\<not> is_raise (resolve_store_paths plain_fs (parse_path ''/h'') demo_store ''g1'')"
    by code_simp
  then obtain p where p: "resolve_store_paths plain_fs (parse_path ''/h'') demo_store ''g1'' = Inr p"
    by (cases "resolve_store_paths plain_fs (parse_path ''/h'') demo_store ''g1''") auto
  have "map_sum id (\<lambda>p. path_str (sp_database p)) (resolve_store_paths plain_fs (parse_path ''/h'') demo_store ''g1'')
      = Inr (''/h/projects/'' @ demo_store @ ''/generations/g1/index.db'')"
    by code_simp
  with p store_paths_contained [OF plain_fs_resolves_once p] show ?thesis by simp
qed

text \<open>A tombstone is never the directory of a live store.\<close>

lemma tombstone_not_store: "\<not> is_store_id (tombstone_name store deletion_id)"
  by (simp add: is_store_id_def tombstone_name_def tombstone_prefix_def lower_hex_def)

lemma tombstone_store_prefix:
  assumes "is_store_id a" "is_store_id b"
  shows "prefix (tombstone_prefix a) (tombstone_name b i) \<longleftrightarrow> a = b"
  using assms
  by (auto simp: tombstone_name_def tombstone_prefix_def is_store_id_def prefix_def append_eq_append_conv2)

end
