(* ===== verification/Store_Catalog.thy ===== *)
theory Store_Catalog
  imports Store_Paths
begin

text \<open>
  \<open>ProjectStoreCatalog\<close> (\<open>src/src/scs/storage/catalog.py\<close>): the SQLite table that binds a
  canonical repository root to its store and active generation.  The database file may be
  absent, present without the table, or hold the rows and the autoincrement counter.
  Operations are actions, since registering creates the file even when a later check
  fails; each transaction itself is atomic.
\<close>

section \<open>Records\<close>

datatype store_state =
    Uninitialized | ReadyStructural | SemanticStale | SemanticReady | Migrating
  | MigrationFailedRecoverable

record catalog_record =
  c_project :: int
  c_root :: string
  c_store :: string
  c_gen :: "string option"
  c_state :: store_state

datatype catalog = Absent | NoTable | Table "catalog_record list" int

definition record_from_row :: "catalog_record \<Rightarrow> exc + catalog_record" where
  "record_from_row r =
     (if c_project r \<ge> 1 \<and> (case c_gen r of None \<Rightarrow> True | Some g \<Rightarrow> is_generation g)
         \<and> is_store_id (c_store r)
      then Inr r
      else Inl (CatalogError ''Catalog contains an invalid project-store record''))"

definition no_table :: exc where
  "no_table = SqliteError ''no such table: project_stores''"

definition find_root :: "string \<Rightarrow> catalog_record list \<Rightarrow> catalog_record option" where
  "find_root root rows = find (\<lambda>r. c_root r = root) rows"

definition checked_row :: "catalog_record option \<Rightarrow> exc + catalog_record option" where
  "checked_row row =
     (case row of None \<Rightarrow> Inr None | Some r \<Rightarrow> and_then (record_from_row r) (\<lambda>r. Inr (Some r)))"

section \<open>Lookups\<close>

definition catalog_lookup :: "file_system \<Rightarrow> string \<Rightarrow> catalog \<Rightarrow> exc + catalog_record option" where
  "catalog_lookup fs root cat =
     and_then (canonical_repository_root fs root) (\<lambda>canonical.
       case cat of
         Absent \<Rightarrow> Inr None
       | NoTable \<Rightarrow> Inl no_table
       | Table rows _ \<Rightarrow> checked_row (find_root canonical rows))"

definition lookup_project :: "int \<Rightarrow> catalog \<Rightarrow> exc + catalog_record option" where
  "lookup_project project_id cat =
     (if project_id < 1 then Inl (ValueError ''project_id must be positive'')
      else
        (case cat of
           Absent \<Rightarrow> Inr None
         | NoTable \<Rightarrow> Inl no_table
         | Table rows _ \<Rightarrow> checked_row (find (\<lambda>r. c_project r = project_id) rows)))"

fun checked_rows :: "catalog_record list \<Rightarrow> exc + catalog_record list" where
  "checked_rows [] = Inr []"
| "checked_rows (r # rs) =
     and_then (record_from_row r) (\<lambda>r. and_then (checked_rows rs) (\<lambda>rs. Inr (r # rs)))"

definition list_records :: "catalog \<Rightarrow> exc + catalog_record list" where
  "list_records cat =
     (case cat of
        Absent \<Rightarrow> Inr []
      | NoTable \<Rightarrow> Inl no_table
      | Table rows _ \<Rightarrow> checked_rows (order_by c_project rows))"

section \<open>Changes\<close>

definition fresh_record :: "int \<Rightarrow> string \<Rightarrow> string \<Rightarrow> catalog_record" where
  "fresh_record project root st =
     \<lparr>c_project = project, c_root = root, c_store = st, c_gen = None, c_state = Uninitialized\<rparr>"

text \<open>\<open>INSERT ... ON CONFLICT(canonical_root) DO NOTHING\<close> under both UNIQUE constraints.\<close>

definition insert_root ::
  "string \<Rightarrow> string \<Rightarrow> catalog_record list \<Rightarrow> int \<Rightarrow> exc + catalog_record list \<times> int" where
  "insert_root root st rows seq =
     (if root \<in> c_root ` set rows then Inr (rows, seq)
      else if st \<in> c_store ` set rows
        then Inl (SqliteError ''UNIQUE constraint failed: project_stores.store_id'')
      else Inr (rows @ [fresh_record (seq + 1) root st], seq + 1))"

definition register_store :: "file_system \<Rightarrow> string \<Rightarrow> (catalog, catalog_record) act" where
  "register_store fs root cat =
     (case canonical_repository_root fs root of
        Inl e \<Rightarrow> (Inl e, cat)
      | Inr canonical \<Rightarrow>
          (case store_id_for_root fs canonical of
             Inl e \<Rightarrow> (Inl e, cat)
           | Inr derived \<Rightarrow>
               (let (rows, seq) = (case cat of Table rows seq \<Rightarrow> (rows, seq) | _ \<Rightarrow> ([], 0)) in
                case insert_root canonical derived rows seq of
                  Inl _ \<Rightarrow>
                    (Inl (CatalogError (''Could not register project store for '' @ canonical)),
                     Table rows seq)
                | Inr (rows', seq') \<Rightarrow>
                    (case find_root canonical rows' of
                       None \<Rightarrow>
                         (Inl (CatalogError (''Catalog did not persist project store for '' @ canonical)),
                          Table rows' seq')
                     | Some row \<Rightarrow>
                         (case record_from_row row of
                            Inl e \<Rightarrow> (Inl e, Table rows' seq')
                          | Inr record \<Rightarrow>
                              if c_store record \<noteq> derived
                              then (Inl (CatalogError
                                      (''Catalog store identity mismatch for canonical root '' @ canonical)),
                                    Table rows' seq')
                              else (Inr record, Table rows' seq'))))))"

definition update_root :: "string \<Rightarrow> (catalog_record \<Rightarrow> catalog_record) \<Rightarrow> catalog_record list \<Rightarrow> catalog_record list" where
  "update_root root f rows = update_where (\<lambda>r. c_root r = root) f rows"

definition return_root :: "string \<Rightarrow> catalog_record list \<Rightarrow> exc + catalog_record" where
  "return_root root rows =
     (case find_root root rows of
        None \<Rightarrow> Inl (TypeError ''cannot unpack non-iterable NoneType object'')
      | Some r \<Rightarrow> record_from_row r)"

text \<open>Connecting to an absent database creates an empty file before the statement fails.\<close>

definition touched :: "catalog \<Rightarrow> catalog" where
  "touched cat = (case cat of Absent \<Rightarrow> NoTable | _ \<Rightarrow> cat)"

definition activate_store ::
  "file_system \<Rightarrow> string \<Rightarrow> string \<Rightarrow> store_state \<Rightarrow> (catalog, catalog_record) act" where
  "activate_store fs root generation state cat =
     (case canonical_repository_root fs root of
        Inl e \<Rightarrow> (Inl e, cat)
      | Inr canonical \<Rightarrow>
          (case validate_store_generation generation of
             Inl e \<Rightarrow> (Inl e, cat)
           | Inr g \<Rightarrow>
               if state = Uninitialized
               then (Inl (ValueError ''an activated store cannot be uninitialized''), cat)
               else
                 (case cat of
                    Table rows seq \<Rightarrow>
                      if canonical \<notin> c_root ` set rows
                      then (Inl (CatalogError (''Project store is not registered: '' @ canonical)), cat)
                      else
                        (let rows' = update_root canonical (\<lambda>r. r\<lparr>c_gen := Some g, c_state := state\<rparr>) rows
                         in (return_root canonical rows', Table rows' seq))
                  | _ \<Rightarrow>
                      (Inl (CatalogError (''Could not activate project store for '' @ canonical)),
                       touched cat))))"

definition update_store_state ::
  "file_system \<Rightarrow> string \<Rightarrow> string \<Rightarrow> store_state \<Rightarrow> (catalog, catalog_record) act" where
  "update_store_state fs root expected state cat =
     (case canonical_repository_root fs root of
        Inl e \<Rightarrow> (Inl e, cat)
      | Inr canonical \<Rightarrow>
          (case validate_store_generation expected of
             Inl e \<Rightarrow> (Inl e, cat)
           | Inr g \<Rightarrow>
               (case cat of
                  Table rows seq \<Rightarrow>
                    if \<not> (\<exists>r\<in>set rows. c_root r = canonical \<and> c_gen r = Some g)
                    then (Inl (CatalogError
                            ''project-store generation no longer matches the durable job''), cat)
                    else
                      (let rows' = update_where (\<lambda>r. c_root r = canonical \<and> c_gen r = Some g)
                                     (\<lambda>r. r\<lparr>c_state := state\<rparr>) rows
                       in (return_root canonical rows', Table rows' seq))
                | _ \<Rightarrow>
                    (Inl (CatalogError (''Could not update project-store state for '' @ canonical)),
                     touched cat))))"

definition validate_generation_opt :: "string option \<Rightarrow> exc + string option" where
  "validate_generation_opt g =
     (case g of None \<Rightarrow> Inr None | Some g \<Rightarrow> and_then (validate_store_generation g) (\<lambda>g. Inr (Some g)))"

definition owns_binding :: "string \<Rightarrow> string \<Rightarrow> string option \<Rightarrow> catalog_record \<Rightarrow> bool" where
  "owns_binding root st generation r =
     (c_root r = root \<and> c_store r = st \<and> c_gen r = generation)"

definition unregister_store ::
  "file_system \<Rightarrow> string \<Rightarrow> string \<Rightarrow> string option \<Rightarrow> (catalog, bool) act" where
  "unregister_store fs root st generation cat =
     (case and_then (canonical_repository_root fs root) (\<lambda>canonical.
             and_then (validate_store_id st) (\<lambda>i.
               and_then (validate_generation_opt generation) (\<lambda>g. Inr (canonical, i, g)))) of
        Inl e \<Rightarrow> (Inl e, cat)
      | Inr (canonical, i, g) \<Rightarrow>
          (case cat of
             Absent \<Rightarrow> (Inr False, cat)
           | NoTable \<Rightarrow>
               (Inl (CatalogError (''Could not unregister project store for '' @ canonical)), cat)
           | Table rows seq \<Rightarrow>
               (Inr (length (filter (owns_binding canonical i g) rows) = 1),
                Table (filter (\<lambda>r. \<not> owns_binding canonical i g r) rows) seq)))"

section \<open>The catalog invariant\<close>

definition catalog_ok :: "catalog \<Rightarrow> bool" where
  "catalog_ok cat =
     (case cat of
        Table rows seq \<Rightarrow>
          0 \<le> seq \<and> distinct (map c_project rows) \<and> distinct (map c_root rows)
          \<and> distinct (map c_store rows)
          \<and> (\<forall>r\<in>set rows. record_from_row r = Inr r \<and> c_project r \<le> seq)
      | _ \<Rightarrow> True)"

definition catalog_rows :: "catalog \<Rightarrow> catalog_record list" where
  "catalog_rows cat = (case cat of Table rows _ \<Rightarrow> rows | _ \<Rightarrow> [])"

definition catalog_seq :: "catalog \<Rightarrow> int" where
  "catalog_seq cat = (case cat of Table _ seq \<Rightarrow> seq | _ \<Rightarrow> 0)"

lemma catalog_okD:
  assumes "catalog_ok cat"
  shows "distinct (map c_root (catalog_rows cat))" "r \<in> set (catalog_rows cat) \<Longrightarrow> record_from_row r = Inr r"
    "r \<in> set (catalog_rows cat) \<Longrightarrow> c_project r \<le> catalog_seq cat" "0 \<le> catalog_seq cat"
    "distinct (map c_project (catalog_rows cat))" "distinct (map c_store (catalog_rows cat))"
  using assms by (auto simp: catalog_ok_def catalog_rows_def catalog_seq_def split: catalog.splits)

lemma find_root_iff:
  assumes "distinct (map c_root rows)"
  shows "find_root root rows = Some r \<longleftrightarrow> r \<in> set rows \<and> c_root r = root"
proof
  assume "find_root root rows = Some r"
  then show "r \<in> set rows \<and> c_root r = root" by (auto simp: find_root_def find_Some_iff)
next
  assume "r \<in> set rows \<and> c_root r = root"
  then show "find_root root rows = Some r"
    unfolding find_root_def using assms
    by (intro find_unique) (auto simp: distinct_map inj_on_def)
qed

lemma find_root_None: "find_root root rows = None \<longleftrightarrow> root \<notin> c_root ` set rows"
  by (auto simp: find_root_def find_None_iff)

lemma record_from_row_fields:
  "record_from_row r = Inr r' \<Longrightarrow> r' = r"
  by (auto simp: record_from_row_def split: if_splits)

lemma catalog_ok_update:
  assumes ok: "catalog_ok (Table rows seq)"
    and f: "\<And>r. c_root (f r) = c_root r" "\<And>r. c_store (f r) = c_store r" "\<And>r. c_project (f r) = c_project r"
      "\<And>r. P r \<Longrightarrow> record_from_row r = Inr r \<Longrightarrow> record_from_row (f r) = Inr (f r)"
  shows "catalog_ok (Table (update_where P f rows) seq)"
  using ok f by (auto simp: catalog_ok_def map_update_where set_update_where)

section \<open>Registration\<close>

lemma insert_root_ok:
  assumes ok: "catalog_ok (Table rows seq)" and st: "is_store_id st"
    and run: "insert_root root st rows seq = Inr (rows', seq')"
  shows "catalog_ok (Table rows' seq') \<and> set rows \<subseteq> set rows' \<and> seq \<le> seq'
    \<and> (\<forall>r\<in>set rows'. r \<in> set rows \<or> (r = fresh_record (seq + 1) root st \<and> seq' = seq + 1))
    \<and> root \<in> c_root ` set rows'"
proof (cases "root \<in> c_root ` set rows")
  case True
  then show ?thesis using run ok by (auto simp: insert_root_def)
next
  case False
  then have new: "st \<notin> c_store ` set rows" "rows' = rows @ [fresh_record (seq + 1) root st]" "seq' = seq + 1"
    using run by (auto simp: insert_root_def split: if_splits)
  have le: "c_project r \<le> seq" if "r \<in> set rows" for r using ok that by (simp add: catalog_ok_def)
  then have "seq + 1 \<notin> c_project ` set rows" by fastforce
  moreover have "record_from_row (fresh_record (seq + 1) root st) = Inr (fresh_record (seq + 1) root st)"
    using ok st by (simp add: catalog_ok_def record_from_row_def fresh_record_def)
  moreover have "c_project r \<le> seq + 1" if "r \<in> set rows" for r using le [OF that] by simp
  ultimately have "catalog_ok (Table rows' seq')"
    using ok False new by (auto simp: catalog_ok_def fresh_record_def [of _ root])
  with new show ?thesis by (auto simp: fresh_record_def)
qed

text \<open>C8: Registering a root keeps the catalog well formed (unique projects, roots and
  stores), never drops or changes a record and never reuses a project number; on success it
  returns the one record of the canonical root, whose store is the digest of that root; and
  registering again returns the same record and changes nothing.\<close>

theorem register_store_idempotent:
  assumes ok: "catalog_ok cat" and run: "register_store fs root cat = (Inr record, cat')"
  shows "catalog_ok cat' \<and> set (catalog_rows cat) \<subseteq> set (catalog_rows cat')
    \<and> (\<exists>canonical. canonical_repository_root fs root = Inr canonical
        \<and> record \<in> set (catalog_rows cat') \<and> c_root record = canonical
        \<and> store_id_for_root fs canonical = Inr (c_store record))
    \<and> (record \<in> set (catalog_rows cat) \<or> catalog_seq cat < c_project record)
    \<and> register_store fs root cat' = (Inr record, cat')"
proof -
  obtain canonical where canonical: "canonical_repository_root fs root = Inr canonical"
    using run by (auto simp: register_store_def split: sum.splits)
  obtain derived where derived: "store_id_for_root fs canonical = Inr derived"
    using run canonical by (auto simp: register_store_def split: sum.splits)
  define rows where "rows = catalog_rows cat"
  define seq where "seq = catalog_seq cat"
  have split: "(case cat of Table rows seq \<Rightarrow> (rows, seq) | _ \<Rightarrow> ([], 0)) = (rows, seq)"
    by (simp add: rows_def seq_def catalog_rows_def catalog_seq_def split: catalog.split)
  have ok0: "catalog_ok (Table rows seq)"
    using ok by (auto simp: rows_def seq_def catalog_rows_def catalog_seq_def catalog_ok_def split: catalog.splits)
  note unfold = register_store_def canonical derived split sum.case Let_def prod.case
  obtain rows' seq' where ins: "insert_root canonical derived rows seq = Inr (rows', seq')"
    using run unfolding unfold by (cases "insert_root canonical derived rows seq") auto
  obtain row where row: "find_root canonical rows' = Some row"
    using run unfolding unfold ins by (cases "find_root canonical rows'") auto
  have rec: "record_from_row row = Inr record" "c_store record = derived" "cat' = Table rows' seq'"
    using run unfolding unfold ins row by (auto split: sum.splits if_splits)
  note new = insert_root_ok [OF ok0 store_id_for_root_valid [OF derived] ins]
  have eq: "row = record" using record_from_row_fields [OF rec(1)] by simp
  have mem: "record \<in> set rows'" "c_root record = canonical"
    using row eq by (auto simp: find_root_def find_Some_iff)
  have "insert_root canonical derived rows' seq' = Inr (rows', seq')"
    using new by (simp add: insert_root_def)
  then have again: "register_store fs root cat' = (Inr record, cat')"
    using row rec eq by (simp add: register_store_def canonical derived)
  have "record \<in> set rows \<or> seq < c_project record"
    using new mem(1) by (auto simp: fresh_record_def)
  with new mem rec(2,3) again derived canonical show ?thesis
    by (simp add: rows_def [symmetric] seq_def [symmetric]) (simp add: catalog_rows_def)
qed

theorem register_store_idempotent_witness:
  "\<exists>record cat'. register_store plain_fs ''/r'' Absent = (Inr record, cat')
     \<and> c_root record = ''/r'' \<and> register_store plain_fs ''/r'' cat' = (Inr record, cat')"
proof -
  have canonical: "canonical_repository_root plain_fs ''/r'' = Inr ''/r''" by code_simp
  have run: "register_store plain_fs ''/r'' Absent =
      (Inr (fresh_record 1 ''/r'' (sha256_hex ''/r'')), Table [fresh_record 1 ''/r'' (sha256_hex ''/r'')] 1)"
    using sha256_hex_shape [of "''/r''"]
    by (simp add: register_store_def canonical store_id_for_root_def insert_root_def find_root_def
        record_from_row_def fresh_record_def is_store_id_def)
  have "catalog_ok Absent" by (simp add: catalog_ok_def)
  from register_store_idempotent [OF this run] run canonical show ?thesis
    by (intro exI conjI) (auto simp: fresh_record_def)
qed

section \<open>Bindings guard changes\<close>

text \<open>Aux: A worker changes the state of a store only while the generation its job was bound
  to is still active: then exactly that record's state changes; when another generation is
  active, or none, the update is refused and the catalog stays as it is.\<close>

theorem state_update_needs_generation:
  assumes ok: "catalog_ok (Table rows seq)" and canonical: "canonical_repository_root fs root = Inr canonical"
    and g: "is_generation g"
  shows "(\<forall>r\<in>set rows. c_root r = canonical \<and> c_gen r = Some g \<longrightarrow>
      (\<exists>rows'. update_store_state fs root g state (Table rows seq) = (Inr (r\<lparr>c_state := state\<rparr>), Table rows' seq)
        \<and> set rows' = insert (r\<lparr>c_state := state\<rparr>) (set rows - {r}) \<and> catalog_ok (Table rows' seq)))
    \<and> ((\<forall>r\<in>set rows. c_root r = canonical \<longrightarrow> c_gen r \<noteq> Some g) \<longrightarrow>
      update_store_state fs root g state (Table rows seq) =
        (Inl (CatalogError ''project-store generation no longer matches the durable job''), Table rows seq))"
proof (intro conjI ballI impI)
  fix r assume r: "r \<in> set rows" "c_root r = canonical \<and> c_gen r = Some g"
  let ?P = "\<lambda>r. c_root r = canonical \<and> c_gen r = Some g" and ?f = "\<lambda>r. r\<lparr>c_state := state\<rparr>"
  let ?rows' = "update_where ?P ?f rows"
  have dist: "distinct (map c_root rows)" using ok by (simp add: catalog_ok_def)
  have only: "x = r" if "x \<in> set rows" "?P x" for x
    using that r dist by (auto simp: distinct_map inj_on_def)
  have ok': "catalog_ok (Table ?rows' seq)"
    by (rule catalog_ok_update [OF ok]) (auto simp: record_from_row_def split: if_splits)
  have set': "set ?rows' = insert (?f r) (set rows - {r})"
    by (rule set_update_where_unique; (rule r | erule (1) only))
  have found: "find_root canonical ?rows' = Some (?f r)"
    using ok' set' r by (subst find_root_iff) (auto simp: catalog_ok_def)
  have valid: "record_from_row (?f r) = Inr (?f r)" using ok' set' by (auto simp: catalog_ok_def)
  have ex: "\<exists>r\<in>set rows. c_root r = canonical \<and> c_gen r = Some g" using r by blast
  have "update_store_state fs root g state (Table rows seq) = (Inr (?f r), Table ?rows' seq)"
    using canonical g found valid ex
    by (simp add: update_store_state_def validate_store_generation_def return_root_def Let_def)
  with set' ok' show "\<exists>rows'. update_store_state fs root g state (Table rows seq) = (Inr (?f r), Table rows' seq)
        \<and> set rows' = insert (?f r) (set rows - {r}) \<and> catalog_ok (Table rows' seq)" by blast
next
  assume "\<forall>r\<in>set rows. c_root r = canonical \<longrightarrow> c_gen r \<noteq> Some g"
  then show "update_store_state fs root g state (Table rows seq) =
        (Inl (CatalogError ''project-store generation no longer matches the durable job''), Table rows seq)"
    using canonical g by (auto simp: update_store_state_def validate_store_generation_def)
qed

definition demo_catalog :: "catalog_record list" where
  "demo_catalog =
     [\<lparr>c_project = 1, c_root = ''/a'', c_store = demo_store, c_gen = Some ''g1'', c_state = SemanticStale\<rparr>,
      \<lparr>c_project = 2, c_root = ''/b'', c_store = replicate 64 CHR ''b'', c_gen = None, c_state = Uninitialized\<rparr>]"

theorem state_update_needs_generation_witness:
  "fst (update_store_state plain_fs ''/a'' ''g0'' SemanticReady (Table demo_catalog 2)) =
     Inl (CatalogError ''project-store generation no longer matches the durable job'')
   \<and> (\<exists>rows'. update_store_state plain_fs ''/a'' ''g1'' SemanticReady (Table demo_catalog 2) =
         (Inr (hd demo_catalog\<lparr>c_state := SemanticReady\<rparr>), Table rows' 2))"
proof -
  have ok: "catalog_ok (Table demo_catalog 2)" by code_simp
  have canonical: "canonical_repository_root plain_fs ''/a'' = Inr ''/a''" by code_simp
  have g: "is_generation ''g0''" "is_generation ''g1''" by code_simp+
  have r: "hd demo_catalog \<in> set demo_catalog" "c_root (hd demo_catalog) = ''/a'' \<and> c_gen (hd demo_catalog) = Some ''g1''"
    by (simp_all add: demo_catalog_def)
  have no: "\<forall>r\<in>set demo_catalog. c_root r = ''/a'' \<longrightarrow> c_gen r \<noteq> Some ''g0''"
    by (simp add: demo_catalog_def)
  have "update_store_state plain_fs ''/a'' ''g0'' SemanticReady (Table demo_catalog 2) =
     (Inl (CatalogError ''project-store generation no longer matches the durable job''), Table demo_catalog 2)"
    using state_update_needs_generation [OF ok canonical g(1), of SemanticReady] no by blast
  moreover have "\<exists>rows'. update_store_state plain_fs ''/a'' ''g1'' SemanticReady (Table demo_catalog 2) =
         (Inr (hd demo_catalog\<lparr>c_state := SemanticReady\<rparr>), Table rows' 2)"
    using state_update_needs_generation [OF ok canonical g(2), of SemanticReady] r by blast
  ultimately show ?thesis by simp
qed

lemma unregister_table:
  assumes "canonical_repository_root fs root = Inr canonical" "is_store_id st"
    "case generation of None \<Rightarrow> True | Some g \<Rightarrow> is_generation g"
  shows "unregister_store fs root st generation (Table rows seq) =
     (Inr (length (filter (owns_binding canonical st generation) rows) = 1),
      Table (filter (\<lambda>r. \<not> owns_binding canonical st generation r) rows) seq)"
  using assms
  by (auto simp: unregister_store_def validate_store_id_def validate_generation_opt_def
      validate_store_generation_def split: option.splits)

lemma catalog_ok_filter: "catalog_ok (Table rows seq) \<Longrightarrow> catalog_ok (Table (filter P rows) seq)"
  by (auto simp: catalog_ok_def distinct_map_filter)

section \<open>The contract of the catalog\<close>

text \<open>
  What the deletion of a repository relies on: looking a canonical root up finds its row,
  and forgetting a binding removes exactly that row, reports whether there was one, and
  keeps the table well-formed.
\<close>

locale root_bindings =
  fixes rows_of :: "'c \<Rightarrow> catalog_record list"
    and found :: "string \<Rightarrow> 'c \<Rightarrow> exc + catalog_record option"
    and forget :: "string \<Rightarrow> string \<Rightarrow> string option \<Rightarrow> 'c \<Rightarrow> (exc + bool) \<times> 'c"
    and well :: "'c \<Rightarrow> bool"
    and canonical :: "string \<Rightarrow> bool"
    and names_store :: "string \<Rightarrow> string option \<Rightarrow> bool"
  assumes unique_roots: "well c \<Longrightarrow> distinct (map c_root (rows_of c))"
    and found_row: "well c \<Longrightarrow> canonical i \<Longrightarrow> found i c = Inr (find_root i (rows_of c))"
    and forget_row: "well c \<Longrightarrow> canonical i \<Longrightarrow> names_store st g \<Longrightarrow>
      \<exists>d. forget i st g c = (Inr (\<exists>r\<in>set (rows_of c). owns_binding i st g r), d) \<and> well d
        \<and> rows_of d = filter (\<lambda>r. \<not> owns_binding i st g r) (rows_of c)"
begin

lemma found_iff:
  assumes "well c" "canonical i"
  shows "found i c = Inr (Some r) \<longleftrightarrow> r \<in> set (rows_of c) \<and> c_root r = i"
  using found_row [OF assms] find_root_iff [OF unique_roots [OF assms(1)]] by simp

text \<open>Forgetting a binding leaves every other root alone, and a second time finds nothing.\<close>

lemma forget_others:
  assumes "well c" "canonical i" "canonical j" "names_store st g" "forget i st g c = (b, d)" "j \<noteq> i"
  shows "found j d = found j c"
proof -
  have d: "well d" "rows_of d = filter (\<lambda>r. \<not> owns_binding i st g r) (rows_of c)"
    using forget_row [OF assms(1,2,4)] assms(5) by auto
  have "find_root j (filter (\<lambda>r. \<not> owns_binding i st g r) rows) = find_root j rows" for rows
    using assms(6) by (induction rows) (auto simp: find_root_def owns_binding_def)
  then show ?thesis using d found_row assms(1,3) by simp
qed

lemma forget_twice:
  assumes "well c" "canonical i" "names_store st g" "forget i st g c = (b, d)"
  shows "\<exists>e. forget i st g d = (Inr False, e) \<and> rows_of e = rows_of d"
proof -
  have d: "well d" "rows_of d = filter (\<lambda>r. \<not> owns_binding i st g r) (rows_of c)"
    using forget_row [OF assms(1-3)] assms(4) by auto
  then show ?thesis using forget_row [OF d(1) assms(2,3)] by auto
qed

end

definition generation_ok :: "string option \<Rightarrow> bool" where
  "generation_ok g = (case g of None \<Rightarrow> True | Some x \<Rightarrow> is_generation x)"

lemma filter_owned_once:
  assumes "distinct (map c_root rows)"
  shows "(length (filter (owns_binding i st g) rows) = 1) \<longleftrightarrow> (\<exists>r\<in>set rows. owns_binding i st g r)"
proof -
  have "length (filter (owns_binding i st g) rows) \<le> 1" using assms
  proof (induction rows)
    case Nil
    then show ?case by simp
  next
    case (Cons r rows)
    have "filter (owns_binding i st g) rows = []" if "owns_binding i st g r"
    proof -
      have "c_root x \<noteq> i" if "x \<in> set rows" for x
        using Cons.prems \<open>owns_binding i st g r\<close> that by (metis distinct.simps(2) image_eqI list.simps(9) owns_binding_def set_map)
      then show ?thesis by (auto simp: filter_empty_conv owns_binding_def)
    qed
    then show ?case using Cons by simp
  qed
  moreover have "length (filter (owns_binding i st g) rows) = 0 \<longleftrightarrow> \<not> (\<exists>r\<in>set rows. owns_binding i st g r)"
    by (simp add: filter_empty_conv)
  ultimately show ?thesis by linarith
qed

lemma checked_find_root:
  assumes "catalog_ok cat"
  shows "checked_row (find_root i (catalog_rows cat)) = Inr (find_root i (catalog_rows cat))"
proof (cases "find_root i (catalog_rows cat)")
  case None
  then show ?thesis by (simp add: checked_row_def)
next
  case (Some r)
  then have "r \<in> set (catalog_rows cat)" using find_root_iff [OF catalog_okD(1) [OF assms]] by simp
  then show ?thesis using Some catalog_okD(2) [OF assms] by (simp add: checked_row_def)
qed

interpretation bindings: root_bindings catalog_rows "catalog_lookup fs" "unregister_store fs"
    "\<lambda>cat. catalog_ok cat \<and> cat \<noteq> NoTable" "\<lambda>i. canonical_repository_root fs i = Inr i"
    "\<lambda>st g. is_store_id st \<and> generation_ok g" for fs
proof unfold_locales
  fix c assume "catalog_ok c \<and> c \<noteq> NoTable"
  then show "distinct (map c_root (catalog_rows c))" using catalog_okD(1) by blast
next
  fix c i assume c: "catalog_ok c \<and> c \<noteq> NoTable" and i: "canonical_repository_root fs i = Inr i"
  then have "checked_row (find_root i (catalog_rows c)) = Inr (find_root i (catalog_rows c))"
    using checked_find_root by blast
  then show "catalog_lookup fs i c = Inr (find_root i (catalog_rows c))"
    using c i by (cases c) (simp_all add: catalog_lookup_def catalog_rows_def find_root_def)
next
  fix c i st g
  assume c: "catalog_ok c \<and> c \<noteq> NoTable" and i: "canonical_repository_root fs i = Inr i"
    and st: "is_store_id st \<and> generation_ok g"
  show "\<exists>d. unregister_store fs i st g c = (Inr (\<exists>r\<in>set (catalog_rows c). owns_binding i st g r), d)
      \<and> (catalog_ok d \<and> d \<noteq> NoTable) \<and> catalog_rows d = filter (\<lambda>r. \<not> owns_binding i st g r) (catalog_rows c)"
  proof (cases c)
    case Absent
    then show ?thesis using i st
      by (auto simp: unregister_store_def validate_store_id_def validate_generation_opt_def
          validate_store_generation_def generation_ok_def catalog_rows_def catalog_ok_def split: option.splits)
  next
    case NoTable
    then show ?thesis using c by simp
  next
    case (Table rows seq)
    then have "unregister_store fs i st g c = (Inr (length (filter (owns_binding i st g) rows) = 1),
        Table (filter (\<lambda>r. \<not> owns_binding i st g r) rows) seq)"
      using st unregister_table [OF i, of st g] unfolding generation_ok_def by blast
    moreover have "distinct (map c_root rows)" using c Table catalog_okD(1) by (fastforce simp: catalog_rows_def)
    ultimately show ?thesis
      using c Table catalog_ok_filter filter_owned_once [of rows i st g] by (simp add: catalog_rows_def)
  qed
qed

end
