(* ===== verification/Store_Registry.thy ===== *)
theory Store_Registry
  imports Store_Catalog
begin

text \<open>
  \<open>ProjectStoreRegistry\<close> (\<open>src/src/scs/storage/registry.py\<close>): the catalog, the directories
  below \<open>projects\<close>, the graph databases that exist in them and the graph handles the
  process holds.  The native graph (the extension module behind \<open>NativeGraph\<close>) is a
  parameter: opening a handle, creating the repository, deleting it and flushing vectors
  succeed or raise.  Every change of durable state is an \<open>effect\<close>; a process that dies is a
  run whose budget of effects runs out, so it stops between two of them.
\<close>

section \<open>State\<close>

type_synonym binding = "string \<times> string"

record registry =
  rg_catalog :: catalog
  rg_entries :: "string list"
  rg_databases :: "binding list"
  rg_open :: "binding list"
  rg_budget :: "nat option"

record registry_env =
  re_fs :: file_system
  re_home :: ppath
  re_open :: "binding \<Rightarrow> exc + unit"
  re_create :: "binding \<Rightarrow> string \<Rightarrow> exc + unit"
  re_delete :: "binding \<Rightarrow> string \<Rightarrow> exc + dict"
  re_flush :: "binding \<Rightarrow> exc + unit"

definition killed :: exc where
  "killed = OSError ''process killed''"

definition effect :: "(registry \<Rightarrow> (exc + 'a) \<times> registry) \<Rightarrow> (registry, 'a) act" where
  "effect f s =
     (case rg_budget s of
        None \<Rightarrow> f s
      | Some 0 \<Rightarrow> (Inl killed, s)
      | Some (Suc n) \<Rightarrow> f (s\<lparr>rg_budget := Some n\<rparr>))"

definition on_catalog :: "(catalog, 'a) act \<Rightarrow> (registry, 'a) act" where
  "on_catalog m = effect (\<lambda>s. case m (rg_catalog s) of (r, cat) \<Rightarrow> (r, s\<lparr>rg_catalog := cat\<rparr>))"

definition read_catalog :: "(catalog \<Rightarrow> exc + 'a) \<Rightarrow> (registry, 'a) act" where
  "read_catalog f = act_bind (act_gets (\<lambda>s. f (rg_catalog s))) act_lift"

section \<open>Graph handles\<close>

definition store_paths_for :: "registry_env \<Rightarrow> string \<Rightarrow> string \<Rightarrow> exc + store_paths" where
  "store_paths_for env st g = resolve_store_paths (re_fs env) (re_home env) st g"

text \<open>\<open>_open\<close>: reuse the cached handle or open one, which creates a missing database.\<close>

definition open_graph :: "registry_env \<Rightarrow> binding \<Rightarrow> (registry, binding) act" where
  "open_graph env b =
     act_bind (act_gets (\<lambda>s. b \<in> set (rg_open s))) (\<lambda>cached.
       if cached then act_return b
       else act_seq (act_lift (re_open env b))
              (act_seq (effect (\<lambda>s. (Inr (), s\<lparr>rg_open := rg_open s @ [b],
                          rg_databases := List.insert b (rg_databases s)\<rparr>)))
                 (act_return b)))"

definition lookup_graph :: "registry_env \<Rightarrow> string \<Rightarrow> (registry, binding option) act" where
  "lookup_graph env root =
     act_bind (read_catalog (catalog_lookup (re_fs env) root)) (\<lambda>record.
       case record of
         None \<Rightarrow> act_return None
       | Some r \<Rightarrow>
           (case c_gen r of
              None \<Rightarrow> act_return None
            | Some g \<Rightarrow>
                act_seq (act_lift (store_paths_for env (c_store r) g))
               (act_bind (act_gets (\<lambda>s. (c_store r, g) \<in> set (rg_databases s))) (\<lambda>exists.
                  if exists then act_bind (open_graph env (c_store r, g)) (\<lambda>b. act_return (Some b))
                  else act_return None))))"

definition make_directories :: "string \<Rightarrow> (registry, unit) act" where
  "make_directories st = effect (\<lambda>s. (Inr (), s\<lparr>rg_entries := List.insert st (rg_entries s)\<rparr>))"

definition ensure_graph :: "registry_env \<Rightarrow> string \<Rightarrow> string \<Rightarrow> (registry, catalog_record \<times> binding) act" where
  "ensure_graph env fresh root =
     act_bind (on_catalog (register_store (re_fs env) root)) (\<lambda>record.
       case c_gen record of
         None \<Rightarrow>
           (let b = (c_store record, fresh) in
            act_seq (act_lift (store_paths_for env (c_store record) fresh))
           (act_seq (make_directories (c_store record))
           (act_seq (act_lift (re_open env b))
           (act_seq (effect (\<lambda>s. (Inr (), s\<lparr>rg_databases := List.insert b (rg_databases s)\<rparr>)))
           (act_bind (act_lift (canonical_repository_root (re_fs env) root)) (\<lambda>canonical.
            act_seq (act_lift (re_create env b canonical))
           (act_bind (on_catalog (activate_store (re_fs env) canonical fresh SemanticStale)) (\<lambda>active.
            act_seq (act_modify (\<lambda>s. s\<lparr>rg_open := rg_open s @ [b]\<rparr>))
              (act_return (active, b))))))))))
       | Some g \<Rightarrow>
           act_seq (act_lift (store_paths_for env (c_store record) g))
          (act_bind (open_graph env (c_store record, g)) (\<lambda>b. act_return (record, b))))"

definition graph_for_binding :: "registry_env \<Rightarrow> string \<Rightarrow> binding \<Rightarrow> (registry, binding) act" where
  "graph_for_binding env root b =
     act_bind (read_catalog (catalog_lookup (re_fs env) root)) (\<lambda>record.
       case record of
         Some r \<Rightarrow>
           if c_gen r = Some (snd b) \<and> c_store r = fst b then
             act_seq (act_lift (store_paths_for env (fst b) (snd b)))
            (act_bind (act_gets (\<lambda>s. b \<in> set (rg_databases s))) (\<lambda>exists.
               if exists then open_graph env b
               else act_raise (RuntimeError ''project-store graph is missing for durable job'')))
           else act_raise (RuntimeError ''project-store binding no longer matches the catalog'')
       | None \<Rightarrow> act_raise (RuntimeError ''project-store binding no longer matches the catalog''))"

definition mark_semantic_ready :: "registry_env \<Rightarrow> string \<Rightarrow> binding \<Rightarrow> (registry, catalog_record) act" where
  "mark_semantic_ready env root b =
     act_bind (read_catalog (catalog_lookup (re_fs env) root)) (\<lambda>record.
       case record of
         None \<Rightarrow> act_raise (RuntimeError ''project-store binding no longer matches the catalog'')
       | Some r \<Rightarrow>
           if c_store r \<noteq> fst b
           then act_raise (RuntimeError ''project-store binding no longer matches the catalog'')
           else on_catalog (update_store_state (re_fs env) root (snd b) SemanticReady))"

fun flush_all :: "registry_env \<Rightarrow> binding list \<Rightarrow> (registry, unit) act" where
  "flush_all env [] = act_return ()"
| "flush_all env (b # bs) = act_seq (act_lift (re_flush env b)) (flush_all env bs)"

definition flush_registry :: "registry_env \<Rightarrow> (registry, unit) act" where
  "flush_registry env =
     act_bind (act_gets rg_open) (\<lambda>bs.
       act_seq (flush_all env bs) (act_modify (\<lambda>s. s\<lparr>rg_open := []\<rparr>)))"

section \<open>Deleting a repository\<close>

definition retired_stores :: "string \<Rightarrow> registry \<Rightarrow> string list" where
  "retired_stores st s = sort (filter (prefix (tombstone_prefix st)) (rg_entries s))"

fun remove_entries :: "string list \<Rightarrow> (registry, unit) act" where
  "remove_entries [] = act_return ()"
| "remove_entries (e # es) =
     act_seq (effect (\<lambda>s. (Inr (), s\<lparr>rg_entries := removeAll e (rg_entries s)\<rparr>))) (remove_entries es)"

definition remove_retired_stores :: "registry_env \<Rightarrow> string \<Rightarrow> (registry, unit) act" where
  "remove_retired_stores env st =
     act_seq (act_lift (store_paths_for env st ''deletion''))
       (act_bind (act_gets (retired_stores st)) remove_entries)"

definition retire_store :: "string \<Rightarrow> string \<Rightarrow> (registry, unit) act" where
  "retire_store st tomb =
     effect (\<lambda>s. (Inr (), s\<lparr>rg_entries := tomb # removeAll st (rg_entries s),
                           rg_databases := filter (\<lambda>b. fst b \<noteq> st) (rg_databases s)\<rparr>))"

definition delete_native :: "registry_env \<Rightarrow> string \<Rightarrow> binding \<Rightarrow> (registry, dict) act" where
  "delete_native env canonical b =
     act_seq (graph_for_binding env canonical b)
    (act_bind (act_lift (re_delete env b canonical)) (\<lambda>native.
       act_seq (act_modify (\<lambda>s. s\<lparr>rg_open := removeAll b (rg_open s)\<rparr>)) (act_return native)))"

definition dict_update :: "dict \<Rightarrow> dict \<Rightarrow> dict" where
  "dict_update d e = foldl (\<lambda>d (k, v). dict_set d k v) d e"

definition binding_matches :: "catalog_record option \<Rightarrow> string \<Rightarrow> string option \<Rightarrow> bool" where
  "binding_matches record st g =
     (case record of None \<Rightarrow> False | Some r \<Rightarrow> c_store r = st \<and> c_gen r = g)"

text \<open>Move a live store that has no tombstone yet aside, deleting its graph first if it is bound.\<close>

definition retire_live ::
  "registry_env \<Rightarrow> string \<Rightarrow> string \<Rightarrow> string option \<Rightarrow> string \<Rightarrow> bool \<Rightarrow> (registry, dict) act" where
  "retire_live env canonical st g tomb matches =
     act_bind (act_gets (\<lambda>s. tomb \<in> set (rg_entries s))) (\<lambda>tomb_exists.
     act_bind (act_gets (\<lambda>s. st \<in> set (rg_entries s))) (\<lambda>store_exists.
       if \<not> tomb_exists \<and> store_exists then
         act_bind
           (case (matches, g) of
              (True, Some gen) \<Rightarrow> delete_native env canonical (st, gen)
            | _ \<Rightarrow> act_return [])
           (\<lambda>native. act_seq (retire_store st tomb) (act_return native))
       else act_return []))"

definition delete_steps ::
  "registry_env \<Rightarrow> string \<Rightarrow> string \<Rightarrow> string option \<Rightarrow> string \<Rightarrow> catalog_record option \<Rightarrow> (registry, dict) act" where
  "delete_steps env canonical st g tomb record =
     (let matches = binding_matches record st g in
      act_bind (act_gets (\<lambda>s. st \<in> set (rg_entries s))) (\<lambda>store_exists.
      act_bind (retire_live env canonical st g tomb matches) (\<lambda>native.
      act_seq
        (if matches
         then act_seq (on_catalog (unregister_store (re_fs env) canonical st g)) (act_return ())
         else act_return ())
     (act_seq (remove_retired_stores env st)
        (act_return (dict_update
          [(''repo_deleted'', JBool (record \<noteq> None \<or> store_exists)), (''superseded'', JBool False)]
          native))))))"

definition delete_repository ::
  "registry_env \<Rightarrow> string \<Rightarrow> string \<Rightarrow> string option \<Rightarrow> string \<Rightarrow> (registry, dict) act" where
  "delete_repository env root st generation deletion_id =
     act_bind (act_lift (canonical_repository_root (re_fs env) root)) (\<lambda>canonical.
     act_bind (act_lift (validate_store_id st)) (\<lambda>safe.
     act_bind (act_lift (validate_generation_opt generation)) (\<lambda>g.
     act_seq (act_lift (store_paths_for env safe (case g of None \<Rightarrow> ''deletion'' | Some x \<Rightarrow> x)))
    (act_seq (act_lift (retired_project_store_path (re_fs env) (re_home env) safe deletion_id))
    (act_bind (read_catalog (catalog_lookup (re_fs env) canonical)) (\<lambda>record.
       if record \<noteq> None \<and> \<not> binding_matches record safe g then
         act_seq (remove_retired_stores env safe)
           (act_return [(''repo_deleted'', JBool False), (''superseded'', JBool True)])
       else delete_steps env canonical safe g (tombstone_name safe deletion_id) record))))))"

definition deletion_target :: "registry_env \<Rightarrow> string \<Rightarrow> (registry, (string \<times> string option) option) act" where
  "deletion_target env root =
     act_bind (act_lift (canonical_repository_root (re_fs env) root)) (\<lambda>canonical.
     act_bind (read_catalog (catalog_lookup (re_fs env) canonical)) (\<lambda>record.
     act_bind (act_lift (case record of Some r \<Rightarrow> Inr (c_store r)
                                      | None \<Rightarrow> store_id_for_root (re_fs env) canonical)) (\<lambda>st.
     (let g = (case record of Some r \<Rightarrow> c_gen r | None \<Rightarrow> None) in
      act_seq (act_lift (store_paths_for env st (case g of None \<Rightarrow> ''deletion'' | Some x \<Rightarrow> x)))
     (act_bind (act_gets (\<lambda>s. st \<in> set (rg_entries s) \<or> retired_stores st s \<noteq> [])) (\<lambda>left.
        if record = None \<and> \<not> left then act_return None else act_return (Some (st, g))))))))"

end
