(* ===== verification/Store_Deletion.thy ===== *)
theory Store_Deletion
  imports Store_Registry
begin

text \<open>
  Deleting a repository is a sequence of durable effects (the native delete, the rename of
  the store to its tombstone, the catalog delete, the removal of tombstones) that a dying
  process can cut anywhere.  \<open>residue\<close> is the outcome a deletion is meant to have, as a
  function of the state; every effect keeps it, and a run that is not interrupted reaches it.
\<close>

section \<open>The outcome of a deletion\<close>

definition residue :: "string \<Rightarrow> string \<Rightarrow> string option \<Rightarrow> registry \<Rightarrow> catalog_record list \<times> string set" where
  "residue canonical st g s =
     (filter (\<lambda>r. \<not> owns_binding canonical st g r) (catalog_rows (rg_catalog s)),
      {e \<in> set (rg_entries s). e \<noteq> st \<and> \<not> prefix (tombstone_prefix st) e})"

definition deletable :: "string \<Rightarrow> string \<Rightarrow> string option \<Rightarrow> string \<Rightarrow> registry \<Rightarrow> bool" where
  "deletable canonical st g tomb s =
     (catalog_ok (rg_catalog s) \<and> rg_catalog s \<noteq> NoTable
      \<and> (\<forall>r\<in>set (catalog_rows (rg_catalog s)). c_root r = canonical \<longrightarrow> c_store r = st \<and> c_gen r = g)
      \<and> \<not> (st \<in> set (rg_entries s) \<and> tomb \<in> set (rg_entries s))
      \<and> (\<forall>gen. g = Some gen \<and> canonical \<in> c_root ` set (catalog_rows (rg_catalog s)) \<and> st \<in> set (rg_entries s)
           \<longrightarrow> (st, gen) \<in> set (rg_databases s)))"

text \<open>The paths resolve inside the projects directory and the native graph opens and deletes.\<close>

definition deletion_env :: "registry_env \<Rightarrow> string \<Rightarrow> string \<Rightarrow> string \<Rightarrow> string option \<Rightarrow> string \<Rightarrow> bool" where
  "deletion_env env root canonical st g deletion_id =
     (canonical_repository_root (re_fs env) root = Inr canonical
      \<and> canonical_repository_root (re_fs env) canonical = Inr canonical
      \<and> is_store_id st \<and> (case g of None \<Rightarrow> True | Some x \<Rightarrow> is_generation x)
      \<and> \<not> is_raise (store_paths_for env st (case g of None \<Rightarrow> ''deletion'' | Some x \<Rightarrow> x))
      \<and> \<not> is_raise (store_paths_for env st ''deletion'')
      \<and> \<not> is_raise (retired_project_store_path (re_fs env) (re_home env) st deletion_id)
      \<and> (\<forall>gen. g = Some gen \<longrightarrow>
           re_open env (st, gen) = Inr () \<and> \<not> is_raise (re_delete env (st, gen) canonical)))"

definition resumable :: "string \<Rightarrow> string \<Rightarrow> string option \<Rightarrow> string \<Rightarrow> catalog_record list \<times> string set \<Rightarrow> registry \<Rightarrow> bool" where
  "resumable canonical st g tomb R s = (deletable canonical st g tomb s \<and> residue canonical st g s = R)"

lemma resumable_frame [simp]:
  "resumable canonical st g tomb R (s\<lparr>rg_budget := b\<rparr>) = resumable canonical st g tomb R s"
  "resumable canonical st g tomb R (s\<lparr>rg_open := bs\<rparr>) = resumable canonical st g tomb R s"
  by (simp_all add: resumable_def deletable_def residue_def)

section \<open>Every effect keeps the outcome\<close>

lemma resumable_open:
  "resumable canonical st g tomb R s \<Longrightarrow>
   resumable canonical st g tomb R (s\<lparr>rg_open := bs, rg_databases := List.insert b (rg_databases s)\<rparr>)"
  by (auto simp: resumable_def deletable_def residue_def)

lemma resumable_retire:
  assumes "is_store_id st" "resumable canonical st g (tombstone_name st d) R s"
  shows "resumable canonical st g (tombstone_name st d) R
    (s\<lparr>rg_entries := tombstone_name st d # removeAll st (rg_entries s),
       rg_databases := filter (\<lambda>b. fst b \<noteq> st) (rg_databases s)\<rparr>)"
proof -
  have "st \<noteq> tombstone_name st d" using assms(1) tombstone_not_store by metis
  moreover have "prefix (tombstone_prefix st) (tombstone_name st d)"
    by (simp add: tombstone_name_def)
  ultimately show ?thesis
    using assms(2) by (auto simp: resumable_def deletable_def residue_def)
qed

lemma resumable_remove:
  assumes "prefix (tombstone_prefix st) e" "resumable canonical st g tomb R s"
  shows "resumable canonical st g tomb R (s\<lparr>rg_entries := removeAll e (rg_entries s)\<rparr>)"
  using assms by (auto simp: resumable_def deletable_def residue_def)

text \<open>The catalog enters only through its contract.\<close>

lemma deletion_contract:
  assumes "deletion_env env root canonical st g d"
  shows "canonical_repository_root (re_fs env) canonical = Inr canonical" "is_store_id st \<and> generation_ok g"
  using assms by (simp_all add: deletion_env_def generation_ok_def)

lemma deletable_catalog: "deletable canonical st g tomb s \<Longrightarrow> catalog_ok (rg_catalog s) \<and> rg_catalog s \<noteq> NoTable"
  by (simp add: deletable_def)

lemma forget_binding:
  assumes "deletion_env env root canonical st g d" "deletable canonical st g tomb s"
    "unregister_store (re_fs env) canonical st g (rg_catalog s) = (r, cat)"
  shows "\<not> is_raise r" "catalog_ok cat \<and> cat \<noteq> NoTable"
    "catalog_rows cat = filter (\<lambda>r. \<not> owns_binding canonical st g r) (catalog_rows (rg_catalog s))"
  using bindings.forget_row [OF deletable_catalog [OF assms(2)] deletion_contract [OF assms(1)]] assms(3) by auto

lemma resumable_unregister:
  assumes "deletion_env env root canonical st g d" "resumable canonical st g tomb R s"
    "unregister_store (re_fs env) canonical st g (rg_catalog s) = (r, cat)"
  shows "resumable canonical st g tomb R (s\<lparr>rg_catalog := cat\<rparr>)"
proof -
  have "deletable canonical st g tomb s" using assms(2) by (simp add: resumable_def)
  from forget_binding [OF assms(1) this assms(3)] assms(2) show ?thesis
    by (auto simp: resumable_def deletable_def residue_def)
qed

section \<open>A run that may be cut keeps the outcome\<close>

lemma effect_cases:
  "effect f s = (r, t) \<Longrightarrow>
   (r = Inl killed \<and> t = s) \<or> (\<exists>b. f (s\<lparr>rg_budget := b\<rparr>) = (r, t) \<and> (rg_budget s = None \<longrightarrow> b = None))"
proof (cases "rg_budget s")
  case None
  assume "effect f s = (r, t)"
  moreover have "s = s\<lparr>rg_budget := None\<rparr>" using None by simp
  ultimately show ?thesis using None by (metis effect_def option.simps(4))
next
  case (Some n)
  assume "effect f s = (r, t)"
  then show ?thesis using Some by (cases n) (auto simp: effect_def)
qed

lemma kept_effect:
  assumes "\<And>s r t. resumable canonical st g tomb R s \<Longrightarrow> f s = (r, t) \<Longrightarrow> resumable canonical st g tomb R t"
  shows "act_keeps (resumable canonical st g tomb R) (effect f)"
proof (rule keepsI)
  show "resumable canonical st g tomb R t"
    if "resumable canonical st g tomb R s" "effect f s = (r, t)" for s r t
    using effect_cases [OF that(2)] that(1) assms by (metis resumable_frame(1))
qed

lemma kept_read: "act_keeps I (read_catalog f)"
  unfolding read_catalog_def by (intro keeps_bind keeps_pure)

lemma kept_open_graph: "act_keeps (resumable canonical st g tomb R) (open_graph env b)"
  unfolding open_graph_def by (intro keeps_intros keeps_pure kept_effect) (auto dest: resumable_open)

lemma kept_graph_for_binding: "act_keeps (resumable canonical st g tomb R) (graph_for_binding env root b)"
  unfolding graph_for_binding_def
proof (rule keeps_bind [OF kept_read], goal_cases)
  case (1 row)
  show ?case by (cases row) (auto intro!: keeps_intros kept_open_graph)
qed

lemma kept_delete_native: "act_keeps (resumable canonical st g tomb R) (delete_native env root b)"
  unfolding delete_native_def
  by (intro keeps_intros keeps_pure kept_graph_for_binding keeps_modify) simp

lemma kept_remove_entries:
  "\<forall>e\<in>set es. prefix (tombstone_prefix st) e \<Longrightarrow>
   act_keeps (resumable canonical st g tomb R) (remove_entries es)"
proof (induction es)
  case Nil
  show ?case by (simp add: keeps_pure)
next
  case (Cons e es)
  then show ?case
    by (auto intro!: keeps_seq kept_effect dest: resumable_remove)
qed

lemma kept_remove_retired: "act_keeps (resumable canonical st g tomb R) (remove_retired_stores env st)"
proof -
  have "act_keeps (resumable canonical st g tomb R) (act_bind (act_gets (retired_stores st)) remove_entries)"
  proof (rule keepsI)
    fix s r t assume "resumable canonical st g tomb R s"
      "act_bind (act_gets (retired_stores st)) remove_entries s = (r, t)"
    moreover have "\<forall>e\<in>set (retired_stores st s). prefix (tombstone_prefix st) e"
      by (simp add: retired_stores_def)
    ultimately show "resumable canonical st g tomb R t"
      using keepsD [OF kept_remove_entries] by (simp add: act_bind_def act_gets_def)
  qed
  then show ?thesis unfolding remove_retired_stores_def by (intro keeps_seq keeps_pure)
qed

lemma kept_unregister:
  assumes "deletion_env env root canonical st g d"
  shows "act_keeps (resumable canonical st g tomb R) (on_catalog (unregister_store (re_fs env) canonical st g))"
  unfolding on_catalog_def
  by (rule kept_effect) (auto split: prod.splits intro: resumable_unregister [OF assms])

lemma kept_retire:
  assumes "is_store_id st" "tomb = tombstone_name st d"
  shows "act_keeps (resumable canonical st g tomb R) (retire_store st tomb)"
  unfolding retire_store_def assms(2)
  by (rule kept_effect) (auto intro: resumable_retire [OF assms(1)])

lemma kept_delete_steps:
  assumes "deletion_env env root canonical st g d" "tomb = tombstone_name st d"
  shows "act_keeps (resumable canonical st g tomb R) (delete_steps env canonical st g tomb record)"
proof -
  have st: "is_store_id st" using assms(1) by (simp add: deletion_env_def)
  have "act_keeps (resumable canonical st g tomb R)
     (case (m, g) of (True, Some gen) \<Rightarrow> delete_native env canonical (st, gen) | _ \<Rightarrow> act_return [])" for m
    by (auto intro: kept_delete_native split: bool.split option.split)
  then show ?thesis
    unfolding delete_steps_def retire_live_def Let_def
    by (intro keeps_intros keeps_pure kept_remove_retired kept_unregister [OF assms(1)] kept_retire [OF st assms(2)])
qed

lemma deletion_checks:
  assumes "deletion_env env root canonical st g d"
  shows "canonical_repository_root (re_fs env) root = Inr canonical" "validate_store_id st = Inr st"
    "validate_generation_opt g = Inr g"
  using assms
  by (auto simp: deletion_env_def validate_store_id_def validate_generation_opt_def
      validate_store_generation_def split: option.splits)

lemma act_bind_lift_Inr [simp]: "act_bind (act_lift (Inr x)) f = f x"
  by (simp add: fun_eq_iff act_bind_def act_lift_def)

lemma kept_delete_repository:
  assumes "deletion_env env root canonical st g d" "tomb = tombstone_name st d"
  shows "act_keeps (resumable canonical st g tomb R) (delete_repository env root st g d)"
  unfolding delete_repository_def deletion_checks [OF assms(1)] act_bind_lift_Inr assms(2) [symmetric]
  by (intro keeps_intros keeps_pure kept_read kept_remove_retired kept_delete_steps [OF assms])

section \<open>A run that is not cut reaches the outcome\<close>

lemma effect_run: "rg_budget s = None \<Longrightarrow> effect f s = f s"
  by (simp add: effect_def)

lemma remove_entries_run:
  "rg_budget s = None \<Longrightarrow>
   remove_entries es s = (Inr (), s\<lparr>rg_entries := filter (\<lambda>e. e \<notin> set es) (rg_entries s)\<rparr>)"
proof (induction es arbitrary: s)
  case Nil
  show ?case by (simp add: act_return_def)
next
  case (Cons e es)
  have "filter (\<lambda>x. x \<notin> set es) (removeAll e (rg_entries s)) = filter (\<lambda>x. x \<noteq> e \<and> x \<notin> set es) (rg_entries s)"
    by (induction "rg_entries s" arbitrary: s) (auto simp: removeAll_filter_not_eq intro: filter_cong)
  then show ?case
    using Cons by (simp add: act_seq_def act_bind_def effect_run)
qed

lemma remove_retired_run:
  assumes "rg_budget s = None" "\<not> is_raise (store_paths_for env st ''deletion'')"
  shows "remove_retired_stores env st s =
    (Inr (), s\<lparr>rg_entries := filter (\<lambda>e. \<not> prefix (tombstone_prefix st) e) (rg_entries s)\<rparr>)"
proof -
  obtain ps where ps: "store_paths_for env st ''deletion'' = Inr ps"
    using assms(2) by (cases "store_paths_for env st ''deletion''") auto
  have "filter (\<lambda>e. e \<notin> set (retired_stores st s)) (rg_entries s) =
      filter (\<lambda>e. \<not> prefix (tombstone_prefix st) e) (rg_entries s)"
    by (rule filter_cong) (simp_all add: retired_stores_def)
  then show ?thesis
    using remove_entries_run [OF assms(1)] ps
    by (simp add: remove_retired_stores_def act_seq_def act_bind_def act_lift_def act_gets_def)
qed

lemma lookup_deletable:
  assumes "deletion_env env root canonical st g d" "deletable canonical st g tomb s"
  shows "catalog_lookup (re_fs env) canonical (rg_catalog s) = Inr (find_root canonical (catalog_rows (rg_catalog s)))"
    "find_root canonical (catalog_rows (rg_catalog s)) = Some r \<Longrightarrow> c_store r = st \<and> c_gen r = g"
proof -
  note contract = deletable_catalog [OF assms(2)] deletion_contract(1) [OF assms(1)]
  show row: "catalog_lookup (re_fs env) canonical (rg_catalog s) = Inr (find_root canonical (catalog_rows (rg_catalog s)))"
    by (rule bindings.found_row [OF contract])
  show "find_root canonical (catalog_rows (rg_catalog s)) = Some r \<Longrightarrow> c_store r = st \<and> c_gen r = g"
    using bindings.found_iff [OF contract] row assms(2) by (auto simp: deletable_def)
qed

lemma read_lookup:
  assumes "deletion_env env root canonical st g d" "deletable canonical st g tomb s"
  shows "act_bind (read_catalog (catalog_lookup (re_fs env) canonical)) f s =
    f (find_root canonical (catalog_rows (rg_catalog s))) s"
  by (simp add: read_catalog_def act_bind_def act_gets_def act_lift_def lookup_deletable(1) [OF assms])

lemma open_graph_run:
  assumes "rg_budget s = None" "re_open env b = Inr ()"
  obtains t where "open_graph env b s = (Inr b, t)" "rg_budget t = None"
    "rg_catalog t = rg_catalog s" "rg_entries t = rg_entries s"
  using assms that
  by (cases "b \<in> set (rg_open s)")
     (simp_all add: open_graph_def act_bind_def act_gets_def act_seq_def act_lift_def effect_run act_return_def)

lemma delete_native_run:
  assumes "deletion_env env root canonical st (Some gen) d" "deletable canonical st (Some gen) tomb s"
    "rg_budget s = None" "canonical \<in> c_root ` set (catalog_rows (rg_catalog s))" "st \<in> set (rg_entries s)"
  obtains native t where "delete_native env canonical (st, gen) s = (Inr native, t)" "rg_budget t = None"
    "rg_catalog t = rg_catalog s" "rg_entries t = rg_entries s"
proof -
  obtain r where r: "find_root canonical (catalog_rows (rg_catalog s)) = Some r"
    using assms(4) find_root_None by fastforce
  have r': "c_store r = st" "c_gen r = Some gen" using lookup_deletable(2) [OF assms(1,2) r] by simp_all
  have db: "(st, gen) \<in> set (rg_databases s)" using assms(2,4,5) by (simp add: deletable_def)
  obtain ps where ps: "store_paths_for env st gen = Inr ps"
    using assms(1) by (cases "store_paths_for env st gen") (auto simp: deletion_env_def)
  have op: "re_open env (st, gen) = Inr ()" using assms(1) by (simp add: deletion_env_def)
  obtain native where nat: "re_delete env (st, gen) canonical = Inr native"
    using assms(1) by (cases "re_delete env (st, gen) canonical") (auto simp: deletion_env_def)
  obtain t where t: "open_graph env (st, gen) s = (Inr (st, gen), t)" "rg_budget t = None"
    "rg_catalog t = rg_catalog s" "rg_entries t = rg_entries s"
    using open_graph_run [OF assms(3) op] .
  have "graph_for_binding env canonical (st, gen) s = open_graph env (st, gen) s"
    unfolding graph_for_binding_def read_lookup [OF assms(1,2)]
    using r r' ps db by (simp add: act_seq_def act_bind_def act_gets_def act_lift_def)
  then have "delete_native env canonical (st, gen) s = (Inr native, t\<lparr>rg_open := removeAll (st, gen) (rg_open t)\<rparr>)"
    using t nat by (simp add: delete_native_def act_seq_def act_bind_def act_lift_def act_modify_def act_return_def)
  then show thesis using that [of native "t\<lparr>rg_open := removeAll (st, gen) (rg_open t)\<rparr>"] t by simp
qed

lemma retire_live_run:
  assumes "deletion_env env root canonical st g d" "deletable canonical st g tomb s" "rg_budget s = None"
    "tomb = tombstone_name st d" "m \<longleftrightarrow> canonical \<in> c_root ` set (catalog_rows (rg_catalog s))"
  obtains native t where "retire_live env canonical st g tomb m s = (Inr native, t)" "rg_budget t = None"
    "rg_catalog t = rg_catalog s" "st \<notin> set (rg_entries t)"
    "snd (residue canonical st g t) = snd (residue canonical st g s)"
proof (cases "tomb \<notin> set (rg_entries s) \<and> st \<in> set (rg_entries s)")
  case False
  then have "retire_live env canonical st g tomb m s = (Inr [], s)"
    by (auto simp: retire_live_def act_bind_def act_gets_def act_return_def)
  moreover have "st \<notin> set (rg_entries s)" using False assms(2) by (auto simp: deletable_def)
  ultimately show thesis using that [of "[]" s] assms(3) by simp
next
  case live: True
  have st: "is_store_id st" using assms(1) by (simp add: deletion_env_def)
  then have tomb: "st \<noteq> tomb" "prefix (tombstone_prefix st) tomb"
    using tombstone_not_store assms(4) by (metis, simp add: tombstone_name_def)
  obtain native u where u: "(case (m, g) of (True, Some gen) \<Rightarrow> delete_native env canonical (st, gen)
       | _ \<Rightarrow> act_return []) s = (Inr native, u)" "rg_budget u = None"
    "rg_catalog u = rg_catalog s" "rg_entries u = rg_entries s"
  proof (cases "m \<and> g \<noteq> None")
    case True
    then obtain gen where g: "g = Some gen" by auto
    obtain native u where "delete_native env canonical (st, gen) s = (Inr native, u)" "rg_budget u = None"
      "rg_catalog u = rg_catalog s" "rg_entries u = rg_entries s"
      using delete_native_run [of env root canonical st gen d tomb s] assms g live True by metis
    then show thesis using that [of native u] True g by simp
  next
    case False
    then have "(case (m, g) of (True, Some gen) \<Rightarrow> delete_native env canonical (st, gen) | _ \<Rightarrow> act_return []) s
       = (Inr [], s)"
      by (auto simp: act_return_def split: bool.split option.split)
    then show thesis using that [of "[]" s] assms(3) by simp
  qed
  have "retire_live env canonical st g tomb m s =
      (Inr native, u\<lparr>rg_entries := tomb # removeAll st (rg_entries u),
                     rg_databases := filter (\<lambda>b. fst b \<noteq> st) (rg_databases u)\<rparr>)"
    using u live
    by (simp add: retire_live_def retire_store_def act_bind_def act_gets_def act_seq_def act_return_def effect_run)
  then show thesis
    using that u tomb by (fastforce simp: residue_def)
qed

lemma unregister_run:
  assumes "deletion_env env root canonical st g d" "deletable canonical st g tomb s" "rg_budget s = None"
    "m \<longleftrightarrow> canonical \<in> c_root ` set (catalog_rows (rg_catalog s))"
  obtains cat where "(if m then act_seq (on_catalog (unregister_store (re_fs env) canonical st g)) (act_return ())
      else act_return ()) s = (Inr (), s\<lparr>rg_catalog := cat\<rparr>)"
    "catalog_rows cat = filter (\<lambda>r. \<not> owns_binding canonical st g r) (catalog_rows (rg_catalog s))"
proof (cases m)
  case False
  then have "\<forall>r\<in>set (catalog_rows (rg_catalog s)). \<not> owns_binding canonical st g r"
    using assms(4) by (auto simp: owns_binding_def)
  then have "catalog_rows (rg_catalog s) = filter (\<lambda>r. \<not> owns_binding canonical st g r) (catalog_rows (rg_catalog s))"
    by (simp add: filter_id_conv)
  then show thesis using that [of "rg_catalog s"] False by (simp add: act_return_def)
next
  case True
  obtain r cat where un: "unregister_store (re_fs env) canonical st g (rg_catalog s) = (r, cat)"
    by (cases "unregister_store (re_fs env) canonical st g (rg_catalog s)")
  note facts = forget_binding [OF assms(1,2) un]
  obtain b where "r = Inr b" using facts(1) by (cases r) auto
  then show thesis
    using that [of cat] True assms(3) un facts(3)
    by (simp add: on_catalog_def effect_run act_seq_def act_bind_def act_return_def)
qed

lemma delete_repository_run:
  assumes "deletion_env env root canonical st g d" "deletable canonical st g (tombstone_name st d) s"
    "rg_budget s = None"
  obtains out t where "delete_repository env root st g d s = (Inr out, t)"
    "(catalog_rows (rg_catalog t), set (rg_entries t)) = residue canonical st g s"
proof -
  let ?row = "find_root canonical (catalog_rows (rg_catalog s))"
  let ?m = "binding_matches ?row st g"
  have m: "?m \<longleftrightarrow> canonical \<in> c_root ` set (catalog_rows (rg_catalog s))"
    using lookup_deletable(2) [OF assms(1,2)] find_root_None [of canonical "catalog_rows (rg_catalog s)"]
    by (cases ?row) (auto simp: binding_matches_def)
  have no_other: "\<not> (?row \<noteq> None \<and> \<not> ?m)"
    using lookup_deletable(2) [OF assms(1,2)] by (auto simp: binding_matches_def split: option.splits)
  obtain native t where t: "retire_live env canonical st g (tombstone_name st d) ?m s = (Inr native, t)"
    "rg_budget t = None" "rg_catalog t = rg_catalog s" "st \<notin> set (rg_entries t)"
    "snd (residue canonical st g t) = snd (residue canonical st g s)"
    using retire_live_run [OF assms refl m] by metis
  have dt: "deletable canonical st g (tombstone_name st d) t"
    using assms(2) t(3,4) by (simp add: deletable_def)
  have mt: "?m \<longleftrightarrow> canonical \<in> c_root ` set (catalog_rows (rg_catalog t))" using m t(3) by simp
  obtain cat where cat: "(if ?m then act_seq (on_catalog (unregister_store (re_fs env) canonical st g)) (act_return ())
      else act_return ()) t = (Inr (), t\<lparr>rg_catalog := cat\<rparr>)"
    "catalog_rows cat = filter (\<lambda>r. \<not> owns_binding canonical st g r) (catalog_rows (rg_catalog t))"
    using unregister_run [OF assms(1) dt t(2) mt] by metis
  let ?u = "t\<lparr>rg_catalog := cat\<rparr>"
  let ?v = "?u\<lparr>rg_entries := filter (\<lambda>e. \<not> prefix (tombstone_prefix st) e) (rg_entries ?u)\<rparr>"
  have paths: "\<not> is_raise (store_paths_for env st ''deletion'')" using assms(1) by (simp add: deletion_env_def)
  have rem: "remove_retired_stores env st ?u = (Inr (), ?v)"
    using t(2) remove_retired_run [OF _ paths, of ?u] by simp
  have "\<exists>out. delete_steps env canonical st g (tombstone_name st d) ?row s = (Inr out, ?v)"
    using t(1) cat(1) rem
    by (simp add: delete_steps_def Let_def act_bind_def act_gets_def act_seq_def act_return_def)
  moreover have "delete_repository env root st g d s = delete_steps env canonical st g (tombstone_name st d) ?row s"
  proof -
    obtain ps tp where "store_paths_for env st (case g of None \<Rightarrow> ''deletion'' | Some x \<Rightarrow> x) = Inr ps"
      "retired_project_store_path (re_fs env) (re_home env) st d = Inr tp"
      using assms(1)
      by (cases "store_paths_for env st (case g of None \<Rightarrow> ''deletion'' | Some x \<Rightarrow> x)";
          cases "retired_project_store_path (re_fs env) (re_home env) st d") (auto simp: deletion_env_def)
    then show ?thesis
      unfolding delete_repository_def deletion_checks [OF assms(1)] act_bind_lift_Inr act_seq_def
      by (simp only: act_bind_lift_Inr read_lookup [OF assms(1,2)] no_other if_False)
  qed
  moreover have "(catalog_rows (rg_catalog ?v), set (rg_entries ?v)) = residue canonical st g s"
    using t(3,4,5) cat(2) by (auto simp: residue_def)
  ultimately show thesis using that by metis
qed

section \<open>Interruption and resumption\<close>

text \<open>C6: A repository deletion survives being cut anywhere.  Let the process die after any
  number of durable effects, let a new process with no open graphs run the same deletion
  job again: it returns, the catalog is the original one without exactly the binding the
  job owns, and of the directories exactly the store and its tombstones are gone.\<close>

theorem deletion_resumes:
  assumes "deletion_env env root canonical st g deletion_id"
    and "deletable canonical st g (tombstone_name st deletion_id) s"
    and "delete_repository env root st g deletion_id (s\<lparr>rg_budget := budget\<rparr>) = (r1, s1)"
  shows "\<exists>out s2. delete_repository env root st g deletion_id (s1\<lparr>rg_budget := None, rg_open := []\<rparr>) = (Inr out, s2)
     \<and> catalog_rows (rg_catalog s2) =
         filter (\<lambda>r. \<not> owns_binding canonical st g r) (catalog_rows (rg_catalog s))
     \<and> set (rg_entries s2) = {e \<in> set (rg_entries s). e \<noteq> st \<and> \<not> prefix (tombstone_prefix st) e}"
proof -
  let ?R = "residue canonical st g s"
  let ?I = "resumable canonical st g (tombstone_name st deletion_id) ?R"
  let ?restart = "s1\<lparr>rg_budget := None, rg_open := []\<rparr>"
  have "?I s" using assms(2) by (simp add: resumable_def)
  then have "?I (s\<lparr>rg_budget := budget\<rparr>)" by simp
  then have "?I s1" using keepsD [OF kept_delete_repository [OF assms(1) refl]] assms(3) by blast
  then have "?I ?restart" by simp
  then have again: "deletable canonical st g (tombstone_name st deletion_id) ?restart"
    "residue canonical st g ?restart = ?R" by (simp_all add: resumable_def)
  obtain out s2 where "delete_repository env root st g deletion_id ?restart = (Inr out, s2)"
    "(catalog_rows (rg_catalog s2), set (rg_entries s2)) = residue canonical st g ?restart"
    using delete_repository_run [OF assms(1) again(1)] by auto
  then show ?thesis using again(2) by (auto simp: residue_def)
qed

definition demo_env :: registry_env where
  "demo_env = \<lparr>re_fs = plain_fs, re_home = parse_path ''/h'', re_open = \<lambda>_. Inr (),
     re_create = \<lambda>_ _. Inr (), re_delete = \<lambda>_ _. Inr [], re_flush = \<lambda>_. Inr ()\<rparr>"

definition demo_registry :: registry where
  "demo_registry = \<lparr>rg_catalog = Table demo_catalog 2, rg_entries = [demo_store, ''other''],
     rg_databases = [(demo_store, ''g1'')], rg_open = [], rg_budget = None\<rparr>"

lemma path_child_inside: "parse_root s = [] \<Longrightarrow> is_relative_to (path_child p s) p"
  by (simp add: path_child_def path_join_def parse_path_def is_relative_to_iff)

lemma demo_deletion_env: "deletion_env demo_env ''/a'' ''/a'' demo_store (Some ''g1'') ''job''"
proof -
  have "canonical_repository_root (re_fs demo_env) ''/a'' = Inr ''/a''" by code_simp
  moreover have "is_store_id demo_store" "is_generation ''g1''" by code_simp+
  moreover have "\<not> is_raise (store_paths_for demo_env demo_store ''g1'')"
    "\<not> is_raise (store_paths_for demo_env demo_store ''deletion'')" by code_simp+
  moreover have "parse_root ''projects'' = []" "parse_root (tombstone_name demo_store ''job'') = []"
    by (simp_all add: parse_root_def tombstone_name_def tombstone_prefix_def numeral_eq_Suc)
  then have "is_store_id demo_store \<Longrightarrow> \<not> is_raise (retired_project_store_path plain_fs (parse_path ''/h'') demo_store ''job'')"
    by (simp add: retired_project_store_path_def validate_scs_home_def plain_fs_def validate_store_id_def
        assert_contained_def path_child_inside)
  ultimately show ?thesis by (simp add: deletion_env_def demo_env_def)
qed

theorem deletion_resumes_witness:
  "\<exists>out s2. delete_repository demo_env ''/a'' demo_store (Some ''g1'') ''job''
       (snd (delete_repository demo_env ''/a'' demo_store (Some ''g1'') ''job'' (demo_registry\<lparr>rg_budget := Some 2\<rparr>))
          \<lparr>rg_budget := None, rg_open := []\<rparr>) = (Inr out, s2)
     \<and> map c_root (catalog_rows (rg_catalog s2)) = [''/b''] \<and> ''other'' \<in> set (rg_entries s2)
     \<and> demo_store \<notin> set (rg_entries s2)"
proof -
  let ?run = "delete_repository demo_env ''/a'' demo_store (Some ''g1'') ''job'' (demo_registry\<lparr>rg_budget := Some 2\<rparr>)"
  have "catalog_ok (Table demo_catalog 2)" by code_simp
  moreover have "tombstone_name demo_store ''job'' \<noteq> demo_store"
    by (simp add: tombstone_name_def tombstone_prefix_def demo_store_def numeral_eq_Suc)
  moreover have "tombstone_name demo_store ''job'' \<noteq> ''other''"
    by (simp add: tombstone_name_def tombstone_prefix_def)
  ultimately have ok: "deletable ''/a'' demo_store (Some ''g1'') (tombstone_name demo_store ''job'') demo_registry"
    by (auto simp: deletable_def demo_registry_def demo_catalog_def catalog_rows_def)
  have "?run = (fst ?run, snd ?run)" by simp
  from deletion_resumes [OF demo_deletion_env ok this]
  obtain out s2 where *: "delete_repository demo_env ''/a'' demo_store (Some ''g1'') ''job''
       (snd ?run\<lparr>rg_budget := None, rg_open := []\<rparr>) = (Inr out, s2)"
    "catalog_rows (rg_catalog s2) =
       filter (\<lambda>r. \<not> owns_binding ''/a'' demo_store (Some ''g1'') r) (catalog_rows (rg_catalog demo_registry))"
    "set (rg_entries s2) = {e \<in> set (rg_entries demo_registry). e \<noteq> demo_store \<and> \<not> prefix (tombstone_prefix demo_store) e}"
    by blast
  have "''other'' \<noteq> demo_store" by (simp add: demo_store_def numeral_eq_Suc)
  then show ?thesis
    using * by (simp add: demo_registry_def demo_catalog_def catalog_rows_def owns_binding_def tombstone_prefix_def)
qed

section \<open>A superseded deletion\<close>

definition only_retired :: "string \<Rightarrow> registry \<Rightarrow> registry \<Rightarrow> bool" where
  "only_retired st s t =
     (rg_catalog t = rg_catalog s \<and> rg_databases t = rg_databases s \<and> rg_open t = rg_open s
      \<and> set (rg_entries t) \<subseteq> set (rg_entries s)
      \<and> (\<forall>e\<in>set (rg_entries s) - set (rg_entries t). prefix (tombstone_prefix st) e))"

lemma only_retired_effect:
  assumes "prefix (tombstone_prefix st) e"
  shows "act_keeps (only_retired st s) (effect (\<lambda>s. (Inr (), s\<lparr>rg_entries := removeAll e (rg_entries s)\<rparr>)))"
  by (rule keepsI) (use assms in \<open>auto dest!: effect_cases simp: only_retired_def\<close>)

lemma only_retired_entries:
  "\<forall>e\<in>set es. prefix (tombstone_prefix st) e \<Longrightarrow> act_keeps (only_retired st s) (remove_entries es)"
  by (induction es) (auto intro!: keeps_seq only_retired_effect)

lemma only_retired_remove: "act_keeps (only_retired st s) (remove_retired_stores env st)"
proof -
  have "only_retired st s t"
    if "only_retired st s u" "act_bind (act_gets (retired_stores st)) remove_entries u = (r, t)" for u r t
  proof -
    have "\<forall>e\<in>set (retired_stores st u). prefix (tombstone_prefix st) e" by (simp add: retired_stores_def)
    then show ?thesis
      using keepsD [OF only_retired_entries that(1)] that(2) by (simp add: act_bind_def act_gets_def)
  qed
  then have "act_keeps (only_retired st s) (act_bind (act_gets (retired_stores st)) remove_entries)"
    by (rule keepsI)
  then show ?thesis unfolding remove_retired_stores_def by (intro keeps_seq keeps_pure)
qed

text \<open>C7: A deletion job whose repository was indexed again under another store or
  generation in the meantime deletes nothing of the replacement: whatever the outcome, the
  catalog, the databases and the open graphs are untouched and only tombstones of the
  job's own store may go.\<close>

theorem superseded_deletion_harmless:
  assumes "canonical_repository_root (re_fs env) root = Inr canonical"
    and "catalog_lookup (re_fs env) canonical (rg_catalog s) = Inr (Some r)"
    and "c_store r \<noteq> st \<or> c_gen r \<noteq> g"
    and "delete_repository env root st g deletion_id s = (out, t)"
  shows "rg_catalog t = rg_catalog s \<and> rg_databases t = rg_databases s \<and> rg_open t = rg_open s
     \<and> set (rg_entries t) \<subseteq> set (rg_entries s)
     \<and> (\<forall>e. e \<in> set (rg_entries s) \<longrightarrow> e \<notin> set (rg_entries t) \<longrightarrow> prefix (tombstone_prefix st) e)"
proof -
  let ?P = "\<lambda>u. only_retired st s u \<and> u = s"
  have "act_ensures ?P (delete_repository env root st g deletion_id)
     (\<lambda>_. only_retired st s) (\<lambda>_. only_retired st s)"
  proof -
    have valid: "validate_store_id x = Inr y \<Longrightarrow> y = x" "validate_generation_opt a = Inr b \<Longrightarrow> b = a" for x y a b
      by (auto simp: validate_store_id_def validate_generation_opt_def validate_store_generation_def
          split: if_splits option.splits)
    have kept: "only_retired st s u" if "act_seq (remove_retired_stores env st) (act_return x) s = (o', u)" for x o' u
      by (rule keepsD [OF keeps_seq [OF only_retired_remove keeps_pure(3)] _ that]) (simp add: only_retired_def)
    have "\<not> binding_matches (Some r) st g" using assms(3) by (auto simp: binding_matches_def)
    then have "act_ensures ?P (act_bind (read_catalog (catalog_lookup (re_fs env) canonical)) (\<lambda>record.
       if record \<noteq> None \<and> \<not> binding_matches record st g then
         act_seq (remove_retired_stores env st)
           (act_return [(''repo_deleted'', JBool False), (''superseded'', JBool True)])
       else delete_steps env canonical st g (tombstone_name st deletion_id) record))
       (\<lambda>_. only_retired st s) (\<lambda>_. only_retired st s)"
      using assms(2)
      by (auto simp: read_catalog_def act_bind_def act_gets_def act_lift_def act_ensures_def
          split: prod.split sum.split dest: kept)
    note tail = this
    show ?thesis
      unfolding delete_repository_def assms(1) act_bind_lift_Inr
    proof (rule ensures_bind [where R = "\<lambda>x u. ?P u \<and> x = st"], goal_cases)
      case 1
      show ?case by (rule ensures_lift) (auto dest: valid)
    next
      case (2 x)
      show ?case
      proof (rule ensures_given, goal_cases)
        case 1
        note x = 1
        show ?case
        proof (rule ensures_bind [where R = "\<lambda>y u. ?P u \<and> y = g"], goal_cases)
          case 1
          show ?case by (rule ensures_lift) (auto dest: valid)
        next
          case (2 y)
          show ?case
            by (rule ensures_given, unfold x, hypsubst, intro ensures_seq [where R = ?P] ensures_lift tail)
               (auto simp: only_retired_def)
        qed
      qed
    qed
  qed
  moreover have "?P s" by (simp add: only_retired_def)
  ultimately have "only_retired st s t"
    using assms(4) by (cases out) (auto dest: ensures_Inr ensures_Inl)
  then show ?thesis by (auto simp: only_retired_def)
qed

theorem superseded_deletion_harmless_witness:
  "rg_catalog (snd (delete_repository demo_env ''/a'' demo_store (Some ''g0'') ''job'' demo_registry)) =
     Table demo_catalog 2
   \<and> ''other'' \<in> set (rg_entries (snd (delete_repository demo_env ''/a'' demo_store (Some ''g0'') ''job'' demo_registry)))"
proof -
  let ?run = "delete_repository demo_env ''/a'' demo_store (Some ''g0'') ''job'' demo_registry"
  have "canonical_repository_root (re_fs demo_env) ''/a'' = Inr ''/a''"
    "catalog_lookup (re_fs demo_env) ''/a'' (rg_catalog demo_registry) = Inr (Some (hd demo_catalog))"
    by code_simp+
  moreover have "c_store (hd demo_catalog) \<noteq> demo_store \<or> c_gen (hd demo_catalog) \<noteq> Some ''g0''" by code_simp
  moreover have "?run = (fst ?run, snd ?run)" by simp
  ultimately have "rg_catalog (snd ?run) = rg_catalog demo_registry"
    "\<forall>e. e \<in> set (rg_entries demo_registry) \<longrightarrow> e \<notin> set (rg_entries (snd ?run)) \<longrightarrow> prefix (tombstone_prefix demo_store) e"
    using superseded_deletion_harmless [of demo_env "''/a''" "''/a''" demo_registry "hd demo_catalog" demo_store "Some ''g0''" "''job''" "fst ?run" "snd ?run"]
    by blast+
  then show ?thesis by (auto simp: demo_registry_def tombstone_prefix_def)
qed

end
