(* ===== verification/Graph_Gate.thy ===== *)
theory Graph_Gate
  imports Scs_Prelude
begin

text \<open>
  \<open>GraphMutationGate\<close> (\<open>src/src/scs/graph/gating.py\<close>): admission of native graph reads and
  mutations.  Each section under the condition variable's lock is one atomic operation on
  the gate; threads are the positions of a list of phases, and a thread inside
  \<open>Condition.wait\<close> is asleep until a notification.  \<open>gate_step\<close> interleaves the threads, so
  the invariant covers every schedule and \<open>gate_never_stuck\<close> rules out lost wake-ups.
\<close>

section \<open>The gate and its atomic sections\<close>

record gate =
  ga_readers :: nat
  ga_reserved :: bool
  ga_active :: bool

text \<open>\<open>Turn\<close> waits to reserve, \<open>Drain\<close> holds the reservation; the flag says asleep.\<close>

datatype phase = Outside | Reading | Turn bool | Drain bool | Mutating

definition new_gate :: gate where
  "new_gate = \<lparr>ga_readers = 0, ga_reserved = False, ga_active = False\<rparr>"

definition enter_read :: "gate \<Rightarrow> exc + gate" where
  "enter_read g =
     (if ga_reserved g \<or> ga_active g then Inl (ServiceBusyError ''graph index is temporarily busy'')
      else Inr (g\<lparr>ga_readers := ga_readers g + 1\<rparr>))"

text \<open>Leaving returns the gate and whether all waiters are notified.\<close>

definition leave_read :: "gate \<Rightarrow> gate \<times> bool" where
  "leave_read g = (let g' = g\<lparr>ga_readers := ga_readers g - 1\<rparr> in (g', ga_readers g' = 0))"

text \<open>The two loops of \<open>mutation()\<close>: each wait releases the lock and is entered again awake.\<close>

definition drain_readers :: "gate \<Rightarrow> gate \<times> phase" where
  "drain_readers g =
     (if ga_readers g > 0 then (g, Drain True)
      else (g\<lparr>ga_reserved := False, ga_active := True\<rparr>, Mutating))"

definition reserve_mutation :: "gate \<Rightarrow> gate \<times> phase" where
  "reserve_mutation g =
     (if ga_reserved g \<or> ga_active g then (g, Turn True)
      else drain_readers (g\<lparr>ga_reserved := True\<rparr>))"

definition leave_mutation :: "gate \<Rightarrow> gate" where
  "leave_mutation g = g\<lparr>ga_active := False\<rparr>"

fun wake :: "phase \<Rightarrow> phase" where
  "wake (Turn _) = Turn False"
| "wake (Drain _) = Drain False"
| "wake p = p"

definition notify :: "bool \<Rightarrow> phase list \<Rightarrow> phase list" where
  "notify all ps = (if all then map wake ps else ps)"

section \<open>Interleaved threads\<close>

type_synonym system = "gate \<times> phase list"

inductive gate_step :: "system \<Rightarrow> nat \<Rightarrow> system \<Rightarrow> bool" where
  admit: "i < length ps \<Longrightarrow> ps ! i = Outside \<Longrightarrow> enter_read g = Inr g' \<Longrightarrow>
     gate_step (g, ps) i (g', ps[i := Reading])"
| refuse: "i < length ps \<Longrightarrow> ps ! i = Outside \<Longrightarrow> enter_read g = Inl e \<Longrightarrow> gate_step (g, ps) i (g, ps)"
| finish_read: "i < length ps \<Longrightarrow> ps ! i = Reading \<Longrightarrow> leave_read g = (g', n) \<Longrightarrow>
     gate_step (g, ps) i (g', notify n (ps[i := Outside]))"
| ask: "i < length ps \<Longrightarrow> ps ! i = Outside \<Longrightarrow> reserve_mutation g = (g', p) \<Longrightarrow>
     gate_step (g, ps) i (g', ps[i := p])"
| retry: "i < length ps \<Longrightarrow> ps ! i = Turn False \<Longrightarrow> reserve_mutation g = (g', p) \<Longrightarrow>
     gate_step (g, ps) i (g', ps[i := p])"
| drained: "i < length ps \<Longrightarrow> ps ! i = Drain False \<Longrightarrow> drain_readers g = (g', p) \<Longrightarrow>
     gate_step (g, ps) i (g', ps[i := p])"
| finish_mutation: "i < length ps \<Longrightarrow> ps ! i = Mutating \<Longrightarrow>
     gate_step (g, ps) i (leave_mutation g, notify True (ps[i := Outside]))"

inductive gate_reachable :: "system \<Rightarrow> bool" where
  start: "gate_reachable (new_gate, replicate n Outside)"
| step: "gate_reachable s \<Longrightarrow> gate_step s i s' \<Longrightarrow> gate_reachable s'"

section \<open>The invariant\<close>

fun is_drain :: "phase \<Rightarrow> bool" where
  "is_drain (Drain _) = True"
| "is_drain _ = False"

definition gate_ok :: "system \<Rightarrow> bool" where
  "gate_ok s = (case s of (g, ps) \<Rightarrow>
     ga_readers g = how_many ((=) Reading) ps
     \<and> how_many is_drain ps = of_bool (ga_reserved g)
     \<and> how_many ((=) Mutating) ps = of_bool (ga_active g)
     \<and> \<not> (ga_reserved g \<and> ga_active g)
     \<and> (ga_active g \<longrightarrow> ga_readers g = 0)
     \<and> (Turn True \<in> set ps \<longrightarrow> ga_reserved g \<or> ga_active g)
     \<and> (Drain True \<in> set ps \<longrightarrow> ga_readers g > 0))"

lemma wake_simps [simp]:
  "(Reading = wake p) = (Reading = p)" "(Mutating = wake p) = (Mutating = p)"
  "is_drain (wake p) = is_drain p" "Turn True \<noteq> wake p" "Drain True \<noteq> wake p"
  by (cases p; simp)+

lemma how_many_notify [simp]:
  "how_many ((=) Reading) (notify n ps) = how_many ((=) Reading) ps"
  "how_many ((=) Mutating) (notify n ps) = how_many ((=) Mutating) ps"
  "how_many is_drain (notify n ps) = how_many is_drain ps"
  by (simp_all add: notify_def how_many_map)

lemma asleep_notify:
  "Turn True \<in> set (notify n ps) \<longleftrightarrow> \<not> n \<and> Turn True \<in> set ps"
  "Drain True \<in> set (notify n ps) \<longleftrightarrow> \<not> n \<and> Drain True \<in> set ps"
  by (auto simp: notify_def)

lemma asleep_update: "x \<in> set (ps[i := p]) \<Longrightarrow> x = p \<or> x \<in> set ps"
  using set_update_subset_insert by fastforce

lemma new_gate_ok: "gate_ok (new_gate, replicate n Outside)"
  by (simp add: gate_ok_def new_gate_def how_many_def)

lemmas gate_section_defs = enter_read_def leave_read_def reserve_mutation_def drain_readers_def
  leave_mutation_def Let_def

lemma gate_ok_step: "gate_step s i s' \<Longrightarrow> gate_ok s \<Longrightarrow> gate_ok s'"
proof (induction rule: gate_step.induct)
  case (admit i ps g g')
  note upd = how_many_update [of i ps "(=) Reading" Reading] how_many_update [of i ps "(=) Mutating" Reading]
    how_many_update [of i ps is_drain Reading]
  show ?case using admit upd
    by (auto simp: gate_ok_def gate_section_defs asleep_notify dest!: asleep_update split: if_splits)
next
  case (refuse i ps g e)
  then show ?case by simp
next
  case (finish_read i ps g g' n)
  note upd = how_many_update [of i ps "(=) Reading" Outside] how_many_update [of i ps "(=) Mutating" Outside]
    how_many_update [of i ps is_drain Outside]
  show ?case using finish_read upd
    by (auto simp: gate_ok_def gate_section_defs asleep_notify dest!: asleep_update)
next
  case (ask i ps g g' p)
  note upd = how_many_update [of i ps "(=) Reading" p] how_many_update [of i ps "(=) Mutating" p]
    how_many_update [of i ps is_drain p]
  show ?case using ask upd
    by (auto simp: gate_ok_def gate_section_defs asleep_notify dest!: asleep_update split: if_splits)
next
  case (retry i ps g g' p)
  note upd = how_many_update [of i ps "(=) Reading" p] how_many_update [of i ps "(=) Mutating" p]
    how_many_update [of i ps is_drain p]
  show ?case using retry upd
    by (auto simp: gate_ok_def gate_section_defs asleep_notify dest!: asleep_update split: if_splits)
next
  case (drained i ps g g' p)
  note upd = how_many_update [of i ps "(=) Reading" p] how_many_update [of i ps "(=) Mutating" p]
    how_many_update [of i ps is_drain p]
  show ?case using drained upd
    by (cases "ga_reserved g") (auto simp: gate_ok_def gate_section_defs asleep_notify dest!: asleep_update split: if_splits)
next
  case (finish_mutation i ps g)
  note upd = how_many_update [of i ps "(=) Reading" Outside] how_many_update [of i ps "(=) Mutating" Outside]
    how_many_update [of i ps is_drain Outside]
  show ?case using finish_mutation upd
    by (cases "ga_active g") (auto simp: gate_ok_def gate_section_defs asleep_notify dest!: asleep_update)
qed

lemma gate_ok_reachable: "gate_reachable s \<Longrightarrow> gate_ok s"
  by (induction rule: gate_reachable.induct) (auto simp: new_gate_ok gate_ok_step)

section \<open>Exclusion\<close>

text \<open>C9: In every reachable state of the gate, under every interleaving: a thread inside a
  mutation is alone, no other thread reads, mutates or holds the reservation; and a step
  lets a thread start reading only when no thread mutates or has reserved a mutation, the
  step of any other reader raising the busy error and changing nothing.\<close>

theorem gate_exclusion:
  assumes "gate_reachable (g, ps)"
  shows "(\<forall>i j. i < length ps \<and> j < length ps \<and> i \<noteq> j \<and> ps ! i = Mutating \<longrightarrow>
             ps ! j \<noteq> Reading \<and> ps ! j \<noteq> Mutating \<and> \<not> is_drain (ps ! j))
     \<and> ((\<exists>g'. enter_read g = Inr g') \<longleftrightarrow> (\<forall>p\<in>set ps. p \<noteq> Mutating \<and> \<not> is_drain p))"
proof (intro conjI allI impI)
  have ok: "gate_ok (g, ps)" using gate_ok_reachable [OF assms] .
  fix i j assume a: "i < length ps \<and> j < length ps \<and> i \<noteq> j \<and> ps ! i = Mutating"
  then have "0 < how_many ((=) Mutating) ps" unfolding how_many_pos by (metis nth_mem)
  then have act: "ga_active g" "how_many ((=) Mutating) ps = 1" "how_many ((=) Reading) ps = 0" "how_many is_drain ps = 0"
    using ok by (auto simp: gate_ok_def split: if_splits)
  have "ps ! j \<in> set ps" using a by simp
  then show "ps ! j \<noteq> Reading" "\<not> is_drain (ps ! j)"
    using act(3,4) how_many_pos [of "(=) Reading" ps] how_many_pos [of is_drain ps] by auto
  show "ps ! j \<noteq> Mutating"
    using act(2) a how_many_two [of i ps j "(=) Mutating"] by auto
next
  have ok: "gate_ok (g, ps)" using gate_ok_reachable [OF assms] .
  have "(\<exists>g'. enter_read g = Inr g') \<longleftrightarrow> \<not> ga_reserved g \<and> \<not> ga_active g"
    by (simp add: enter_read_def)
  also have "\<dots> \<longleftrightarrow> how_many is_drain ps = 0 \<and> how_many ((=) Mutating) ps = 0"
    using ok by (simp add: gate_ok_def)
  also have "\<dots> \<longleftrightarrow> (\<forall>p\<in>set ps. p \<noteq> Mutating \<and> \<not> is_drain p)"
    using how_many_pos [of is_drain ps] how_many_pos [of "(=) Mutating" ps] by auto
  finally show "(\<exists>g'. enter_read g = Inr g') \<longleftrightarrow> (\<forall>p\<in>set ps. p \<noteq> Mutating \<and> \<not> is_drain p)" .
qed

definition draining :: system where
  "draining = (new_gate\<lparr>ga_readers := 1, ga_reserved := True\<rparr>, [Reading, Drain True])"

lemma draining_reachable: "gate_reachable draining"
proof -
  have "gate_step (new_gate, replicate 2 Outside) 0 (new_gate\<lparr>ga_readers := 1\<rparr>, (replicate 2 Outside)[0 := Reading])"
    by (rule admit) (simp_all add: enter_read_def new_gate_def numeral_2_eq_2)
  then have "gate_reachable (new_gate\<lparr>ga_readers := 1\<rparr>, (replicate 2 Outside)[0 := Reading])"
    using gate_reachable.intros by blast
  moreover have "gate_step (new_gate\<lparr>ga_readers := 1\<rparr>, (replicate 2 Outside)[0 := Reading]) 1
     (new_gate\<lparr>ga_readers := 1, ga_reserved := True\<rparr>, (replicate 2 Outside)[0 := Reading, 1 := Drain True])"
    by (rule ask) (simp_all add: reserve_mutation_def drain_readers_def new_gate_def numeral_2_eq_2)
  ultimately show ?thesis
    using step by (fastforce simp: draining_def numeral_2_eq_2)
qed

theorem gate_exclusion_witness: "\<not> (\<exists>g'. enter_read (fst draining) = Inr g')"
  using gate_exclusion [of "fst draining" "snd draining"] draining_reachable
  by (simp add: draining_def)

section \<open>Progress\<close>

fun is_turn :: "phase \<Rightarrow> bool" where
  "is_turn (Turn _) = True"
| "is_turn _ = False"

definition awake :: "phase \<Rightarrow> bool" where
  "awake p = (p = Turn False \<or> p = Drain False)"

definition gate_work :: "phase list \<Rightarrow> nat" where
  "gate_work ps =
     (3 * how_many is_turn ps + 2 * how_many is_drain ps + how_many ((=) Reading) ps + how_many ((=) Mutating) ps)
       * (length ps + 1) + how_many awake ps"

lemma is_turn_notify [simp]: "how_many is_turn (notify n ps) = how_many is_turn ps"
proof -
  have "is_turn (wake p) = is_turn p" for p by (cases p) simp_all
  then show ?thesis by (simp add: notify_def how_many_map)
qed

lemma length_notify [simp]: "length (notify n ps) = length ps"
  by (simp add: notify_def)

lemma work_drops:
  "a < b \<Longrightarrow> how_many awake xs \<le> n \<Longrightarrow> a * (n + 1) + how_many awake xs < b * (n + 1) + how_many awake ys"
proof -
  assume "a < b" "how_many awake xs \<le> n"
  moreover have "Suc a * (n + 1) \<le> b * (n + 1)" if "a < b" by (rule mult_le_mono1) (use that in simp)
  ultimately show ?thesis by simp
qed

lemma gate_work_finish:
  assumes "i < length ps" "ps ! i = Reading \<or> ps ! i = Mutating"
  shows "gate_work (notify n (ps[i := Outside])) < gate_work ps"
  unfolding gate_work_def length_notify length_list_update
proof (rule work_drops)
  show "3 * how_many is_turn (notify n (ps[i := Outside])) + 2 * how_many is_drain (notify n (ps[i := Outside])) +
      how_many ((=) Reading) (notify n (ps[i := Outside])) + how_many ((=) Mutating) (notify n (ps[i := Outside]))
    < 3 * how_many is_turn ps + 2 * how_many is_drain ps + how_many ((=) Reading) ps + how_many ((=) Mutating) ps"
    using assms how_many_update [of i ps is_turn Outside] how_many_update [of i ps is_drain Outside]
      how_many_update [of i ps "(=) Reading" Outside] how_many_update [of i ps "(=) Mutating" Outside] by auto
  show "how_many awake (notify n (ps[i := Outside])) \<le> length ps"
    using how_many_le [of awake "notify n (ps[i := Outside])"] by simp
qed

lemma gate_work_advance:
  assumes "i < length ps" "(ps ! i = Turn False \<and> (p = Turn True \<or> p = Drain True \<or> p = Mutating))
     \<or> (ps ! i = Drain False \<and> (p = Drain True \<or> p = Mutating))"
  shows "gate_work (ps[i := p]) < gate_work ps"
proof -
  note upd = how_many_update [of i ps is_turn p] how_many_update [of i ps is_drain p]
    how_many_update [of i ps "(=) Reading" p] how_many_update [of i ps "(=) Mutating" p]
    how_many_update [of i ps awake p]
  show ?thesis
  proof (cases "(ps ! i = Turn False \<and> p = Turn True) \<or> (ps ! i = Drain False \<and> p = Drain True)")
    case True
    then show ?thesis using upd assms(1) by (auto simp: gate_work_def awake_def)
  next
    case False
    show ?thesis unfolding gate_work_def length_list_update
      by (rule work_drops)
         (use upd False assms how_many_le [of awake "ps[i := p]"] in \<open>auto simp: awake_def\<close>)
  qed
qed

text \<open>C10: The gate drains: a step of a thread that is inside the gate strictly decreases a
  natural number, so without new arrivals every schedule ends; and no wake-up is lost, in a
  reachable state where no thread inside the gate can step every thread is outside and the
  gate is as new.\<close>

theorem gate_drains:
  assumes "gate_reachable (g, ps)"
  shows "(\<forall>i g' ps'. gate_step (g, ps) i (g', ps') \<and> ps ! i \<noteq> Outside \<longrightarrow> gate_work ps' < gate_work ps)
     \<and> ((\<nexists>i s'. gate_step (g, ps) i s' \<and> ps ! i \<noteq> Outside) \<longrightarrow> set ps \<subseteq> {Outside} \<and> g = new_gate)"
proof (intro conjI allI impI)
  fix i g' ps' assume "gate_step (g, ps) i (g', ps') \<and> ps ! i \<noteq> Outside"
  then have "gate_step (g, ps) i (g', ps')" "ps ! i \<noteq> Outside" by simp_all
  then show "gate_work ps' < gate_work ps"
    by (cases rule: gate_step.cases)
       (auto simp: gate_section_defs intro!: gate_work_finish gate_work_advance split: if_splits)
next
  have ok: "gate_ok (g, ps)" using gate_ok_reachable [OF assms] .
  assume "\<nexists>i s'. gate_step (g, ps) i s' \<and> ps ! i \<noteq> Outside"
  then have stuck: "\<not> gate_step (g, ps) i s'" if "ps ! i \<noteq> Outside" for i s' using that by blast
  have idle: "ps ! i \<noteq> Reading \<and> ps ! i \<noteq> Mutating \<and> ps ! i \<noteq> Turn False \<and> ps ! i \<noteq> Drain False"
    if i: "i < length ps" for i
    using stuck [of i] gate_step.intros(3,5,6,7) [OF i]
    by (metis phase.distinct(1,3,5,7) prod.exhaust)
  then have none: "Reading \<notin> set ps" "Mutating \<notin> set ps" "Turn False \<notin> set ps" "Drain False \<notin> set ps"
    by (metis in_set_conv_nth)+
  have readers: "ga_readers g = 0" "\<not> ga_active g"
    using ok none(1,2) how_many_pos [of "(=) Reading" ps] how_many_pos [of "(=) Mutating" ps]
    by (auto simp: gate_ok_def)
  then have "Drain True \<notin> set ps" using ok by (simp add: gate_ok_def)
  then have no_drain: "\<not> is_drain p" if "p \<in> set ps" for p
    using that none(4) by (cases p) (simp_all, metis (full_types))
  then have "how_many is_drain ps = 0" using how_many_pos [of is_drain ps] by auto
  then have "\<not> ga_reserved g" using ok by (simp add: gate_ok_def)
  then have "g = new_gate" "Turn True \<notin> set ps"
    using readers ok by (simp_all add: gate_ok_def new_gate_def)
  moreover have "p = Outside" if p: "p \<in> set ps" for p
  proof (cases p)
    case (Turn b)
    then show ?thesis using p none(3) \<open>Turn True \<notin> set ps\<close> by (cases b) simp_all
  next
    case (Drain b)
    then show ?thesis using no_drain [OF p] by simp
  qed (use p none in simp_all)
  ultimately show "set ps \<subseteq> {Outside}" "g = new_gate" by auto
qed

theorem gate_drains_witness: "\<exists>i s'. gate_step draining i s' \<and> snd draining ! i \<noteq> Outside"
proof (rule ccontr)
  assume "\<not> ?thesis"
  then have "set (snd draining) \<subseteq> {Outside}"
    using gate_drains [of "fst draining" "snd draining"] draining_reachable by simp
  then show False by (simp add: draining_def)
qed

end
