(* ===== verification/Wire_Framing.thy ===== *)
theory Wire_Framing
  imports Sha256
begin

text \<open>
  Length-prefixed JSON frames (\<open>src/src/scs/wire/framing.py\<close>).  A stream is the list of the
  bytes the peer sends before it closes, a byte a natural number below 256; \<open>readexactly\<close>
  fails when fewer bytes are left.  \<open>json.dumps\<close> is modelled for the values of type
  \<open>json\<close> (with the separators, the key order and the escapes the code asks for);
  \<open>json.loads\<close> is a parameter, since a peer may send texts outside those values.
\<close>

section \<open>\<open>json.dumps\<close> with sorted keys and no spaces\<close>

definition escape_char :: "char \<Rightarrow> string" where
  "escape_char c =
     (let n = (of_char c :: nat); bs = char_of (92::nat) in
      if n = 34 \<or> n = 92 then [bs, c]
      else if n = 10 then [bs, CHR ''n''] else if n = 13 then [bs, CHR ''r'']
      else if n = 9 then [bs, CHR ''t''] else if n = 12 then [bs, CHR ''f'']
      else if n = 8 then [bs, CHR ''b'']
      else if n < 32 then [bs] @ ''u'' @ hex_digits 4 n
      else [c])"

definition json_string :: "string \<Rightarrow> string" where
  "json_string s = [char_of (34::nat)] @ concat (map escape_char s) @ [char_of (34::nat)]"

fun sort_json :: "json \<Rightarrow> json" where
  "sort_json (JList xs) = JList (map sort_json xs)"
| "sort_json (JObj kvs) = JObj (sort_key fst (map (\<lambda>(k, v). (k, sort_json v)) kvs))"
| "sort_json v = v"

fun print_json :: "json \<Rightarrow> string" where
  "print_json JNull = ''null''"
| "print_json (JBool b) = (if b then ''true'' else ''false'')"
| "print_json (JInt i) = int_str i"
| "print_json (JStr s) = json_string s"
| "print_json (JList xs) = ''['' @ intercalate '','' (map print_json xs) @ '']''"
| "print_json (JObj kvs) =
     ''{'' @ intercalate '','' (map (\<lambda>(k, v). json_string k @ '':'' @ print_json v) kvs) @ ''}''"

definition json_dumps :: "dict \<Rightarrow> nat list" where
  "json_dumps d = utf8 (print_json (sort_json (JObj d)))"

section \<open>Frames\<close>

definition max_frame_bytes :: nat where
  "max_frame_bytes = 16 * 1024 * 1024"

fun be_value :: "nat list \<Rightarrow> nat" where
  "be_value bs = foldl (\<lambda>n b. n * 256 + b) 0 bs"

definition read_exactly :: "nat \<Rightarrow> exc \<Rightarrow> (nat list, nat list) act" where
  "read_exactly n e stream =
     (if length stream < n then (Inl e, []) else (Inr (take n stream), drop n stream))"

definition oversized :: "nat \<Rightarrow> exc" where
  "oversized n = FrameError (''SCSWire frame size '' @ nat_digits n @ '' exceeds ''
     @ nat_digits max_frame_bytes @ '' bytes'')"

definition decode_body :: "(nat list \<Rightarrow> json option) \<Rightarrow> nat list \<Rightarrow> exc + dict" where
  "decode_body loads body =
     (case loads body of
        None \<Rightarrow> Inl (FrameError ''SCSWire frame body is not valid JSON'')
      | Some (JObj d) \<Rightarrow> Inr d
      | Some _ \<Rightarrow> Inl (FrameError ''SCSWire frame JSON must be an object''))"

definition read_frame :: "(nat list \<Rightarrow> json option) \<Rightarrow> (nat list, dict) act" where
  "read_frame loads =
     act_bind (read_exactly 4 (FrameError ''incomplete SCSWire frame header'')) (\<lambda>header.
       let body_length = be_value header in
       if body_length = 0 then act_raise (FrameError ''SCSWire frame body cannot be empty'')
       else if body_length > max_frame_bytes then act_raise (oversized body_length)
       else act_bind (read_exactly body_length (FrameError ''incomplete SCSWire frame body'')) (\<lambda>body.
              act_lift (decode_body loads body)))"

definition write_frame :: "dict \<Rightarrow> exc + nat list" where
  "write_frame payload =
     (let body = json_dumps payload in
      if body = [] then Inl (FrameError ''SCSWire frame body cannot be empty'')
      else if length body > max_frame_bytes then Inl (oversized (length body))
      else Inr (be_bytes 4 (length body) @ body))"

text \<open>Reading until the end of the stream, as a connection does.\<close>

fun read_frames :: "(nat list \<Rightarrow> json option) \<Rightarrow> nat \<Rightarrow> nat list \<Rightarrow> (exc + dict) list" where
  "read_frames loads 0 stream = []"
| "read_frames loads (Suc fuel) stream =
     (case read_frame loads stream of
        (Inl e, _) \<Rightarrow> [Inl e]
      | (Inr d, rest) \<Rightarrow> Inr d # read_frames loads fuel rest)"

section \<open>Headers\<close>

lemma length_be_bytes [simp]: "length (be_bytes k n) = k"
  by (induction k arbitrary: n) simp_all

lemma be_value_append: "be_value (bs @ [b]) = be_value bs * 256 + b"
  by simp

lemma be_value_be_bytes: "n < 256 ^ k \<Longrightarrow> be_value (be_bytes k n) = n"
proof (induction k arbitrary: n)
  case 0
  then show ?case by simp
next
  case (Suc k)
  then have "be_value (be_bytes k (n div 256)) = n div 256"
    by (simp add: less_mult_imp_div_less)
  then show ?case by (simp del: be_value.simps add: be_value_append)
qed

lemma read_exactly_append: "length bs = n \<Longrightarrow> read_exactly n e (bs @ rest) = (Inr bs, rest)"
  by (simp add: read_exactly_def)

lemma write_frame_Inr:
  assumes "write_frame d = Inr bs"
  shows "bs = be_bytes 4 (length (json_dumps d)) @ json_dumps d" "0 < length (json_dumps d)"
    "length (json_dumps d) \<le> max_frame_bytes"
  using assms by (auto simp: write_frame_def Let_def split: if_splits)

lemma read_written_frame:
  assumes "write_frame d = Inr bs" "loads (json_dumps d) = Some (JObj e)"
  shows "read_frame loads (bs @ rest) = (Inr e, rest)"
proof -
  have len: "length (json_dumps d) < 256 ^ 4"
    using write_frame_Inr(3) [OF assms(1)] by (simp add: max_frame_bytes_def)
  show ?thesis
    using write_frame_Inr [OF assms(1)] be_value_be_bytes [OF len] assms(2)
    by (simp del: be_value.simps add: read_frame_def act_bind_def read_exactly_append Let_def act_lift_def decode_body_def)
qed

text \<open>
  The documented behaviour of \<open>json\<close> that framing relies on: loading a dumped value gives it
  back, with its keys in the dumped order.
\<close>

definition sorted_entries :: "dict \<Rightarrow> dict" where
  "sorted_entries d = sort_key fst (map (\<lambda>(k, v). (k, sort_json v)) d)"

definition loads_dumps :: "(nat list \<Rightarrow> json option) \<Rightarrow> dict \<Rightarrow> bool" where
  "loads_dumps loads d = (loads (json_dumps d) = Some (JObj (sorted_entries d)))"

lemma map_of_sort_key: "distinct (map fst kvs) \<Longrightarrow> map_of (sort_key fst kvs) = map_of kvs"
  by (rule map_of_inject_set [THEN iffD2]) (simp_all add: distinct_map)

text \<open>C12: Framing is self-delimiting and loses nothing.  Whatever sequence of payloads the
  writer accepts, the bytes it writes read back as exactly those payloads in order, up to
  the order of keys, with what follows them left in the stream; and every lookup of a key
  at the top of a payload gives the value that was written there, its keys sorted.\<close>

theorem frames_roundtrip:
  assumes "list_all2 (\<lambda>d bs. write_frame d = Inr bs) ds chunks"
    and "\<forall>d\<in>set ds. loads_dumps loads d \<and> distinct (map fst d)"
  shows "read_frames loads (length ds) (concat chunks @ rest) = map (\<lambda>d. Inr (sorted_entries d)) ds
     \<and> (\<forall>d k. d \<in> set ds \<longrightarrow> map_of (sorted_entries d) k = map_option sort_json (map_of d k))"
proof
  show "read_frames loads (length ds) (concat chunks @ rest) = map (\<lambda>d. Inr (sorted_entries d)) ds"
    using assms
  proof (induction ds arbitrary: chunks)
    case Nil
    then show ?case by simp
  next
    case (Cons d ds)
    then obtain bs chunks' where c: "chunks = bs # chunks'" "write_frame d = Inr bs"
      "list_all2 (\<lambda>d bs. write_frame d = Inr bs) ds chunks'"
      by (auto simp: list_all2_Cons1)
    have "loads (json_dumps d) = Some (JObj (sorted_entries d))"
      using Cons.prems(2) by (simp add: loads_dumps_def)
    from read_written_frame [of d bs loads, OF c(2) this, of "concat chunks' @ rest"]
    show ?case using Cons.IH [OF c(3)] Cons.prems(2) c(1) by simp
  qed
next
  have "map_of (sorted_entries d) k = map_option sort_json (map_of d k)" if d: "distinct (map fst d)" for d k
  proof -
    have "map_of (sorted_entries d) k = map_of (map (\<lambda>(k, v). (k, sort_json v)) d) k"
      unfolding sorted_entries_def by (subst map_of_sort_key; use d in \<open>simp add: comp_def case_prod_beta\<close>)
    also have "\<dots> = map_option sort_json (map_of d k)" by (induction d) auto
    finally show ?thesis .
  qed
  then show "\<forall>d k. d \<in> set ds \<longrightarrow> map_of (sorted_entries d) k = map_option sort_json (map_of d k)"
    using assms(2) by blast
qed

definition demo_payload :: dict where
  "demo_payload = [(''method'', JStr ''system.health''), (''id'', JStr ''a b''), (''n'', JList [JInt (-3), JNull])]"

theorem frames_roundtrip_witness:
  "read_frames (\<lambda>bs. if bs = json_dumps demo_payload then Some (JObj (sorted_entries demo_payload)) else None) 2
     (concat (map (\<lambda>d. be_bytes 4 (length (json_dumps d)) @ json_dumps d) [demo_payload, demo_payload]) @ [0, 0])
   = [Inr (sorted_entries demo_payload), Inr (sorted_entries demo_payload)]"
proof -
  let ?frame = "be_bytes 4 (length (json_dumps demo_payload)) @ json_dumps demo_payload"
  have "json_dumps demo_payload \<noteq> [] \<and> length (json_dumps demo_payload) \<le> 100" by code_simp
  then have "write_frame demo_payload = Inr ?frame"
    by (auto simp: write_frame_def Let_def max_frame_bytes_def)
  then have "list_all2 (\<lambda>d bs. write_frame d = Inr bs) [demo_payload, demo_payload] [?frame, ?frame]" by simp
  moreover have "distinct (map fst demo_payload)" by code_simp
  ultimately show ?thesis
    using frames_roundtrip [of "[demo_payload, demo_payload]" "[?frame, ?frame]"
      "\<lambda>bs. if bs = json_dumps demo_payload then Some (JObj (sorted_entries demo_payload)) else None" "[0, 0]"]
    by (simp only: loads_dumps_def list.simps list.size concat.simps numeral_2_eq_2) simp
qed

section \<open>Bounds\<close>

text \<open>Aux: Reading one frame, whatever a peer sends, takes at most the header and sixteen
  mebibytes from the stream, never puts anything back, and returns an object or a frame
  error, so a hostile length can neither exhaust the reader nor raise anything else.\<close>

theorem read_frame_bounded:
  assumes "read_frame loads stream = (r, rest)"
  shows "(\<exists>used. stream = used @ rest \<and> length used \<le> 4 + max_frame_bytes)
     \<and> (case r of Inl e \<Rightarrow> (\<exists>m. e = FrameError m) | Inr d \<Rightarrow> True)"
proof (cases "length stream < 4")
  case True
  then show ?thesis
    using assms by (auto simp: read_frame_def act_bind_def read_exactly_def)
next
  case False
  define n where "n = be_value (take 4 stream)"
  have drop: "stream = take k stream @ drop k stream \<and> length (take k stream) \<le> k" for k by simp
  have err: "case decode_body loads b of Inl e \<Rightarrow> (\<exists>m. e = FrameError m) | Inr d \<Rightarrow> True" for b
    by (simp add: decode_body_def split: option.split json.split)
  have step: "(if n = 0 then (Inl (FrameError ''SCSWire frame body cannot be empty''), drop 4 stream)
      else if n > max_frame_bytes then (Inl (oversized n), drop 4 stream)
      else if length (drop 4 stream) < n then (Inl (FrameError ''incomplete SCSWire frame body''), [])
      else (decode_body loads (take n (drop 4 stream)), drop n (drop 4 stream))) = (r, rest)"
    using assms False unfolding n_def
    by (simp del: be_value.simps add: read_frame_def act_bind_def read_exactly_def Let_def act_raise_def act_lift_def
        split: if_splits)
  have suffix: "\<exists>k \<le> 4 + max_frame_bytes. rest = drop k stream"
  proof (cases "n = 0 \<or> n > max_frame_bytes")
    case True
    then show ?thesis using step by (intro exI [of _ 4]) (auto split: if_splits)
  next
    case False
    then have "rest = drop (n + 4) stream" using step by (auto split: if_splits)
    then show ?thesis using False by (intro exI [of _ "n + 4"]) simp
  qed
  moreover have "case r of Inl e \<Rightarrow> (\<exists>m. e = FrameError m) | Inr d \<Rightarrow> True"
    using step err by (auto simp: oversized_def split: if_splits)
  ultimately show ?thesis using drop by (metis le_trans)
qed

theorem read_frame_bounded_witness:
  "fst (read_frame (\<lambda>_. None) [255, 255, 255, 255, 1]) = Inl (oversized 4294967295)
   \<and> (\<exists>m. oversized 4294967295 = FrameError m)"
proof -
  have *: "read_frame (\<lambda>_. None) [255, 255, 255, 255, 1] = (Inl (oversized 4294967295), [1])"
    by (simp add: read_frame_def act_bind_def read_exactly_def act_raise_def max_frame_bytes_def)
  then show ?thesis using read_frame_bounded [OF *] by simp
qed

end
