(* ===== verification/Wire_Router.thy ===== *)
theory Wire_Router
  imports Scs_Prelude
begin

text \<open>
  Requests and replies: the router (\<open>src/src/scs/wire/router.py\<close>), the envelope handling of
  the server (\<open>server.py\<close>), its models (\<open>models.py\<close>) and the client's reading of a reply
  (\<open>client.py\<close>).  A handler is an action on the service state; the observer is one too.
\<close>

section \<open>Models\<close>

datatype error_code = BadRequest | UnknownMethod | IncompatibleProtocol | Unavailable | Internal

definition code_value :: "error_code \<Rightarrow> string" where
  "code_value c =
     (case c of BadRequest \<Rightarrow> ''bad_request'' | UnknownMethod \<Rightarrow> ''unknown_method''
      | IncompatibleProtocol \<Rightarrow> ''incompatible_protocol'' | Unavailable \<Rightarrow> ''unavailable''
      | Internal \<Rightarrow> ''internal'')"

definition code_of_value :: "string \<Rightarrow> error_code option" where
  "code_of_value s = find (\<lambda>c. code_value c = s)
     [BadRequest, UnknownMethod, IncompatibleProtocol, Unavailable, Internal]"

record wire_error =
  e_code :: error_code
  e_message :: string
  e_retryable :: bool

definition wire_error_of :: "error_code \<Rightarrow> string \<Rightarrow> wire_error" where
  "wire_error_of c msg = \<lparr>e_code = c, e_message = msg, e_retryable = False\<rparr>"

record dispatch_result =
  dr_value :: "dict option"
  dr_error :: "wire_error option"

definition dispatched_error :: "wire_error \<Rightarrow> dispatch_result" where
  "dispatched_error e = \<lparr>dr_value = None, dr_error = Some e\<rparr>"

section \<open>Router\<close>

type_synonym 's handler = "dict \<Rightarrow> ('s, dict) act"

record 's router =
  ro_handlers :: "(string \<times> 's handler) list"
  ro_observer :: "(string \<Rightarrow> dict \<Rightarrow> string \<Rightarrow> ('s, unit) act) option"

definition register_method ::
  "string \<Rightarrow> bool \<Rightarrow> 's handler \<Rightarrow> 's router \<Rightarrow> exc + 's router" where
  "register_method name is_async handler r =
     (if name = [] \<or> strip name \<noteq> name then Inl (ValueError ''method name must be non-empty and normalized'')
      else if name \<in> fst ` set (ro_handlers r) then Inl (ValueError (''method already registered: '' @ name))
      else if \<not> is_async then Inl (TypeError ''SCSWire handlers must be async functions'')
      else Inr (r\<lparr>ro_handlers := ro_handlers r @ [(name, handler)]\<rparr>))"

text \<open>The except clauses of \<open>dispatch\<close>; a frame error is a value error.\<close>

definition error_for :: "exc \<Rightarrow> wire_error" where
  "error_for e =
     (case e of
        KeyError _ \<Rightarrow> wire_error_of BadRequest (exc_str e)
      | TypeError _ \<Rightarrow> wire_error_of BadRequest (exc_str e)
      | ValueError _ \<Rightarrow> wire_error_of BadRequest (exc_str e)
      | ValidationError _ \<Rightarrow> wire_error_of BadRequest (exc_str e)
      | FrameError _ \<Rightarrow> wire_error_of BadRequest (exc_str e)
      | ServiceBusyError _ \<Rightarrow> (wire_error_of Unavailable (exc_str e))\<lparr>e_retryable := True\<rparr>
      | _ \<Rightarrow> wire_error_of Internal ''SCSWire method failed internally'')"

definition observe_fail_open :: "'s router \<Rightarrow> string \<Rightarrow> dict \<Rightarrow> string \<Rightarrow> ('s, unit) act" where
  "observe_fail_open r name params status =
     (case ro_observer r of
        None \<Rightarrow> act_return ()
      | Some obs \<Rightarrow> act_handle (obs name params status) (\<lambda>_. act_return ()))"

definition dispatch :: "'s router \<Rightarrow> string \<Rightarrow> dict \<Rightarrow> ('s, dispatch_result) act" where
  "dispatch r name params =
     (case map_of (ro_handlers r) name of
        None \<Rightarrow> act_return (dispatched_error (wire_error_of UnknownMethod (''unknown SCSWire method: '' @ name)))
      | Some handler \<Rightarrow>
          act_bind
            (act_handle (act_bind (handler params) (\<lambda>v. act_return \<lparr>dr_value = Some v, dr_error = None\<rparr>))
               (\<lambda>e. act_return (dispatched_error (error_for e))))
            (\<lambda>result.
               act_seq (observe_fail_open r name params (if dr_error result \<noteq> None then ''error'' else ''ok''))
                 (act_return result)))"

section \<open>Envelopes\<close>

definition protocol_version :: int where
  "protocol_version = 1"

text \<open>\<open>version == 1\<close> in Python, where the boolean true equals one.\<close>

definition is_protocol_version :: "json \<Rightarrow> bool" where
  "is_protocol_version v = (v = JInt protocol_version \<or> v = JBool True)"

record wire_request =
  rq_id :: string
  rq_method :: string
  rq_params :: dict

text \<open>
  What pydantic, a third-party package, decides: whether a value is accepted as an integer,
  which boolean a value is read as, and the text of a validation error.
\<close>

record validation =
  vd_int :: "json \<Rightarrow> bool"
  vd_bool :: "json \<Rightarrow> bool option"
  vd_detail :: "dict \<Rightarrow> string"

text \<open>
  \<open>WireRequest.model_validate\<close>: the kind, the version and the parameters have defaults, the
  id and the method are required strings.
\<close>

definition validate_request :: "validation \<Rightarrow> dict \<Rightarrow> exc + wire_request" where
  "validate_request vd env =
     (case (map_of env ''id'', map_of env ''method'', dict_get env ''params'' (JObj [])) of
        (Some (JStr i), Some (JStr m), JObj p) \<Rightarrow>
          if dict_get env ''kind'' (JStr ''request'') = JStr ''request''
             \<and> vd_int vd (dict_get env ''version'' (JInt protocol_version))
          then Inr \<lparr>rq_id = i, rq_method = m, rq_params = p\<rparr>
          else Inl (ValidationError (vd_detail vd env))
      | _ \<Rightarrow> Inl (ValidationError (vd_detail vd env)))"

definition dump_error :: "string \<Rightarrow> wire_error \<Rightarrow> dict" where
  "dump_error i e =
     [(''kind'', JStr ''error''), (''version'', JInt protocol_version), (''id'', JStr i),
      (''error'', JObj [(''code'', JStr (code_value (e_code e))), (''message'', JStr (e_message e)),
                      (''retryable'', JBool (e_retryable e))])]"

definition dump_response :: "string \<Rightarrow> dict \<Rightarrow> dict" where
  "dump_response i v =
     [(''kind'', JStr ''response''), (''version'', JInt protocol_version), (''id'', JStr i),
      (''result'', JObj v)]"

definition dispatch_envelope :: "'s router \<Rightarrow> validation \<Rightarrow> dict \<Rightarrow> ('s, dict) act" where
  "dispatch_envelope r vd env =
     (let safe_id = (case dict_get env ''id'' JNull of JStr i \<Rightarrow> i | _ \<Rightarrow> []);
          version = dict_get env ''version'' JNull in
      if \<not> is_protocol_version version then
        act_return (dump_error safe_id (wire_error_of IncompatibleProtocol
          (''unsupported SCSWire protocol version: '' @ py_repr version)))
      else
        (case validate_request vd env of
           Inl e \<Rightarrow> act_return (dump_error safe_id (wire_error_of BadRequest (exc_str e)))
         | Inr rq \<Rightarrow>
             act_bind (dispatch r (rq_method rq) (rq_params rq)) (\<lambda>d.
               act_return
                 (case dr_error d of
                    Some e \<Rightarrow> dump_error (rq_id rq) e
                  | None \<Rightarrow> dump_response (rq_id rq) (case dr_value d of Some v \<Rightarrow> v | None \<Rightarrow> [])))))"

section \<open>The client's reading of a reply\<close>

datatype reply =
    Result dict
  | WireFailure string
  | UnavailableFailure string bool
  | InvalidReply

definition request_envelope :: "string \<Rightarrow> string \<Rightarrow> dict \<Rightarrow> dict" where
  "request_envelope i name params =
     [(''kind'', JStr ''request''), (''version'', JInt protocol_version), (''id'', JStr i),
      (''method'', JStr name), (''params'', JObj params)]"

definition validate_error :: "validation \<Rightarrow> dict \<Rightarrow> wire_error option" where
  "validate_error vd env =
     (case (map_of env ''id'', map_of env ''error'') of
        (Some (JStr _), Some (JObj body)) \<Rightarrow>
          if \<not> vd_int vd (dict_get env ''version'' (JInt protocol_version)) then None
          else
            (case (map_of body ''code'', map_of body ''message'',
                   vd_bool vd (dict_get body ''retryable'' (JBool False))) of
               (Some (JStr c), Some (JStr m), Some r) \<Rightarrow>
                 map_option (\<lambda>code. \<lparr>e_code = code, e_message = m, e_retryable = r\<rparr>) (code_of_value c)
             | _ \<Rightarrow> None)
      | _ \<Rightarrow> None)"

definition validate_response :: "validation \<Rightarrow> dict \<Rightarrow> (string \<times> dict) option" where
  "validate_response vd env =
     (case (map_of env ''id'', map_of env ''result'') of
        (Some (JStr i), Some (JObj v)) \<Rightarrow>
          if dict_get env ''kind'' (JStr ''response'') = JStr ''response''
             \<and> vd_int vd (dict_get env ''version'' (JInt protocol_version))
          then Some (i, v) else None
      | _ \<Rightarrow> None)"

definition decoded_result :: "validation \<Rightarrow> dict \<Rightarrow> string \<Rightarrow> reply" where
  "decoded_result vd env request_id =
     (if dict_get env ''kind'' JNull = JStr ''error'' then
        (case validate_error vd env of
           None \<Rightarrow> InvalidReply
         | Some e \<Rightarrow>
             (let message = code_value (e_code e) @ '': '' @ e_message e in
              if e_code e = Unavailable then UnavailableFailure message (e_retryable e)
              else WireFailure message))
      else
        (case validate_response vd env of
           None \<Rightarrow> InvalidReply
         | Some (i, v) \<Rightarrow>
             if i \<noteq> request_id then WireFailure ''SCSWire response id does not match request''
             else Result v))"

text \<open>One call: the request the client writes, the server's reply, the client's result.\<close>

definition client_call :: "'s router \<Rightarrow> validation \<Rightarrow> string \<Rightarrow> string \<Rightarrow> dict \<Rightarrow> ('s, reply) act" where
  "client_call r vd i name params =
     act_bind (dispatch_envelope r vd (request_envelope i name params)) (\<lambda>env.
       act_return (decoded_result vd env i))"

section \<open>Dispatching contains every error\<close>

lemma observe_returns: "\<exists>t. observe_fail_open r name params status s = (Inr (), t)"
  by (cases "ro_observer r")
     (auto simp: observe_fail_open_def act_return_def act_handle_def split: prod.split sum.split)

lemma dispatch_unknown:
  "map_of (ro_handlers r) name = None \<Longrightarrow>
   dispatch r name params s =
     (Inr (dispatched_error (wire_error_of UnknownMethod (''unknown SCSWire method: '' @ name))), s)"
  by (simp add: dispatch_def act_return_def)

lemma dispatch_known:
  assumes "map_of (ro_handlers r) name = Some h" "h params s = (out, u)"
  shows "dispatch r name params s =
     (Inr (case out of Inl e \<Rightarrow> dispatched_error (error_for e) | Inr v \<Rightarrow> \<lparr>dr_value = Some v, dr_error = None\<rparr>),
      snd (observe_fail_open r name params (if is_raise out then ''error'' else ''ok'') u))"
proof -
  obtain t t' where "observe_fail_open r name params ''error'' u = (Inr (), t)"
    "observe_fail_open r name params ''ok'' u = (Inr (), t')" using observe_returns by metis
  then show ?thesis
    using assms by (cases out)
      (simp_all add: dispatch_def act_bind_def act_handle_def act_seq_def act_return_def dispatched_error_def)
qed

lemma dispatch_returns:
  "\<exists>d t. dispatch r name params s = (Inr d, t) \<and> (dr_value d = None \<longleftrightarrow> dr_error d \<noteq> None)"
proof (cases "map_of (ro_handlers r) name")
  case None
  then show ?thesis by (simp add: dispatch_unknown dispatched_error_def)
next
  case (Some h)
  obtain out u where "h params s = (out, u)" by (cases "h params s")
  from dispatch_known [OF Some this] show ?thesis
    by (cases out) (simp_all add: dispatched_error_def)
qed

lemma envelope_answer:
  "\<exists>reply t. dispatch_envelope r vd env s = (Inr reply, t)
     \<and> map_of reply ''version'' = Some (JInt protocol_version)
     \<and> map_of reply ''kind'' \<in> {Some (JStr ''response''), Some (JStr ''error'')}
     \<and> map_of reply ''id'' = Some (case map_of env ''id'' of Some (JStr i) \<Rightarrow> JStr i | _ \<Rightarrow> JStr [])
     \<and> (is_raise (validate_request vd env) \<or> \<not> is_protocol_version (dict_get env ''version'' JNull) \<longrightarrow> t = s)"
proof -
  have ids: "map_of (dump_error i e) ''id'' = Some (JStr i)" "map_of (dump_response i v) ''id'' = Some (JStr i)"
    "map_of (dump_error i e) ''version'' = Some (JInt protocol_version)"
    "map_of (dump_response i v) ''version'' = Some (JInt protocol_version)"
    "map_of (dump_error i e) ''kind'' = Some (JStr ''error'')"
    "map_of (dump_response i v) ''kind'' = Some (JStr ''response'')" for i e v
    by (simp_all add: dump_error_def dump_response_def)
  have safe: "(case dict_get env ''id'' JNull of JStr i \<Rightarrow> JStr i | _ \<Rightarrow> JStr []) =
      (case map_of env ''id'' of Some (JStr i) \<Rightarrow> JStr i | _ \<Rightarrow> JStr [])"
    by (simp add: dict_get_def split: option.split)
  show ?thesis
  proof (cases "is_protocol_version (dict_get env ''version'' JNull)")
    case False
    then show ?thesis using ids
      by (simp add: dispatch_envelope_def Let_def act_return_def dict_get_def split: option.split json.split)
  next
    case True
    show ?thesis
    proof (cases "validate_request vd env")
      case (Inl e)
      then show ?thesis using ids True
        by (simp add: dispatch_envelope_def Let_def act_return_def dict_get_def split: option.split json.split)
    next
      case (Inr rq)
      then have "map_of env ''id'' = Some (JStr (rq_id rq))"
        by (auto simp: validate_request_def split: option.splits json.splits if_splits)
      moreover obtain d t where "dispatch r (rq_method rq) (rq_params rq) s = (Inr d, t)"
        using dispatch_returns by metis
      ultimately show ?thesis using ids True Inr
        by (simp add: dispatch_envelope_def Let_def act_bind_def act_return_def split: option.split)
    qed
  qed
qed

lemma envelope_returns: obtains reply t where "dispatch_envelope r vd env s = (Inr reply, t)"
  using envelope_answer [of r vd env s] by (elim exE conjE)

text \<open>Aux: The server answers every envelope, however malformed, and raises nothing: the reply
  is a response or an error of the current protocol version, it carries the request's id
  whenever that is a string, and a reply other than to a valid request leaves the service
  state alone.\<close>

theorem envelope_always_answered:
  "\<exists>reply t. dispatch_envelope r vd env s = (Inr reply, t)
     \<and> map_of reply ''version'' = Some (JInt protocol_version)
     \<and> map_of reply ''kind'' \<in> {Some (JStr ''response''), Some (JStr ''error'')}
     \<and> map_of reply ''id'' = Some (case map_of env ''id'' of Some (JStr i) \<Rightarrow> JStr i | _ \<Rightarrow> JStr [])
     \<and> (is_raise (validate_request vd env) \<or> \<not> is_protocol_version (dict_get env ''version'' JNull) \<longrightarrow> t = s)"
  by (rule envelope_answer)

theorem envelope_always_answered_witness:
  "\<exists>reply. dispatch_envelope \<lparr>ro_handlers = [], ro_observer = None\<rparr>
       \<lparr>vd_int = \<lambda>_. True, vd_bool = \<lambda>_. None, vd_detail = \<lambda>_. ''bad''\<rparr>
       [(''version'', JInt 1), (''id'', JStr ''9'')] (5::nat) = (Inr reply, 5)
     \<and> map_of reply ''id'' = Some (JStr ''9'')"
proof -
  let ?vd = "\<lparr>vd_int = \<lambda>_. True, vd_bool = \<lambda>_. None, vd_detail = \<lambda>_. ''bad''\<rparr>"
  have "is_raise (validate_request ?vd [(''version'', JInt 1), (''id'', JStr ''9'')])" by code_simp
  then show ?thesis
    using envelope_always_answered [of "\<lparr>ro_handlers = [], ro_observer = None\<rparr>" ?vd
        "[(''version'', JInt 1), (''id'', JStr ''9'')]" "5::nat"]
    by fastforce
qed

section \<open>A call, from client to client\<close>

text \<open>What pydantic documents of the values the service itself writes.\<close>

definition validates :: "validation \<Rightarrow> bool" where
  "validates vd = (vd_int vd (JInt protocol_version) \<and> (\<forall>b. vd_bool vd (JBool b) = Some b))"

lemma code_of_value [simp]: "code_of_value (code_value c) = Some c"
  by (cases c) (simp_all add: code_of_value_def code_value_def)

lemma request_validates:
  "validates vd \<Longrightarrow>
   validate_request vd (request_envelope i name params) = Inr \<lparr>rq_id = i, rq_method = name, rq_params = params\<rparr>"
  by (simp add: validate_request_def request_envelope_def dict_get_def validates_def)

lemma decoded_error:
  "validates vd \<Longrightarrow>
   decoded_result vd (dump_error i e) i =
     (let message = code_value (e_code e) @ '': '' @ e_message e in
      if e_code e = Unavailable then UnavailableFailure message (e_retryable e) else WireFailure message)"
  by (cases e)
     (simp add: decoded_result_def dump_error_def dict_get_def validate_error_def validates_def Let_def)

lemma decoded_response: "validates vd \<Longrightarrow> decoded_result vd (dump_response i v) i = Result v"
  by (simp add: decoded_result_def dump_response_def dict_get_def validate_response_def validates_def)

lemma client_call_dispatch:
  assumes "validates vd" "dispatch r name params s = (Inr d, t)"
  shows "client_call r vd i name params s =
     (Inr (case dr_error d of
             Some e \<Rightarrow> decoded_result vd (dump_error i e) i
           | None \<Rightarrow> Result (case dr_value d of Some v \<Rightarrow> v | None \<Rightarrow> [])), t)"
proof -
  have "dict_get (request_envelope i name params) ''version'' JNull = JInt protocol_version"
    by (simp add: request_envelope_def dict_get_def)
  then show ?thesis
    using assms decoded_response [OF assms(1)] request_validates [OF assms(1)]
    by (simp add: client_call_def dispatch_envelope_def Let_def act_bind_def act_return_def
        is_protocol_version_def split: option.split)
qed

text \<open>C11: A call through client, envelope, router and back.  A handler's value comes back
  unchanged.  What a handler raises comes back as exactly one of three failures: a busy
  service as the retryable unavailable failure with its message, a bad request (a missing
  key, a wrong type or value) with its message, and anything else as the fixed internal
  message, so no other exception text leaves the server.  A failing observer changes
  nothing of the result.\<close>

theorem client_call_outcome:
  assumes "validates vd"
  shows "(map_of (ro_handlers r) name = None \<longrightarrow>
            client_call r vd i name params s =
              (Inr (WireFailure (''unknown_method: unknown SCSWire method: '' @ name)), s))
     \<and> (\<forall>h out u. map_of (ro_handlers r) name = Some h \<and> h params s = (out, u) \<longrightarrow>
          fst (client_call r vd i name params s) =
            Inr (case out of
                   Inr v \<Rightarrow> Result v
                 | Inl (ServiceBusyError m) \<Rightarrow> UnavailableFailure (''unavailable: '' @ m) True
                 | Inl (KeyError k) \<Rightarrow> WireFailure (''bad_request: '' @ repr_string k)
                 | Inl (TypeError m) \<Rightarrow> WireFailure (''bad_request: '' @ m)
                 | Inl (ValueError m) \<Rightarrow> WireFailure (''bad_request: '' @ m)
                 | Inl (ValidationError m) \<Rightarrow> WireFailure (''bad_request: '' @ m)
                 | Inl (FrameError m) \<Rightarrow> WireFailure (''bad_request: '' @ m)
                 | Inl _ \<Rightarrow> WireFailure ''internal: SCSWire method failed internally''))"
proof (intro conjI impI allI)
  assume "map_of (ro_handlers r) name = None"
  then show "client_call r vd i name params s =
      (Inr (WireFailure (''unknown_method: unknown SCSWire method: '' @ name)), s)"
    using client_call_dispatch [OF assms dispatch_unknown] decoded_error [OF assms]
    by (simp add: dispatched_error_def wire_error_of_def code_value_def)
next
  fix h out u assume "map_of (ro_handlers r) name = Some h \<and> h params s = (out, u)"
  then have "map_of (ro_handlers r) name = Some h" "h params s = (out, u)" by simp_all
  note call = client_call_dispatch [OF assms dispatch_known [OF this]]
  show "fst (client_call r vd i name params s) = Inr (case out of
                   Inr v \<Rightarrow> Result v
                 | Inl (ServiceBusyError m) \<Rightarrow> UnavailableFailure (''unavailable: '' @ m) True
                 | Inl (KeyError k) \<Rightarrow> WireFailure (''bad_request: '' @ repr_string k)
                 | Inl (TypeError m) \<Rightarrow> WireFailure (''bad_request: '' @ m)
                 | Inl (ValueError m) \<Rightarrow> WireFailure (''bad_request: '' @ m)
                 | Inl (ValidationError m) \<Rightarrow> WireFailure (''bad_request: '' @ m)
                 | Inl (FrameError m) \<Rightarrow> WireFailure (''bad_request: '' @ m)
                 | Inl _ \<Rightarrow> WireFailure ''internal: SCSWire method failed internally'')"
  proof (cases out)
    case (Inl e)
    then show ?thesis
      using decoded_error [OF assms] unfolding call
      by (cases e) (simp_all add: dispatched_error_def error_for_def wire_error_of_def code_value_def exc_str_def)
  next
    case (Inr v)
    then show ?thesis unfolding call by simp
  qed
qed

definition lax_validation :: validation where
  "lax_validation = \<lparr>vd_int = \<lambda>v. (case v of JInt _ \<Rightarrow> True | JBool _ \<Rightarrow> True | _ \<Rightarrow> False),
     vd_bool = \<lambda>v. (case v of JBool b \<Rightarrow> Some b | _ \<Rightarrow> None), vd_detail = \<lambda>_. ''invalid''\<rparr>"

theorem client_call_outcome_witness:
  "fst (client_call \<lparr>ro_handlers = [(''m'', \<lambda>p s. (Inl (ServiceBusyError ''busy''), s + 1))],
      ro_observer = Some (\<lambda>_ _ _ s. (Inl (OSError ''disk''), s))\<rparr> lax_validation ''7'' ''m'' [] (0::nat))
   = Inr (UnavailableFailure ''unavailable: busy'' True)"
proof -
  have v: "validates lax_validation" by (simp add: validates_def lax_validation_def)
  let ?h = "\<lambda>p s. (Inl (ServiceBusyError ''busy''), s + 1) :: (exc + dict) \<times> nat"
  let ?r = "\<lparr>ro_handlers = [(''m'', ?h)], ro_observer = Some (\<lambda>_ _ _ s. (Inl (OSError ''disk''), s))\<rparr>"
  have "map_of (ro_handlers ?r) ''m'' = Some ?h \<and> ?h [] 0 = (Inl (ServiceBusyError ''busy''), 1)" by simp
  then show ?thesis
    using client_call_outcome [OF v, of ?r "''m''" "''7''" "[]" "0::nat"] by (auto simp only: sum.case exc.case append.simps)
qed

end
