(* ===== verification/Wire_Server.thy ===== *)
theory Wire_Server
  imports Wire_Router
begin

text \<open>
  The Unix-socket server (\<open>src/src/scs/wire/server.py\<close>): who may take over a socket path, and
  the count of attached clients while any number of connections are served, attach, fail
  and close in any order.  The socket calls themselves are inputs: what \<open>lstat\<close> finds and
  how the ownership probe ends.
\<close>

section \<open>Ownership of the socket path\<close>

record path_entry =
  pe_symlink :: bool
  pe_socket :: bool
  pe_owner :: nat
  pe_identity :: "nat \<times> nat"

datatype probe = Refused | Unreachable | Connected "exc + dict"

definition probe_reply_is_scs :: "string \<Rightarrow> dict \<Rightarrow> bool" where
  "probe_reply_is_scs request_id reply =
     (dict_get reply ''id'' JNull = JStr request_id
      \<and> is_protocol_version (dict_get reply ''version'' JNull)
      \<and> (dict_get reply ''kind'' JNull = JStr ''error''
         \<or> (dict_get reply ''kind'' JNull = JStr ''response''
            \<and> (case dict_get reply ''result'' JNull of
                 JObj v \<Rightarrow> dict_get v ''service'' JNull = JStr ''scs'' | _ \<Rightarrow> False))))"

text \<open>
  The value says whether a stale socket was unlinked.  A timeout of the connect is an
  \<open>OSError\<close>; a lost connection or a bad frame during the exchange makes the peer foreign.
\<close>

definition prepare_socket_path ::
  "string \<Rightarrow> nat \<Rightarrow> string \<Rightarrow> path_entry option \<Rightarrow> probe \<Rightarrow> exc + bool" where
  "prepare_socket_path path uid request_id entry outcome =
     (case entry of
        None \<Rightarrow> Inr False
      | Some e \<Rightarrow>
          if pe_symlink e then Inl (RuntimeError (''refusing symlink at SCSWire socket path: '' @ path))
          else if \<not> pe_socket e then Inl (RuntimeError (''refusing non-socket at SCSWire socket path: '' @ path))
          else if pe_owner e \<noteq> uid then Inl (RuntimeError (''refusing socket owned by another user: '' @ path))
          else
            (let active = RuntimeError (''SCSWire server is already active: '' @ path);
                 foreign = RuntimeError (''SCSWire socket path is occupied by a live foreign peer: '' @ path) in
             case outcome of
               Refused \<Rightarrow> Inr True
             | Unreachable \<Rightarrow> Inl (RuntimeError (''cannot determine SCSWire socket ownership: '' @ path))
             | Connected (Inr reply) \<Rightarrow> Inl (if probe_reply_is_scs request_id reply then active else foreign)
             | Connected (Inl (OSError _)) \<Rightarrow> Inl foreign
             | Connected (Inl (TimeoutError _)) \<Rightarrow> Inl foreign
             | Connected (Inl (FrameError _)) \<Rightarrow> Inl foreign
             | Connected (Inl e) \<Rightarrow> Inl e))"

text \<open>\<open>_remove_owned_socket\<close> removes the path only when it is still the socket bound at start.\<close>

definition remove_owned_socket :: "(nat \<times> nat) option \<Rightarrow> path_entry option \<Rightarrow> bool" where
  "remove_owned_socket identity entry =
     (case (identity, entry) of
        (Some i, Some e) \<Rightarrow> pe_socket e \<and> \<not> pe_symlink e \<and> pe_identity e = i
      | _ \<Rightarrow> False)"

definition probe_envelope :: "string \<Rightarrow> dict" where
  "probe_envelope request_id =
     [(''kind'', JStr ''request''), (''id'', JStr request_id), (''version'', JInt protocol_version),
      (''method'', JStr ''system.health''), (''params'', JObj [])]"

lemma prepare_unlinks:
  "prepare_socket_path path uid i entry outcome = Inr True \<longleftrightarrow>
   (\<exists>e. entry = Some e \<and> \<not> pe_symlink e \<and> pe_socket e \<and> pe_owner e = uid) \<and> outcome = Refused"
  by (cases entry) (auto simp: prepare_socket_path_def Let_def split: probe.splits sum.splits exc.splits)

text \<open>A router whose health method, when it answers, names the service.\<close>

definition names_service :: "'s router \<Rightarrow> bool" where
  "names_service r =
     (\<forall>h s v t. map_of (ro_handlers r) ''system.health'' = Some h \<and> h [] s = (Inr v, t) \<longrightarrow>
        dict_get v ''service'' JNull = JStr ''scs'')"

lemma live_server_recognised:
  assumes "validates vd" "names_service r"
    and "dispatch_envelope r vd (probe_envelope i) s = (Inr reply, t)"
  shows "probe_reply_is_scs i reply"
proof -
  have rq: "validate_request vd (probe_envelope i) = Inr \<lparr>rq_id = i, rq_method = ''system.health'', rq_params = []\<rparr>"
    using assms(1) by (simp add: validate_request_def probe_envelope_def dict_get_def validates_def)
  have version: "is_protocol_version (dict_get (probe_envelope i) ''version'' JNull)"
    by (simp add: probe_envelope_def dict_get_def is_protocol_version_def)
  obtain d u where d: "dispatch r ''system.health'' [] s = (Inr d, u)" using dispatch_returns by metis
  have reply: "reply = (case dr_error d of Some e \<Rightarrow> dump_error i e
      | None \<Rightarrow> dump_response i (case dr_value d of Some v \<Rightarrow> v | None \<Rightarrow> []))"
    using assms(3) rq version d
    by (cases "dr_error d") (simp_all add: dispatch_envelope_def Let_def act_bind_def act_return_def)
  show ?thesis
  proof (cases "dr_error d")
    case (Some e)
    then show ?thesis
      by (simp add: reply probe_reply_is_scs_def dump_error_def dict_get_def is_protocol_version_def)
  next
    case None
    then obtain h where h: "map_of (ro_handlers r) ''system.health'' = Some h"
      using d by (cases "map_of (ro_handlers r) ''system.health''") (auto simp: dispatch_unknown dispatched_error_def)
    obtain out w where out: "h [] s = (out, w)" by (cases "h [] s")
    obtain v where "out = Inr v" "dr_value d = Some v"
      using dispatch_known [OF h out] d None by (cases out) (auto simp: dispatched_error_def)
    then have "dict_get v ''service'' JNull = JStr ''scs''"
      using assms(2) h out unfolding names_service_def by blast
    then show ?thesis
      using None \<open>dr_value d = Some v\<close>
      by (simp add: reply probe_reply_is_scs_def dump_response_def dict_get_def [of "_ # _"] is_protocol_version_def)
  qed
qed

text \<open>Aux: Starting a server never steals a live socket.  An existing path is unlinked exactly
  when it is a socket, no symlink, owned by this user, and nobody accepts connections on it;
  and when another SCS server is answering there, its own reply to the ownership probe, run
  through its router, is recognised and the start is refused as already active.\<close>

theorem live_socket_never_stolen:
  assumes "validates vd" "names_service r"
  shows "(prepare_socket_path path uid i entry outcome = Inr True \<longleftrightarrow>
            (\<exists>e. entry = Some e \<and> \<not> pe_symlink e \<and> pe_socket e \<and> pe_owner e = uid) \<and> outcome = Refused)
     \<and> (\<forall>e s reply t. entry = Some e \<and> \<not> pe_symlink e \<and> pe_socket e \<and> pe_owner e = uid
          \<and> dispatch_envelope r vd (probe_envelope i) s = (Inr reply, t)
          \<and> outcome = Connected (Inr reply)
          \<longrightarrow> prepare_socket_path path uid i entry outcome =
                Inl (RuntimeError (''SCSWire server is already active: '' @ path)))"
proof (intro conjI allI impI)
  fix e s reply t
  assume a: "entry = Some e \<and> \<not> pe_symlink e \<and> pe_socket e \<and> pe_owner e = uid
     \<and> dispatch_envelope r vd (probe_envelope i) s = (Inr reply, t) \<and> outcome = Connected (Inr reply)"
  then have "probe_reply_is_scs i reply" using live_server_recognised [OF assms] by blast
  then show "prepare_socket_path path uid i entry outcome =
      Inl (RuntimeError (''SCSWire server is already active: '' @ path))"
    using a by (simp add: prepare_socket_path_def Let_def)
qed (rule prepare_unlinks)

theorem live_socket_never_stolen_witness:
  "prepare_socket_path ''/r/s'' 501 ''p1''
     (Some \<lparr>pe_symlink = False, pe_socket = True, pe_owner = 501, pe_identity = (1, 2)\<rparr>)
     (Connected (fst (dispatch_envelope \<lparr>ro_handlers = [(''system.health'', \<lambda>_ s. (Inr [(''service'', JStr ''scs'')], s))],
        ro_observer = None\<rparr> lax_validation (probe_envelope ''p1'') ())))
   = Inl (RuntimeError ''SCSWire server is already active: /r/s'')"
proof -
  let ?r = "\<lparr>ro_handlers = [(''system.health'', \<lambda>_ s. (Inr [(''service'', JStr ''scs'')], s))], ro_observer = None\<rparr>"
  let ?e = "\<lparr>pe_symlink = False, pe_socket = True, pe_owner = 501, pe_identity = (1, 2)\<rparr>"
  have v: "validates lax_validation" by (simp add: validates_def lax_validation_def)
  have h: "names_service ?r" by (auto simp: names_service_def dict_get_def)
  obtain reply t where reply: "dispatch_envelope ?r lax_validation (probe_envelope ''p1'') () = (Inr reply, t)"
    using envelope_returns .
  have "Some ?e = Some ?e \<and> \<not> pe_symlink ?e \<and> pe_socket ?e \<and> pe_owner ?e = 501
     \<and> dispatch_envelope ?r lax_validation (probe_envelope ''p1'') () = (Inr reply, t)
     \<and> Connected (Inr reply) = Connected (Inr reply)" using reply by simp
  then have "prepare_socket_path ''/r/s'' 501 ''p1'' (Some ?e) (Connected (Inr reply)) =
      Inl (RuntimeError (''SCSWire server is already active: '' @ ''/r/s''))"
    by (rule live_socket_never_stolen [OF v h, THEN conjunct2, rule_format])
  then show ?thesis using reply by simp
qed

section \<open>Connections\<close>

text \<open>A connection is open, with its attached flag, or closed.\<close>

datatype connection = Open bool | Closed

record 's server =
  sv_service :: 's
  sv_connections :: "connection list"
  sv_attached :: int
  sv_notified :: "int list"
  sv_stopping :: bool

definition attach_method :: string where
  "attach_method = ''system.client.attach''"

definition attaches :: "bool \<Rightarrow> dict \<Rightarrow> dict \<Rightarrow> bool" where
  "attaches attached env reply =
     (\<not> attached \<and> dict_get env ''method'' JNull = JStr attach_method
      \<and> dict_get reply ''kind'' JNull = JStr ''response'')"

definition change_count :: "int \<Rightarrow> 's server \<Rightarrow> 's server" where
  "change_count k sv =
     sv\<lparr>sv_attached := sv_attached sv + k, sv_notified := (sv_attached sv + k) # sv_notified sv\<rparr>"

text \<open>One turn of the loop of \<open>_handle_client\<close> after a frame was read; \<open>written\<close> is false when
  the reply could not be written, which ends the connection.\<close>

definition close_connection :: "nat \<Rightarrow> 's server \<Rightarrow> 's server" where
  "close_connection i sv =
     (case sv_connections sv ! i of
        Open attached \<Rightarrow>
          (let sv = sv\<lparr>sv_connections := (sv_connections sv)[i := Closed]\<rparr> in
           if attached then change_count (-1) sv else sv)
      | Closed \<Rightarrow> sv)"

definition serve_envelope ::
  "'s router \<Rightarrow> validation \<Rightarrow> nat \<Rightarrow> dict \<Rightarrow> bool \<Rightarrow> 's server \<Rightarrow> 's server" where
  "serve_envelope r vd i env written sv =
     (case sv_connections sv ! i of
        Closed \<Rightarrow> sv
      | Open attached \<Rightarrow>
          if sv_stopping sv then close_connection i sv
          else
            (case dispatch_envelope r vd env (sv_service sv) of
               (Inl e, s') \<Rightarrow> close_connection i (sv\<lparr>sv_service := s'\<rparr>)
             | (Inr reply, s') \<Rightarrow>
                 (let sv = sv\<lparr>sv_service := s'\<rparr> in
                  if \<not> written then close_connection i sv
                  else if attaches attached env reply
                    then change_count 1 (sv\<lparr>sv_connections := (sv_connections sv)[i := Open True]\<rparr>)
                  else sv)))"

inductive server_step :: "'s router \<Rightarrow> validation \<Rightarrow> 's server \<Rightarrow> 's server \<Rightarrow> bool" for r vd where
  accept: "server_step r vd sv (sv\<lparr>sv_connections := sv_connections sv @ [Open False]\<rparr>)"
| serve: "i < length (sv_connections sv) \<Longrightarrow> server_step r vd sv (serve_envelope r vd i env written sv)"
| close: "i < length (sv_connections sv) \<Longrightarrow> server_step r vd sv (close_connection i sv)"
| stop: "server_step r vd sv (sv\<lparr>sv_stopping := True\<rparr>)"

definition fresh_server :: "'s \<Rightarrow> 's server" where
  "fresh_server s = \<lparr>sv_service = s, sv_connections = [], sv_attached = 0, sv_notified = [], sv_stopping = False\<rparr>"

inductive server_reachable :: "'s router \<Rightarrow> validation \<Rightarrow> 's server \<Rightarrow> bool" for r vd where
  start: "server_reachable r vd (fresh_server s)"
| step: "server_reachable r vd sv \<Longrightarrow> server_step r vd sv sv' \<Longrightarrow> server_reachable r vd sv'"

definition attached_count :: "connection list \<Rightarrow> nat" where
  "attached_count cs = how_many ((=) (Open True)) cs"

fun latest :: "int list \<Rightarrow> int" where
  "latest [] = 0"
| "latest (n # _) = n"

definition count_ok :: "'s server \<Rightarrow> bool" where
  "count_ok sv =
     (sv_attached sv = int (attached_count (sv_connections sv))
      \<and> latest (sv_notified sv) = sv_attached sv
      \<and> (\<forall>n\<in>set (sv_notified sv). 0 \<le> n))"

lemma count_ok_close: "i < length (sv_connections sv) \<Longrightarrow> count_ok sv \<Longrightarrow> count_ok (close_connection i sv)"
  using how_many_update [of i "sv_connections sv" "(=) (Open True)" Closed]
  by (cases "sv_connections sv ! i")
     (auto simp: close_connection_def count_ok_def change_count_def Let_def attached_count_def)

lemma count_ok_service [simp]: "count_ok (sv\<lparr>sv_service := s\<rparr>) = count_ok sv"
  by (simp add: count_ok_def)

lemma count_ok_serve:
  assumes "i < length (sv_connections sv)" "count_ok sv"
  shows "count_ok (serve_envelope r vd i env written sv)"
proof (cases "sv_connections sv ! i")
  case Closed
  then show ?thesis using assms by (simp add: serve_envelope_def)
next
  case (Open a)
  obtain reply s' where reply: "dispatch_envelope r vd env (sv_service sv) = (Inr reply, s')"
    using envelope_returns .
  have closing: "count_ok (close_connection i sv)" "count_ok (close_connection i (sv\<lparr>sv_service := s'\<rparr>))"
    using assms by (simp_all add: count_ok_close)
  have attach: "count_ok (change_count 1 (sv\<lparr>sv_service := s', sv_connections := (sv_connections sv)[i := Open True]\<rparr>))"
    if "\<not> a"
    using that Open assms how_many_update [of i "sv_connections sv" "(=) (Open True)" "Open True"]
    by (simp add: count_ok_def change_count_def attached_count_def)
  consider "sv_stopping sv" | "\<not> sv_stopping sv" "\<not> written" | "\<not> sv_stopping sv" "written" "attaches a env reply"
    | "\<not> sv_stopping sv" "written" "\<not> attaches a env reply" by blast
  then show ?thesis
  proof cases
    case 3
    then have "\<not> a" by (simp add: attaches_def)
    then show ?thesis using 3 attach by (simp add: serve_envelope_def Open reply Let_def)
  qed (use closing assms(2) in \<open>simp_all add: serve_envelope_def Open reply Let_def\<close>)
qed

lemma count_ok_reachable: "server_reachable r vd sv \<Longrightarrow> count_ok sv"
proof (induction rule: server_reachable.induct)
  case (start s)
  show ?case by (simp add: count_ok_def fresh_server_def attached_count_def how_many_def)
next
  case (step sv sv')
  from step(2,3) show ?case
  proof (induction rule: server_step.induct)
    case (accept sv)
    then show ?case by (simp add: count_ok_def attached_count_def how_many_def)
  next
    case (serve i sv env written)
    then show ?case by (rule count_ok_serve)
  next
    case (close i sv)
    then show ?case by (rule count_ok_close)
  next
    case (stop sv)
    then show ?case by (simp add: count_ok_def)
  qed
qed

text \<open>Aux: The client count that drives the daemon's lifetime is exact.  However connections
  interleave, repeat their attach request, fail to be written to, or close, the count is the
  number of open attached connections, it is never negative, every change was announced,
  and the last announced count is the current one.\<close>

theorem attached_clients_exact:
  assumes "server_reachable r vd sv"
  shows "sv_attached sv = int (attached_count (sv_connections sv))
     \<and> (\<forall>n\<in>set (sv_notified sv). 0 \<le> n)
     \<and> latest (sv_notified sv) = int (attached_count (sv_connections sv))"
  using count_ok_reachable [OF assms] by (simp add: count_ok_def)

definition attach_router :: "unit router" where
  "attach_router = \<lparr>ro_handlers = [(attach_method, \<lambda>_ s. (Inr [], s))], ro_observer = None\<rparr>"

definition attached_server :: "unit server" where
  "attached_server = serve_envelope attach_router lax_validation 0 (request_envelope ''1'' attach_method []) True
     ((fresh_server ())\<lparr>sv_connections := [Open False]\<rparr>)"

theorem attached_clients_exact_witness: "sv_attached attached_server = 1 \<and> sv_notified attached_server = [1]"
proof -
  have "server_step attach_router lax_validation (fresh_server ()) ((fresh_server ())\<lparr>sv_connections := [] @ [Open False]\<rparr>)"
    using accept [of attach_router lax_validation "fresh_server ()"] by (simp add: fresh_server_def)
  then have "server_reachable attach_router lax_validation ((fresh_server ())\<lparr>sv_connections := [Open False]\<rparr>)"
    using start step by fastforce
  then have "server_reachable attach_router lax_validation attached_server"
    unfolding attached_server_def by (rule step) (rule serve, simp)
  from attached_clients_exact [OF this]
  have "sv_attached attached_server = int (attached_count (sv_connections attached_server))" by simp
  moreover have "sv_connections attached_server = [Open True] \<and> sv_notified attached_server = [1]" by code_simp
  ultimately show ?thesis by (simp add: attached_count_def how_many_def)
qed

end
