(* ===== verification/Git_Watcher.thy ===== *)
theory Git_Watcher
  imports Posix_Path Sha256
begin

text \<open>
  The repository watcher (\<open>src/src/scs/indexing/watcher.py\<close>): the fingerprint of a
  repository's Git-visible state and the adaptive, debounced polling that turns a changed
  fingerprint into an indexing job.  Running Git, \<open>lstat\<close> and decoding a path are inputs;
  intervals are milliseconds.
\<close>

section \<open>Porcelain status records\<close>

definition invalid_status :: exc where
  "invalid_status = ValueError ''invalid Git porcelain status record''"

definition missing_source :: exc where
  "missing_source = ValueError ''missing Git rename/copy source path''"

text \<open>A rename or copy record, code \<open>R\<close> (82) or \<open>C\<close> (67), is followed by its source path.\<close>

definition two_path_code :: "nat \<Rightarrow> bool" where
  "two_path_code c = (c = 82 \<or> c = 67)"

fun dirty_records :: "nat list list \<Rightarrow> exc + nat list list" where
  "dirty_records [] = Inr []"
| "dirty_records (r # rs) =
     (if r = [] then dirty_records rs
      else if length r \<le> 3 \<or> r ! 2 \<noteq> 32 then Inl invalid_status
      else if list_ex two_path_code (take 2 r) then
        (case rs of
           [] \<Rightarrow> Inl missing_source
         | source # rs' \<Rightarrow>
             if source = [] then Inl missing_source
             else and_then (dirty_records rs') (\<lambda>ps. Inr (drop 3 r # source # ps)))
      else and_then (dirty_records rs) (\<lambda>ps. Inr (drop 3 r # ps)))"

definition dirty_paths :: "nat list \<Rightarrow> exc + nat list list" where
  "dirty_paths status = dirty_records (split_on 0 status)"

section \<open>Fingerprints\<close>

datatype lstat_result = Missing | Failed exc | Entry bool "int list"

datatype command = Ran int "nat list" | NotRun

record git_env =
  ge_head :: command
  ge_status :: command
  ge_lstat :: "ppath \<Rightarrow> lstat_result"
  ge_decode :: "nat list \<Rightarrow> string"

definition stat_text :: "int list \<Rightarrow> string" where
  "stat_text ns = ''('' @ intercalate '', '' (map int_str ns) @ '')''"

text \<open>The loop over the parts: stop at the first entry that is not a directory.\<close>

fun walk_parts :: "(ppath \<Rightarrow> lstat_result) \<Rightarrow> ppath \<Rightarrow> string list \<Rightarrow> int list option \<Rightarrow> exc + string" where
  "walk_parts lstat current [] found =
     (case found of
        None \<Rightarrow> Inl (ValueError ''Git status path is empty'')
      | Some ns \<Rightarrow> Inr (stat_text ns))"
| "walk_parts lstat current (p # ps) found =
     (let current = path_child current p in
      case lstat current of
        Missing \<Rightarrow> Inr ''missing''
      | Failed e \<Rightarrow> Inl e
      | Entry is_dir ns \<Rightarrow>
          if is_dir then walk_parts lstat current ps (Some ns) else Inr (stat_text ns))"

definition path_metadata :: "git_env \<Rightarrow> ppath \<Rightarrow> nat list \<Rightarrow> exc + string" where
  "path_metadata env repo raw =
     (let relative = parse_path (ge_decode env raw) in
      if is_absolute relative \<or> ''..'' \<in> set (path_parts relative)
      then Inl (ValueError ''Git status path is outside the repository'')
      else walk_parts (ge_lstat env) repo (path_parts relative) None)"

fun metadata_bytes :: "git_env \<Rightarrow> ppath \<Rightarrow> nat list list \<Rightarrow> exc + nat list" where
  "metadata_bytes env repo [] = Inr []"
| "metadata_bytes env repo (p # ps) =
     and_then (path_metadata env repo p) (\<lambda>m.
       and_then (metadata_bytes env repo ps) (\<lambda>rest. Inr (0 # utf8 m @ rest)))"

definition is_blank_byte :: "nat \<Rightarrow> bool" where
  "is_blank_byte b = ((9 \<le> b \<and> b \<le> 13) \<or> b = 32)"

definition strip_bytes :: "nat list \<Rightarrow> nat list" where
  "strip_bytes bs = rev (dropWhile is_blank_byte (rev (dropWhile is_blank_byte bs)))"

definition git_fingerprint :: "git_env \<Rightarrow> ppath \<Rightarrow> string option" where
  "git_fingerprint env repo =
     (case (ge_head env, ge_status env) of
        (Ran head_code head, Ran status_code status) \<Rightarrow>
          if status_code \<noteq> 0 then None
          else
            (let head_bytes = (if head_code = 0 then strip_bytes head else []) in
             case and_then (dirty_paths status) (metadata_bytes env repo) of
               Inl _ \<Rightarrow> None
             | Inr extra \<Rightarrow> Some (sha256_bytes (head_bytes @ [0] @ status @ extra)))
      | _ \<Rightarrow> None)"

section \<open>The poller\<close>

record watcher =
  w_active :: nat
  w_idle :: nat
  w_interval :: nat
  w_baseline :: "string option"
  w_pending :: bool
  w_timer :: bool

datatype enqueue_reason = Startup | Change

definition new_watcher :: "nat \<Rightarrow> nat \<Rightarrow> watcher" where
  "new_watcher active idle =
     \<lparr>w_active = active, w_idle = idle, w_interval = active, w_baseline = None,
      w_pending = False, w_timer = False\<rparr>"

definition back_off :: "watcher \<Rightarrow> watcher" where
  "back_off w = w\<lparr>w_interval := min (w_idle w) (w_interval w * 2)\<rparr>"

definition observe_once :: "string option \<Rightarrow> watcher \<Rightarrow> watcher" where
  "observe_once observation w =
     (case observation of
        None \<Rightarrow> back_off w
      | Some f \<Rightarrow>
          (case w_baseline w of
             None \<Rightarrow> w\<lparr>w_baseline := Some f\<rparr>
           | Some b \<Rightarrow>
               if f = b then back_off w
               else w\<lparr>w_baseline := Some f, w_interval := w_active w, w_pending := True, w_timer := True\<rparr>))"

text \<open>\<open>flush_pending\<close> clears the flag, then enqueues; the debounce timer ends with it.\<close>

definition flush_pending :: "(enqueue_reason \<Rightarrow> exc + unit) \<Rightarrow> watcher \<Rightarrow> (exc + unit) \<times> watcher \<times> enqueue_reason list" where
  "flush_pending enqueue w =
     (if w_pending w then (enqueue Change, w\<lparr>w_pending := False\<rparr>, [Change]) else (Inr (), w, []))"

definition flush_later :: "(enqueue_reason \<Rightarrow> exc + unit) \<Rightarrow> watcher \<Rightarrow> (exc + unit) \<times> watcher \<times> enqueue_reason list" where
  "flush_later enqueue w =
     (case flush_pending enqueue w of (r, w', log) \<Rightarrow> (r, w'\<lparr>w_timer := False\<rparr>, log))"

definition stop_watcher :: "watcher \<Rightarrow> watcher" where
  "stop_watcher w = w\<lparr>w_timer := False, w_pending := False\<rparr>"

text \<open>\<open>start\<close> enqueues the recovery of missed work first, and a failure there starts nothing.\<close>

definition start_watcher ::
  "(enqueue_reason \<Rightarrow> exc + unit) \<Rightarrow> string option \<Rightarrow> watcher \<Rightarrow> (exc + unit) \<times> watcher" where
  "start_watcher enqueue observation w =
     (case enqueue Startup of
        Inl e \<Rightarrow> (Inl e, w)
      | Inr _ \<Rightarrow> (Inr (), observe_once observation w))"

datatype watch_event = Observe "string option" | TimerFires "exc + unit"

text \<open>A run over events; a timer event happens only while the timer is armed.\<close>

fun watch :: "watcher \<Rightarrow> watch_event list \<Rightarrow> watcher \<times> (exc + unit) list" where
  "watch w [] = (w, [])"
| "watch w (Observe f # es) = watch (observe_once f w) es"
| "watch w (TimerFires r # es) =
     (if w_timer w then
        (case flush_later (\<lambda>_. r) w of (_, w', log) \<Rightarrow>
           (case watch w' es of (w'', rs) \<Rightarrow> (w'', map (\<lambda>_. r) log @ rs)))
      else watch w es)"

section \<open>Status listings\<close>

text \<open>A status entry as Git prints it: two status codes, a path, and a source if renamed.\<close>

datatype status_entry = Entry1 nat nat "nat list" | Entry2 nat nat "nat list" "nat list"

fun entry_ok :: "status_entry \<Rightarrow> bool" where
  "entry_ok (Entry1 x y p) \<longleftrightarrow> \<not> two_path_code x \<and> \<not> two_path_code y \<and> x \<noteq> 0 \<and> y \<noteq> 0 \<and> p \<noteq> [] \<and> 0 \<notin> set p"
| "entry_ok (Entry2 x y p q) \<longleftrightarrow> (two_path_code x \<or> two_path_code y) \<and> x \<noteq> 0 \<and> y \<noteq> 0
     \<and> p \<noteq> [] \<and> 0 \<notin> set p \<and> q \<noteq> [] \<and> 0 \<notin> set q"

fun print_entry :: "status_entry \<Rightarrow> nat list" where
  "print_entry (Entry1 x y p) = [x, y, 32] @ p @ [0]"
| "print_entry (Entry2 x y p q) = [x, y, 32] @ p @ [0] @ q @ [0]"

fun entry_paths :: "status_entry \<Rightarrow> nat list list" where
  "entry_paths (Entry1 x y p) = [p]"
| "entry_paths (Entry2 x y p q) = [p, q]"

lemma split_entry1:
  "entry_ok (Entry1 x y p) \<Longrightarrow> split_on 0 (print_entry (Entry1 x y p) @ rest) = ([x, y, 32] @ p) # split_on 0 rest"
  using split_on_append [of 0 "[x, y, 32] @ p" rest] by simp

lemma split_entry2:
  "entry_ok (Entry2 x y p q) \<Longrightarrow>
   split_on 0 (print_entry (Entry2 x y p q) @ rest) = ([x, y, 32] @ p) # q # split_on 0 rest"
  using split_on_append [of 0 "[x, y, 32] @ p" "q @ 0 # rest"] split_on_append [of 0 q rest] by simp

text \<open>Aux: The status parser reads back every listing Git prints with \<open>-z\<close>: for any entries,
  renames and copies included, it yields exactly the paths in order, each source path
  right after its destination, and never mistakes one for the other.\<close>

theorem dirty_paths_roundtrip:
  assumes "\<forall>e\<in>set es. entry_ok e"
  shows "dirty_paths (concat (map print_entry es)) = Inr (concat (map entry_paths es))"
  using assms
proof (induction es)
  case Nil
  show ?case by (simp add: dirty_paths_def)
next
  case (Cons e es)
  then have IH: "dirty_records (split_on 0 (concat (map print_entry es))) = Inr (concat (map entry_paths es))"
    by (simp add: dirty_paths_def)
  show ?case
  proof (cases e)
    case (Entry1 x y p)
    then show ?thesis using Cons.prems IH split_entry1 [of x y p "concat (map print_entry es)"]
      by (cases p) (auto simp: dirty_paths_def)
  next
    case (Entry2 x y p q)
    then show ?thesis using Cons.prems IH split_entry2 [of x y p q "concat (map print_entry es)"]
      by (cases p) (auto simp: dirty_paths_def)
  qed
qed

theorem dirty_paths_roundtrip_witness:
  "dirty_paths [32, 77, 32, 97, 0, 82, 32, 32, 98, 0, 99, 0] = Inr [[97], [98], [99]]"
  using dirty_paths_roundtrip [of "[Entry1 32 77 [97], Entry2 82 32 [98] [99]]"]
  by (simp add: two_path_code_def)

section \<open>Polling\<close>

lemma observe_interval:
  "w_active w \<le> w_idle w \<Longrightarrow> w_active w \<le> w_interval w \<Longrightarrow> w_interval w \<le> w_idle w \<Longrightarrow>
   w_active w \<le> w_interval (observe_once f w) \<and> w_interval (observe_once f w) \<le> w_idle w
   \<and> w_active (observe_once f w) = w_active w \<and> w_idle (observe_once f w) = w_idle w"
  by (auto simp: observe_once_def back_off_def split: option.split)

lemma flush_later_fields:
  "flush_later enqueue w = (r, w', log) \<Longrightarrow>
   w_active w' = w_active w \<and> w_idle w' = w_idle w \<and> w_interval w' = w_interval w"
  by (auto simp: flush_later_def flush_pending_def split: if_splits)

lemma observe_armed:
  "w_pending w \<longrightarrow> w_timer w \<Longrightarrow> w_pending (observe_once f w) \<longrightarrow> w_timer (observe_once f w)"
  "w_pending w \<Longrightarrow> w_pending (observe_once f w)"
  by (auto simp: observe_once_def back_off_def split: option.split)

lemma watch_observations:
  "watch w (map Observe fs @ es) = watch (foldl (\<lambda>w f. observe_once f w) w fs) es"
  by (induction fs arbitrary: w) simp_all

lemma observations_keep_pending:
  "w_pending w \<and> w_timer w \<Longrightarrow>
   w_pending (foldl (\<lambda>w f. observe_once f w) w fs) \<and> w_timer (foldl (\<lambda>w f. observe_once f w) w fs)"
  by (induction fs arbitrary: w) (auto simp: observe_armed(2) observe_armed(1) [THEN mp])


definition seen_watcher :: watcher where
  "seen_watcher = (new_watcher 2000 30000)\<lparr>w_baseline := Some ''a''\<rparr>"


text \<open>Aux: The polling interval stays between the active and the idle interval through any run,
  so polling neither stops nor spins.\<close>

theorem interval_bounded:
  assumes "active \<le> idle" "watch (new_watcher active idle) es = (w, rs)"
  shows "active \<le> w_interval w \<and> w_interval w \<le> idle"
proof -
  have "w_active u = w_active v \<and> w_idle u = w_idle v \<and> w_active u \<le> w_interval u \<and> w_interval u \<le> w_idle u"
    if "watch v es = (u, rs)" "w_active v \<le> w_idle v" "w_active v \<le> w_interval v" "w_interval v \<le> w_idle v"
    for u v rs
    using that
  proof (induction v es arbitrary: rs rule: watch.induct)
    case (1 w)
    then show ?case by simp
  next
    case (2 w f es)
    then show ?case using observe_interval [of w f] by simp
  next
    case (3 w r es)
    obtain q w' log where fl: "flush_later (\<lambda>_. r) w = (q, w', log)" by (cases "flush_later (\<lambda>_. r) w") auto
    have same: "w_active w' = w_active w" "w_idle w' = w_idle w" "w_interval w' = w_interval w"
      using flush_later_fields [OF fl] by simp_all
    show ?case
    proof (cases "w_timer w")
      case True
      obtain u' rs' where "watch w' es = (u', rs')" by (cases "watch w' es")
      then show ?thesis using 3 True fl same by fastforce
    next
      case False
      then show ?thesis using 3 by simp
    qed
  qed
  from this [OF assms(2)] assms(1) show ?thesis by (simp add: new_watcher_def)
qed

theorem interval_bounded_witness:
  "2 \<le> w_interval (fst (watch (new_watcher 2 30) (replicate 5 (Observe None))))
   \<and> w_interval (fst (watch (new_watcher 2 30) (replicate 5 (Observe None)))) \<le> 30"
  by (rule interval_bounded) (simp_all add: prod_eq_iff)

text \<open>Aux: A flush that fails forgets the change.  When the queue refuses the reconciliation
  (an active deletion of the repository, a locked database), the watcher is left with the
  changed fingerprint as its baseline and nothing pending, so as long as the repository
  stays as it is no later observation or timer queues it.\<close>

theorem failed_flush_forgets_change:
  assumes "w_baseline w = Some b" "f \<noteq> b"
    and "\<forall>e\<in>set es. e = Observe (Some f) \<or> e = Observe None \<or> (\<exists>r. e = TimerFires r)"
  shows "snd (watch w (Observe (Some f) # TimerFires (Inl err) # es)) = [Inl err]"
proof -
  have quiet: "snd (watch v es) = []" if "w_baseline v = Some f" "\<not> w_pending v" "\<not> w_timer v" for v
    using assms(3) that
  proof (induction es arbitrary: v)
    case Nil
    then show ?case by simp
  next
    case (Cons e es)
    from Cons.prems(1) consider "e = Observe (Some f)" | "e = Observe None" | r where "e = TimerFires r" by auto
    then show ?case
      by cases (use Cons in \<open>simp_all add: observe_once_def back_off_def\<close>)
  qed
  let ?v = "w\<lparr>w_baseline := Some f, w_interval := w_active w, w_pending := False, w_timer := False\<rparr>"
  have "watch w (Observe (Some f) # TimerFires (Inl err) # es) = (fst (watch ?v es), Inl err # snd (watch ?v es))"
    using assms(1,2) by (simp add: observe_once_def flush_later_def flush_pending_def split: prod.split)
  then show ?thesis using quiet [of ?v] by simp
qed

theorem failed_flush_forgets_change_witness:
  "snd (watch seen_watcher [Observe (Some ''b''), TimerFires (Inl (ServiceBusyError ''deletion'')),
      Observe (Some ''b''), TimerFires (Inr ()), Observe (Some ''b'')]) = [Inl (ServiceBusyError ''deletion'')]"
  using failed_flush_forgets_change [of seen_watcher "''a''" "''b''"
      "[Observe (Some ''b''), TimerFires (Inr ()), Observe (Some ''b'')]" "ServiceBusyError ''deletion''"]
  by (simp add: seen_watcher_def new_watcher_def)

end
