(* ===== verification/Graph_Model.thy ===== *)
theory Graph_Model
  imports Complex_Main Scs_Prelude
begin

text \<open>
  The graph models shared by indexing, search and orchestration
  (\<open>src/src/scs/graph/models.py\<close>).  Timestamps are not modelled.
\<close>

datatype node_type =
    FileNode | ModuleNode | ClassNode | FunctionNode | MethodNode | VariableNode | ConstantNode
  | ImportNode | TypeAliasNode | CommitNode | ContributorNode

definition node_types :: "node_type list" where
  "node_types = [FileNode, ModuleNode, ClassNode, FunctionNode, MethodNode, VariableNode, ConstantNode,
     ImportNode, TypeAliasNode, CommitNode, ContributorNode]"

definition node_type_value :: "node_type \<Rightarrow> string" where
  "node_type_value t =
     (case t of FileNode \<Rightarrow> ''file'' | ModuleNode \<Rightarrow> ''module'' | ClassNode \<Rightarrow> ''class''
      | FunctionNode \<Rightarrow> ''function'' | MethodNode \<Rightarrow> ''method'' | VariableNode \<Rightarrow> ''variable''
      | ConstantNode \<Rightarrow> ''constant'' | ImportNode \<Rightarrow> ''import'' | TypeAliasNode \<Rightarrow> ''type_alias''
      | CommitNode \<Rightarrow> ''commit'' | ContributorNode \<Rightarrow> ''contributor'')"

definition symbol_node_types :: "node_type list" where
  "symbol_node_types = [ClassNode, FunctionNode, MethodNode, VariableNode, ConstantNode, TypeAliasNode]"

datatype relationship =
    Contains | Calls | Imports | Inherits | Implements | References | AuthoredBy | Modifies

definition relationship_value :: "relationship \<Rightarrow> string" where
  "relationship_value r =
     (case r of Contains \<Rightarrow> ''contains'' | Calls \<Rightarrow> ''calls'' | Imports \<Rightarrow> ''imports''
      | Inherits \<Rightarrow> ''inherits'' | Implements \<Rightarrow> ''implements'' | References \<Rightarrow> ''references''
      | AuthoredBy \<Rightarrow> ''authored_by'' | Modifies \<Rightarrow> ''modifies'')"

record node =
  nd_id :: string
  nd_type :: node_type
  nd_name :: string
  nd_content :: string
  nd_metadata :: dict
  nd_repo :: "int option"

record edge =
  ed_id :: string
  ed_source :: string
  ed_target :: string
  ed_relationship :: relationship
  ed_weight :: rat
  ed_metadata :: dict

lemma set_node_types: "t \<in> set node_types"
  by (cases t) (simp_all add: node_types_def)

end
