(* ===== verification/Code_Search.thy ===== *)
theory Code_Search
  imports Complex_Main Graph_Model "HOL-Library.Multiset"
begin

text \<open>
  \<open>CodeSearchService\<close> (\<open>src/src/scs/indexing/search.py\<close>): reciprocal-rank fusion of
  lexical and semantic candidates, the merge over several queries, optional reranking, and
  the degradation when a provider fails.  The graph, the embedding provider and the
  reranker are parameters.  Scores are exact rationals where the code adds binary floats,
  and the timings of a response are not modelled.
\<close>

section \<open>Fusion\<close>

record match =
  ma_node :: node
  ma_fusion :: rat
  ma_distance :: "rat option"
  ma_rerank :: "rat option"
  ma_queries :: "nat list"

record candidate =
  ca_node :: node
  ca_score :: rat
  ca_distance :: "rat option"
  ca_queries :: "nat list"

text \<open>One contribution to a candidate: what it adds and how it changes the distance.\<close>

record evidence =
  ev_node :: node
  ev_mass :: rat
  ev_queries :: "nat list"
  ev_distance :: "rat option \<Rightarrow> rat option"

definition new_candidate :: "node \<Rightarrow> candidate" where
  "new_candidate n = \<lparr>ca_node = n, ca_score = 0, ca_distance = None, ca_queries = []\<rparr>"

definition add_evidence :: "evidence \<Rightarrow> candidate \<Rightarrow> candidate" where
  "add_evidence e c =
     c\<lparr>ca_score := ca_score c + ev_mass e, ca_distance := ev_distance e (ca_distance c),
       ca_queries := ca_queries c @ ev_queries e\<rparr>"

text \<open>\<open>candidates.setdefault(node.id, _Candidate(node))\<close> and the update of what it returns.\<close>

definition touch :: "evidence \<Rightarrow> (string \<times> candidate) list \<Rightarrow> (string \<times> candidate) list" where
  "touch e cs =
     AList.update (nd_id (ev_node e))
       (add_evidence e (case map_of cs (nd_id (ev_node e)) of None \<Rightarrow> new_candidate (ev_node e) | Some c \<Rightarrow> c)) cs"

definition rank_key :: "candidate \<Rightarrow> rat \<times> string" where
  "rank_key c = (- ca_score c, nd_id (ca_node c))"

definition match_of :: "candidate \<Rightarrow> match" where
  "match_of c = \<lparr>ma_node = ca_node c, ma_fusion = ca_score c, ma_distance = ca_distance c,
     ma_rerank = None, ma_queries = sorted_set (ca_queries c)\<rparr>"

definition collect :: "evidence list \<Rightarrow> match list" where
  "collect es = map match_of (sort_key rank_key (map snd (foldl (\<lambda>cs e. touch e cs) [] es)))"

definition rank_constant :: nat where
  "rank_constant = 60"

definition rank_mass :: "nat \<Rightarrow> rat" where
  "rank_mass rank = 1 / of_nat (rank_constant + rank)"

definition semantic_evidence :: "nat \<Rightarrow> nat \<times> node \<times> rat \<Rightarrow> evidence" where
  "semantic_evidence q r = (case r of (rank, n, d) \<Rightarrow>
     \<lparr>ev_node = n, ev_mass = rank_mass rank, ev_queries = [q], ev_distance = \<lambda>_. Some d\<rparr>)"

definition lexical_evidence :: "nat \<Rightarrow> nat \<times> node \<Rightarrow> evidence" where
  "lexical_evidence q r = (case r of (rank, n) \<Rightarrow>
     \<lparr>ev_node = n, ev_mass = rank_mass rank, ev_queries = [q], ev_distance = id\<rparr>)"

definition fuse :: "(node \<times> rat) list \<Rightarrow> node list \<Rightarrow> nat \<Rightarrow> match list" where
  "fuse semantic lexical q =
     collect (map (semantic_evidence q) (enumerate 1 semantic) @ map (lexical_evidence q) (enumerate 1 lexical))"

definition nearer :: "rat option \<Rightarrow> rat option \<Rightarrow> rat option" where
  "nearer d current =
     (case d of
        None \<Rightarrow> current
      | Some x \<Rightarrow> (case current of None \<Rightarrow> Some x | Some y \<Rightarrow> if x < y then Some x else Some y))"

definition match_evidence :: "match \<Rightarrow> evidence" where
  "match_evidence m = \<lparr>ev_node = ma_node m, ev_mass = ma_fusion m, ev_queries = ma_queries m,
     ev_distance = nearer (ma_distance m)\<rparr>"

definition merge_matches :: "match list list \<Rightarrow> match list" where
  "merge_matches results = collect (map match_evidence (concat results))"

section \<open>Queries\<close>

definition effective_queries :: "string \<Rightarrow> string list \<Rightarrow> exc + string list" where
  "effective_queries query queries =
     (let requested = query # queries in
      if length requested > 5 then Inl (ValueError ''search accepts at most 5 queries'')
      else if list_ex (\<lambda>q. strip q = []) requested then Inl (ValueError ''search queries cannot be blank'')
      else Inr (dedup requested))"

datatype mode =
    NoneMode | LexicalMode | SemanticMode | HybridMode
  | LexicalReranked | SemanticReranked | HybridReranked

definition retrieval_mode :: "bool \<Rightarrow> bool \<Rightarrow> mode" where
  "retrieval_mode semantic lexical =
     (if semantic \<and> lexical then HybridMode else if semantic then SemanticMode
      else if lexical then LexicalMode else NoneMode)"

text \<open>The exceptions around a provider that search survives, with their subclasses.\<close>

definition enrichment_failure :: "exc \<Rightarrow> bool" where
  "enrichment_failure e =
     (case e of
        KeyError _ \<Rightarrow> False | TypeError _ \<Rightarrow> False | SqliteError _ \<Rightarrow> False
      | IntegrityError _ \<Rightarrow> False | IndexError _ \<Rightarrow> False | OverflowError _ \<Rightarrow> False
      | AttributeError _ \<Rightarrow> False | ClientError _ \<Rightarrow> False
      | ImportError _ \<Rightarrow> False | HTTPException _ \<Rightarrow> False | _ \<Rightarrow> True)"

record search_env =
  se_lexical :: "string \<Rightarrow> int \<Rightarrow> exc + node list"
  se_embed :: "(string \<Rightarrow> exc + rat list) option"
  se_vector :: "rat list \<Rightarrow> int \<Rightarrow> exc + (node \<times> rat) list"
  se_rerank :: "(string \<Rightarrow> string list \<Rightarrow> int \<Rightarrow> exc + (int \<times> rat) list) option"

text \<open>Candidates, availability and the reason when degraded; other exceptions propagate.\<close>

definition degrade :: "exc \<Rightarrow> exc + (node \<times> rat) list \<times> bool \<times> string option" where
  "degrade e = (if enrichment_failure e then Inr ([], False, Some (exc_str e)) else Inl e)"

definition semantic_candidates ::
  "search_env \<Rightarrow> string \<Rightarrow> int \<Rightarrow> exc + (node \<times> rat) list \<times> bool \<times> string option" where
  "semantic_candidates env query limit =
     (case se_embed env of
        None \<Rightarrow> Inr ([], False, Some ''embedding provider is not configured'')
      | Some vector_of \<Rightarrow>
          (case vector_of query of
             Inl e \<Rightarrow> degrade e
           | Inr v \<Rightarrow>
               (case se_vector env v limit of
                  Inl e \<Rightarrow> degrade e
                | Inr found \<Rightarrow> Inr (found, True, None))))"

record query_result =
  qr_matches :: "match list"
  qr_available :: bool
  qr_mode :: mode
  qr_reason :: "string option"

definition retrieve_query :: "search_env \<Rightarrow> int \<Rightarrow> nat \<times> string \<Rightarrow> exc + query_result" where
  "retrieve_query env limit iq =
     (case iq of (q, query) \<Rightarrow>
        and_then (se_lexical env query limit) (\<lambda>lexical.
        and_then (semantic_candidates env query limit) (\<lambda>(semantic, available, reason).
          Inr \<lparr>qr_matches = fuse semantic lexical q, qr_available = available,
               qr_mode = retrieval_mode (semantic \<noteq> []) (lexical \<noteq> []), qr_reason = reason\<rparr>)))"

text \<open>\<open>asyncio.gather\<close> over the queries; the first failing one in query order decides.\<close>

fun gather :: "('a \<Rightarrow> exc + 'b) \<Rightarrow> 'a list \<Rightarrow> exc + 'b list" where
  "gather f [] = Inr []"
| "gather f (x # xs) = and_then (f x) (\<lambda>y. and_then (gather f xs) (\<lambda>ys. Inr (y # ys)))"

section \<open>Search\<close>

record response =
  rs_matches :: "match list"
  rs_available :: bool
  rs_mode :: mode
  rs_reason :: "string option"
  rs_queries :: "string list"
  rs_reranked :: bool
  rs_stage :: "string option"
  rs_timed_out :: bool

definition first_reason :: "query_result list \<Rightarrow> string option" where
  "first_reason results = List.find (\<lambda>r. r \<noteq> []) (List.map_filter qr_reason results)"

definition rerank_document :: "node \<Rightarrow> string" where
  "rerank_document n =
     (let md = nd_metadata n;
          qualified = dict_get md ''qualified_name'' JNull;
          parts = [JStr (node_type_value (nd_type n)),
                   (if truthy qualified then qualified else JStr (nd_name n)),
                   dict_get md ''signature'' JNull, dict_get md ''file_path'' JNull];
          structural = intercalate '' '' (map py_str (filter truthy parts));
          content = strip (nd_content n);
          document = (if content \<noteq> [] then structural @ [CHR 0x0A] @ content else structural)
      in take 4096 document)"

definition py_index :: "'a list \<Rightarrow> int \<Rightarrow> exc + 'a" where
  "py_index xs i =
     (if 0 \<le> i \<and> i < int (length xs) then Inr (xs ! nat i)
      else if - int (length xs) \<le> i \<and> i < 0 then Inr (xs ! nat (int (length xs) + i))
      else Inl (IndexError ''list index out of range''))"

definition reranked_mode :: "mode \<Rightarrow> exc + mode" where
  "reranked_mode m =
     (case m of HybridMode \<Rightarrow> Inr HybridReranked | SemanticMode \<Rightarrow> Inr SemanticReranked
      | LexicalMode \<Rightarrow> Inr LexicalReranked | _ \<Rightarrow> Inl (KeyError ''none''))"

definition clamp_limit :: "int \<Rightarrow> int" where
  "clamp_limit limit = max 1 (min limit 200)"

definition candidate_limit :: "int \<Rightarrow> int" where
  "candidate_limit result_limit = min 200 (max 20 (result_limit * 4))"

definition plain_response ::
  "match list \<Rightarrow> bool \<Rightarrow> mode \<Rightarrow> string option \<Rightarrow> string list \<Rightarrow> string option \<Rightarrow> response" where
  "plain_response matches available m reason queries stage =
     \<lparr>rs_matches = matches, rs_available = available, rs_mode = m, rs_reason = reason,
      rs_queries = queries, rs_reranked = False, rs_stage = stage, rs_timed_out = False\<rparr>"

definition respond ::
  "search_env \<Rightarrow> int \<Rightarrow> string \<Rightarrow> string list \<Rightarrow> query_result list \<Rightarrow> exc + response" where
  "respond env result_limit search_mode queries results =
     (let fused = merge_matches (map qr_matches results);
          available = list_all qr_available results;
          reason = first_reason results;
          is_semantic = (\<lambda>m. m = SemanticMode \<or> m = HybridMode);
          is_lexical = (\<lambda>m. m = LexicalMode \<or> m = HybridMode);
          m = retrieval_mode (list_ex (is_semantic \<circ> qr_mode) results) (list_ex (is_lexical \<circ> qr_mode) results);
          stage = (if reason \<noteq> None then Some ''semantic'' else None);
          top = take (nat result_limit) fused in
      if fused = [] then Inr (plain_response [] available NoneMode reason queries stage)
      else
        (case (if search_mode = ''fast'' then None else se_rerank env) of
           None \<Rightarrow> Inr (plain_response top available m reason queries stage)
         | Some rerank \<Rightarrow>
             (case rerank (intercalate [CHR 0x0A] queries) (map (rerank_document \<circ> ma_node) fused) result_limit of
                Inl (TimeoutError _) \<Rightarrow>
                  Inr ((plain_response top available m (Some ''reranking timed out'') queries (Some ''rerank''))
                         \<lparr>rs_timed_out := True\<rparr>)
              | Inl e \<Rightarrow>
                  if enrichment_failure e
                  then Inr (plain_response top available m (Some (exc_str e)) queries (Some ''rerank''))
                  else Inl e
              | Inr ranked \<Rightarrow>
                  and_then (gather (\<lambda>(i, score). and_then (py_index fused i) (\<lambda>x. Inr (x\<lparr>ma_rerank := Some score\<rparr>))) ranked)
                    (\<lambda>reranked.
                  and_then (reranked_mode m) (\<lambda>m'.
                    Inr ((plain_response reranked available m' reason queries stage)\<lparr>rs_reranked := True\<rparr>))))))"

definition search ::
  "search_env \<Rightarrow> string \<Rightarrow> int \<Rightarrow> string list \<Rightarrow> string \<Rightarrow> exc + response" where
  "search env query limit queries search_mode =
     and_then (effective_queries query queries) (\<lambda>effective.
       if search_mode \<notin> {''fast'', ''balanced'', ''thorough''}
       then Inl (ValueError ''search_mode must be fast, balanced, or thorough'')
       else
         and_then (gather (retrieve_query env (candidate_limit (clamp_limit limit))) (enumerate 0 effective))
           (respond env (clamp_limit limit) search_mode effective))"

section \<open>What collecting evidence computes\<close>

definition ev_id :: "evidence \<Rightarrow> string" where
  "ev_id e = nd_id (ev_node e)"

definition ma_id :: "match \<Rightarrow> string" where
  "ma_id m = nd_id (ma_node m)"

definition about :: "string \<Rightarrow> evidence list \<Rightarrow> evidence list" where
  "about i es = filter (\<lambda>e. ev_id e = i) es"

definition mass_of :: "string \<Rightarrow> evidence list \<Rightarrow> rat" where
  "mass_of i es = sum_list (map ev_mass (about i es))"

definition queries_of :: "string \<Rightarrow> evidence list \<Rightarrow> nat list" where
  "queries_of i es = concat (map ev_queries (about i es))"

abbreviation touches :: "(string \<times> candidate) list \<Rightarrow> evidence list \<Rightarrow> (string \<times> candidate) list" where
  "touches cs es \<equiv> foldl (\<lambda>cs e. touch e cs) cs es"

lemma about_simps [simp]:
  "about i [] = []" "about i (e # es) = (if ev_id e = i then e # about i es else about i es)"
  "about i (es @ fs) = about i es @ about i fs"
  by (simp_all add: about_def)

lemma mass_of_simps [simp]:
  "mass_of i [] = 0" "mass_of i (e # es) = (if ev_id e = i then ev_mass e else 0) + mass_of i es"
  "mass_of i (es @ fs) = mass_of i es + mass_of i fs"
  by (simp_all add: mass_of_def)

lemma queries_of_simps [simp]:
  "queries_of i [] = []" "queries_of i (e # es) = (if ev_id e = i then ev_queries e else []) @ queries_of i es"
  "queries_of i (es @ fs) = queries_of i es @ queries_of i fs"
  by (simp_all add: queries_of_def)

definition invariant_of :: "evidence list \<Rightarrow> string \<times> candidate \<Rightarrow> bool" where
  "invariant_of es ic = (case ic of (i, c) \<Rightarrow>
     nd_id (ca_node c) = i \<and> ca_score c = mass_of i es \<and> ca_queries c = queries_of i es)"

lemma touch_distinct: "distinct (map fst cs) \<Longrightarrow> distinct (map fst (touch e cs))"
  by (simp add: touch_def distinct_update)

lemma touch_keys: "fst ` set (touch e cs) = insert (ev_id e) (fst ` set cs)"
  by (simp add: dom_map_of_conv_image_fst [symmetric] touch_def update_conv' ev_id_def)

lemma touch_step:
  assumes "distinct (map fst cs)" "fst ` set cs = ev_id ` set es" "\<forall>ic\<in>set cs. invariant_of es ic"
  shows "\<forall>ic\<in>set (touch e cs). invariant_of (es @ [e]) ic"
proof
  fix ic assume "ic \<in> set (touch e cs)"
  moreover obtain i c where ic: "ic = (i, c)" by (cases ic)
  ultimately have mem: "map_of (touch e cs) i = Some c"
    using touch_distinct [OF assms(1), of e] by simp
  show "invariant_of (es @ [e]) ic"
  proof (cases "i = ev_id e")
    case False
    then have "map_of cs i = Some c" using mem by (simp add: touch_def update_conv' ev_id_def)
    then have "invariant_of es (i, c)" using assms(3) map_of_SomeD by fast
    then show ?thesis using False by (simp add: invariant_of_def ic)
  next
    case True
    then have c: "c = add_evidence e (case map_of cs i of None \<Rightarrow> new_candidate (ev_node e) | Some c \<Rightarrow> c)"
      using mem by (simp add: touch_def update_conv' ev_id_def)
    show ?thesis
    proof (cases "map_of cs i")
      case None
      then have "i \<notin> ev_id ` set es" using assms(2) by (metis map_of_eq_None_iff)
      then have "about i es = []" by (auto simp: about_def filter_empty_conv)
      then show ?thesis using c None True
        by (simp add: invariant_of_def ic add_evidence_def new_candidate_def mass_of_def queries_of_def ev_id_def)
    next
      case (Some c0)
      then have "invariant_of es (i, c0)" using assms(3) map_of_SomeD by fast
      then show ?thesis using c Some True by (simp add: invariant_of_def ic add_evidence_def)
    qed
  qed
qed

lemma touches_invariant:
  "distinct (map fst (touches [] es)) \<and> fst ` set (touches [] es) = ev_id ` set es
   \<and> (\<forall>ic\<in>set (touches [] es). invariant_of es ic)"
proof (induction es rule: rev_induct)
  case Nil
  then show ?case by simp
next
  case (snoc e es)
  then show ?case
    using touch_distinct [of "touches [] es" e] touch_keys [of e "touches [] es"] touch_step [of "touches [] es" es e]
    by simp
qed

lemma collect_facts:
  "distinct (map ma_id (collect es))"
  "ma_id ` set (collect es) = ev_id ` set es"
  "m \<in> set (collect es) \<Longrightarrow>
     ma_fusion m = mass_of (ma_id m) es \<and> ma_queries m = sorted_set (queries_of (ma_id m) es) \<and> ma_rerank m = None"
  "sorted (map (\<lambda>m. (- ma_fusion m, ma_id m)) (collect es))"
proof -
  let ?cs = "touches [] es"
  have inv: "invariant_of es ic" if "ic \<in> set ?cs" for ic using that touches_invariant by blast
  have id: "ma_id (match_of c) = nd_id (ca_node c)" for c by (simp add: ma_id_def match_of_def)
  have snds: "ma_id (match_of (snd ic)) = fst ic" if "ic \<in> set ?cs" for ic
    using inv [OF that] by (simp add: id invariant_of_def split: prod.splits)
  have perm: "mset (map ma_id (collect es)) = mset (map fst ?cs)"
  proof -
    have "mset (map ma_id (collect es)) = image_mset (ma_id \<circ> match_of) (mset (map snd ?cs))"
      by (simp only: collect_def map_map mset_map mset_sort)
    also have "\<dots> = mset (map (\<lambda>ic. ma_id (match_of (snd ic))) ?cs)"
      by (simp only: mset_map multiset.map_comp comp_def)
    also have "map (\<lambda>ic. ma_id (match_of (snd ic))) ?cs = map fst ?cs"
      by (rule map_cong [OF refl snds])
    finally show ?thesis .
  qed
  show "distinct (map ma_id (collect es))"
    using touches_invariant [of es] mset_eq_imp_distinct_iff [OF perm] by simp
  show "ma_id ` set (collect es) = ev_id ` set es"
    using touches_invariant [of es] mset_eq_setD [OF perm] by simp
  show "m \<in> set (collect es) \<Longrightarrow>
     ma_fusion m = mass_of (ma_id m) es \<and> ma_queries m = sorted_set (queries_of (ma_id m) es) \<and> ma_rerank m = None"
    using inv by (auto simp: collect_def match_of_def ma_id_def invariant_of_def)
  have "map (\<lambda>m. (- ma_fusion m, ma_id m)) (collect es) = map rank_key (sort_key rank_key (map snd ?cs))"
    by (simp add: collect_def comp_def match_of_def ma_id_def rank_key_def)
  then show "sorted (map (\<lambda>m. (- ma_fusion m, ma_id m)) (collect es))" by simp
qed

section \<open>Ranking\<close>

type_synonym retrieved = "(node \<times> rat) list \<times> node list"

fun rank_total :: "nat \<Rightarrow> string list \<Rightarrow> string \<Rightarrow> rat" where
  "rank_total k [] i = 0"
| "rank_total k (x # xs) i = (if x = i then rank_mass k else 0) + rank_total (Suc k) xs i"

text \<open>The score the documentation of reciprocal-rank fusion gives a node.\<close>

definition reference_score :: "retrieved list \<Rightarrow> string \<Rightarrow> rat" where
  "reference_score rs i =
     sum_list (map (\<lambda>(sms, lxs). rank_total 1 (map (nd_id \<circ> fst) sms) i + rank_total 1 (map nd_id lxs) i) rs)"

definition found_in :: "string \<Rightarrow> retrieved \<Rightarrow> bool" where
  "found_in i r = (i \<in> nd_id ` fst ` set (fst r) \<union> nd_id ` set (snd r))"

definition fused_results :: "nat \<Rightarrow> retrieved list \<Rightarrow> match list list" where
  "fused_results k rs = map (\<lambda>(q, sms, lxs). fuse sms lxs q) (enumerate k rs)"

definition query_evidence :: "nat \<Rightarrow> retrieved \<Rightarrow> evidence list" where
  "query_evidence q r =
     map (semantic_evidence q) (enumerate 1 (fst r)) @ map (lexical_evidence q) (enumerate 1 (snd r))"

lemma semantic_part:
  "mass_of i (map (semantic_evidence q) (enumerate k sms)) = rank_total k (map (nd_id \<circ> fst) sms) i"
  "set (queries_of i (map (semantic_evidence q) (enumerate k sms))) = (if i \<in> nd_id ` fst ` set sms then {q} else {})"
  "ev_id ` set (map (semantic_evidence q) (enumerate k sms)) = nd_id ` fst ` set sms"
  by (induction sms arbitrary: k) (auto simp: semantic_evidence_def ev_id_def)

lemma lexical_part:
  "mass_of i (map (lexical_evidence q) (enumerate k lxs)) = rank_total k (map nd_id lxs) i"
  "set (queries_of i (map (lexical_evidence q) (enumerate k lxs))) = (if i \<in> nd_id ` set lxs then {q} else {})"
  "ev_id ` set (map (lexical_evidence q) (enumerate k lxs)) = nd_id ` set lxs"
  by (induction lxs arbitrary: k) (auto simp: lexical_evidence_def ev_id_def)

lemma query_evidence_facts:
  "mass_of i (query_evidence q r) =
     rank_total 1 (map (nd_id \<circ> fst) (fst r)) i + rank_total 1 (map nd_id (snd r)) i"
  "set (queries_of i (query_evidence q r)) = (if found_in i r then {q} else {})"
  "ev_id ` set (query_evidence q r) = {i. found_in i r}"
  by (simp_all only: query_evidence_def mass_of_simps(3) queries_of_simps(3) set_append image_Un
      semantic_part lexical_part found_in_def) auto

text \<open>Collecting twice: the matches of a query carry its evidence to the merge unchanged.\<close>

lemma match_evidence_simps [simp]:
  "ev_id (match_evidence m) = ma_id m" "ev_mass (match_evidence m) = ma_fusion m"
  "ev_queries (match_evidence m) = ma_queries m"
  by (simp_all add: match_evidence_def ev_id_def ma_id_def)

lemma match_evidence_absent:
  "i \<notin> ma_id ` set ms \<Longrightarrow> mass_of i (map match_evidence ms) = 0 \<and> queries_of i (map match_evidence ms) = []"
  by (induction ms) auto

lemma match_evidence_present:
  "distinct (map ma_id ms) \<Longrightarrow> m \<in> set ms \<Longrightarrow>
   mass_of (ma_id m) (map match_evidence ms) = ma_fusion m
   \<and> queries_of (ma_id m) (map match_evidence ms) = ma_queries m"
proof (induction ms)
  case Nil
  then show ?case by simp
next
  case (Cons x xs)
  show ?case
  proof (cases "ma_id x = ma_id m")
    case True
    then have "ma_id m \<notin> ma_id ` set xs" using Cons.prems(1) by auto
    moreover from this have "x = m" using Cons.prems(2) by auto
    ultimately show ?thesis using match_evidence_absent [of "ma_id m" xs] by simp
  next
    case False
    then show ?thesis using Cons by auto
  qed
qed

lemma collected_evidence:
  "mass_of i (map match_evidence (collect es)) = mass_of i es"
  "set (queries_of i (map match_evidence (collect es))) = set (queries_of i es)"
proof -
  have "mass_of i (map match_evidence (collect es)) = mass_of i es
     \<and> set (queries_of i (map match_evidence (collect es))) = set (queries_of i es)"
  proof (cases "i \<in> ev_id ` set es")
    case True
    then obtain m where m: "m \<in> set (collect es)" "ma_id m = i"
      unfolding collect_facts(2) [symmetric] by auto
    show ?thesis
      using match_evidence_present [OF collect_facts(1) m(1)] collect_facts(3) [OF m(1)] m(2) by simp
  next
    case False
    then have "about i es = []" by (auto simp: about_def filter_empty_conv)
    moreover have "i \<notin> ma_id ` set (collect es)" using False by (simp add: collect_facts(2))
    ultimately show ?thesis
      using match_evidence_absent [of i "collect es"] by (simp add: mass_of_def queries_of_def)
  qed
  then show "mass_of i (map match_evidence (collect es)) = mass_of i es"
    "set (queries_of i (map match_evidence (collect es))) = set (queries_of i es)" by simp_all
qed

lemma fuse_evidence: "fuse sms lxs q = collect (query_evidence q (sms, lxs))"
  by (simp add: fuse_def query_evidence_def)

lemma fused_results_Cons:
  "fused_results k (r # rs) = collect (query_evidence k r) # fused_results (Suc k) rs"
  by (cases r) (simp add: fused_results_def fuse_evidence)

lemma merged_evidence:
  "mass_of i (map match_evidence (concat (fused_results k rs))) = reference_score rs i"
  "set (queries_of i (map match_evidence (concat (fused_results k rs)))) =
     {q. k \<le> q \<and> q < k + length rs \<and> found_in i (rs ! (q - k))}"
  "ev_id ` set (map match_evidence (concat (fused_results k rs))) = {i. \<exists>r\<in>set rs. found_in i r}"
proof (induction rs arbitrary: k)
  case Nil
  { case 1 show ?case by (simp add: fused_results_def reference_score_def)
  next case 2 show ?case by (simp add: fused_results_def)
  next case 3 show ?case by (simp add: fused_results_def) }
next
  case (Cons r rs)
  have ids: "ev_id ` set (map match_evidence (collect es)) = ev_id ` set es" for es
    using collect_facts(2) [of es] by (simp add: image_image)
  { case 1
    show ?case using Cons.IH(1) [of "Suc k"]
      by (simp add: fused_results_Cons collected_evidence query_evidence_facts reference_score_def case_prod_beta)
  next
    case 2
    have "{q. k \<le> q \<and> q < k + length (r # rs) \<and> found_in i ((r # rs) ! (q - k))} =
        (if found_in i r then {k} else {}) \<union> {q. Suc k \<le> q \<and> q < Suc k + length rs \<and> found_in i (rs ! (q - Suc k))}"
      by (auto simp: nth_Cons' Suc_le_eq not_less_eq_eq le_less)
    then show ?case using Cons.IH(2) [of "Suc k"]
      by (simp only: fused_results_Cons concat.simps map_append queries_of_simps(3) set_append collected_evidence
          query_evidence_facts)
  next
    case 3
    show ?case using Cons.IH(3) [of "Suc k"] ids [of "query_evidence k r"]
      by (simp only: fused_results_Cons concat.simps map_append set_append image_Un query_evidence_facts(3)) auto
  }
qed

text \<open>C14: The two-stage fusion equals the reference ranking.  Fusing each query's semantic and
  lexical candidates and merging the queries yields every retrieved node exactly once,
  each with the sum over the queries of its reciprocal ranks, the ascending list of the
  queries that found it, and ordered by falling score with ties broken by node id.\<close>

theorem fusion_is_reciprocal_rank:
  "let ms = merge_matches (fused_results 0 rs) in
     distinct (map ma_id ms) \<and> set (map ma_id ms) = {i. \<exists>r\<in>set rs. found_in i r}
     \<and> sorted (map (\<lambda>m. (- ma_fusion m, ma_id m)) ms)
     \<and> list_all (\<lambda>m. ma_fusion m = reference_score rs (ma_id m)
          \<and> ma_queries m = filter (\<lambda>q. found_in (ma_id m) (rs ! q)) [0..<length rs]) ms"
proof -
  let ?es = "map match_evidence (concat (fused_results 0 rs))"
  have ms: "merge_matches (fused_results 0 rs) = collect ?es" by (simp add: merge_matches_def)
  have "ma_queries m = filter (\<lambda>q. found_in (ma_id m) (rs ! q)) [0..<length rs]" if "m \<in> set (collect ?es)" for m
  proof -
    have "ma_queries m = sorted_set (queries_of (ma_id m) ?es)" using collect_facts(3) [OF that] by simp
    also have "\<dots> = sorted_set (filter (\<lambda>q. found_in (ma_id m) (rs ! q)) [0..<length rs])"
      by (rule sorted_set_cong) (simp only: merged_evidence, auto)
    also have "\<dots> = filter (\<lambda>q. found_in (ma_id m) (rs ! q)) [0..<length rs]"
      by (rule sorted_set_idem) (simp_all add: sorted_filter [of id, simplified])
    finally show ?thesis .
  qed
  moreover have "ma_fusion m = reference_score rs (ma_id m)" if "m \<in> set (collect ?es)" for m
    using collect_facts(3) [OF that] by (simp only: merged_evidence)
  moreover have "set (map ma_id (collect ?es)) = {i. \<exists>r\<in>set rs. found_in i r}"
    using collect_facts(2) [of ?es] merged_evidence(3) [of 0 rs] by simp
  ultimately show ?thesis
    unfolding ms Let_def list_all_iff using collect_facts(1,4) [of ?es] by blast
qed

section \<open>Whole searches\<close>

lemma gather_retrieve:
  "gather (retrieve_query env l) (enumerate k qs) = Inr results \<Longrightarrow>
   \<exists>rs. length rs = length qs \<and> map qr_matches results = fused_results k rs
      \<and> (\<forall>i<length qs. se_lexical env (qs ! i) l = Inr (snd (rs ! i))
           \<and> (\<exists>available reason. semantic_candidates env (qs ! i) l = Inr (fst (rs ! i), available, reason)))"
proof (induction qs arbitrary: k results)
  case Nil
  then show ?case by (intro exI [of _ "[]"]) (simp add: fused_results_def)
next
  case (Cons q qs)
  then obtain x xs where x: "retrieve_query env l (k, q) = Inr x"
    "gather (retrieve_query env l) (enumerate (Suc k) qs) = Inr xs" "results = x # xs"
    by (auto simp: and_then_Inr_iff)
  obtain lxs sms available reason where f: "se_lexical env q l = Inr lxs"
    "semantic_candidates env q l = Inr (sms, available, reason)" "qr_matches x = fuse sms lxs k"
    using x(1) by (auto simp: retrieve_query_def and_then_Inr_iff)
  obtain rs where rs: "length rs = length qs" "map qr_matches xs = fused_results (Suc k) rs"
    "\<forall>i<length qs. se_lexical env (qs ! i) l = Inr (snd (rs ! i))
       \<and> (\<exists>available reason. semantic_candidates env (qs ! i) l = Inr (fst (rs ! i), available, reason))"
    using Cons.IH [OF x(2)] by blast
  have "map qr_matches results = fused_results k ((sms, lxs) # rs)"
    using x(3) f(3) rs(2) by (simp add: fused_results_def)
  moreover have "se_lexical env ((q # qs) ! i) l = Inr (snd (((sms, lxs) # rs) ! i))
       \<and> (\<exists>available reason. semantic_candidates env ((q # qs) ! i) l = Inr (fst (((sms, lxs) # rs) ! i), available, reason))"
    if "i < length (q # qs)" for i
    using that f(1,2) rs(3) by (cases i) auto
  ultimately show ?case using rs(1) by (intro exI [of _ "(sms, lxs) # rs"]) simp
qed

lemma effective_queries_Inr:
  assumes "effective_queries query queries = Inr qs"
  shows "qs = dedup (query # queries)" "length (query # queries) \<le> 5" "\<forall>q\<in>set qs. strip q \<noteq> []"
  using assms by (auto simp: effective_queries_def Let_def list_ex_iff split: if_splits)

lemma hd_dedup: "hd (dedup (x # xs)) = x"
  by (simp add: dedup_def)

lemma respond_unranked:
  assumes "respond env l sm qs results = Inr r" "\<not> rs_reranked r"
  shows "rs_matches r = take (nat l) (merge_matches (map qr_matches results)) \<and> rs_queries r = qs"
  using assms
  by (auto simp: respond_def Let_def plain_response_def and_then_Inr_iff
      split: if_splits option.splits sum.splits exc.splits)

lemma search_Inr:
  assumes "search env query limit queries sm = Inr r"
  obtains qs results where "effective_queries query queries = Inr qs" "sm \<in> {''fast'', ''balanced'', ''thorough''}"
    "gather (retrieve_query env (candidate_limit (clamp_limit limit))) (enumerate 0 qs) = Inr results"
    "respond env (clamp_limit limit) sm qs results = Inr r"
  using assms by (auto simp: search_def and_then_Inr_iff split: if_splits)

text \<open>C15: A search that was not reranked returns exactly the top of the fused ranking.  It asks
  one to five distinct non-blank queries, the given one first, retrieves every query's
  lexical candidates, takes no semantic candidates it was not given, and returns the first
  \<open>limit\<close> (clamped to 1..200) matches of the fusion of these candidates.\<close>

theorem search_returns_top:
  assumes "search env query limit queries sm = Inr r" "\<not> rs_reranked r"
  shows "\<exists>rs. length rs = length (rs_queries r)
     \<and> (\<forall>i<length rs. se_lexical env (rs_queries r ! i) (candidate_limit (clamp_limit limit)) = Inr (snd (rs ! i))
          \<and> (\<exists>available reason. semantic_candidates env (rs_queries r ! i) (candidate_limit (clamp_limit limit)) =
               Inr (fst (rs ! i), available, reason)))
     \<and> rs_matches r = take (nat (clamp_limit limit)) (merge_matches (fused_results 0 rs))
     \<and> 1 \<le> length (rs_queries r) \<and> length (rs_queries r) \<le> 5 \<and> distinct (rs_queries r)
     \<and> hd (rs_queries r) = query \<and> (\<forall>q\<in>set (rs_queries r). strip q \<noteq> [])
     \<and> length (rs_matches r) \<le> 200"
proof -
  obtain qs results where s: "effective_queries query queries = Inr qs"
    "gather (retrieve_query env (candidate_limit (clamp_limit limit))) (enumerate 0 qs) = Inr results"
    "respond env (clamp_limit limit) sm qs results = Inr r"
    using search_Inr [OF assms(1)] by metis
  obtain rs where rs: "length rs = length qs" "map qr_matches results = fused_results 0 rs"
    "\<forall>i<length qs. se_lexical env (qs ! i) (candidate_limit (clamp_limit limit)) = Inr (snd (rs ! i))
       \<and> (\<exists>available reason. semantic_candidates env (qs ! i) (candidate_limit (clamp_limit limit)) =
            Inr (fst (rs ! i), available, reason))"
    using gather_retrieve [OF s(2)] by blast
  have top: "rs_matches r = take (nat (clamp_limit limit)) (merge_matches (fused_results 0 rs))" "rs_queries r = qs"
    using respond_unranked [OF s(3) assms(2)] rs(2) by simp_all
  note eff = effective_queries_Inr [OF s(1)]
  have "qs \<noteq> []" using eff(1) by (simp add: dedup_def)
  moreover have "length qs \<le> 5" using eff(1,2) length_dedup [of "query # queries"] by simp
  moreover have "distinct qs" "hd qs = query" using eff(1) hd_dedup by simp_all
  moreover have "length (rs_matches r) \<le> 200" using top(1) by (simp add: clamp_limit_def)
  ultimately show ?thesis
    using rs top eff(3) by (intro exI [of _ rs]) (simp add: Suc_le_eq)
qed

definition demo_node :: "string \<Rightarrow> node" where
  "demo_node i = \<lparr>nd_id = i, nd_type = FunctionNode, nd_name = i, nd_content = [], nd_metadata = [], nd_repo = None\<rparr>"

definition demo_search_env :: search_env where
  "demo_search_env = \<lparr>se_lexical = \<lambda>_ _. Inr [demo_node ''b'', demo_node ''a''],
     se_embed = Some (\<lambda>_. Inr [0]), se_vector = \<lambda>_ _. Inr [(demo_node ''a'', 1/2)],
     se_rerank = Some (\<lambda>_ _ _. Inl (OSError ''no connection''))\<rparr>"

lemma demo_search:
  "\<exists>r. search demo_search_env ''f'' 10 [] ''fast'' = Inr r \<and> \<not> rs_reranked r \<and> rs_queries r = [''f'']"
proof -
  have "effective_queries ''f'' [] = Inr [''f'']" by code_simp
  then show ?thesis
    by (simp add: search_def demo_search_env_def retrieve_query_def semantic_candidates_def respond_def Let_def
        plain_response_def)
qed

theorem search_returns_top_witness:
  "\<exists>r. search demo_search_env ''f'' 10 [] ''fast'' = Inr r
     \<and> rs_matches r = take 10 (merge_matches (fused_results 0 [([(demo_node ''a'', 1/2)], [demo_node ''b'', demo_node ''a''])]))"
proof -
  obtain r where r: "search demo_search_env ''f'' 10 [] ''fast'' = Inr r" "\<not> rs_reranked r" "rs_queries r = [''f'']"
    using demo_search by blast
  obtain rs where rs: "length rs = length (rs_queries r)"
    "\<forall>i<length rs. se_lexical demo_search_env (rs_queries r ! i) (candidate_limit (clamp_limit 10)) = Inr (snd (rs ! i))
       \<and> (\<exists>available reason. semantic_candidates demo_search_env (rs_queries r ! i) (candidate_limit (clamp_limit 10)) =
            Inr (fst (rs ! i), available, reason))"
    "rs_matches r = take (nat (clamp_limit 10)) (merge_matches (fused_results 0 rs))"
    using search_returns_top [OF r(1,2)] by blast
  then obtain x where x: "rs = [x]" using r(3) by (auto simp: length_Suc_conv)
  have "snd x = [demo_node ''b'', demo_node ''a'']" "fst x = [(demo_node ''a'', 1/2)]"
    using rs(2) x by (simp_all add: demo_search_env_def semantic_candidates_def)
  then have "x = ([(demo_node ''a'', 1/2)], [demo_node ''b'', demo_node ''a''])" by (cases x) simp
  then show ?thesis using r(1) rs(3) x by (intro exI [of _ r]) (simp add: clamp_limit_def)
qed

section \<open>Failing open\<close>

text \<open>Aux: Reranking fails open.  If every call of the reranker ends in a provider failure or a
  timeout, a balanced or thorough search returns the same matches, mode and queries as the
  fast search, and says that the rerank stage was degraded; it never turns a search that
  works into an error.\<close>

theorem search_fails_open:
  assumes "se_rerank env = Some rerank" "\<forall>q docs l. rerank q docs l = Inl e" "enrichment_failure e"
    and "search env query limit queries ''fast'' = Inr r" "sm = ''balanced'' \<or> sm = ''thorough''"
  shows "\<exists>r'. search env query limit queries sm = Inr r' \<and> rs_matches r' = rs_matches r
     \<and> rs_mode r' = rs_mode r \<and> rs_queries r' = rs_queries r \<and> \<not> rs_reranked r'
     \<and> (rs_matches r \<noteq> [] \<longrightarrow> rs_stage r' = Some ''rerank'')"
proof -
  obtain qs results where s: "effective_queries query queries = Inr qs"
    "gather (retrieve_query env (candidate_limit (clamp_limit limit))) (enumerate 0 qs) = Inr results"
    "respond env (clamp_limit limit) ''fast'' qs results = Inr r"
    using search_Inr [OF assms(4)] by metis
  have sm: "sm \<noteq> ''fast''" "sm \<in> {''fast'', ''balanced'', ''thorough''}" using assms(5) by auto
  have again: "search env query limit queries sm = respond env (clamp_limit limit) sm qs results"
    using s(1,2) sm(2) by (simp add: search_def)
  let ?fused = "merge_matches (map qr_matches results)"
  show ?thesis
  proof (cases "?fused = []")
    case True
    then show ?thesis using s(3) unfolding again by (auto simp: respond_def Let_def plain_response_def)
  next
    case False
    have "\<exists>r'. respond env (clamp_limit limit) sm qs results = Inr r' \<and> \<not> rs_reranked r'
       \<and> rs_stage r' = Some ''rerank'' \<and> rs_mode r' = rs_mode r \<and> rs_matches r' = rs_matches r \<and> rs_queries r' = rs_queries r"
      using False assms(1-3) s(3) sm(1)
      by (cases e) (auto simp: respond_def Let_def plain_response_def enrichment_failure_def)
    then show ?thesis unfolding again by blast
  qed
qed

theorem search_fails_open_witness:
  "\<exists>r'. search demo_search_env ''f'' 10 [] ''thorough'' = Inr r' \<and> \<not> rs_reranked r' \<and> rs_queries r' = [''f'']"
proof -
  obtain r where r: "search demo_search_env ''f'' 10 [] ''fast'' = Inr r" "rs_queries r = [''f'']"
    using demo_search by blast
  have "se_rerank demo_search_env = Some (\<lambda>_ _ _. Inl (OSError ''no connection''))"
    by (simp add: demo_search_env_def)
  from search_fails_open [OF this _ _ r(1), of "OSError ''no connection''" "''thorough''"] r(2)
  show ?thesis by (auto simp: enrichment_failure_def)
qed

end
