(* ===== verification/Query_Routing.thy ===== *)
theory Query_Routing
  imports Complex_Main Repository_Paths Graph_Model
begin

text \<open>
  The routing of a code query (\<open>src/src/scs/orchestration/decision.py\<close> and the request of
  \<open>query.py\<close>): the playbooks, the bounded request with its normalised anchors, the check of
  a classifier's decision and which playbooks a request is eligible for.  Probabilities are
  rationals, so the finiteness test of the code always succeeds.
\<close>

section \<open>Playbooks and requests\<close>

datatype playbook = Discover | Understand | Relationships | ReferencesOf | InspectFiles | Impact | Inventory

definition playbooks :: "playbook list" where
  "playbooks = [Discover, Understand, Relationships, ReferencesOf, InspectFiles, Impact, Inventory]"

datatype query_mode = Fast | Balanced | Thorough

definition mode_name :: "query_mode \<Rightarrow> string" where
  "mode_name m = (case m of Fast \<Rightarrow> ''fast'' | Balanced \<Rightarrow> ''balanced'' | Thorough \<Rightarrow> ''thorough'')"

record mode_budget =
  mb_search_seeds :: int
  mb_graph_depth :: int
  mb_hydrated_files :: nat

text \<open>The ceilings of a mode; its two time limits are the cut of a run in the next theory.\<close>

definition mode_budget_of :: "query_mode \<Rightarrow> mode_budget" where
  "mode_budget_of m =
     (case m of
        Fast \<Rightarrow> \<lparr>mb_search_seeds = 5, mb_graph_depth = 1, mb_hydrated_files = 1\<rparr>
      | Balanced \<Rightarrow> \<lparr>mb_search_seeds = 10, mb_graph_depth = 2, mb_hydrated_files = 3\<rparr>
      | Thorough \<Rightarrow> \<lparr>mb_search_seeds = 20, mb_graph_depth = 3, mb_hydrated_files = 5\<rparr>)"

record source_position =
  po_file :: string
  po_line :: int

record routing_request =
  rr_goal :: string
  rr_node_type :: "string option"
  rr_symbol :: "string option"
  rr_node_ids :: "string list"
  rr_file_paths :: "string list"
  rr_position :: "source_position option"

record query_request = routing_request +
  qr_repo :: string
  qr_query_mode :: query_mode
  qr_limit :: int

definition bounded_text :: "nat \<Rightarrow> nat \<Rightarrow> string \<Rightarrow> bool" where
  "bounded_text lo hi s = (lo \<le> length s \<and> length s \<le> hi)"

definition optional_ok :: "('a \<Rightarrow> bool) \<Rightarrow> 'a option \<Rightarrow> bool" where
  "optional_ok P x = (case x of None \<Rightarrow> True | Some v \<Rightarrow> P v)"

text \<open>The \<open>Field\<close> bounds of the three request models.\<close>

definition request_fields_ok :: "query_request \<Rightarrow> bool" where
  "request_fields_ok r =
     (bounded_text 1 4096 (rr_goal r) \<and> optional_ok (bounded_text 0 64) (rr_node_type r)
      \<and> optional_ok (bounded_text 0 256) (rr_symbol r) \<and> length (rr_node_ids r) \<le> 20
      \<and> length (rr_file_paths r) \<le> 20
      \<and> optional_ok (\<lambda>p. bounded_text 1 2048 (po_file p) \<and> 0 \<le> po_line p) (rr_position r)
      \<and> bounded_text 1 2048 (qr_repo r) \<and> 1 \<le> qr_limit r \<and> qr_limit r \<le> 50)"

definition relative_source_path :: "file_system \<Rightarrow> ppath \<Rightarrow> bool \<Rightarrow> string \<Rightarrow> exc + string" where
  "relative_source_path fs rdir require_file p =
     and_then (validated_source_path fs p (Some (path_str rdir)) require_file) (\<lambda>source.
       case relative_to (parse_path source) rdir of
         None \<Rightarrow> Inl (ValueError (source @ '' is not in the subpath of '' @ path_str rdir))
       | Some r \<Rightarrow> Inr (path_str r))"

fun relative_source_paths :: "file_system \<Rightarrow> ppath \<Rightarrow> string list \<Rightarrow> exc + string list" where
  "relative_source_paths fs rdir [] = Inr []"
| "relative_source_paths fs rdir (p # ps) =
     and_then (relative_source_path fs rdir False p) (\<lambda>r.
       and_then (relative_source_paths fs rdir ps) (\<lambda>rs. Inr (r # rs)))"

definition normalize_position ::
  "file_system \<Rightarrow> ppath \<Rightarrow> source_position option \<Rightarrow> exc + source_position option" where
  "normalize_position fs rdir position =
     (case position of
        None \<Rightarrow> Inr None
      | Some p \<Rightarrow>
          and_then (relative_source_path fs rdir True (po_file p)) (\<lambda>f.
            Inr (Some \<lparr>po_file = f, po_line = po_line p\<rparr>)))"

definition normalize_anchors :: "file_system \<Rightarrow> query_request \<Rightarrow> exc + query_request" where
  "normalize_anchors fs r =
     (let expanded = fs_expanduser fs (parse_path (qr_repo r)) in
      if \<not> is_absolute expanded \<or> \<not> fs_is_dir fs expanded
      then Inl (ValueError ''repo_path must be an existing absolute directory'')
      else
        and_then (fs_resolve fs expanded) (\<lambda>rdir.
          if \<not> optional_ok (\<lambda>t. t \<in> node_type_value ` set node_types) (rr_node_type r)
          then Inl (ValueError ''not a valid NodeType'')
          else
            (let ids = dedup (rr_node_ids r) in
             if list_ex (\<lambda>i. i = [] \<or> 256 < length i) ids
             then Inl (ValueError ''node_ids must contain bounded non-empty identities'')
             else
               and_then (relative_source_paths fs rdir (rr_file_paths r)) (\<lambda>files.
               and_then (normalize_position fs rdir (rr_position r)) (\<lambda>position.
                 Inr (r\<lparr>qr_repo := path_str rdir, rr_node_ids := ids, rr_file_paths := dedup files,
                        rr_position := position\<rparr>))))))"

text \<open>Pydantic turns a value error of the validator into a validation error.\<close>

definition as_validation :: "exc \<Rightarrow> exc" where
  "as_validation e = (case e of ValueError m \<Rightarrow> ValidationError m | _ \<Rightarrow> e)"

definition validate_query :: "file_system \<Rightarrow> query_request \<Rightarrow> exc + query_request" where
  "validate_query fs r =
     (if \<not> request_fields_ok r then Inl (ValidationError ''request fields'')
      else (case normalize_anchors fs r of Inl e \<Rightarrow> Inl (as_validation e) | Inr r' \<Rightarrow> Inr r'))"

section \<open>Decisions\<close>

record routing_decision =
  rd_playbook :: playbook
  rd_model :: string
  rd_confidence :: rat
  rd_probabilities :: "(playbook \<times> rat) list"

definition decision_ok :: "routing_decision \<Rightarrow> bool" where
  "decision_ok d =
     (bounded_text 1 256 (rd_model d) \<and> 0 \<le> rd_confidence d \<and> rd_confidence d \<le> 1
      \<and> distinct (map fst (rd_probabilities d)) \<and> fst ` set (rd_probabilities d) = set playbooks
      \<and> list_all (\<lambda>(_, p). 0 \<le> p \<and> p \<le> 1) (rd_probabilities d)
      \<and> \<bar>sum_list (map snd (rd_probabilities d)) - 1\<bar> \<le> 1 / 100)"

text \<open>Anchors: an empty symbol name is none, as the code tests its truth value.\<close>

definition has_anchor :: "'a routing_request_scheme \<Rightarrow> bool" where
  "has_anchor r = (rr_position r \<noteq> None \<or> rr_node_ids r \<noteq> [] \<or> (rr_symbol r \<noteq> None \<and> rr_symbol r \<noteq> Some []))"

definition eligible_playbooks :: "'a routing_request_scheme \<Rightarrow> playbook list" where
  "eligible_playbooks r =
     filter (\<lambda>p. \<not> (p = Impact \<and> rr_file_paths r = [])
               \<and> \<not> (p = ReferencesOf \<and> \<not> has_anchor r)
               \<and> \<not> (p = Inventory
                    \<and> \<not> optional_ok (\<lambda>t. t \<in> node_type_value ` set symbol_node_types) (rr_node_type r)))
       playbooks"

definition deterministic_decision :: routing_decision where
  "deterministic_decision =
     \<lparr>rd_playbook = Discover, rd_model = ''deterministic-v1'', rd_confidence = 1,
      rd_probabilities = map (\<lambda>p. (p, if p = Discover then 1 else 0)) playbooks\<rparr>"

text \<open>The playbook that runs, the decision reported and the reason when the classifier was overruled.\<close>

definition route ::
  "'a routing_request_scheme \<Rightarrow> exc + routing_decision \<Rightarrow> playbook \<times> routing_decision \<times> string option" where
  "route r classified =
     (let (d, reason) =
        (case classified of
           Inr d \<Rightarrow> if decision_ok d then (d, None) else (deterministic_decision, Some ''classifier_unavailable'')
         | Inl (TimeoutError _) \<Rightarrow> (deterministic_decision, Some ''classifier_timeout'')
         | Inl _ \<Rightarrow> (deterministic_decision, Some ''classifier_unavailable''))
      in if rd_playbook d \<in> set (eligible_playbooks r) then (rd_playbook d, d, reason)
         else (Discover, d, Some ''ineligible_playbook''))"

section \<open>Routing is safe\<close>

lemma set_playbooks: "p \<in> set playbooks"
  by (cases p) (simp_all add: playbooks_def)

lemma eligible_iff:
  "p \<in> set (eligible_playbooks r) \<longleftrightarrow>
     (p = Impact \<longrightarrow> rr_file_paths r \<noteq> []) \<and> (p = ReferencesOf \<longrightarrow> has_anchor r)
     \<and> (p = Inventory \<longrightarrow> optional_ok (\<lambda>t. t \<in> node_type_value ` set symbol_node_types) (rr_node_type r))"
  using set_playbooks [of p] by (auto simp: eligible_playbooks_def)

lemma deterministic_decision_ok: "decision_ok deterministic_decision"
  by (auto simp: decision_ok_def deterministic_decision_def bounded_text_def playbooks_def)

lemma route_playbook:
  assumes "route r classified = (p, d, reason)"
  shows "p \<in> set (eligible_playbooks r)" "decision_ok d" "reason = None \<longrightarrow> classified = Inr d \<and> rd_playbook d = p"
proof -
  have "Discover \<in> set (eligible_playbooks r)" by (simp add: eligible_iff)
  then show "p \<in> set (eligible_playbooks r)" "decision_ok d"
    "reason = None \<longrightarrow> classified = Inr d \<and> rd_playbook d = p"
    using assms deterministic_decision_ok
    by (auto simp: route_def Let_def split: sum.splits exc.splits if_splits prod.splits)
qed

lemma relative_source_paths_length:
  "relative_source_paths fs rdir ps = Inr rs \<Longrightarrow> length rs = length ps"
  by (induction ps arbitrary: rs) (auto simp: and_then_Inr_iff)

end
