(* ===== verification/Query_Orchestration.thy ===== *)
theory Query_Orchestration
  imports Query_Routing
begin

text \<open>
  \<open>QueryOrchestrator.query\<close> (\<open>src/src/scs/orchestration/query.py\<close>): one selected playbook run
  over finite service calls.  The services are a parameter: the answer to the n-th call, or
  the cut of the whole run by its time limit, which can fall into any call.  A run is a
  sequence of actions on the evidence, the trace, the degraded stages and the log of calls;
  elapsed times are not modelled.
\<close>

section \<open>State of a run\<close>

datatype outcome = Answer "exc + dict" | Cut

type_synonym services = "nat \<Rightarrow> string \<Rightarrow> dict \<Rightarrow> outcome"

datatype category = SymbolsC | FilesC | RelationshipsC | ReferencesC | TestTargetsC

record trace_entry =
  te_stage :: string
  te_status :: string
  te_counts :: "(string \<times> nat) list"
  te_truncated :: bool

record run =
  ru_calls :: "(string \<times> dict) list"
  ru_evidence :: "(category \<times> dict) list"
  ru_trace :: "trace_entry list"
  ru_degraded :: "string list"
  ru_truncated :: bool

definition empty_run :: run where
  "empty_run = \<lparr>ru_calls = [], ru_evidence = [], ru_trace = [], ru_degraded = [], ru_truncated = False\<rparr>"

definition deadline :: exc where
  "deadline = TimeoutError ''deadline''"

section \<open>Reading answers\<close>

definition objects :: "json \<Rightarrow> dict list" where
  "objects v = (case v of JList xs \<Rightarrow> List.map_filter (\<lambda>x. case x of JObj d \<Rightarrow> Some d | _ \<Rightarrow> None) xs | _ \<Rightarrow> [])"

definition node_evidence :: "dict \<Rightarrow> string \<Rightarrow> string \<Rightarrow> dict" where
  "node_evidence node kind stage =
     (let attributes = (case dict_get node ''metadata'' JNull of JObj d \<Rightarrow> d | _ \<Rightarrow> []);
          field = (\<lambda>k. (k, dict_get node k (dict_get attributes k JNull))) in
      [(''kind'', JStr kind), (''id'', JStr (py_str (dict_get node ''id'' (JStr [])))),
       (''name'', JStr (py_str (dict_get node ''name'' (JStr [])))),
       (''node_type'', JStr (py_str (dict_get node ''type'' (JStr [])))),
       field ''file_path'', field ''start_line'', field ''end_line'', (''stage'', JStr stage)])"

definition node_file_path :: "dict \<Rightarrow> json" where
  "node_file_path node =
     (if truthy (dict_get node ''file_path'' JNull) then dict_get node ''file_path'' JNull
      else (case dict_get node ''metadata'' JNull of JObj d \<Rightarrow> dict_get d ''file_path'' JNull | _ \<Rightarrow> JNull))"

definition node_item :: "string \<Rightarrow> category \<Rightarrow> dict \<Rightarrow> category \<times> dict" where
  "node_item stage category node =
     (if category = SymbolsC \<and> dict_get node ''type'' JNull = JStr (node_type_value FileNode)
      then (FilesC, [(''kind'', JStr ''file''), (''id'', dict_get node ''id'' JNull),
                     (''file_path'', node_file_path node), (''stage'', JStr stage)])
      else (category, node_evidence node (if category = ReferencesC then ''reference'' else ''symbol'') stage))"

definition add_items :: "(category \<times> dict) list \<Rightarrow> (run, unit) act" where
  "add_items items = act_modify (\<lambda>r. r\<lparr>ru_evidence := ru_evidence r @ items\<rparr>)"

definition append_nodes :: "dict list \<Rightarrow> string \<Rightarrow> category \<Rightarrow> (run, unit) act" where
  "append_nodes nodes stage category = add_items (map (node_item stage category) nodes)"

definition mark_truncated :: "bool \<Rightarrow> (run, unit) act" where
  "mark_truncated b = act_modify (\<lambda>r. r\<lparr>ru_truncated := ru_truncated r \<or> b\<rparr>)"

section \<open>One stage\<close>

definition list_counts :: "dict \<Rightarrow> (string \<times> nat) list" where
  "list_counts resp = List.map_filter (\<lambda>(k, v). case v of JList xs \<Rightarrow> Some (k, length xs) | _ \<Rightarrow> None) resp"

definition was_truncated :: "dict \<Rightarrow> bool" where
  "was_truncated resp =
     list_ex (\<lambda>k. dict_get resp k JNull = JBool True)
       [''nodes_truncated'', ''edges_truncated'', ''dependents_truncated'', ''test_targets_truncated'']"

definition stage_answered :: "string \<Rightarrow> dict \<Rightarrow> run \<Rightarrow> run" where
  "stage_answered name resp r =
     (let timed_out = (dict_get resp ''timed_out'' JNull = JBool True);
          bad = (truthy (dict_get resp ''degraded_reason'' JNull) \<or> timed_out);
          cut = (was_truncated resp \<or> timed_out) in
      r\<lparr>ru_truncated := ru_truncated r \<or> cut,
        ru_degraded := (if bad then ru_degraded r @ [name] else ru_degraded r),
        ru_trace := ru_trace r @ [\<lparr>te_stage = name, te_status = (if bad then ''degraded'' else ''ok''),
          te_counts = list_counts resp, te_truncated = cut\<rparr>]\<rparr>)"

definition stage_failed :: "string \<Rightarrow> exc \<Rightarrow> run \<Rightarrow> run" where
  "stage_failed name e r =
     r\<lparr>ru_truncated := True, ru_degraded := ru_degraded r @ [name],
       ru_trace := ru_trace r @ [\<lparr>te_stage = name,
         te_status = (case e of TimeoutError _ \<Rightarrow> ''timeout'' | _ \<Rightarrow> ''failed''),
         te_counts = [], te_truncated = True\<rparr>]\<rparr>"

definition stage :: "services \<Rightarrow> string \<Rightarrow> string \<Rightarrow> dict \<Rightarrow> (run, dict) act" where
  "stage call name method_name args r =
     (let n = length (ru_calls r); r = r\<lparr>ru_calls := ru_calls r @ [(method_name, args)]\<rparr> in
      case call n method_name args of
        Cut \<Rightarrow> (Inl deadline, r)
      | Answer (Inr resp) \<Rightarrow> (Inr resp, stage_answered name resp r)
      | Answer (Inl e) \<Rightarrow> (Inr [], stage_failed name e r))"

section \<open>Searching and relating\<close>

definition opt_json :: "string option \<Rightarrow> json" where
  "opt_json s = (case s of None \<Rightarrow> JNull | Some x \<Rightarrow> JStr x)"

definition search_stage :: "services \<Rightarrow> query_request \<Rightarrow> (run, dict list) act" where
  "search_stage call rq =
     act_bind (stage call ''search'' ''knowledge.search''
       [(''query'', JStr (rr_goal rq)), (''node_type'', opt_json (rr_node_type rq)), (''repo_path'', JStr (qr_repo rq)),
        (''limit'', JInt (min (qr_limit rq) (mb_search_seeds (mode_budget_of (qr_query_mode rq))))),
        (''search_mode'', JStr (mode_name (qr_query_mode rq))), (''result_detail'', JStr ''compact'')])
       (\<lambda>resp. let nodes = objects (dict_get resp ''results'' JNull) in
          act_seq (append_nodes nodes ''search'' SymbolsC) (act_return nodes))"

definition reference_relationships :: "relationship list" where
  "reference_relationships = [Imports, Calls, References, Inherits, Implements]"

definition is_zero :: "json \<Rightarrow> bool" where
  "is_zero v = (v = JInt 0 \<or> v = JBool False)"

definition relationship_items :: "bool \<Rightarrow> relationship option \<Rightarrow> json \<Rightarrow> dict \<Rightarrow> (category \<times> dict) list" where
  "relationship_items incoming edge seed item =
     (if incoming \<and> is_zero (dict_get item ''depth'' JNull) then []
      else
        (let name = (if incoming then ''references'' else ''traversal'');
             (node, items) =
               (case dict_get item ''node'' JNull of
                  JObj d \<Rightarrow> (d, [node_item name SymbolsC d])
                | _ \<Rightarrow> (item, [])) in
         items @
         [(if incoming then ReferencesC else RelationshipsC,
           [(''kind'', JStr (if incoming then ''reference'' else ''relationship'')),
            (''id'', JStr (py_str (dict_get item ''id'' (dict_get node ''id'' (JStr []))))),
            (''seed_id'', dict_get item ''seed_id'' seed), (''target_id'', dict_get node ''id'' JNull),
            (''relationship'', (case edge of Some e \<Rightarrow> JStr (relationship_value e)
                                | None \<Rightarrow> dict_get item ''relationship'' JNull)),
            (''direction'', dict_get item ''direction'' (JStr (if incoming then ''incoming'' else ''both''))),
            (''file_path'', node_file_path node), (''start_line'', dict_get node ''start_line'' JNull),
            (''end_line'', dict_get node ''end_line'' JNull), (''stage'', JStr name)])]))"

definition matched_seed :: "string list \<Rightarrow> dict list \<Rightarrow> json" where
  "matched_seed identities matches =
     (case identities of
        i # _ \<Rightarrow> JStr i
      | [] \<Rightarrow> (case find (\<lambda>m. truthy (dict_get m ''id'' JNull)) matches of
                None \<Rightarrow> JNull | Some m \<Rightarrow> dict_get m ''id'' JNull))"

definition relate_stage ::
  "services \<Rightarrow> query_request \<Rightarrow> bool \<Rightarrow> string list \<Rightarrow> string option \<Rightarrow> relationship option \<Rightarrow> (run, unit) act" where
  "relate_stage call rq incoming identities symbol edge =
     (let name = (if incoming then ''references'' else ''traversal'') in
      act_bind (stage call name ''knowledge.related''
        [(''node_id'', (case identities of [] \<Rightarrow> JNull | i # _ \<Rightarrow> JStr i)), (''symbol_name'', opt_json symbol),
         (''repo_path'', JStr (qr_repo rq)),
         (''depth'', JInt (if incoming then 1 else mb_graph_depth (mode_budget_of (qr_query_mode rq)))),
         (''direction'', JStr (if incoming then ''incoming'' else ''both'')),
         (''relationship'', opt_json (map_option relationship_value edge))])
        (\<lambda>resp. let matches = objects (dict_get resp ''matches'' JNull);
                    seed = matched_seed identities matches in
           act_seq (append_nodes matches name SymbolsC)
             (add_items (concat (map (relationship_items incoming edge seed)
                                     (objects (dict_get resp ''related'' JNull)))))))"

fun for_each :: "('a \<Rightarrow> (run, unit) act) \<Rightarrow> 'a list \<Rightarrow> (run, unit) act" where
  "for_each f [] = act_return ()"
| "for_each f (x # xs) = act_seq (f x) (for_each f xs)"

definition first_seed :: "dict list \<Rightarrow> string list" where
  "first_seed seeds =
     map (\<lambda>s. py_str (dict_get s ''id'' (JStr [])))
       (filter (\<lambda>s. truthy (dict_get s ''id'' JNull)) (take 1 seeds))"

definition relate_edges :: "services \<Rightarrow> query_request \<Rightarrow> bool \<Rightarrow> string list \<Rightarrow> string option \<Rightarrow> (run, unit) act" where
  "relate_edges call rq incoming identities symbol =
     (if identities = [] \<and> symbol = None then act_return ()
      else for_each (relate_stage call rq incoming identities symbol)
             (if incoming then map Some reference_relationships else [None]))"

definition related :: "services \<Rightarrow> query_request \<Rightarrow> bool \<Rightarrow> (run, unit) act" where
  "related call rq incoming =
     (case (rr_node_ids rq, rr_symbol rq) of
        (i # _, _) \<Rightarrow> relate_edges call rq incoming [i] None
      | ([], Some symbol) \<Rightarrow> relate_edges call rq incoming [] (Some symbol)
      | ([], None) \<Rightarrow>
          act_bind (search_stage call rq) (\<lambda>seeds. relate_edges call rq incoming (first_seed seeds) None))"

section \<open>Playbooks\<close>

definition position_references :: "services \<Rightarrow> query_request \<Rightarrow> source_position \<Rightarrow> (run, unit) act" where
  "position_references call rq position =
     act_bind (stage call ''references'' ''lsp.references''
       [(''file_path'', JStr (path_str (path_child (parse_path (qr_repo rq)) (po_file position)))),
        (''line'', JInt (po_line position))])
       (\<lambda>resp.
          act_seq
            (case dict_get resp ''symbol'' JNull of
               JObj d \<Rightarrow> append_nodes [d] ''references'' SymbolsC
             | _ \<Rightarrow> act_return ())
            (append_nodes (objects (dict_get resp ''references'' JNull)) ''references'' ReferencesC))"

definition edge_items :: "json \<Rightarrow> (category \<times> dict) list" where
  "edge_items edges =
     (case edges of
        JObj groups \<Rightarrow>
          map (\<lambda>e. (RelationshipsC,
                 [(''kind'', JStr ''relationship''), (''id'', dict_get e ''id'' JNull),
                  (''source_id'', dict_get e ''source_id'' JNull), (''target_id'', dict_get e ''target_id'' JNull),
                  (''relationship'', dict_get e ''relationship'' JNull), (''stage'', JStr ''inspect'')]))
            (concat (map (\<lambda>(_, v). objects v) groups))
      | _ \<Rightarrow> [])"

definition inspect_file :: "services \<Rightarrow> query_request \<Rightarrow> string \<Rightarrow> (run, unit) act" where
  "inspect_file call rq file =
     act_bind (stage call ''inspect'' ''knowledge.inspect_file''
       [(''repo_path'', JStr (qr_repo rq)), (''file_path'', JStr file),
        (''node_limit'', JInt (min (qr_limit rq) 50)), (''edge_limit'', JInt (min (qr_limit rq * 2) 100))])
       (\<lambda>resp.
          act_seq (add_items [(FilesC, [(''kind'', JStr ''file''), (''file_path'', JStr file), (''stage'', JStr ''inspect'')])])
         (act_seq (append_nodes (objects (dict_get resp ''nodes'' JNull)) ''inspect'' SymbolsC)
            (add_items (edge_items (dict_get resp ''edges'' JNull)))))"

definition seed_files :: "dict list \<Rightarrow> string list" where
  "seed_files seeds = map (\<lambda>s. py_str (node_file_path s)) (filter (\<lambda>s. node_file_path s \<noteq> JNull) seeds)"

definition inspect_files :: "services \<Rightarrow> query_request \<Rightarrow> (run, unit) act" where
  "inspect_files call rq =
     (let budget = mb_hydrated_files (mode_budget_of (qr_query_mode rq)) in
      act_bind
        (if rr_file_paths rq = []
         then act_bind (search_stage call rq) (\<lambda>seeds. act_return (seed_files seeds))
         else act_return (rr_file_paths rq))
        (\<lambda>files.
           act_seq (mark_truncated (length (dedup files) > budget))
             (for_each (inspect_file call rq) (take budget (dedup files)))))"

definition impact :: "services \<Rightarrow> query_request \<Rightarrow> (run, unit) act" where
  "impact call rq =
     act_bind (stage call ''impact'' ''knowledge.composite.regression_risk''
       [(''repo_path'', JStr (qr_repo rq)), (''file_paths'', JList (map JStr (rr_file_paths rq))),
        (''dependent_limit'', JInt (min (qr_limit rq) 50)), (''test_target_limit'', JInt (min (qr_limit rq) 50))])
       (\<lambda>resp.
          act_seq (append_nodes (objects (dict_get resp ''dependents'' JNull)) ''impact'' SymbolsC)
            (add_items (map (\<lambda>t. (TestTargetsC,
                 [(''kind'', JStr ''test_target''), (''file_path'', dict_get t ''file_path'' JNull),
                  (''evidence'', dict_get t ''evidence'' (JList [])), (''stage'', JStr ''impact'')]))
               (objects (dict_get resp ''test_targets'' JNull)))))"

definition int_value :: "json \<Rightarrow> int" where
  "int_value v = (case v of JInt i \<Rightarrow> i | JBool b \<Rightarrow> of_bool b | _ \<Rightarrow> 0)"

definition category_items :: "category \<Rightarrow> run \<Rightarrow> dict list" where
  "category_items c r = map snd (filter (\<lambda>x. fst x = c) (ru_evidence r))"

definition inventory :: "services \<Rightarrow> query_request \<Rightarrow> (run, unit) act" where
  "inventory call rq =
     act_bind (stage call ''inventory'' ''knowledge.nodes.list''
       [(''repo_path'', JStr (qr_repo rq)),
        (''node_type'', JStr (case rr_node_type rq of Some t \<Rightarrow> if t = [] then node_type_value FunctionNode else t
                                              | None \<Rightarrow> node_type_value FunctionNode)),
        (''limit'', JInt (qr_limit rq)), (''offset'', JInt 0)])
       (\<lambda>resp.
          act_seq (append_nodes (objects (dict_get resp ''nodes'' JNull)) ''inventory'' SymbolsC)
            (act_bind (act_gets (\<lambda>r. length (category_items SymbolsC r))) (\<lambda>n.
               mark_truncated (int_value (dict_get resp ''total'' JNull) > int n))))"

definition run_playbook :: "services \<Rightarrow> query_request \<Rightarrow> playbook \<Rightarrow> (run, unit) act" where
  "run_playbook call rq p =
     (case p of
        Discover \<Rightarrow> act_seq (search_stage call rq) (act_return ())
      | Understand \<Rightarrow> related call rq False
      | Relationships \<Rightarrow> related call rq False
      | ReferencesOf \<Rightarrow>
          (case rr_position rq of
             Some position \<Rightarrow> position_references call rq position
           | None \<Rightarrow> related call rq True)
      | InspectFiles \<Rightarrow> inspect_files call rq
      | Impact \<Rightarrow> impact call rq
      | Inventory \<Rightarrow> inventory call rq)"

section \<open>The reply\<close>

definition evidence_key :: "dict \<Rightarrow> string \<times> string \<times> string \<times> string" where
  "evidence_key item =
     (let text = (\<lambda>k d. py_str (dict_get item k d)); file = dict_get item ''file_path'' (JStr []) in
      (text ''kind'' (JStr []), text ''id'' file, text ''target_id'' file, text ''relationship'' (JStr [])))"

text \<open>A dict comprehension by key: the last item of a key, at the place of its first.\<close>

definition unique_evidence :: "dict list \<Rightarrow> dict list" where
  "unique_evidence items = map snd (foldl (\<lambda>acc item. AList.update (evidence_key item) item acc) [] items)"

record query_output =
  qo_playbook :: playbook
  qo_decision :: routing_decision
  qo_reason :: "string option"
  qo_evidence :: "category \<Rightarrow> dict list"
  qo_trace :: "trace_entry list"
  qo_complete :: bool
  qo_truncated :: bool
  qo_degraded :: "string list"

definition cut_run :: "run \<Rightarrow> run" where
  "cut_run r =
     r\<lparr>ru_degraded := ru_degraded r @ [''execution''], ru_truncated := True,
       ru_trace := ru_trace r @ [\<lparr>te_stage = ''execution'', te_status = ''timeout'', te_counts = [],
         te_truncated = True\<rparr>]\<rparr>"

definition execute :: "services \<Rightarrow> query_request \<Rightarrow> playbook \<Rightarrow> (run, unit) act" where
  "execute call rq p =
     act_handle (run_playbook call rq p)
       (\<lambda>e. case e of TimeoutError _ \<Rightarrow> act_modify cut_run | _ \<Rightarrow> act_raise e)"

definition output_of :: "playbook \<times> routing_decision \<times> string option \<Rightarrow> run \<Rightarrow> query_output" where
  "output_of routed r =
     (case routed of (p, d, reason) \<Rightarrow>
        \<lparr>qo_playbook = p, qo_decision = d, qo_reason = reason,
         qo_evidence = (\<lambda>c. unique_evidence (category_items c r)), qo_trace = ru_trace r,
         qo_complete = (\<not> ru_truncated r \<and> ru_degraded r = [] \<and> reason = None),
         qo_truncated = ru_truncated r, qo_degraded = ru_degraded r\<rparr>)"

definition query_code ::
  "file_system \<Rightarrow> services \<Rightarrow> (query_request \<Rightarrow> exc + routing_decision) \<Rightarrow> query_request \<Rightarrow> exc + query_output \<times> run" where
  "query_code fs call classify raw =
     and_then (validate_query fs raw) (\<lambda>rq.
       let routed = route rq (classify rq) in
       case execute call rq (fst routed) empty_run of
         (Inl e, r) \<Rightarrow> Inl e
       | (Inr _, r) \<Rightarrow> Inr (output_of routed r, r))"

section \<open>Calls of a run\<close>

text \<open>An action that makes at most \<open>k\<close> calls, of methods in \<open>M\<close>, and raises only timeouts.\<close>

definition confined :: "nat \<Rightarrow> string set \<Rightarrow> (run, 'a) act \<Rightarrow> bool" where
  "confined k M m =
     (\<forall>s r t. m s = (r, t) \<longrightarrow>
        (\<exists>new. ru_calls t = ru_calls s @ new \<and> length new \<le> k \<and> fst ` set new \<subseteq> M)
        \<and> (\<forall>e. r = Inl e \<longrightarrow> (\<exists>msg. e = TimeoutError msg)))"

lemma confinedI:
  assumes "\<And>s r t. m s = (r, t) \<Longrightarrow> \<exists>new. ru_calls t = ru_calls s @ new \<and> length new \<le> k \<and> fst ` set new \<subseteq> M"
    "\<And>s e t. m s = (Inl e, t) \<Longrightarrow> \<exists>msg. e = TimeoutError msg"
  shows "confined k M m"
  using assms unfolding confined_def by blast

lemma confinedD:
  assumes "confined k M m" "m s = (r, t)"
  shows "\<exists>new. ru_calls t = ru_calls s @ new \<and> length new \<le> k \<and> fst ` set new \<subseteq> M"
    "r = Inl e \<Longrightarrow> \<exists>msg. e = TimeoutError msg"
  using assms unfolding confined_def by blast+

lemma confined_bind:
  assumes "confined a M m" "\<And>x. confined b M (f x)"
  shows "confined (a + b) M (act_bind m f)"
proof (rule confinedI)
  fix s r t assume run: "act_bind m f s = (r, t)"
  obtain r1 u where m: "m s = (r1, u)" by (cases "m s")
  from confinedD(1) [OF assms(1) m] obtain new1 where
    n1: "ru_calls u = ru_calls s @ new1" "length new1 \<le> a" "fst ` set new1 \<subseteq> M" by (elim exE conjE)
  show "\<exists>new. ru_calls t = ru_calls s @ new \<and> length new \<le> a + b \<and> fst ` set new \<subseteq> M"
  proof (cases r1)
    case (Inl e)
    then have "t = u" using run m by (simp add: act_bind_def)
    then show ?thesis using n1 by (intro exI [of _ new1]) simp
  next
    case (Inr x)
    then have "f x u = (r, t)" using run m by (simp add: act_bind_def)
    from confinedD(1) [OF assms(2) this] obtain new2 where
      "ru_calls t = ru_calls u @ new2" "length new2 \<le> b" "fst ` set new2 \<subseteq> M" by (elim exE conjE)
    then show ?thesis using n1 by (intro exI [of _ "new1 @ new2"]) (simp add: image_Un)
  qed
next
  fix s e t assume "act_bind m f s = (Inl e, t)"
  then show "\<exists>msg. e = TimeoutError msg"
    using confinedD(2) [OF assms(1)] confinedD(2) [OF assms(2)] unfolding act_bind_Inl_iff by blast
qed

lemma confined_more:
  assumes "confined a M m" "a \<le> b"
  shows "confined b M m"
proof (rule confinedI)
  fix s r t assume "m s = (r, t)"
  from confinedD(1) [OF assms(1) this] obtain new where
    "ru_calls t = ru_calls s @ new" "length new \<le> a" "fst ` set new \<subseteq> M" by (elim exE conjE)
  then show "\<exists>new. ru_calls t = ru_calls s @ new \<and> length new \<le> b \<and> fst ` set new \<subseteq> M"
    using assms(2) by (intro exI [of _ new]) simp
qed (rule confinedD(2) [OF assms(1)], assumption, rule refl)

lemma confined_seq: "confined a M m \<Longrightarrow> confined b M n \<Longrightarrow> confined (a + b) M (act_seq m n)"
  unfolding act_seq_def by (rule confined_bind)

lemma confined_pure: "confined 0 M (act_return x)" "confined 0 M (act_gets f)"
  by (auto intro!: confinedI simp: act_return_def act_gets_def)

lemma confined_modify: "(\<And>r. ru_calls (f r) = ru_calls r) \<Longrightarrow> confined 0 M (act_modify f)"
  by (auto intro!: confinedI simp: act_modify_def)

lemma confined_items: "confined 0 M (add_items items)" "confined 0 M (append_nodes ns st c)" "confined 0 M (mark_truncated b)"
  by (simp_all add: add_items_def append_nodes_def mark_truncated_def confined_modify)

lemma confined_stage: "method_name \<in> M \<Longrightarrow> confined 1 M (stage call name method_name args)"
  by (rule confinedI)
     (auto simp: stage_def Let_def stage_answered_def stage_failed_def deadline_def split: outcome.splits sum.splits)

lemma confined_for_each: "(\<And>x. confined 1 M (f x)) \<Longrightarrow> confined (length xs) M (for_each f xs)"
proof (induction xs)
  case Nil
  show ?case by (simp add: confined_pure)
next
  case (Cons x xs)
  then show ?case using confined_seq [of 1 M "f x" "length xs" "for_each f xs"] by simp
qed

definition service_methods :: "string set" where
  "service_methods = {''knowledge.search'', ''knowledge.related'', ''lsp.references'', ''knowledge.inspect_file'',
     ''knowledge.composite.regression_risk'', ''knowledge.nodes.list''}"

lemma confined_search: "confined 1 service_methods (search_stage call rq)"
  unfolding search_stage_def Let_def
  by (rule confined_more [OF confined_bind [OF confined_stage confined_seq [OF confined_items(2) confined_pure(1)]]])
     (simp_all add: service_methods_def)

lemma confined_relate: "confined 1 service_methods (relate_stage call rq incoming ids symbol edge)"
  unfolding relate_stage_def Let_def
  by (rule confined_more [OF confined_bind [OF confined_stage confined_seq [OF confined_items(2) confined_items(1)]]])
     (simp_all add: service_methods_def)

lemma confined_edges: "confined 5 service_methods (relate_edges call rq incoming ids symbol)"
proof -
  have "confined 5 service_methods (for_each (relate_stage call rq incoming ids symbol)
      (if incoming then map Some reference_relationships else [None]))"
    by (rule confined_more [OF confined_for_each [OF confined_relate]]) (simp add: reference_relationships_def)
  moreover have "confined 5 service_methods (act_return () :: (run, unit) act)"
    by (rule confined_more [OF confined_pure(1)]) simp
  ultimately show ?thesis by (simp add: relate_edges_def del: for_each.simps)
qed

lemma confined_related: "confined 6 service_methods (related call rq incoming)"
proof -
  have "confined 6 service_methods (relate_edges call rq incoming ids symbol)" for ids symbol
    by (rule confined_more [OF confined_edges]) simp
  moreover have "confined 6 service_methods
      (act_bind (search_stage call rq) (\<lambda>seeds. relate_edges call rq incoming (first_seed seeds) None))"
    by (rule confined_more [OF confined_bind [OF confined_search confined_edges]]) simp
  ultimately show ?thesis by (simp add: related_def split: list.split option.split)
qed

lemma confined_inspect: "confined 1 service_methods (inspect_file call rq file)"
  unfolding inspect_file_def
  by (rule confined_more [OF confined_bind [OF confined_stage
          confined_seq [OF confined_items(1) confined_seq [OF confined_items(2) confined_items(1)]]]])
     (simp_all add: service_methods_def)

lemma confined_inspect_files: "confined 6 service_methods (inspect_files call rq)"
proof -
  let ?n = "mb_hydrated_files (mode_budget_of (qr_query_mode rq))"
  have files: "confined 1 service_methods
      (if rr_file_paths rq = [] then act_bind (search_stage call rq) (\<lambda>seeds. act_return (seed_files seeds))
       else act_return (rr_file_paths rq))"
  proof -
    have "confined 1 service_methods (act_bind (search_stage call rq) (\<lambda>seeds. act_return (seed_files seeds)))"
      by (rule confined_more [OF confined_bind [OF confined_search confined_pure(1)]]) simp
    moreover have "confined 1 service_methods (act_return (rr_file_paths rq))"
      by (rule confined_more [OF confined_pure(1)]) simp
    ultimately show ?thesis by simp
  qed
  have "confined (0 + ?n) service_methods
      (act_seq (mark_truncated (length (dedup fs) > ?n)) (for_each (inspect_file call rq) (take ?n (dedup fs))))" for fs
    by (rule confined_seq [OF confined_items(3) confined_more [OF confined_for_each [OF confined_inspect]]]) simp
  from confined_bind [OF files this]
  have "confined (1 + (0 + ?n)) service_methods (inspect_files call rq)" by (simp add: inspect_files_def Let_def)
  then show ?thesis
    by (rule confined_more) (simp add: mode_budget_of_def split: query_mode.split)
qed

lemma confined_playbook: "confined 6 service_methods (run_playbook call rq p)"
proof -
  have impact: "confined 6 service_methods (impact call rq)"
    unfolding impact_def
    by (rule confined_more [OF confined_bind [OF confined_stage confined_seq [OF confined_items(2) confined_items(1)]]])
       (simp_all add: service_methods_def)
  have inventory: "confined 6 service_methods (inventory call rq)"
    unfolding inventory_def
    by (rule confined_more [OF confined_bind [OF confined_stage
            confined_seq [OF confined_items(2) confined_bind [OF confined_pure(2) confined_items(3)]]]])
       (simp_all add: service_methods_def)
  have symbol: "confined 0 service_methods
      (case dict_get resp ''symbol'' JNull of JObj d \<Rightarrow> append_nodes [d] ''references'' SymbolsC | _ \<Rightarrow> act_return ())" for resp
    by (simp add: confined_items confined_pure split: json.split)
  have position: "confined 6 service_methods (position_references call rq position)" for position
    unfolding position_references_def
    by (rule confined_more [OF confined_bind [OF confined_stage confined_seq [OF symbol confined_items(2)]]])
       (simp_all add: service_methods_def)
  have discover: "confined 6 service_methods (act_seq (search_stage call rq) (act_return ()))"
    by (rule confined_more [OF confined_seq [OF confined_search confined_pure(1)]]) simp
  show ?thesis
    using impact inventory position discover confined_related confined_inspect_files
    by (simp add: run_playbook_def split: playbook.split option.split)
qed

lemma execute_confined:
  assumes "execute call rq p empty_run = (r, t)"
  shows "(\<exists>x. r = Inr x) \<and> length (ru_calls t) \<le> 6 \<and> fst ` set (ru_calls t) \<subseteq> service_methods"
proof -
  obtain r0 u where u: "run_playbook call rq p empty_run = (r0, u)" by (cases "run_playbook call rq p empty_run")
  from confinedD(1) [OF confined_playbook u]
  have calls: "length (ru_calls u) \<le> 6" "fst ` set (ru_calls u) \<subseteq> service_methods"
    by (auto simp: empty_run_def)
  show ?thesis
  proof (cases r0)
    case (Inl e)
    then obtain msg where "e = TimeoutError msg" using confinedD(2) [OF confined_playbook u] by blast
    then have "r = Inr ()" "t = cut_run u" using assms u Inl by (simp_all add: execute_def act_handle_def act_modify_def)
    then show ?thesis using calls by (simp add: cut_run_def)
  next
    case (Inr x)
    then show ?thesis using assms u calls by (simp add: execute_def act_handle_def)
  qed
qed


definition demo_query :: query_request where
  "demo_query = \<lparr>rr_goal = ''where is f'', rr_node_type = None, rr_symbol = None, rr_node_ids = [],
     rr_file_paths = [], rr_position = None, qr_repo = ''/a'', qr_query_mode = Fast, qr_limit = 5\<rparr>"

lemma demo_query_valid: "validate_query plain_fs demo_query = Inr demo_query"
proof -
  have path: "parse_path ''/a'' = \<lparr>p_root = ''/'', p_comps = [''a'']\<rparr>" by code_simp
  have "path_str \<lparr>p_root = ''/'', p_comps = [''a'']\<rparr> = ''/a''" by code_simp
  then have "normalize_anchors plain_fs demo_query = Inr demo_query"
    by (simp add: normalize_anchors_def demo_query_def plain_fs_def path is_absolute_def optional_ok_def
        normalize_position_def dedup_def Let_def)
  moreover have "request_fields_ok demo_query"
    by (simp add: request_fields_ok_def demo_query_def bounded_text_def optional_ok_def)
  ultimately show ?thesis by (simp add: validate_query_def)
qed


section \<open>An output that says it is complete\<close>

definition answered_well :: "outcome \<Rightarrow> bool" where
  "answered_well answer =
     (case answer of Answer (Inr resp) \<Rightarrow>
        \<not> truthy (dict_get resp ''degraded_reason'' JNull) \<and> dict_get resp ''timed_out'' JNull \<noteq> JBool True
        \<and> \<not> was_truncated resp
      | _ \<Rightarrow> False)"

definition honest :: "services \<Rightarrow> run \<Rightarrow> bool" where
  "honest call r =
     (\<not> ru_truncated r \<and> ru_degraded r = [] \<longrightarrow>
        (\<forall>i<length (ru_calls r). answered_well (call i (fst (ru_calls r ! i)) (snd (ru_calls r ! i)))))"

definition keeps_honest :: "services \<Rightarrow> (run, 'a) act \<Rightarrow> bool" where
  "keeps_honest call m = act_ensures (honest call) m (\<lambda>_. honest call) (\<lambda>_ _. True)"

lemma honest_bind: "keeps_honest call m \<Longrightarrow> (\<And>x. keeps_honest call (f x)) \<Longrightarrow> keeps_honest call (act_bind m f)"
  unfolding keeps_honest_def by (rule ensures_bind)

lemma honest_seq: "keeps_honest call m \<Longrightarrow> keeps_honest call n \<Longrightarrow> keeps_honest call (act_seq m n)"
  unfolding act_seq_def by (rule honest_bind)

lemma honest_if: "keeps_honest call m \<Longrightarrow> keeps_honest call n \<Longrightarrow> keeps_honest call (if b then m else n)"
  by simp

lemma honest_pure: "keeps_honest call (act_return x)" "keeps_honest call (act_gets f)"
  unfolding keeps_honest_def by (auto intro: ensures_return ensures_gets)

lemma honest_items:
  "keeps_honest call (add_items items)" "keeps_honest call (append_nodes ns st c)" "keeps_honest call (mark_truncated b)"
  unfolding keeps_honest_def add_items_def append_nodes_def mark_truncated_def
  by (rule ensures_modify; simp add: honest_def)+

lemma honest_stage: "keeps_honest call (stage call name method_name args)"
  unfolding keeps_honest_def
proof (rule ensuresI, goal_cases)
  case (1 s x t)
  show ?case
  proof (cases "call (length (ru_calls s)) method_name args")
    case Cut
    then show ?thesis using 1 by (simp add: stage_def Let_def)
  next
    case (Answer reply)
    show ?thesis
    proof (cases reply)
      case (Inl e)
      then show ?thesis using 1 Answer by (auto simp: stage_def Let_def stage_failed_def honest_def)
    next
      case (Inr resp)
      then have t: "t = stage_answered name resp (s\<lparr>ru_calls := ru_calls s @ [(method_name, args)]\<rparr>)"
        using 1 Answer by (auto simp: stage_def Let_def)
      have "answered_well (call (length (ru_calls s)) method_name args)"
        if "\<not> ru_truncated t" "ru_degraded t = []"
        using that Answer Inr unfolding t
        by (auto simp: stage_answered_def Let_def answered_well_def split: if_splits)
      moreover have "\<not> ru_truncated s \<and> ru_degraded s = []" if "\<not> ru_truncated t" "ru_degraded t = []"
        using that unfolding t by (auto simp: stage_answered_def Let_def split: if_splits)
      moreover have "ru_calls t = ru_calls s @ [(method_name, args)]"
        unfolding t by (simp add: stage_answered_def Let_def)
      ultimately show ?thesis using 1(1) by (auto simp: honest_def nth_append less_Suc_eq)
    qed
  qed
qed simp

lemma honest_for_each: "(\<And>x. keeps_honest call (f x)) \<Longrightarrow> keeps_honest call (for_each f xs)"
  by (induction xs) (auto intro: honest_pure honest_seq)

lemmas honest_intros = honest_bind honest_seq honest_if honest_pure honest_items honest_stage honest_for_each

lemma honest_search: "keeps_honest call (search_stage call rq)"
  unfolding search_stage_def Let_def by (intro honest_intros)

lemma honest_edges: "keeps_honest call (relate_edges call rq incoming ids symbol)"
  unfolding relate_edges_def relate_stage_def Let_def by (intro honest_intros)

lemma honest_related: "keeps_honest call (related call rq incoming)"
proof -
  have "keeps_honest call (act_bind (search_stage call rq) (\<lambda>seeds. relate_edges call rq incoming (first_seed seeds) None))"
    by (intro honest_bind honest_search honest_edges)
  then show ?thesis using honest_edges by (simp add: related_def split: list.split option.split)
qed

lemma honest_playbook: "keeps_honest call (run_playbook call rq p)"
proof -
  have "keeps_honest call (inspect_files call rq)"
    unfolding inspect_files_def inspect_file_def Let_def by (intro honest_intros honest_search)
  moreover have "keeps_honest call (impact call rq)" "keeps_honest call (inventory call rq)"
    unfolding impact_def inventory_def by (intro honest_intros)+
  moreover have "keeps_honest call (position_references call rq position)" for position
    unfolding position_references_def
    by (intro honest_intros) (auto split: json.split intro: honest_intros)
  ultimately show ?thesis
    by (auto simp: run_playbook_def intro: honest_related honest_seq honest_search honest_pure
        split: playbook.split option.split)
qed

text \<open>C17: \<open>complete\<close> is earned.  When a query reports a complete result, the classifier's own
  valid decision was followed, every service call of the run was answered, and no answer was
  degraded, timed out or truncated.\<close>

theorem complete_is_honest:
  assumes "query_code fs call classify raw = Inr (out, r)" "qo_complete out"
  shows "(\<exists>rq. validate_query fs raw = Inr rq \<and> classify rq = Inr (qo_decision out)
            \<and> rd_playbook (qo_decision out) = qo_playbook out)
     \<and> (\<forall>i<length (ru_calls r). answered_well (call i (fst (ru_calls r ! i)) (snd (ru_calls r ! i))))"
proof -
  obtain rq where rq: "validate_query fs raw = Inr rq"
    using assms(1) by (auto simp: query_code_def and_then_Inr_iff)
  obtain p d reason where routed: "route rq (classify rq) = (p, d, reason)" by (cases "route rq (classify rq)") auto
  obtain e u where run: "execute call rq p empty_run = (e, u)" by (cases "execute call rq p empty_run")
  have out: "out = output_of (p, d, reason) r" "u = r"
    using assms(1) rq routed run by (auto simp: query_code_def Let_def split: sum.splits)
  have clean: "\<not> ru_truncated r" "ru_degraded r = []" "reason = None"
    using assms(2) out(1) by (auto simp: output_of_def)
  obtain r0 v where v: "run_playbook call rq p empty_run = (r0, v)" by (cases "run_playbook call rq p empty_run")
  obtain x where x: "r0 = Inr x" "v = r"
  proof (cases r0)
    case (Inl e)
    then obtain msg where "e = TimeoutError msg" using confinedD(2) [OF confined_playbook v] by blast
    then have "r = cut_run v" using run v Inl out(2) by (simp add: execute_def act_handle_def act_modify_def)
    then show ?thesis using clean(1) by (simp add: cut_run_def)
  next
    case (Inr x)
    then show ?thesis using run v out(2) that by (simp add: execute_def act_handle_def)
  qed
  have "honest call empty_run" by (simp add: honest_def empty_run_def)
  then have "honest call r"
    using honest_playbook [of call rq p] v x unfolding keeps_honest_def by (auto dest: ensures_Inr)
  then show ?thesis
    using clean rq route_playbook(3) [OF routed] out(1) by (auto simp: honest_def output_of_def)
qed

definition empty_services :: services where
  "empty_services = (\<lambda>_ _ _. Answer (Inr [(''results'', JList [])]))"

theorem complete_is_honest_witness:
  "\<exists>out r. query_code plain_fs empty_services (\<lambda>_. Inr deterministic_decision) demo_query = Inr (out, r)
     \<and> qo_decision out = deterministic_decision \<and> qo_complete out"
proof -
  let ?args = "[(''query'', JStr ''where is f''), (''node_type'', JNull), (''repo_path'', JStr ''/a''),
     (''limit'', JInt 5), (''search_mode'', JStr ''fast''), (''result_detail'', JStr ''compact'')]"
  have "rd_playbook deterministic_decision \<in> set (eligible_playbooks demo_query)"
    by (simp add: eligible_iff deterministic_decision_def)
  then have "route demo_query (Inr deterministic_decision) = (Discover, deterministic_decision, None)"
    using deterministic_decision_ok by (simp add: route_def deterministic_decision_def)
  moreover have "\<exists>r. execute empty_services demo_query Discover empty_run = (Inr (), r)
     \<and> \<not> ru_truncated r \<and> ru_degraded r = []"
    by (simp add: execute_def run_playbook_def search_stage_def act_seq_def act_bind_def act_handle_def act_return_def
        stage_def empty_services_def stage_answered_def Let_def empty_run_def was_truncated_def dict_get_def objects_def
        append_nodes_def add_items_def act_modify_def List.map_filter_def)
  ultimately obtain out r where q: "query_code plain_fs empty_services (\<lambda>_. Inr deterministic_decision) demo_query = Inr (out, r)"
    "qo_complete out"
    using demo_query_valid by (auto simp: query_code_def Let_def output_of_def)
  from complete_is_honest [OF q] q show ?thesis by auto
qed

end
