(* ===== verification/Parser_Contract.thy ===== *)
theory Parser_Contract
  imports Graph_Model Sha256 "HOL-Library.Sublist"
begin

text \<open>
  What the parsers emit and the embedding provider reads:
  \<open>src/src/scs/indexing/parser/base.py\<close>.  The bounds here are on UTF-8 bytes, so source text
  is a list of code points (\<open>text_points\<close>), encoded and decoded as Python does.
\<close>

section \<open>UTF-8\<close>

type_synonym text_points = "nat list"

definition utf8_point :: "nat \<Rightarrow> nat list" where
  "utf8_point n =
     (if n < 128 then [n]
      else if n < 2048 then [192 + n div 64, 128 + n mod 64]
      else if n < 65536 then [224 + n div 4096, 128 + n div 64 mod 64, 128 + n mod 64]
      else [240 + n div 262144, 128 + n div 4096 mod 64, 128 + n div 64 mod 64, 128 + n mod 64])"

definition utf8_encode :: "text_points \<Rightarrow> nat list" where
  "utf8_encode t = concat (map utf8_point t)"

text \<open>The code points of a \<open>str\<close> that came out of UTF-8: no surrogates.\<close>

definition scalar :: "nat \<Rightarrow> bool" where
  "scalar n = (n < 55296 \<or> (57344 \<le> n \<and> n < 1114112))"

definition is_continuation :: "nat \<Rightarrow> bool" where
  "is_continuation b = (128 \<le> b \<and> b < 192)"

text \<open>
  One step of the decoder: how many bytes it consumes and the code point, if they are a
  valid sequence.  An invalid sequence is consumed up to the first byte that cannot go on.
\<close>

definition second_ok :: "nat \<Rightarrow> nat \<Rightarrow> bool" where
  "second_ok lead b =
     (if lead = 224 then 160 \<le> b \<and> b < 192
      else if lead = 237 then 128 \<le> b \<and> b < 160
      else if lead = 240 then 144 \<le> b \<and> b < 192
      else if lead = 244 then 128 \<le> b \<and> b < 144
      else is_continuation b)"

definition trail_length :: "nat \<Rightarrow> nat" where
  "trail_length lead = (if lead < 224 then 1 else if lead < 240 then 2 else 3)"

definition lead_value :: "nat \<Rightarrow> nat" where
  "lead_value lead = (if lead < 224 then lead - 192 else if lead < 240 then lead - 224 else lead - 240)"

fun good_trail :: "nat \<Rightarrow> nat \<Rightarrow> nat list \<Rightarrow> nat" where
  "good_trail lead k [] = 0"
| "good_trail lead k (b # bs) =
     (if second_ok lead b then 1 + length (takeWhile is_continuation (take (k - 1) bs)) else 0)"

definition utf8_unit :: "nat \<Rightarrow> nat list \<Rightarrow> nat \<times> nat option" where
  "utf8_unit b bs =
     (if b < 128 then (0, Some b)
      else if b < 194 \<or> 244 < b then (0, None)
      else
        (let k = trail_length b; n = good_trail b k bs in
         if n = k then (k, Some (foldl (\<lambda>v c. v * 64 + (c - 128)) (lead_value b) (take k bs)))
         else (n, None)))"

text \<open>\<open>bytes.decode\<close>, each invalid sequence read as \<open>bad\<close>: \<open>[65533]\<close> to replace it, \<open>[]\<close> to ignore it.\<close>

function utf8_decode :: "text_points \<Rightarrow> nat list \<Rightarrow> text_points" where
  "utf8_decode bad [] = []"
| "utf8_decode bad (b # bs) =
     (case utf8_unit b bs of (n, point) \<Rightarrow>
        (case point of Some p \<Rightarrow> [p] | None \<Rightarrow> bad) @ utf8_decode bad (drop n bs))"
  by pat_completeness auto
termination by (relation "measure (\<lambda>(_, bs). length bs)") auto

declare utf8_decode.simps [simp del]

definition text_of :: "string \<Rightarrow> text_points" where
  "text_of s = map of_char s"

section \<open>Entities and edges\<close>

record parsed_entity =
  pe_kind :: node_type
  pe_name :: string
  pe_qualified_name :: string
  pe_start_line :: nat
  pe_end_line :: nat
  pe_signature :: text_points
  pe_docstring :: text_points
  pe_raw_text :: text_points
  pe_parent :: "string option"
  pe_bases :: "string list"
  pe_imports :: "string list"
  pe_calls :: "string list"
  pe_complexity :: "int option"

record parsed_edge =
  pd_source :: string
  pd_target :: string
  pd_relationship :: relationship
  pd_weight :: rat

section \<open>The text an entity is embedded as\<close>

definition truncate_utf8 :: "text_points \<Rightarrow> nat \<Rightarrow> text_points" where
  "truncate_utf8 t max_bytes =
     (let encoded = utf8_encode t in
      if length encoded \<le> max_bytes then t else utf8_decode [] (take max_bytes encoded))"

definition build_embed_text :: "parsed_entity \<Rightarrow> text_points" where
  "build_embed_text e =
     (let doc = (if pe_docstring e \<noteq> [] then text_of '': '' @ take 512 (pe_docstring e) else []);
          kind = text_of (node_type_value (pe_kind e));
          qualified = text_of (pe_qualified_name e);
          signature = truncate_utf8 (pe_signature e) 512
      in case pe_kind e of
           FileNode \<Rightarrow> text_of ''file: '' @ qualified @ doc
         | ClassNode \<Rightarrow> text_of ''class '' @ text_of (pe_name e) @ doc
         | FunctionNode \<Rightarrow> kind @ text_of '' '' @ qualified @ text_of '' '' @ signature @ doc
         | MethodNode \<Rightarrow> kind @ text_of '' '' @ qualified @ text_of '' '' @ signature @ doc
         | VariableNode \<Rightarrow> kind @ text_of '' '' @ qualified @ text_of '': '' @ signature
         | ConstantNode \<Rightarrow> kind @ text_of '' '' @ qualified @ text_of '': '' @ signature
         | ImportNode \<Rightarrow> text_of ''import '' @ text_of (pe_name e)
         | TypeAliasNode \<Rightarrow> text_of ''type '' @ text_of (pe_name e) @ text_of '': '' @ take 256 (pe_raw_text e)
         | _ \<Rightarrow> kind @ text_of '' '' @ text_of (pe_name e))"

section \<open>Decoding inverts encoding, and truncation cuts between characters\<close>

lemma utf8_point_nonempty: "utf8_point n \<noteq> []"
  by (simp add: utf8_point_def)

lemma utf8_encode_simps [simp]:
  "utf8_encode [] = []" "utf8_encode (n # t) = utf8_point n @ utf8_encode t"
  by (simp_all add: utf8_encode_def)

lemma continuation_mod: "is_continuation (128 + n mod 64)"
  by (simp add: is_continuation_def)

text \<open>The shape of an encoded point: a lead byte and as many good trail bytes as it announces.\<close>

lemma good_trail_take:
  assumes "second_ok lead c" "\<forall>b\<in>set cs. is_continuation b" "length cs = k - 1" "j \<le> length cs"
  shows "good_trail lead k (c # take j cs @ (if j = length cs then rest else [])) = Suc j"
proof -
  have all: "length (takeWhile is_continuation (take j cs)) = j"
    using assms(2,4) by (metis in_set_takeD takeWhile_eq_all_conv length_take min.absorb2)
  show ?thesis
  proof (cases "j = length cs")
    case True
    then have "length (takeWhile is_continuation cs) = k - 1"
      using all assms(3) by (metis take_all_iff order_refl)
    then show ?thesis using assms True by simp
  next
    case False
    then show ?thesis using assms all by (simp add: min_def)
  qed
qed

lemma mod_digits:
  fixes n :: nat
  shows "n div 64 * 64 + n mod 64 = n"
    "(n div 4096 * 64 + n div 64 mod 64) * 64 + n mod 64 = n"
    "((n div 262144 * 64 + n div 4096 mod 64) * 64 + n div 64 mod 64) * 64 + n mod 64 = n"
proof -
  have two: "n div 4096 * 64 + n div 64 mod 64 = n div 64" for n :: nat
    using div_mult_mod_eq [of "n div 64" 64] by (simp add: div_mult2_eq [of n 64 64, simplified])
  have "n div 262144 * 64 + n div 4096 mod 64 = n div 4096"
    using two [of "n div 64"] by (simp add: div_mult2_eq [symmetric])
  then show "n div 64 * 64 + n mod 64 = n"
    "(n div 4096 * 64 + n div 64 mod 64) * 64 + n mod 64 = n"
    "((n div 262144 * 64 + n div 4096 mod 64) * 64 + n div 64 mod 64) * 64 + n mod 64 = n"
    using two by (simp_all add: two)
qed

lemma second_of_two:
  "2 \<le> h \<Longrightarrow> h < 32 \<Longrightarrow> m < 64 \<Longrightarrow>
   second_ok (192 + h) (128 + m) \<and> trail_length (192 + h) = 1 \<and> lead_value (192 + h) = h"
  by (simp add: second_ok_def trail_length_def lead_value_def is_continuation_def)

lemma second_of_three:
  "h < 16 \<Longrightarrow> m < 64 \<Longrightarrow> (h = 0 \<Longrightarrow> 32 \<le> m) \<Longrightarrow> (h = 13 \<Longrightarrow> m < 32) \<Longrightarrow>
   second_ok (224 + h) (128 + m) \<and> trail_length (224 + h) = 2 \<and> lead_value (224 + h) = h"
  by (simp add: second_ok_def trail_length_def lead_value_def is_continuation_def)

lemma second_of_four:
  "h \<le> 4 \<Longrightarrow> m < 64 \<Longrightarrow> (h = 0 \<Longrightarrow> 16 \<le> m) \<Longrightarrow> (h = 4 \<Longrightarrow> m < 16) \<Longrightarrow>
   second_ok (240 + h) (128 + m) \<and> trail_length (240 + h) = 3 \<and> lead_value (240 + h) = h"
  by (simp add: second_ok_def trail_length_def lead_value_def is_continuation_def)

lemma utf8_point_cases:
  assumes "scalar n"
  obtains "n < 128" "utf8_point n = [n]"
  | b c cs where "utf8_point n = b # c # cs" "194 \<le> b" "b \<le> 244" "second_ok b c"
      "\<forall>x\<in>set cs. is_continuation x" "length cs = trail_length b - 1"
      "foldl (\<lambda>v x. v * 64 + (x - 128)) (lead_value b) (c # cs) = n"
proof -
  consider "n < 128" | "128 \<le> n" "n < 2048" | "2048 \<le> n" "n < 65536" | "65536 \<le> n" by linarith
  then show thesis
  proof cases
    case 1
    then show thesis by (intro that(1)) (simp_all add: utf8_point_def)
  next
    case 2
    have h: "n div 64 < 32" "2 \<le> n div 64" using 2 by simp_all
    show thesis using 2 h second_of_two [of "n div 64" "n mod 64"] mod_digits(1) [of n]
      by (intro that(2) [of "192 + n div 64" "128 + n mod 64" "[]"]) (simp_all add: utf8_point_def)
  next
    case 3
    have h: "n div 4096 < 16" using 3 by simp
    have low: "n div 4096 = 0 \<Longrightarrow> 32 \<le> n div 64 mod 64"
    proof -
      assume "n div 4096 = 0"
      then have "n div 64 < 64" by simp
      then show ?thesis using 3 by simp
    qed
    have sur: "n div 4096 = 13 \<Longrightarrow> n div 64 mod 64 < 32"
    proof -
      assume a: "n div 4096 = 13"
      then have "n < 57344" by simp
      then have "n < 55296" using assms by (simp add: scalar_def)
      then show ?thesis using a mod_digits(2) [of n] by simp
    qed
    have ok: "second_ok (224 + n div 4096) (128 + n div 64 mod 64)" "trail_length (224 + n div 4096) = 2"
        "lead_value (224 + n div 4096) = n div 4096"
      using second_of_three [OF h _ low sur] by simp_all
    show thesis
      by (rule that(2) [of "224 + n div 4096" "128 + n div 64 mod 64" "[128 + n mod 64]"])
         (use 3 h ok mod_digits(2) [of n] in \<open>simp_all add: utf8_point_def continuation_mod\<close>)
  next
    case 4
    have n: "n < 1114112" using assms 4 by (simp add: scalar_def)
    have h: "n div 262144 \<le> 4" using n by simp
    have low: "n div 262144 = 0 \<Longrightarrow> 16 \<le> n div 4096 mod 64"
    proof -
      assume "n div 262144 = 0"
      then have "n div 4096 < 64" by simp
      then show ?thesis using 4 by simp
    qed
    have top: "n div 262144 = 4 \<Longrightarrow> n div 4096 mod 64 < 16"
    proof -
      assume a: "n div 262144 = 4"
      show ?thesis using a n mod_digits(3) [of n] by simp
    qed
    have ok: "second_ok (240 + n div 262144) (128 + n div 4096 mod 64)" "trail_length (240 + n div 262144) = 3"
        "lead_value (240 + n div 262144) = n div 262144"
      using second_of_four [OF h _ low top] by simp_all
    show thesis
      by (rule that(2) [of "240 + n div 262144" "128 + n div 4096 mod 64"
            "[128 + n div 64 mod 64, 128 + n mod 64]"])
         (use 4 h ok mod_digits(3) [of n] in \<open>simp_all add: utf8_point_def continuation_mod\<close>)
  qed
qed

lemma utf8_unit_point:
  assumes "194 \<le> b" "b \<le> 244" "second_ok b c" "\<forall>x\<in>set cs. is_continuation x"
    "length cs = trail_length b - 1"
  shows "utf8_unit b (c # cs @ rest) =
    (Suc (length cs), Some (foldl (\<lambda>v x. v * 64 + (x - 128)) (lead_value b) (c # cs)))"
proof -
  have k: "trail_length b = Suc (length cs)" using assms(5) by (simp add: trail_length_def split: if_splits)
  have "good_trail b (trail_length b) (c # cs @ rest) = Suc (length cs)"
    using good_trail_take [OF assms(3-5) order_refl, of rest] by simp
  then show ?thesis using assms(1,2) k by (simp add: utf8_unit_def)
qed

lemma utf8_unit_cut:
  assumes "194 \<le> b" "b \<le> 244" "second_ok b c" "\<forall>x\<in>set cs. is_continuation x"
    "length cs = trail_length b - 1" "j \<le> length cs"
  shows "utf8_unit b (take j (c # cs)) = (j, None)"
proof -
  have k: "trail_length b = Suc (length cs)" using assms(5) by (simp add: trail_length_def split: if_splits)
  have "good_trail b (trail_length b) (take j (c # cs)) = j"
  proof (cases j)
    case 0
    then show ?thesis by simp
  next
    case (Suc i)
    then have "i < length cs" using assms(6) by simp
    then show ?thesis using good_trail_take [OF assms(3-5), of i "[]"] Suc by simp
  qed
  moreover have "j \<noteq> trail_length b" using k assms(6) by simp
  ultimately show ?thesis using assms(1,2) unfolding utf8_unit_def Let_def by simp
qed

lemma decode_point:
  assumes "scalar n"
  shows "utf8_decode bad (utf8_point n @ rest) = n # utf8_decode bad rest"
  using assms
proof (cases n rule: utf8_point_cases)
  case 1
  then show ?thesis by (simp add: utf8_decode.simps utf8_unit_def)
next
  case (2 b c cs)
  then show ?thesis using utf8_unit_point [OF 2(2-6), of rest] by (simp add: utf8_decode.simps(2))
qed

lemma decode_cut_point:
  assumes "scalar n" "i < length (utf8_point n)"
  shows "utf8_decode [] (take i (utf8_point n)) = []"
  using assms(1)
proof (cases n rule: utf8_point_cases)
  case 1
  then show ?thesis using assms(2) by (simp add: utf8_decode.simps)
next
  case (2 b c cs)
  show ?thesis
  proof (cases i)
    case 0
    then show ?thesis by (simp add: utf8_decode.simps)
  next
    case (Suc j)
    then have "j \<le> length cs" using assms(2) 2(1) by simp
    from utf8_unit_cut [OF 2(2-6) this] show ?thesis
      using Suc 2(1) by (simp add: utf8_decode.simps del: take_Suc_Cons) (simp add: utf8_decode.simps)
  qed
qed

lemma decode_encode: "list_all scalar t \<Longrightarrow> utf8_decode bad (utf8_encode t) = t"
  by (induction t) (simp_all add: utf8_decode.simps(1) decode_point)

text \<open>The longest prefix of a text whose encoding fits.\<close>

fun fitting :: "nat \<Rightarrow> text_points \<Rightarrow> text_points" where
  "fitting m [] = []"
| "fitting m (n # t) =
     (if length (utf8_point n) \<le> m then n # fitting (m - length (utf8_point n)) t else [])"

lemma decode_take_encode:
  "list_all scalar t \<Longrightarrow> utf8_decode [] (take m (utf8_encode t)) = fitting m t"
proof (induction t arbitrary: m)
  case Nil
  then show ?case by (simp add: utf8_decode.simps)
next
  case (Cons n t)
  then show ?case by (simp add: decode_point decode_cut_point)
qed

lemma fitting_all: "length (utf8_encode t) \<le> m \<Longrightarrow> fitting m t = t"
  by (induction t arbitrary: m) auto

lemma fitting_prefix: "prefix (fitting m t) t"
  by (induction m t rule: fitting.induct) auto

lemma fitting_bounded: "length (utf8_encode (fitting m t)) \<le> m"
  by (induction m t rule: fitting.induct) auto

lemma fitting_longest: "prefix s t \<Longrightarrow> length (utf8_encode s) \<le> m \<Longrightarrow> prefix s (fitting m t)"
proof (induction m t arbitrary: s rule: fitting.induct)
  case (1 m)
  then show ?case by simp
next
  case (2 m n t)
  then show ?case by (cases s) auto
qed

lemma truncate_utf8_fitting: "list_all scalar t \<Longrightarrow> truncate_utf8 t m = fitting m t"
  by (simp add: truncate_utf8_def decode_take_encode fitting_all Let_def)

end
