(* ===== verification/Source_Discovery.thy ===== *)
theory Source_Discovery
  imports Parser_Contract Repository_Paths
begin

text \<open>
  Which files are indexed: \<open>src/src/scs/indexing/discovery.py\<close>.  The environment gives what the
  code asks of the file system, of the \<open>git\<close> command and of the \<open>pathspec\<close> matcher; it is an
  argument of every definition.  File names outside the alphabet of \<open>string\<close> are why the
  conversion between names and bytes is a field too.  The share \<open>0.8\<close> of generated names is an
  exact rational: samples have at most 64 names, where float division decides the same;
  with a policy that samples no names at all the code divides by zero, which is not modelled.
\<close>

section \<open>Policy, entries and the environment\<close>

record ingestion_policy =
  ip_text_fallback :: bool
  ip_max_file_bytes :: nat
  ip_text_sample_bytes :: nat
  ip_large_dir_file_count :: nat
  ip_large_dir_byte_size :: nat
  ip_generated_sample_files :: nat
  ip_generated_sample_ratio :: rat

definition default_policy :: ingestion_policy where
  "default_policy =
     \<lparr>ip_text_fallback = True, ip_max_file_bytes = 1048576, ip_text_sample_bytes = 8192,
      ip_large_dir_file_count = 10000, ip_large_dir_byte_size = 536870912,
      ip_generated_sample_files = 64, ip_generated_sample_ratio = 4 / 5\<rparr>"

record file_entry =
  fe_rel_path :: string
  fe_abs_path :: ppath
  fe_language :: string
  fe_byte_size :: nat
  fe_content_hash :: string

text \<open>
  \<open>dv_git args repo input\<close> runs a command: its exit code and output, or \<open>None\<close> when it could not
  be run or timed out.  \<open>dv_gitignore\<close> reads the root \<open>.gitignore\<close>, if there is one.
\<close>

record discovery_env =
  dv_fs :: file_system
  dv_stat_size :: "ppath \<Rightarrow> exc + nat"
  dv_read_bytes :: "ppath \<Rightarrow> exc + nat list"
  dv_iterdir :: "ppath \<Rightarrow> exc + ppath list"
  dv_rglob :: "ppath \<Rightarrow> ppath list"
  dv_gitignore :: "ppath \<Rightarrow> (exc + string) option"
  dv_pathspec :: "string \<Rightarrow> exc + (string \<Rightarrow> bool)"
  dv_git :: "string list \<Rightarrow> ppath \<Rightarrow> nat list \<Rightarrow> (int \<times> nat list) option"
  dv_encode :: "string \<Rightarrow> nat list"
  dv_decode :: "nat list \<Rightarrow> string"

definition is_os_error :: "exc \<Rightarrow> bool" where
  "is_os_error e = (case e of OSError _ \<Rightarrow> True | TimeoutError _ \<Rightarrow> True | _ \<Rightarrow> False)"

definition always_skip_dirs :: "string list" where
  "always_skip_dirs =
     [''.git'', ''.ci-cargo'', ''.venv'', ''venv'', ''node_modules'', ''__pycache__'', ''build'', ''dist'',
      ''DerivedData'', ''.tox'', ''.mypy_cache'', ''.pytest_cache'', ''eggs'', ''.eggs'', ''_build'', ''deps'']"

definition generated_directory_names :: "string list" where
  "generated_directory_names =
     [''.cache'', ''.generated'', ''.next'', ''.nuxt'', ''.parcel-cache'', ''.turbo'', ''cache'', ''generated'', ''vendor'']"

definition generated_file_markers :: "string list" where
  "generated_file_markers = [''.generated.'', ''.min.'', ''.bundle.'', ''.map'']"

definition extension_to_language :: "(string \<times> string) list" where
  "extension_to_language =
     [(''.py'', ''python''), (''.swift'', ''swift''), (''.ts'', ''typescript''), (''.tsx'', ''tsx''),
      (''.js'', ''javascript''), (''.jsx'', ''jsx''), (''.rs'', ''rust''), (''.ex'', ''elixir''),
      (''.exs'', ''elixir''), (''.sh'', ''bash''), (''.bash'', ''bash''), (''.css'', ''css''), (''.go'', ''go'')]"

section \<open>Ignore rules\<close>

definition load_gitignore_spec :: "discovery_env \<Rightarrow> ppath \<Rightarrow> exc + (string \<Rightarrow> bool) option" where
  "load_gitignore_spec env repo =
     (case dv_gitignore env repo of
        None \<Rightarrow> Inr None
      | Some text \<Rightarrow>
          (case and_then text (dv_pathspec env) of
             Inl e \<Rightarrow> if is_os_error e then Inr None else Inl e
           | Inr spec \<Rightarrow> Inr (Some spec)))"

definition split_names :: "discovery_env \<Rightarrow> nat list \<Rightarrow> string list" where
  "split_names env out = map (dv_decode env) (filter (\<lambda>entry. entry \<noteq> []) (split_on 0 out))"

definition git_check_ignored_paths :: "discovery_env \<Rightarrow> ppath \<Rightarrow> string list \<Rightarrow> string list option" where
  "git_check_ignored_paths env repo rels =
     (if rels = [] then Some []
      else
        (let encoded = intercalate [0] (map (dv_encode env) rels) @ [0] in
         case dv_git env [''git'', ''check-ignore'', ''--stdin'', ''-z''] repo encoded of
           None \<Rightarrow> None
         | Some (code, out) \<Rightarrow> if code \<noteq> 0 \<and> code \<noteq> 1 then None else Some (split_names env out)))"

definition resolve_ignored_paths ::
  "discovery_env \<Rightarrow> ppath \<Rightarrow> string list \<Rightarrow> (string \<Rightarrow> bool) option \<Rightarrow> string list" where
  "resolve_ignored_paths env repo rels fallback =
     (case git_check_ignored_paths env repo rels of
        Some ignored \<Rightarrow> ignored
      | None \<Rightarrow> (case fallback of None \<Rightarrow> [] | Some matches \<Rightarrow> filter matches rels))"

definition list_git_non_ignored_paths :: "discovery_env \<Rightarrow> ppath \<Rightarrow> string list option" where
  "list_git_non_ignored_paths env repo =
     (case dv_git env [''git'', ''ls-files'', ''-co'', ''--exclude-standard'', ''-z''] repo [] of
        None \<Rightarrow> None
      | Some (code, out) \<Rightarrow> if code \<noteq> 0 then None else Some (split_names env out))"

definition is_in_always_skipped_directory :: "ppath \<Rightarrow> bool" where
  "is_in_always_skipped_directory rel =
     list_ex (\<lambda>part. part \<in> set always_skip_dirs) (butlast (path_parts rel))"

section \<open>Language and content\<close>

definition compute_hash :: "discovery_env \<Rightarrow> ppath \<Rightarrow> exc + string" where
  "compute_hash env file = and_then (dv_read_bytes env file) (\<lambda>bs. Inr (sha256_bytes bs))"

text \<open>\<open>bytes.decode(errors="strict")\<close> succeeds.\<close>

function utf8_valid :: "nat list \<Rightarrow> bool" where
  "utf8_valid [] = True"
| "utf8_valid (b # bs) =
     (case utf8_unit b bs of (n, None) \<Rightarrow> False | (n, Some _) \<Rightarrow> utf8_valid (drop n bs))"
  by pat_completeness auto
termination by (relation "measure length") auto

declare utf8_valid.simps [simp del]

definition is_text_file :: "discovery_env \<Rightarrow> ppath \<Rightarrow> nat \<Rightarrow> exc + bool" where
  "is_text_file env file sample_bytes =
     and_then (dv_read_bytes env file) (\<lambda>bs.
       let sample = take sample_bytes bs in Inr (if 0 \<in> set sample then False else utf8_valid sample))"

text \<open>\<open>PurePath.suffix\<close>: from the last dot that has something other than dots before it.\<close>

definition suffix_of :: "string \<Rightarrow> string" where
  "suffix_of name =
     (if CHR ''.'' \<in> set name
      then
        (let ext = CHR ''.'' # rev (takeWhile (\<lambda>c. c \<noteq> CHR ''.'') (rev name));
             stem = take (length name - length ext) name
         in if list_ex (\<lambda>c. c \<noteq> CHR ''.'') stem then ext else [])
      else [])"

definition path_suffix :: "ppath \<Rightarrow> string" where
  "path_suffix p = suffix_of (path_name p)"

definition language_for_candidate ::
  "discovery_env \<Rightarrow> ppath \<Rightarrow> string list \<Rightarrow> ingestion_policy \<Rightarrow> exc + string option" where
  "language_for_candidate env file extensions policy =
     (if path_suffix file \<in> set extensions
      then Inr (Some (case map_of extension_to_language (path_suffix file) of
                        Some language \<Rightarrow> language | None \<Rightarrow> ''unknown''))
      else if \<not> ip_text_fallback policy then Inr None
      else and_then (is_text_file env file (ip_text_sample_bytes policy)) (\<lambda>text.
        Inr (if text then Some ''text'' else None)))"

definition contains_text :: "string \<Rightarrow> string \<Rightarrow> bool" where
  "contains_text s part = list_ex (prefix part) (suffixes s)"

definition generated_artifact_name :: "string \<Rightarrow> bool" where
  "generated_artifact_name path =
     (let name = lower (path_name (parse_path path)) in
      list_ex (contains_text name) generated_file_markers)"

definition has_generated_name :: "ppath \<Rightarrow> bool" where
  "has_generated_name directory =
     list_ex (\<lambda>part. lower part \<in> set generated_directory_names) (path_parts directory)"

section \<open>Large generated directories\<close>

record directory_stats =
  ds_count :: nat
  ds_size :: nat
  ds_sample :: "string list"

definition no_stats :: directory_stats where
  "no_stats = \<lparr>ds_count = 0, ds_size = 0, ds_sample = []\<rparr>"

definition count_file ::
  "ingestion_policy \<Rightarrow> string \<Rightarrow> nat \<Rightarrow> directory_stats \<Rightarrow> directory_stats" where
  "count_file policy rel bytes st =
     \<lparr>ds_count = ds_count st + 1, ds_size = ds_size st + bytes,
      ds_sample = (if length (ds_sample st) < ip_generated_sample_files policy
                   then ds_sample st @ [rel] else ds_sample st)\<rparr>"

definition stats_of :: "(string \<times> directory_stats) list \<Rightarrow> string \<Rightarrow> directory_stats" where
  "stats_of table d = (case map_of table d of None \<Rightarrow> no_stats | Some st \<Rightarrow> st)"

text \<open>The directories above a candidate, the repository root left out.\<close>

definition enclosing_directories :: "string \<Rightarrow> string list" where
  "enclosing_directories rel =
     (let parent = path_parent (parse_path rel) in
      filter (\<lambda>d. d \<noteq> ''.'') (map path_str (parent # path_parents parent)))"

fun directory_table ::
  "discovery_env \<Rightarrow> ppath \<Rightarrow> ingestion_policy \<Rightarrow> (string \<times> directory_stats) list \<Rightarrow> string list
   \<Rightarrow> exc + (string \<times> directory_stats) list" where
  "directory_table env repo policy table [] = Inr table"
| "directory_table env repo policy table (rel # rels) =
     (case dv_stat_size env (path_child repo rel) of
        Inl e \<Rightarrow> if is_os_error e then directory_table env repo policy table rels else Inl e
      | Inr bytes \<Rightarrow>
          directory_table env repo policy
            (fold (\<lambda>d t. AList.update d (count_file policy rel bytes (stats_of t d)) t)
               (enclosing_directories rel) table) rels)"

definition exceeds_limit :: "ingestion_policy \<Rightarrow> nat \<Rightarrow> nat \<Rightarrow> bool" where
  "exceeds_limit policy count bytes =
     (count > ip_large_dir_file_count policy \<or> bytes > ip_large_dir_byte_size policy)"

definition artifact_ratio :: "string list \<Rightarrow> rat" where
  "artifact_ratio sample =
     (if sample = [] then 0
      else of_nat (how_many generated_artifact_name sample) / of_nat (length sample))"

definition prunes :: "ingestion_policy \<Rightarrow> string \<times> directory_stats \<Rightarrow> bool" where
  "prunes policy d =
     (exceeds_limit policy (ds_count (snd d)) (ds_size (snd d))
      \<and> (has_generated_name (parse_path (fst d))
         \<or> artifact_ratio (ds_sample (snd d)) \<ge> ip_generated_sample_ratio policy))"

definition pruned_large_directories ::
  "discovery_env \<Rightarrow> ppath \<Rightarrow> string list \<Rightarrow> ingestion_policy \<Rightarrow> exc + string list" where
  "pruned_large_directories env repo rels policy =
     and_then (directory_table env repo policy [] rels) (\<lambda>table.
       Inr (map fst (filter (prunes policy) table)))"

definition is_in_pruned_directory :: "string \<Rightarrow> string list \<Rightarrow> bool" where
  "is_in_pruned_directory rel pruned =
     (let parts = butlast (path_parts (parse_path rel)) in
      list_ex (\<lambda>i. path_str \<lparr>p_root = [], p_comps = take i parts\<rparr> \<in> set pruned)
        [1..<length parts + 1])"

text \<open>
  One directory above an explicit file: the loop over its children stops as soon as it is known
  to be large and generated.
\<close>

record child_scan =
  ch_count :: nat
  ch_size :: nat
  ch_sample :: nat
  ch_artifacts :: nat

definition mostly_artifacts :: "ingestion_policy \<Rightarrow> child_scan \<Rightarrow> bool" where
  "mostly_artifacts policy st =
     (of_nat (ch_artifacts st) / of_nat (ch_sample st) \<ge> ip_generated_sample_ratio policy)"

definition count_child :: "ingestion_policy \<Rightarrow> ppath \<Rightarrow> nat \<Rightarrow> child_scan \<Rightarrow> child_scan" where
  "count_child policy child bytes st =
     (let sampled = ch_sample st < ip_generated_sample_files policy in
      \<lparr>ch_count = ch_count st + 1, ch_size = ch_size st + bytes,
       ch_sample = ch_sample st + of_bool sampled,
       ch_artifacts = ch_artifacts st
         + of_bool (sampled \<and> generated_artifact_name (path_name child))\<rparr>)"

fun scan_children ::
  "discovery_env \<Rightarrow> ingestion_policy \<Rightarrow> bool \<Rightarrow> child_scan \<Rightarrow> ppath list \<Rightarrow> exc + child_scan option" where
  "scan_children env policy named st [] = Inr (Some st)"
| "scan_children env policy named st (child # children) =
     (if \<not> fs_is_file (dv_fs env) child then scan_children env policy named st children
      else
        and_then (dv_stat_size env child) (\<lambda>bytes.
          let st' = count_child policy child bytes st in
          if exceeds_limit policy (ch_count st') (ch_size st')
             \<and> (named \<or> (ch_sample st' \<ge> ip_generated_sample_files policy \<and> mostly_artifacts policy st'))
          then Inr None
          else scan_children env policy named st' children))"

definition large_generated_directory ::
  "discovery_env \<Rightarrow> ingestion_policy \<Rightarrow> ppath \<Rightarrow> ppath \<Rightarrow> exc + bool" where
  "large_generated_directory env policy directory relative =
     (case and_then (dv_iterdir env directory)
             (scan_children env policy (has_generated_name relative)
                \<lparr>ch_count = 0, ch_size = 0, ch_sample = 0, ch_artifacts = 0\<rparr>) of
        Inl e \<Rightarrow> if is_os_error e then Inr False else Inl e
      | Inr None \<Rightarrow> Inr True
      | Inr (Some st) \<Rightarrow>
          Inr (ch_sample st > 0 \<and> exceeds_limit policy (ch_count st) (ch_size st)
               \<and> mostly_artifacts policy st))"

fun generated_ancestor ::
  "discovery_env \<Rightarrow> ppath \<Rightarrow> ingestion_policy \<Rightarrow> ppath list \<Rightarrow> exc + bool" where
  "generated_ancestor env repo policy [] = Inr False"
| "generated_ancestor env repo policy (directory # directories) =
     (case relative_to directory repo of
        None \<Rightarrow> Inr False
      | Some relative \<Rightarrow>
          if path_parts relative = [] then generated_ancestor env repo policy directories
          else
            and_then (large_generated_directory env policy directory relative) (\<lambda>large.
              if large then Inr True else generated_ancestor env repo policy directories))"

definition path_has_large_generated_ancestor ::
  "discovery_env \<Rightarrow> ppath \<Rightarrow> ppath \<Rightarrow> ingestion_policy \<Rightarrow> exc + bool" where
  "path_has_large_generated_ancestor env file repo policy =
     generated_ancestor env repo policy (path_parent file # path_parents (path_parent file))"

section \<open>Entries\<close>

definition resolved_file_in_repo :: "discovery_env \<Rightarrow> ppath \<Rightarrow> ppath \<Rightarrow> ppath option" where
  "resolved_file_in_repo env file repo =
     (case fs_resolve_strict (dv_fs env) file of
        Inl _ \<Rightarrow> None
      | Inr target \<Rightarrow>
          if relative_to target repo = None then None
          else if fs_is_file (dv_fs env) target then Some target else None)"

definition demand :: "exc \<Rightarrow> 'a option \<Rightarrow> exc + 'a" where
  "demand e x = (case x of None \<Rightarrow> Inl e | Some y \<Rightarrow> Inr y)"

definition not_below :: exc where
  "not_below = ValueError ''path is not in the subpath of the repository''"

text \<open>The last block of both functions: size limit, language and hash, an \<open>OSError\<close> skips the file.\<close>

definition read_entry ::
  "discovery_env \<Rightarrow> string \<Rightarrow> ppath \<Rightarrow> string list \<Rightarrow> ingestion_policy \<Rightarrow> exc + file_entry option" where
  "read_entry env rel file extensions policy =
     (case
        and_then (dv_stat_size env file) (\<lambda>bytes.
          if bytes > ip_max_file_bytes policy then Inr None
          else and_then (language_for_candidate env file extensions policy) (\<lambda>language.
            case language of
              None \<Rightarrow> Inr None
            | Some l \<Rightarrow> and_then (compute_hash env file) (\<lambda>h.
                Inr (Some \<lparr>fe_rel_path = rel, fe_abs_path = file, fe_language = l,
                           fe_byte_size = bytes, fe_content_hash = h\<rparr>)))) of
        Inl e \<Rightarrow> if is_os_error e then Inr None else Inl e
      | Inr entry \<Rightarrow> Inr entry)"

definition build_file_entry ::
  "discovery_env \<Rightarrow> ppath \<Rightarrow> ppath \<Rightarrow> string list \<Rightarrow> ingestion_policy \<Rightarrow> exc + file_entry option" where
  "build_file_entry env file_path repo_path extensions policy =
     and_then (fs_resolve (dv_fs env) repo_path) (\<lambda>repo.
       case lexical_file_in_repo (dv_fs env) file_path repo of
         None \<Rightarrow> Inr None
       | Some file \<Rightarrow>
           (case resolved_file_in_repo env file repo of
              None \<Rightarrow> Inr None
            | Some target \<Rightarrow>
                and_then (demand not_below (relative_to file repo)) (\<lambda>rel_file.
                and_then (demand not_below (relative_to target repo)) (\<lambda>target_rel.
                  if is_in_always_skipped_directory rel_file \<or> is_in_always_skipped_directory target_rel
                  then Inr None
                  else
                    and_then (path_has_large_generated_ancestor env file repo policy) (\<lambda>large.
                    and_then (if large then Inr True
                              else path_has_large_generated_ancestor env target repo policy) (\<lambda>large.
                      if large then Inr None
                      else
                        and_then (load_gitignore_spec env repo) (\<lambda>fallback.
                          let checked = sorted_set [path_str rel_file, path_str target_rel] in
                          if resolve_ignored_paths env repo checked fallback \<noteq> [] then Inr None
                          else read_entry env (path_str rel_file) file extensions policy)))))))"

text \<open>
  \<open>discover\<close>.  \<open>skip_always\<close> is the argument \<open>skip_always_dirs\<close>, true in every call of the
  pipeline.
\<close>

fun walk_candidates :: "discovery_env \<Rightarrow> ppath \<Rightarrow> bool \<Rightarrow> ppath list \<Rightarrow> exc + (ppath \<times> string) list" where
  "walk_candidates env repo skip_always [] = Inr []"
| "walk_candidates env repo skip_always (file # files) =
     (if fs_is_dir (dv_fs env) file then walk_candidates env repo skip_always files
      else
        and_then (demand not_below (relative_to file repo)) (\<lambda>rel.
          if skip_always \<and> is_in_always_skipped_directory rel
          then walk_candidates env repo skip_always files
          else and_then (walk_candidates env repo skip_always files) (\<lambda>rest.
            Inr ((file, path_str rel) # rest))))"

definition candidate_items ::
  "discovery_env \<Rightarrow> ppath \<Rightarrow> bool \<Rightarrow> (string \<Rightarrow> bool) option \<Rightarrow> exc + (ppath \<times> string) list" where
  "candidate_items env repo skip_always fallback =
     (case (if skip_always then list_git_non_ignored_paths env repo else None) of
        Some rels \<Rightarrow> Inr (map (\<lambda>rel. (path_child repo rel, rel)) rels)
      | None \<Rightarrow>
          and_then (walk_candidates env repo skip_always (dv_rglob env repo)) (\<lambda>candidates.
            let ignored = resolve_ignored_paths env repo (map snd candidates) fallback in
            Inr (filter (\<lambda>c. snd c \<notin> set ignored) candidates)))"

definition resolved_targets :: "discovery_env \<Rightarrow> ppath \<Rightarrow> (ppath \<times> string) list \<Rightarrow> (string \<times> ppath) list" where
  "resolved_targets env repo items =
     fold (\<lambda>(file, rel) t. case resolved_file_in_repo env file repo of
                              None \<Rightarrow> t | Some target \<Rightarrow> AList.update rel target t) items []"

definition alias_target_paths :: "ppath \<Rightarrow> (string \<times> ppath) list \<Rightarrow> string list" where
  "alias_target_paths repo targets =
     sorted_set (concat (map (\<lambda>(rel, target).
       if target \<noteq> path_child repo rel
       then (case relative_to target repo of None \<Rightarrow> [] | Some t \<Rightarrow> [path_str t]) else []) targets))"

text \<open>The body of the last loop for one candidate.\<close>

definition discover_one ::
  "discovery_env \<Rightarrow> ppath \<Rightarrow> string list \<Rightarrow> bool \<Rightarrow> ingestion_policy \<Rightarrow> string list \<Rightarrow> (string \<times> ppath) list
   \<Rightarrow> string list \<Rightarrow> ppath \<Rightarrow> string \<Rightarrow> exc + file_entry option" where
  "discover_one env repo extensions skip_always policy pruned targets ignored_targets file rel =
     (case map_of targets rel of
        None \<Rightarrow> Inr None
      | Some target \<Rightarrow>
          and_then (demand not_below (relative_to target repo)) (\<lambda>target_rel.
            if path_str target_rel \<in> set ignored_targets then Inr None
            else if skip_always \<and> is_in_always_skipped_directory target_rel then Inr None
            else
              and_then (if skip_always \<and> target \<noteq> file
                        then path_has_large_generated_ancestor env target repo policy
                        else Inr False) (\<lambda>large.
                if large then Inr None
                else
                  and_then (demand not_below (relative_to file repo)) (\<lambda>rel_file.
                    if skip_always \<and> is_in_always_skipped_directory rel_file then Inr None
                    else if is_in_pruned_directory rel pruned then Inr None
                    else read_entry env rel file extensions policy))))"

fun collect_entries :: "(ppath \<times> string \<Rightarrow> exc + file_entry option) \<Rightarrow> (ppath \<times> string) list \<Rightarrow> exc + file_entry list" where
  "collect_entries one [] = Inr []"
| "collect_entries one (item # items) =
     and_then (one item) (\<lambda>entry.
       and_then (collect_entries one items) (\<lambda>rest.
         Inr (case entry of None \<Rightarrow> rest | Some e \<Rightarrow> e # rest)))"

definition discover ::
  "discovery_env \<Rightarrow> ppath \<Rightarrow> string list \<Rightarrow> bool \<Rightarrow> ingestion_policy \<Rightarrow> exc + file_entry list" where
  "discover env repo_path extensions skip_always policy =
     and_then (fs_resolve (dv_fs env) repo_path) (\<lambda>repo.
     and_then (load_gitignore_spec env repo) (\<lambda>fallback.
     and_then (candidate_items env repo skip_always fallback) (\<lambda>items.
     and_then (if skip_always then pruned_large_directories env repo (map snd items) policy
               else Inr []) (\<lambda>pruned.
       let targets = resolved_targets env repo items;
           aliases = alias_target_paths repo targets;
           ignored_targets = (if aliases \<noteq> [] then resolve_ignored_paths env repo aliases fallback else [])
       in and_then
            (collect_entries
               (\<lambda>(file, rel). discover_one env repo extensions skip_always policy pruned targets
                  ignored_targets file rel) items) (\<lambda>entries.
            Inr (sort_key fe_rel_path entries))))))"

section \<open>A character across the sample boundary\<close>

lemma valid_point: "scalar n \<Longrightarrow> utf8_valid (utf8_point n @ rest) = utf8_valid rest"
proof -
  assume "scalar n"
  then show "utf8_valid (utf8_point n @ rest) = utf8_valid rest"
  proof (cases n rule: utf8_point_cases)
    case 1
    then show ?thesis by (simp add: utf8_valid.simps(2) utf8_unit_def)
  next
    case (2 b c cs)
    then show ?thesis using utf8_unit_point [OF 2(2-6), of rest] by (simp add: utf8_valid.simps(2))
  qed
qed

lemma valid_encode: "list_all scalar t \<Longrightarrow> utf8_valid (utf8_encode t @ rest) = utf8_valid rest"
  by (induction t) (simp_all add: valid_point)

lemma valid_cut_point:
  assumes "scalar n" "0 < i" "i < length (utf8_point n)"
  shows "\<not> utf8_valid (take i (utf8_point n))"
  using assms(1)
proof (cases n rule: utf8_point_cases)
  case 1
  then show ?thesis using assms by simp
next
  case (2 b c cs)
  obtain j where j: "i = Suc j" using assms(2) by (cases i) auto
  then have "j \<le> length cs" using assms(3) 2(1) by simp
  from utf8_unit_cut [OF 2(2-6) this] show ?thesis
    using j 2(1) by (simp add: utf8_valid.simps(2))
qed

lemma utf8_no_nul: "list_all scalar t \<Longrightarrow> 0 \<notin> set t \<Longrightarrow> 0 \<notin> set (utf8_encode t)"
  by (induction t) (auto simp: utf8_point_def)

text \<open>Aux: 
  A text file of a language without a parser is indexed as plain text when a bounded sample of
  its bytes is valid UTF-8.  The sample is cut at a byte, not at a character: a valid UTF-8
  text without NUL bytes in which some character lies across the end of the sample is
  classified as binary and never indexed, although its whole content is text.
\<close>

theorem split_character_hides_text:
  assumes "list_all scalar (before @ c # after)" "0 \<notin> set (before @ c # after)"
    and "dv_read_bytes env file = Inr (utf8_encode (before @ c # after))"
    and "length (utf8_encode before) < ip_text_sample_bytes policy"
    and "ip_text_sample_bytes policy < length (utf8_encode (before @ [c]))"
    and "path_suffix file \<notin> set extensions" "dv_stat_size env file = Inr n"
  shows "is_text_file env file (length (utf8_encode (before @ c # after))) = Inr True
       \<and> is_text_file env file (ip_text_sample_bytes policy) = Inr False
       \<and> read_entry env rel file extensions policy = Inr None"
proof -
  define i where "i = ip_text_sample_bytes policy - length (utf8_encode before)"
  have enc: "utf8_encode (xs @ ys) = utf8_encode xs @ utf8_encode ys" for xs ys
    by (simp add: utf8_encode_def)
  have i: "0 < i" "i < length (utf8_point c)" using assms(4,5) by (simp_all add: i_def enc)
  have "take (ip_text_sample_bytes policy) (utf8_encode (before @ c # after)) =
      utf8_encode before @ take i (utf8_point c)"
    using assms(4) i by (simp add: enc i_def)
  then have no: "is_text_file env file (ip_text_sample_bytes policy) = Inr False"
    using assms(1,3) i by (simp add: is_text_file_def valid_encode valid_cut_point Let_def)
  have "utf8_valid (utf8_encode (before @ c # after))"
    using valid_encode [OF assms(1), of "[]"] by (simp add: utf8_valid.simps(1))
  then have "is_text_file env file (length (utf8_encode (before @ c # after))) = Inr True"
    using assms(3) utf8_no_nul [OF assms(1,2)] by (simp add: is_text_file_def)
  then show ?thesis using no assms(6,7) by (simp add: read_entry_def language_for_candidate_def)
qed

definition demo_discovery :: "nat list \<Rightarrow> discovery_env" where
  "demo_discovery content =
     \<lparr>dv_fs = plain_fs\<lparr>fs_is_dir := (\<lambda>_. False)\<rparr>, dv_stat_size = (\<lambda>_. Inr (length content)),
      dv_read_bytes = (\<lambda>_. Inr content), dv_iterdir = (\<lambda>_. Inr []),
      dv_rglob = (\<lambda>repo. []), dv_gitignore = (\<lambda>_. None), dv_pathspec = (\<lambda>_. Inr (\<lambda>_. False)),
      dv_git = (\<lambda>args repo input. Some (0, if args ! 1 = ''ls-files'' then [97, 0, 98, 46, 112, 121, 0] else [])),
      dv_encode = map of_char, dv_decode = map char_of\<rparr>"

theorem split_character_hides_text_witness:
  "read_entry (demo_discovery (utf8_encode (replicate 8191 97 @ [233, 10]))) ''README''
     (parse_path ''/w/README'') [''.py''] default_policy = Inr None"
proof -
  have len: "length (utf8_encode (replicate 8191 97)) = 8191"
    by (simp add: utf8_encode_def utf8_point_def length_concat sum_list_replicate)
  have enc: "length (utf8_encode (replicate 8191 97 @ [233])) = 8193"
    using len by (simp add: utf8_encode_def utf8_point_def)
  have "path_suffix (parse_path ''/w/README'') \<notin> set [''.py'']" by code_simp
  moreover have "list_all scalar (replicate 8191 97 @ 233 # [10])"
    by (simp add: list_all_iff scalar_def)
  ultimately show ?thesis
    using split_character_hides_text [of "replicate 8191 97" 233 "[10]"
        "demo_discovery (utf8_encode (replicate 8191 97 @ [233, 10]))" "parse_path ''/w/README''"
        default_policy "[''.py'']" _ "''README''"] len enc
    by (simp add: default_policy_def demo_discovery_def)
qed

section \<open>What is discovered\<close>

text \<open>
  An entry that may be indexed: a regular file inside the repository, no part of it or of the
  file it resolves to below a directory that is always skipped, within the size limit, of a
  known language, with the digest of its bytes.
\<close>

definition readable_entry :: "discovery_env \<Rightarrow> string list \<Rightarrow> ingestion_policy \<Rightarrow> file_entry \<Rightarrow> bool" where
  "readable_entry env extensions policy e =
     (dv_stat_size env (fe_abs_path e) = Inr (fe_byte_size e)
      \<and> fe_byte_size e \<le> ip_max_file_bytes policy
      \<and> language_for_candidate env (fe_abs_path e) extensions policy = Inr (Some (fe_language e))
      \<and> compute_hash env (fe_abs_path e) = Inr (fe_content_hash e))"

definition admissible_at :: "discovery_env \<Rightarrow> ppath \<Rightarrow> ppath \<Rightarrow> ppath \<Rightarrow> bool" where
  "admissible_at env repo file target =
     (fs_resolve_strict (dv_fs env) file = Inr target \<and> fs_is_file (dv_fs env) target
      \<and> (case (relative_to file repo, relative_to target repo) of
           (Some rel, Some target_rel) \<Rightarrow>
             \<not> is_in_always_skipped_directory rel \<and> \<not> is_in_always_skipped_directory target_rel
         | _ \<Rightarrow> False))"

definition admissible :: "discovery_env \<Rightarrow> ppath \<Rightarrow> string list \<Rightarrow> ingestion_policy \<Rightarrow> file_entry \<Rightarrow> bool" where
  "admissible env repo extensions policy e =
     (readable_entry env extensions policy e
      \<and> (\<exists>target. admissible_at env repo (fe_abs_path e) target))"

lemma admissibleI:
  "readable_entry env extensions policy e \<Longrightarrow> fs_resolve_strict (dv_fs env) (fe_abs_path e) = Inr target \<Longrightarrow>
   fs_is_file (dv_fs env) target \<Longrightarrow> relative_to (fe_abs_path e) repo = Some rel \<Longrightarrow>
   relative_to target repo = Some target_rel \<Longrightarrow> \<not> is_in_always_skipped_directory rel \<Longrightarrow>
   \<not> is_in_always_skipped_directory target_rel \<Longrightarrow> admissible env repo extensions policy e"
  unfolding admissible_def by (auto simp: admissible_at_def intro!: exI [of _ target])

lemma skipped_Some:
  "(case r of Inl e \<Rightarrow> if is_os_error e then Inr None else Inl e | Inr y \<Rightarrow> Inr y) = Inr (Some x) \<Longrightarrow>
   r = Inr (Some x)"
  by (cases r) (simp_all split: if_splits)

lemma read_entry_Some:
  "read_entry env rel file extensions policy = Inr (Some e) \<Longrightarrow>
   fe_rel_path e = rel \<and> fe_abs_path e = file \<and> readable_entry env extensions policy e"
proof -
  assume "read_entry env rel file extensions policy = Inr (Some e)"
  from skipped_Some [OF this [unfolded read_entry_def]] obtain n where n: "dv_stat_size env file = Inr n"
    and rest: "(if n > ip_max_file_bytes policy then Inr None
      else and_then (language_for_candidate env file extensions policy) (\<lambda>language.
        case language of None \<Rightarrow> Inr None
        | Some l \<Rightarrow> and_then (compute_hash env file) (\<lambda>h.
            Inr (Some \<lparr>fe_rel_path = rel, fe_abs_path = file, fe_language = l,
                       fe_byte_size = n, fe_content_hash = h\<rparr>)))) = Inr (Some e)"
    unfolding and_then_Inr_iff [of "dv_stat_size env file"] by blast
  have small: "n \<le> ip_max_file_bytes policy" using rest by (simp split: if_split_asm)
  obtain l where l: "language_for_candidate env file extensions policy = Inr (Some l)"
    and rest: "and_then (compute_hash env file) (\<lambda>h.
        Inr (Some \<lparr>fe_rel_path = rel, fe_abs_path = file, fe_language = l,
                   fe_byte_size = n, fe_content_hash = h\<rparr>)) = Inr (Some e)"
    using rest small by (simp add: and_then_Inr_iff [of "language_for_candidate env file extensions policy"])
      (elim exE conjE, simp split: option.split_asm)
  then obtain h where "compute_hash env file = Inr h"
    and e: "e = \<lparr>fe_rel_path = rel, fe_abs_path = file, fe_language = l, fe_byte_size = n, fe_content_hash = h\<rparr>"
    unfolding and_then_Inr_iff by blast
  then show ?thesis using n small l unfolding e by (simp add: readable_entry_def)
qed


lemma resolved_file_Some:
  "resolved_file_in_repo env file repo = Some target \<Longrightarrow>
   fs_resolve_strict (dv_fs env) file = Inr target \<and> fs_is_file (dv_fs env) target"
  by (auto simp: resolved_file_in_repo_def split: sum.splits if_splits)

lemma demand_Inr [simp]: "demand e x = Inr y \<longleftrightarrow> x = Some y"
  by (simp add: demand_def split: option.split)

lemma collected_entry:
  "collect_entries (case_prod one) items = Inr entries \<Longrightarrow> e \<in> set entries \<Longrightarrow>
   \<exists>file rel. (file, rel) \<in> set items \<and> one file rel = Inr (Some e)"
  by (induction items arbitrary: entries) (auto simp: and_then_Inr_iff split: option.splits, blast+)

lemma resolved_targets_mem:
  "map_of (resolved_targets env repo items) rel = Some target \<Longrightarrow>
   \<exists>file. (file, rel) \<in> set items \<and> resolved_file_in_repo env file repo = Some target"
proof -
  define add :: "ppath \<times> string \<Rightarrow> (string \<times> ppath) list \<Rightarrow> (string \<times> ppath) list" where
    "add = (\<lambda>(file, rel) t. case resolved_file_in_repo env file repo of
      None \<Rightarrow> t | Some target \<Rightarrow> AList.update rel target t)"
  have add: "map_of (add (f, r) t) rel = Some target \<Longrightarrow>
      map_of t rel = Some target \<or> (r = rel \<and> resolved_file_in_repo env f repo = Some target)" for f r t
    by (auto simp: add_def update_conv' split: option.splits if_splits)
  have "map_of (fold add items t) rel = Some target \<Longrightarrow> map_of t rel = Some target \<or>
      (\<exists>file. (file, rel) \<in> set items \<and> resolved_file_in_repo env file repo = Some target)" for t
  proof (induction items arbitrary: t)
    case Nil
    then show ?case by simp
  next
    case (Cons a items)
    obtain f r where a: "a = (f, r)" by (cases a)
    show ?case using Cons.IH [of "add a t"] Cons.prems add [of f r t] a by auto
  qed
  from this [of "[]"] show "map_of (resolved_targets env repo items) rel = Some target \<Longrightarrow> ?thesis"
    by (simp add: resolved_targets_def add_def)
qed

lemma discover_one_Some:
  "discover_one env repo extensions True policy pruned targets ignored file rel = Inr (Some e) \<Longrightarrow>
   fe_rel_path e = rel \<and> fe_abs_path e = file \<and> readable_entry env extensions policy e
   \<and> \<not> is_in_pruned_directory rel pruned
   \<and> (\<exists>target target_rel rel_file. map_of targets rel = Some target
        \<and> relative_to target repo = Some target_rel \<and> relative_to file repo = Some rel_file
        \<and> path_str target_rel \<notin> set ignored
        \<and> \<not> is_in_always_skipped_directory rel_file \<and> \<not> is_in_always_skipped_directory target_rel)"
  by (auto simp: discover_one_def and_then_Inr_iff dest!: read_entry_Some
      split: option.splits if_splits)

text \<open>A candidate's name determines its file.\<close>

lemma walk_candidates_mem:
  "walk_candidates env repo skip files = Inr items \<Longrightarrow> (file, rel) \<in> set items \<Longrightarrow>
   file \<in> set files \<and> (\<exists>r. relative_to file repo = Some r \<and> rel = path_str r)"
  by (induction files arbitrary: items) (auto simp: and_then_Inr_iff split: if_splits)

lemma candidate_named:
  assumes "list_all wf_path (dv_rglob env repo)" "candidate_items env repo skip fallback = Inr items"
    and "(file, rel) \<in> set items" "(file', rel) \<in> set items"
  shows "file = file'"
proof (cases "if skip then list_git_non_ignored_paths env repo else None")
  case None
  then obtain all where all: "walk_candidates env repo skip (dv_rglob env repo) = Inr all" "set items \<subseteq> set all"
    using assms(2) by (auto simp: candidate_items_def and_then_Inr_iff Let_def)
  have same: "path_join repo (parse_path rel) = f" if "(f, rel) \<in> set items" for f
  proof -
    have "(f, rel) \<in> set all" using all(2) that by blast
    then obtain r where r: "relative_to f repo = Some r" "rel = path_str r" "f \<in> set (dv_rglob env repo)"
      using walk_candidates_mem [OF all(1)] by auto
    then have "wf_path r" using assms(1) wf_relative_to by (auto simp: list_all_iff)
    then show ?thesis using r path_join_relative_to by (simp add: parse_path_str)
  qed
  show ?thesis using same assms(3,4) by blast
next
  case (Some rels)
  then show ?thesis using assms(2-4) by (auto simp: candidate_items_def)
qed

lemma candidates_listed:
  "list_git_non_ignored_paths env repo = Some rels \<Longrightarrow> candidate_items env repo True fallback = Inr items \<Longrightarrow>
   snd ` set items \<subseteq> set rels"
  by (auto simp: candidate_items_def)

text \<open>C20: 
  Discovery yields admissible entries only, sorted by their path, whatever git, the walk and the
  links in the repository show; with git's own listing it yields nothing git does not list.
  The entry built for one changed file is admissible as well.
\<close>

theorem discovered_sources_admissible:
  assumes "fs_resolve (dv_fs env) repo_path = Inr repo" "list_all wf_path (dv_rglob env repo)"
    and "discover env repo_path extensions True policy = Inr entries"
    and "build_file_entry env file repo_path extensions policy = Inr (Some e)"
  shows "sorted (map fe_rel_path entries) \<and> list_all (admissible env repo extensions policy) entries
       \<and> (case list_git_non_ignored_paths env repo of
            Some rels \<Rightarrow> fe_rel_path ` set entries \<subseteq> set rels | None \<Rightarrow> True)
       \<and> admissible env repo extensions policy e"
proof -
  obtain fallback items pruned targets ignored found where
    items: "candidate_items env repo True fallback = Inr items"
    and targets: "targets = resolved_targets env repo items"
    and found: "collect_entries (\<lambda>(file, rel). discover_one env repo extensions True policy pruned
        targets ignored file rel) items = Inr found"
    and entries: "entries = sort_key fe_rel_path found"
    using assms(1,3) by (auto simp: discover_def and_then_Inr_iff Let_def)
  have each: "admissible env repo extensions policy x \<and> fe_rel_path x \<in> snd ` set items"
    if "x \<in> set entries" for x
  proof -
    have "x \<in> set found" using that entries by simp
    from collected_entry [OF found this] obtain f rel where item: "(f, rel) \<in> set items"
      and one: "discover_one env repo extensions True policy pruned targets ignored f rel = Inr (Some x)"
      by blast
    note facts = discover_one_Some [OF one]
    obtain target where target: "map_of targets rel = Some target" using facts by blast
    obtain f' where f': "(f', rel) \<in> set items" "resolved_file_in_repo env f' repo = Some target"
      using resolved_targets_mem target targets by blast
    then have "f' = f" using candidate_named [OF assms(2) items _ item] by blast
    then show ?thesis
      using facts target resolved_file_Some [OF f'(2)] item by (force intro: admissibleI)
  qed
  have "sorted (map fe_rel_path entries)" by (simp add: entries)
  moreover have "case list_git_non_ignored_paths env repo of
      Some rels \<Rightarrow> fe_rel_path ` set entries \<subseteq> set rels | None \<Rightarrow> True"
    using each candidates_listed [OF _ items] by (auto split: option.split)
  moreover have "admissible env repo extensions policy e"
    using assms(1,4)
    by (auto simp: build_file_entry_def and_then_Inr_iff Let_def intro: admissibleI
        dest!: read_entry_Some resolved_file_Some split: option.split_asm if_split_asm)
  ultimately show ?thesis using each by (simp add: list_all_iff)
qed

lemma demo_env_fields:
  "fs_resolve (dv_fs (demo_discovery content)) p = Inr p"
  "fs_resolve_strict (dv_fs (demo_discovery content)) p = Inr p"
  "fs_is_file (dv_fs (demo_discovery content)) p" "fs_cwd (dv_fs (demo_discovery content)) = parse_path ''/w''"
  "dv_stat_size (demo_discovery content) p = Inr (length content)"
  "dv_read_bytes (demo_discovery content) p = Inr content" "dv_iterdir (demo_discovery content) p = Inr []"
  "dv_gitignore (demo_discovery content) p = None" "list_all wf_path (dv_rglob (demo_discovery content) p)"
  "dv_git (demo_discovery content) args p input =
     Some (0, if args ! 1 = ''ls-files'' then [97, 0, 98, 46, 112, 121, 0] else [])"
  by (simp_all add: demo_discovery_def plain_fs_def)

lemma default_policy_fields:
  "ip_text_fallback default_policy" "ip_max_file_bytes default_policy = 1048576"
  "ip_text_sample_bytes default_policy = 8192" "ip_large_dir_file_count default_policy = 10000"
  "ip_large_dir_byte_size default_policy = 536870912" "ip_generated_sample_files default_policy = 64"
  by (simp_all add: default_policy_def)

lemma demo_paths:
  "path_child \<lparr>p_root = ''/'', p_comps = [''w'']\<rparr> ''a'' = \<lparr>p_root = ''/'', p_comps = [''w'', ''a'']\<rparr>"
  "path_child \<lparr>p_root = ''/'', p_comps = [''w'']\<rparr> ''b.py'' = \<lparr>p_root = ''/'', p_comps = [''w'', ''b.py'']\<rparr>"
  "parse_path ''/w'' = \<lparr>p_root = ''/'', p_comps = [''w'']\<rparr>" "parse_path ''b.py'' = \<lparr>p_root = [], p_comps = [''b.py'']\<rparr>"
  "relative_to \<lparr>p_root = ''/'', p_comps = [''w'', ''a'']\<rparr> \<lparr>p_root = ''/'', p_comps = [''w'']\<rparr> = Some \<lparr>p_root = [], p_comps = [''a'']\<rparr>"
  "relative_to \<lparr>p_root = ''/'', p_comps = [''w'', ''b.py'']\<rparr> \<lparr>p_root = ''/'', p_comps = [''w'']\<rparr>
     = Some \<lparr>p_root = [], p_comps = [''b.py'']\<rparr>"
  "path_str \<lparr>p_root = [], p_comps = [''b.py'']\<rparr> = ''b.py''" "path_str \<lparr>p_root = [], p_comps = [''a'']\<rparr> = ''a''"
  "\<not> is_in_always_skipped_directory \<lparr>p_root = [], p_comps = [''a'']\<rparr>"
  "\<not> is_in_always_skipped_directory \<lparr>p_root = [], p_comps = [''b.py'']\<rparr>"
  "path_suffix \<lparr>p_root = ''/'', p_comps = [''w'', ''a'']\<rparr> = []"
  "path_suffix \<lparr>p_root = ''/'', p_comps = [''w'', ''b.py'']\<rparr> = ''.py''"
  "enclosing_directories ''a'' = []" "enclosing_directories ''b.py'' = []"
  "\<not> is_in_pruned_directory ''a'' []" "\<not> is_in_pruned_directory ''b.py'' []"
  by code_simp+

lemma demo_entry:
  "read_entry (demo_discovery [97]) ''a'' \<lparr>p_root = ''/'', p_comps = [''w'', ''a'']\<rparr> [''.py''] default_policy =
     Inr (Some \<lparr>fe_rel_path = ''a'', fe_abs_path = \<lparr>p_root = ''/'', p_comps = [''w'', ''a'']\<rparr>,
       fe_language = ''text'', fe_byte_size = 1, fe_content_hash = sha256_bytes [97]\<rparr>)"
  "read_entry (demo_discovery [97]) ''b.py'' \<lparr>p_root = ''/'', p_comps = [''w'', ''b.py'']\<rparr> [''.py''] default_policy =
     Inr (Some \<lparr>fe_rel_path = ''b.py'', fe_abs_path = \<lparr>p_root = ''/'', p_comps = [''w'', ''b.py'']\<rparr>,
       fe_language = ''python'', fe_byte_size = 1, fe_content_hash = sha256_bytes [97]\<rparr>)"
proof -
  have "utf8_valid [97]" by code_simp
  then show "read_entry (demo_discovery [97]) ''a'' \<lparr>p_root = ''/'', p_comps = [''w'', ''a'']\<rparr> [''.py''] default_policy =
     Inr (Some \<lparr>fe_rel_path = ''a'', fe_abs_path = \<lparr>p_root = ''/'', p_comps = [''w'', ''a'']\<rparr>,
       fe_language = ''text'', fe_byte_size = 1, fe_content_hash = sha256_bytes [97]\<rparr>)"
    "read_entry (demo_discovery [97]) ''b.py'' \<lparr>p_root = ''/'', p_comps = [''w'', ''b.py'']\<rparr> [''.py''] default_policy =
     Inr (Some \<lparr>fe_rel_path = ''b.py'', fe_abs_path = \<lparr>p_root = ''/'', p_comps = [''w'', ''b.py'']\<rparr>,
       fe_language = ''python'', fe_byte_size = 1, fe_content_hash = sha256_bytes [97]\<rparr>)"
    by (simp_all add: read_entry_def demo_env_fields default_policy_fields demo_paths
        language_for_candidate_def extension_to_language_def is_text_file_def compute_hash_def)
qed

lemma demo_git:
  "list_git_non_ignored_paths (demo_discovery [97]) repo = Some [''a'', ''b.py'']"
  "resolve_ignored_paths (demo_discovery [97]) repo rels fallback = []"
proof -
  have "split_names (demo_discovery [97]) [97, 0, 98, 46, 112, 121, 0] = [''a'', ''b.py'']"
    "split_names (demo_discovery [97]) [] = []"
    by code_simp+
  then show "list_git_non_ignored_paths (demo_discovery [97]) repo = Some [''a'', ''b.py'']"
    "resolve_ignored_paths (demo_discovery [97]) repo rels fallback = []"
    by (simp_all add: list_git_non_ignored_paths_def resolve_ignored_paths_def git_check_ignored_paths_def
        demo_env_fields)
qed

theorem discovered_sources_admissible_witness:
  "\<exists>entries e. discover (demo_discovery [97]) (parse_path ''/w'') [''.py''] True default_policy = Inr entries
     \<and> map fe_rel_path entries = [''a'', ''b.py''] \<and> map fe_language entries = [''text'', ''python'']
     \<and> build_file_entry (demo_discovery [97]) (parse_path ''b.py'') (parse_path ''/w'') [''.py''] default_policy = Inr (Some e)
     \<and> list_all (admissible (demo_discovery [97]) (parse_path ''/w'') [''.py''] default_policy) entries"
proof -
  let ?env = "demo_discovery [97]"
  have lexical: "lexical_file_in_repo (dv_fs ?env) \<lparr>p_root = [], p_comps = [''b.py'']\<rparr> \<lparr>p_root = ''/'', p_comps = [''w'']\<rparr>
      = Some \<lparr>p_root = ''/'', p_comps = [''w'', ''b.py'']\<rparr>"
    by (simp add: lexical_file_in_repo_def abspath_def demo_env_fields demo_paths path_join_def Let_def)
  have anc: "path_has_large_generated_ancestor ?env \<lparr>p_root = ''/'', p_comps = [''w'', ''b.py'']\<rparr> (parse_path ''/w'') default_policy = Inr False"
  proof -
    have "path_parents \<lparr>p_root = ''/'', p_comps = [''w'']\<rparr> = [\<lparr>p_root = ''/'', p_comps = []\<rparr>]" by code_simp
    then show ?thesis
      by (simp add: path_has_large_generated_ancestor_def demo_paths path_parent_def path_parts_def relative_to_def)
  qed
  note eval = demo_env_fields demo_git load_gitignore_spec_def resolved_file_in_repo_def demo_paths demo_entry
  have ok: "case discover ?env (parse_path ''/w'') [''.py''] True default_policy of
      Inr entries \<Rightarrow> map fe_rel_path entries = [''a'', ''b.py''] \<and> map fe_language entries = [''text'', ''python'']
    | Inl _ \<Rightarrow> False"
    by (simp add: discover_def candidate_items_def resolved_targets_def alias_target_paths_def
      pruned_large_directories_def discover_one_def demand_def eval)
  have built: "case build_file_entry ?env (parse_path ''b.py'') (parse_path ''/w'') [''.py''] default_policy of
      Inr (Some e) \<Rightarrow> True | _ \<Rightarrow> False"
    using anc by (simp add: build_file_entry_def lexical demand_def eval)
  have res: "fs_resolve (dv_fs ?env) (parse_path ''/w'') = Inr (parse_path ''/w'')" by (simp add: demo_env_fields)
  show ?thesis
    using ok built discovered_sources_admissible [OF res demo_env_fields(9)]
    by (fastforce split: sum.splits option.splits)
qed

end
