(* ===== verification/Slices.thy ===== *)
theory Slices
  imports Main
begin

text \<open>
  Lists cut into slices of a bounded length, as the pipeline cuts its deletions and the routes
  cut their reads.
\<close>

text \<open>Slices of a bounded length, as \<open>range(0, len(xs), n)\<close> cuts them.\<close>

function slices :: "nat \<Rightarrow> 'a list \<Rightarrow> 'a list list" where
  "slices n xs = (if xs = [] \<or> n = 0 then [] else take n xs # slices n (drop n xs))"
  by pat_completeness auto
termination by (relation "measure (\<lambda>(_, xs). length xs)") auto

declare slices.simps [simp del]

lemma slices_empty: "slices n [] = []"
  by (subst slices.simps) simp

lemma slices_step: "0 < n \<Longrightarrow> xs \<noteq> [] \<Longrightarrow> slices n xs = take n xs # slices n (drop n xs)"
  by (subst slices.simps) simp

lemma slices_induct [consumes 1, case_names Nil step]:
  assumes "0 < n" "P []" "\<And>xs. xs \<noteq> [] \<Longrightarrow> P (drop n xs) \<Longrightarrow> P xs"
  shows "P xs"
proof (induction xs rule: length_induct)
  case (1 xs)
  then show ?case using assms by (cases "xs = []") auto
qed

lemma concat_slices: assumes "0 < n" shows "concat (slices n xs) = xs"
  by (induction xs rule: slices_induct [OF assms]) (simp_all add: slices_empty slices_step assms)

lemma slices_bounded:
  assumes "0 < n" shows "list_all (\<lambda>ys. ys \<noteq> [] \<and> length ys \<le> n) (slices n xs)"
  by (induction xs rule: slices_induct [OF assms]) (simp_all add: slices_empty slices_step assms)

end
