(* ===== verification/Ingest_Plan.thy ===== *)
theory Ingest_Plan
  imports Source_Discovery Slices
begin

text \<open>
  The pure part of the ingestion pipeline (\<open>src/src/scs/indexing/pipeline.py\<close>): identities of
  files and entities, the rows written to the graph, and the partition of the parsed files into
  batches that are embedded and acknowledged as units.
\<close>

section \<open>Identities\<close>

definition node_id :: "string \<Rightarrow> string \<Rightarrow> parsed_entity \<Rightarrow> nat \<Rightarrow> string" where
  "node_id repo rel e occurrence =
     (let identity = repo @ '':'' @ rel @ '':'' @ node_type_value (pe_kind e) @ '':'' @ pe_qualified_name e;
          identity = (if occurrence = 0 then identity
                      else ''occurrence:'' @ nat_digits occurrence @ '':'' @ identity)
      in take 32 (sha256_hex identity))"

definition file_record_id :: "string \<Rightarrow> string \<Rightarrow> string" where
  "file_record_id repo rel = take 32 (sha256_hex (''file:'' @ repo @ '':'' @ rel))"

text \<open>Each entity of a file with its id; \<open>occurrences\<close> counts a file's entities by kind and name.\<close>

fun entity_ids ::
  "string \<Rightarrow> string \<Rightarrow> ((node_type \<times> string) \<times> nat) list \<Rightarrow> parsed_entity list \<Rightarrow> (parsed_entity \<times> string) list" where
  "entity_ids repo rel occurrences [] = []"
| "entity_ids repo rel occurrences (e # es) =
     (let identity = (pe_kind e, pe_qualified_name e);
          occurrence = (case map_of occurrences identity of None \<Rightarrow> 0 | Some n \<Rightarrow> n)
      in (e, node_id repo rel e occurrence)
         # entity_ids repo rel (AList.update identity (occurrence + 1) occurrences) es)"

section \<open>Rows\<close>

record node_metadata =
  nm_file_path :: string
  nm_language :: string
  nm_qualified_name :: string
  nm_start_line :: nat
  nm_end_line :: nat
  nm_signature :: "text_points option"
  nm_docstring :: "text_points option"
  nm_bases :: "string list option"
  nm_imports :: "string list option"
  nm_calls :: "string list option"
  nm_complexity :: "int option"

record node_row =
  nr_id :: string
  nr_type :: string
  nr_name :: string
  nr_content :: text_points
  nr_metadata :: node_metadata
  nr_repo_id :: nat

record edge_row =
  er_source :: string
  er_target :: string
  er_relationship :: string
  er_weight :: rat

record parsed_file =
  pf_entry :: file_entry
  pf_entities :: "parsed_entity list"
  pf_edges :: "parsed_edge list"

definition pf_rel :: "parsed_file \<Rightarrow> string" where
  "pf_rel pf = fe_rel_path (pf_entry pf)"

definition present :: "'a list \<Rightarrow> 'a list option" where
  "present xs = (if xs = [] then None else Some xs)"

definition node_row_of :: "file_entry \<Rightarrow> nat \<Rightarrow> parsed_entity \<times> string \<Rightarrow> node_row" where
  "node_row_of entry repo_id entity =
     (let e = fst entity in
      \<lparr>nr_id = snd entity, nr_type = node_type_value (pe_kind e), nr_name = pe_name e,
       nr_content = take 2048 (pe_raw_text e),
       nr_metadata =
         \<lparr>nm_file_path = fe_rel_path entry, nm_language = fe_language entry,
          nm_qualified_name = pe_qualified_name e, nm_start_line = pe_start_line e,
          nm_end_line = pe_end_line e, nm_signature = present (pe_signature e),
          nm_docstring = present (pe_docstring e), nm_bases = present (pe_bases e),
          nm_imports = present (pe_imports e), nm_calls = present (pe_calls e),
          nm_complexity = pe_complexity e\<rparr>,
       nr_repo_id = repo_id\<rparr>)"

definition file_ids :: "string \<Rightarrow> parsed_file \<Rightarrow> (parsed_entity \<times> string) list" where
  "file_ids repo pf = entity_ids repo (pf_rel pf) [] (pf_entities pf)"

definition plan_nodes :: "string \<Rightarrow> nat \<Rightarrow> parsed_file list \<Rightarrow> node_row list" where
  "plan_nodes repo repo_id parsed =
     concat (map (\<lambda>pf. map (node_row_of (pf_entry pf) repo_id) (file_ids repo pf)) parsed)"

text \<open>The two dictionaries of the plan: assignments in order, a later one overrides.\<close>

definition assign :: "('k \<times> 'v) list \<Rightarrow> ('k \<times> 'v) list" where
  "assign kvs = fold (\<lambda>(k, v). AList.update k v) kvs []"

definition qualified_to_id :: "string \<Rightarrow> parsed_file list \<Rightarrow> (string \<times> string) list" where
  "qualified_to_id repo parsed =
     assign (concat (map (\<lambda>pf. map (\<lambda>(e, i). (pe_qualified_name e, i)) (file_ids repo pf)) parsed))"

definition entity_node_ids :: "string \<Rightarrow> parsed_file list \<Rightarrow> ((string \<times> nat) \<times> string) list" where
  "entity_node_ids repo parsed =
     assign (concat (map (\<lambda>pf. map (\<lambda>(n, _, i). ((pf_rel pf, n), i)) (enumerate 0 (file_ids repo pf))) parsed))"

section \<open>Batches\<close>

definition batch_max_files :: nat where "batch_max_files = 32"

definition batch_max_entities :: nat where "batch_max_entities = 512"

definition embed_batch_size :: nat where "embed_batch_size = 128"

fun plan_batches_from :: "parsed_file list \<Rightarrow> nat \<Rightarrow> parsed_file list \<Rightarrow> parsed_file list list" where
  "plan_batches_from current entities [] = (if current = [] then [] else [current])"
| "plan_batches_from current entities (pf # pfs) =
     (let n = length (pf_entities pf) in
      if length current \<ge> batch_max_files
         \<or> (current \<noteq> [] \<and> entities + n > batch_max_entities)
      then current # plan_batches_from [pf] n pfs
      else plan_batches_from (current @ [pf]) (entities + n) pfs)"

definition plan_batches :: "parsed_file list \<Rightarrow> parsed_file list list" where
  "plan_batches parsed = plan_batches_from [] 0 parsed"

definition entity_count :: "parsed_file list \<Rightarrow> nat" where
  "entity_count files = sum_list (map (\<lambda>pf. length (pf_entities pf)) files)"

record ingestion_record =
  ig_file_id :: string
  ig_repo_path :: string
  ig_rel_path :: string
  ig_language :: string
  ig_content_hash :: string
  ig_byte_size :: nat

definition ingestion_records :: "string \<Rightarrow> parsed_file list \<Rightarrow> ingestion_record list" where
  "ingestion_records repo batch =
     map (\<lambda>pf. \<lparr>ig_file_id = file_record_id repo (pf_rel pf), ig_repo_path = repo,
                ig_rel_path = pf_rel pf, ig_language = fe_language (pf_entry pf),
                ig_content_hash = fe_content_hash (pf_entry pf),
                ig_byte_size = fe_byte_size (pf_entry pf)\<rparr>) batch"

section \<open>Laws of the tables\<close>

lemma map_of_assign_onto:
  "map_of (fold (\<lambda>(k, v). AList.update k v) kvs t) = map_of t ++ map_of (rev kvs)"
  by (induction kvs arbitrary: t) (auto simp: update_conv' map_add_def fun_eq_iff split: option.splits)

lemma map_of_assign: "map_of (assign kvs) = map_of (rev kvs)"
  by (simp add: assign_def map_of_assign_onto)

lemma map_of_assign_distinct:
  "distinct (map fst kvs) \<Longrightarrow> (k, v) \<in> set kvs \<Longrightarrow> map_of (assign kvs) k = Some v"
  by (simp add: map_of_assign rev_map [symmetric] map_of_eq_Some_iff)

lemma length_entity_ids [simp]: "length (entity_ids repo rel occ es) = length es"
  by (induction es arbitrary: occ) (simp_all add: Let_def)

lemma map_fst_entity_ids [simp]: "map fst (entity_ids repo rel occ es) = es"
  by (induction es arbitrary: occ) (simp_all add: Let_def)

lemma length_file_ids [simp]: "length (file_ids repo pf) = length (pf_entities pf)"
  by (simp add: file_ids_def)

text \<open>With one file per path the table of entity ids answers every position with its id.\<close>

lemma entity_node_ids_at:
  assumes "distinct (map pf_rel parsed)" "pf \<in> set parsed" "n < length (pf_entities pf)"
  shows "map_of (entity_node_ids repo parsed) (pf_rel pf, n) = Some (snd (file_ids repo pf ! n))"
proof -
  define h where "h pf = map (\<lambda>(n, _, i). ((pf_rel pf, n), i)) (enumerate 0 (file_ids repo pf))"
    for pf :: parsed_file
  have keys: "map fst (h pf) = map (Pair (pf_rel pf)) [0..<length (pf_entities pf)]" for pf
    by (rule nth_equalityI) (auto simp: h_def nth_enumerate_eq split: prod.split)
  have "map fst (concat (map h parsed)) = concat (map (\<lambda>pf. map fst (h pf)) parsed)"
    by (simp add: map_concat comp_def)
  moreover have "distinct (concat (map (\<lambda>pf. map (Pair (pf_rel pf)) [0..<length (pf_entities pf)]) pfs))"
    if "distinct (map pf_rel pfs)" for pfs :: "parsed_file list"
    using that by (induction pfs) (auto simp: distinct_map inj_on_def)
  ultimately have "distinct (map fst (concat (map h parsed)))" using assms(1) by (simp add: keys)
  moreover have "((pf_rel pf, n), snd (file_ids repo pf ! n)) \<in> set (concat (map h parsed))"
  proof -
    have "(n, file_ids repo pf ! n) \<in> set (enumerate 0 (file_ids repo pf))"
      using assms(3) by (simp add: in_set_enumerate_eq)
    then have "((pf_rel pf, n), snd (file_ids repo pf ! n)) \<in> set (h pf)"
      unfolding h_def by (cases "file_ids repo pf ! n") force
    then show ?thesis using assms(2) by auto
  qed
  ultimately show ?thesis unfolding entity_node_ids_def h_def by (rule map_of_assign_distinct)
qed

section \<open>Batches partition the files\<close>

definition batch_ok :: "parsed_file list \<Rightarrow> bool" where
  "batch_ok b = (b \<noteq> [] \<and> length b \<le> 32 \<and> (length b = 1 \<or> entity_count b \<le> 512))"

text \<open>No batch has room for the first file of the next one.\<close>

fun packed :: "parsed_file list list \<Rightarrow> bool" where
  "packed (b # c # bs) =
     ((length b = 32 \<or> entity_count b + length (pf_entities (hd c)) > 512) \<and> packed (c # bs))"
| "packed _ = True"

lemma entity_count_simps [simp]:
  "entity_count [] = 0" "entity_count (b @ [pf]) = entity_count b + length (pf_entities pf)"
  by (simp_all add: entity_count_def)

lemma entity_count_one [simp]: "entity_count [pf] = length (pf_entities pf)"
  by (simp add: entity_count_def)

lemmas batch_limits = batch_max_files_def batch_max_entities_def

lemma plan_batches_first:
  "current \<noteq> [] \<Longrightarrow> \<exists>b bs. plan_batches_from current n pfs = b # bs \<and> hd b = hd current"
  by (induction current n pfs rule: plan_batches_from.induct) (auto simp: Let_def)

lemma plan_batches_from_partition:
  assumes "current = [] \<or> batch_ok current"
  shows "concat (plan_batches_from current (entity_count current) pfs) = current @ pfs
       \<and> list_all batch_ok (plan_batches_from current (entity_count current) pfs)
       \<and> packed (plan_batches_from current (entity_count current) pfs)"
  using assms
proof (induction pfs arbitrary: current)
  case Nil
  then show ?case by auto
next
  case (Cons pf pfs)
  let ?n = "length (pf_entities pf)"
  show ?case
  proof (cases "length current \<ge> 32 \<or> (current \<noteq> [] \<and> entity_count current + ?n > 512)")
    case True
    have one: "batch_ok [pf]" by (simp add: batch_ok_def)
    then have IH: "concat (plan_batches_from [pf] ?n pfs) = pf # pfs"
        "list_all batch_ok (plan_batches_from [pf] ?n pfs)" "packed (plan_batches_from [pf] ?n pfs)"
      using Cons.IH [of "[pf]"] by simp_all
    obtain b bs where first: "plan_batches_from [pf] ?n pfs = b # bs" "hd b = pf"
      using plan_batches_first [of "[pf]" ?n pfs] by auto
    have "current \<noteq> []" using True by auto
    then have "batch_ok current" using Cons.prems by simp
    then have "length current = 32 \<or> entity_count current + ?n > 512"
      using True by (auto simp: batch_ok_def)
    then show ?thesis using True IH first \<open>batch_ok current\<close> by (simp add: batch_limits)
  next
    case False
    then have "batch_ok (current @ [pf])" using Cons.prems by (auto simp: batch_ok_def)
    moreover have "plan_batches_from current (entity_count current) (pf # pfs) =
        plan_batches_from (current @ [pf]) (entity_count (current @ [pf])) pfs"
      using False by (auto simp: batch_limits Let_def)
    ultimately show ?thesis using Cons.IH [of "current @ [pf]"]
      by (simp del: plan_batches_from.simps entity_count_simps)
  qed
qed

text \<open>Aux: 
  The plan partitions the parsed files into batches in their order: no file is lost, repeated or
  split, no batch is empty or has more than 32 files, and a batch of more than 512 entities is a
  single file.  The partition is greedy: no batch could have taken the next file as well.
\<close>

theorem plan_batches_partition:
  "concat (plan_batches parsed) = parsed \<and> list_all batch_ok (plan_batches parsed)
   \<and> packed (plan_batches parsed)"
  using plan_batches_from_partition [of "[]" parsed] by (simp add: plan_batches_def)

end
