(* ===== verification/Ingest_Pipeline.thy ===== *)
theory Ingest_Pipeline
  imports Ingest_Plan
begin

text \<open>
  The ingestion pipeline (\<open>src/src/scs/indexing/pipeline.py\<close>) as actions on the world \<open>'w\<close>: the
  graph store, the disk and whatever else its collaborators read or change.  The store is the
  protocol \<open>GraphStore\<close>, the parser and the embedding provider are the protocols the pipeline is
  constructed with; each call is a field of \<open>ingest_env\<close> and may change the world and raise.
  Files are parsed one after the other: the four parsing threads only read.
\<close>

section \<open>Collaborators\<close>

type_synonym vector = "rat list"

record 'w graph_store =
  gs_get_or_create_repo :: "string \<Rightarrow> ('w, nat) act"
  gs_ingested_files :: "string \<Rightarrow> ('w, (string \<times> string) list) act"
  gs_file_paths :: "string \<Rightarrow> ('w, string list) act"
  gs_node_ids :: "string \<Rightarrow> string \<Rightarrow> ('w, string list) act"
  gs_missing_embeddings :: "nat \<Rightarrow> ('w, string list) act"
  gs_resolve :: "string \<Rightarrow> string \<Rightarrow> ('w, string option) act"
  gs_upsert_nodes :: "node_row list \<Rightarrow> ('w, nat) act"
  gs_upsert_edges :: "edge_row list \<Rightarrow> ('w, nat) act"
  gs_incoming_edges :: "string \<Rightarrow> ('w, edge list) act"
  gs_upsert_embeddings :: "(string \<times> vector) list \<Rightarrow> ('w, nat) act"
  gs_flush :: "('w, bool) act"
  gs_vectors_contain :: "string list \<Rightarrow> ('w, bool) act"
  gs_vectors_absent :: "string list \<Rightarrow> ('w, bool) act"
  gs_delete_nodes :: "string list \<Rightarrow> ('w, nat) act"
  gs_delete_records :: "string \<Rightarrow> string list \<Rightarrow> ('w, nat) act"
  gs_acknowledge :: "ingestion_record list \<Rightarrow> ('w, unit) act"
  gs_indexed_repos :: "('w, string list) act"

record progress =
  pr_phase :: string
  pr_current :: nat
  pr_total :: nat
  pr_path :: string
  pr_message :: string

record 'w ingest_env =
  in_store :: "'w graph_store"
  in_disk :: "'w \<Rightarrow> discovery_env"
  in_extensions :: "string list"
  in_policy :: ingestion_policy
  in_parse :: "text_points \<Rightarrow> string \<Rightarrow> exc + parsed_entity list \<times> parsed_edge list"
  in_embed :: "(text_points list \<Rightarrow> ('w, vector list) act) option"
  in_cancelled :: "('w, bool) act"
  in_report :: "progress \<Rightarrow> ('w, unit) act"

record ingestion_result =
  ir_discovered :: nat
  ir_changed :: nat
  ir_deleted :: nat
  ir_failed :: nat
  ir_entities :: nat
  ir_edges :: nat
  ir_edges_dropped :: nat
  ir_embeddings :: nat
  ir_degraded :: "string option"

definition no_result :: ingestion_result where
  "no_result = \<lparr>ir_discovered = 0, ir_changed = 0, ir_deleted = 0, ir_failed = 0, ir_entities = 0,
     ir_edges = 0, ir_edges_dropped = 0, ir_embeddings = 0, ir_degraded = None\<rparr>"

definition check_cancelled :: "'w ingest_env \<Rightarrow> ('w, unit) act" where
  "check_cancelled env =
     act_bind (in_cancelled env) (\<lambda>c.
       if c then act_raise (IngestionCancelled ''ingestion cancelled at a durable boundary'')
       else act_return ())"

definition act_when :: "bool \<Rightarrow> ('s, unit) act \<Rightarrow> ('s, unit) act" where
  "act_when b m = (if b then m else act_return ())"

definition read_bytes :: "'w ingest_env \<Rightarrow> ppath \<Rightarrow> ('w, nat list) act" where
  "read_bytes env file w = (dv_read_bytes (in_disk env w) file, w)"

definition on_disk :: "'w ingest_env \<Rightarrow> (discovery_env \<Rightarrow> exc + 'a) \<Rightarrow> ('w, 'a) act" where
  "on_disk env f w = (f (in_disk env w), w)"

section \<open>Parsing\<close>

definition parse_source :: "'w ingest_env \<Rightarrow> file_entry \<Rightarrow> nat list \<Rightarrow> exc + parsed_file" where
  "parse_source env entry bytes =
     (if sha256_bytes bytes \<noteq> fe_content_hash entry then Inl (RuntimeError ''source changed after discovery'')
      else
        (let source = utf8_decode [65533] bytes; rel = fe_rel_path entry in
         if fe_language entry = ''text''
         then Inr \<lparr>pf_entry = entry,
                pf_entities =
                  [\<lparr>pe_kind = FileNode, pe_name = rel, pe_qualified_name = rel, pe_start_line = 0,
                    pe_end_line = how_many (\<lambda>c. c = 10) source, pe_signature = [],
                    pe_docstring = source, pe_raw_text = source, pe_parent = None, pe_bases = [],
                    pe_imports = [], pe_calls = [], pe_complexity = None\<rparr>],
                pf_edges = []\<rparr>
         else and_then (in_parse env source rel) (\<lambda>(entities, edges).
           Inr \<lparr>pf_entry = entry, pf_entities = entities, pf_edges = edges\<rparr>)))"

definition parse_file :: "'w ingest_env \<Rightarrow> file_entry \<Rightarrow> ('w, parsed_file) act" where
  "parse_file env entry =
     act_bind (read_bytes env (fe_abs_path entry)) (\<lambda>bytes. act_lift (parse_source env entry bytes))"

text \<open>Every exception of one file is caught: the file is listed as failed.\<close>

fun parse_files :: "'w ingest_env \<Rightarrow> file_entry list \<Rightarrow> ('w, parsed_file list \<times> file_entry list) act" where
  "parse_files env [] = act_return ([], [])"
| "parse_files env (entry # entries) =
     act_bind (act_handle (act_bind (parse_file env entry) (\<lambda>pf. act_return (Some pf)))
                 (\<lambda>_. act_return None)) (\<lambda>one.
       act_bind (parse_files env entries) (\<lambda>(parsed, failed).
         act_return (case one of Some pf \<Rightarrow> (pf # parsed, failed) | None \<Rightarrow> (parsed, entry # failed))))"

section \<open>Edges\<close>

text \<open>\<open>resolve\<close> with its cache of answers of the store, negative ones included.\<close>

definition resolve_name ::
  "'w ingest_env \<Rightarrow> string \<Rightarrow> (string \<times> string) list \<Rightarrow> (string \<times> string option) list \<Rightarrow> string
   \<Rightarrow> ('w, string option \<times> (string \<times> string option) list) act" where
  "resolve_name env repo changed cache name =
     (case map_of changed name of
        Some i \<Rightarrow> act_return (Some i, cache)
      | None \<Rightarrow>
          (case map_of cache name of
             Some answer \<Rightarrow> act_return (answer, cache)
           | None \<Rightarrow>
               act_bind (gs_resolve (in_store env) repo name) (\<lambda>answer.
                 act_return (answer, (name, answer) # cache))))"

definition edge_key :: "edge_row \<Rightarrow> string \<times> string \<times> string" where
  "edge_key r = (er_source r, er_target r, er_relationship r)"

definition add_edge :: "parsed_edge \<Rightarrow> string option \<Rightarrow> string option \<Rightarrow> edge_row list \<Rightarrow> edge_row list" where
  "add_edge e source target rows =
     (case (source, target) of
        (Some s, Some t) \<Rightarrow>
          (let row = \<lparr>er_source = s, er_target = t, er_relationship = relationship_value (pd_relationship e),
                      er_weight = pd_weight e\<rparr>
           in if s \<noteq> [] \<and> t \<noteq> [] \<and> edge_key row \<notin> edge_key ` set rows then rows @ [row] else rows)
      | _ \<Rightarrow> rows)"

definition prepare_edge ::
  "'w ingest_env \<Rightarrow> string \<Rightarrow> (string \<times> string) list \<Rightarrow> string \<Rightarrow> parsed_edge
   \<Rightarrow> edge_row list \<times> (string \<times> string option) list
   \<Rightarrow> ('w, edge_row list \<times> (string \<times> string option) list) act" where
  "prepare_edge env repo changed language e st =
     act_bind (resolve_name env repo changed (snd st) (pd_source e)) (\<lambda>(source, cache).
     act_bind (resolve_name env repo changed cache (pd_target e)) (\<lambda>(target, cache).
     act_bind
       (if target = None \<and> language = ''python'' \<and> pd_relationship e = Imports
        then resolve_name env repo changed cache (''src.'' @ pd_target e)
        else act_return (target, cache)) (\<lambda>(target, cache).
       act_return (add_edge e source target (fst st), cache))))"

fun prepare_all ::
  "'w ingest_env \<Rightarrow> string \<Rightarrow> (string \<times> string) list \<Rightarrow> (string \<times> parsed_edge) list
   \<Rightarrow> edge_row list \<times> (string \<times> string option) list
   \<Rightarrow> ('w, edge_row list \<times> (string \<times> string option) list) act" where
  "prepare_all env repo changed [] st = act_return st"
| "prepare_all env repo changed ((language, e) # es) st =
     act_bind (prepare_edge env repo changed language e st) (prepare_all env repo changed es)"

definition prepare_edges ::
  "'w ingest_env \<Rightarrow> string \<Rightarrow> parsed_file list \<Rightarrow> (string \<times> string) list \<Rightarrow> ('w, edge_row list) act" where
  "prepare_edges env repo parsed changed =
     act_bind
       (prepare_all env repo changed
          (concat (map (\<lambda>pf. map (Pair (fe_language (pf_entry pf))) (pf_edges pf)) parsed)) ([], []))
       (\<lambda>st. act_return (fst st))"

text \<open>
  Edges of unchanged files into replaced nodes that come back under the same id; the last one
  of a key is kept at the place of the first.
\<close>

definition retained_row :: "edge \<Rightarrow> edge_row" where
  "retained_row e = \<lparr>er_source = ed_source e, er_target = ed_target e,
     er_relationship = relationship_value (ed_relationship e), er_weight = ed_weight e\<rparr>"

definition retained_inbound_edges ::
  "'w ingest_env \<Rightarrow> string list \<Rightarrow> (string \<times> string) list \<Rightarrow> ('w, edge_row list) act" where
  "retained_inbound_edges env replaced node_ids =
     act_bind (act_map (gs_incoming_edges (in_store env)) (sorted_set replaced)) (\<lambda>edges.
       let kept = filter (\<lambda>e. ed_source e \<notin> set replaced \<and> ed_target e \<in> snd ` set node_ids) (concat edges)
       in act_return (map snd (assign (map (\<lambda>e. (edge_key (retained_row e), retained_row e)) kept))))"

section \<open>Embedding a batch\<close>

text \<open>\<open>except (ProviderUnavailableError, OSError, RuntimeError)\<close> with the subclasses of these.\<close>

definition provider_failure :: "exc \<Rightarrow> bool" where
  "provider_failure e =
     (case e of ProviderUnavailableError _ \<Rightarrow> True | OSError _ \<Rightarrow> True | TimeoutError _ \<Rightarrow> True
      | RuntimeError _ \<Rightarrow> True | ServiceBusyError _ \<Rightarrow> True | CatalogError _ \<Rightarrow> True
      | StorePathError _ \<Rightarrow> True | IngestionCancelled _ \<Rightarrow> True | _ \<Rightarrow> False)"

definition embed_vectors ::
  "(text_points list \<Rightarrow> ('w, vector list) act) \<Rightarrow> text_points list \<Rightarrow> ('w, string + vector list) act" where
  "embed_vectors provider texts =
     act_handle
       (act_bind (act_map provider (slices embed_batch_size texts)) (\<lambda>parts.
          if length (concat parts) \<noteq> length texts
          then act_raise (ProviderUnavailableError
            ''Embedding provider returned a vector count that does not match inputs'')
          else act_return (Inr (concat parts))))
       (\<lambda>e. if provider_failure e then act_return (Inl (exc_str e)) else act_raise e)"

text \<open>The node ids of a batch, entity by entity.\<close>

definition batch_keys :: "parsed_file list \<Rightarrow> (string \<times> nat) list" where
  "batch_keys batch = concat (map (\<lambda>pf. map (Pair (pf_rel pf)) [0..<length (pf_entities pf)]) batch)"

definition batch_node_ids :: "((string \<times> nat) \<times> string) list \<Rightarrow> parsed_file list \<Rightarrow> ('w, string list) act" where
  "batch_node_ids ids batch =
     act_map (\<lambda>k. act_lift (demand (KeyError (fst k)) (map_of ids k))) (batch_keys batch)"

definition embed_batch ::
  "'w ingest_env \<Rightarrow> ((string \<times> nat) \<times> string) list \<Rightarrow> parsed_file list \<Rightarrow> ingestion_result
   \<Rightarrow> ('w, bool \<times> ingestion_result) act" where
  "embed_batch env ids batch result =
     (case in_embed env of
        None \<Rightarrow> act_return (True, result)
      | Some provider \<Rightarrow>
          act_bind (embed_vectors provider (map build_embed_text (concat (map pf_entities batch)))) (\<lambda>vectors.
            case vectors of
              Inl reason \<Rightarrow> act_return (False, result\<lparr>ir_degraded := Some reason\<rparr>)
            | Inr vs \<Rightarrow>
                act_bind (batch_node_ids ids batch) (\<lambda>node_ids.
                  if node_ids = [] then act_return (True, result)
                  else act_bind (gs_upsert_embeddings (in_store env) (zip node_ids vs)) (\<lambda>n.
                    act_return (True, result\<lparr>ir_embeddings := ir_embeddings result + n\<rparr>)))))"

definition same_bytes :: "'w ingest_env \<Rightarrow> parsed_file \<Rightarrow> ('w, bool) act" where
  "same_bytes env pf =
     act_handle
       (act_bind (read_bytes env (fe_abs_path (pf_entry pf))) (\<lambda>bytes.
          act_return (sha256_bytes bytes = fe_content_hash (pf_entry pf))))
       (\<lambda>e. if is_os_error e then act_return False else act_raise e)"

fun sources_stable :: "'w ingest_env \<Rightarrow> parsed_file list \<Rightarrow> ('w, bool) act" where
  "sources_stable env [] = act_return True"
| "sources_stable env (pf # pfs) =
     act_bind (same_bytes env pf) (\<lambda>same. if same then sources_stable env pfs else act_return False)"

section \<open>Acknowledging a batch\<close>

type_synonym 'w callback = "(string list \<Rightarrow> ('w, unit) act) option"

definition batch_failed :: "parsed_file list \<Rightarrow> ingestion_result \<Rightarrow> ingestion_result" where
  "batch_failed batch result = result\<lparr>ir_failed := ir_failed result + length batch\<rparr>"

definition degraded_by :: "string \<Rightarrow> ingestion_result \<Rightarrow> ingestion_result" where
  "degraded_by reason result = result\<lparr>ir_degraded := Some reason\<rparr>"

text \<open>
  The body of the loop answers whether the loop goes on, and the result so far: embedding, the
  check of the reopened sidecar, the check of the sources, and the acknowledgement in the end.
\<close>

definition record_batch ::
  "'w ingest_env \<Rightarrow> string \<Rightarrow> 'w callback \<Rightarrow> parsed_file list \<Rightarrow> ingestion_result
   \<Rightarrow> ('w, bool \<times> ingestion_result) act" where
  "record_batch env repo on_ack batch result =
     act_seq (gs_acknowledge (in_store env) (ingestion_records repo batch))
    (act_seq (case on_ack of None \<Rightarrow> act_return () | Some f \<Rightarrow> f (map pf_rel batch))
      (act_return (True, result)))"

definition commit_batch ::
  "'w ingest_env \<Rightarrow> string \<Rightarrow> 'w callback \<Rightarrow> parsed_file list \<Rightarrow> ingestion_result
   \<Rightarrow> ('w, bool \<times> ingestion_result) act" where
  "commit_batch env repo on_ack batch result =
     act_bind (sources_stable env batch) (\<lambda>stable.
       if \<not> stable
       then act_return (False, degraded_by
         ''Source changed while its embedding batch was in progress'' (batch_failed batch result))
       else record_batch env repo on_ack batch result)"

definition check_sidecar :: "'w ingest_env \<Rightarrow> string list \<Rightarrow> ('w, bool) act" where
  "check_sidecar env node_ids =
     (if in_embed env \<noteq> None \<and> node_ids \<noteq> []
      then gs_vectors_contain (in_store env) node_ids else act_return True)"

definition confirm_batch ::
  "'w ingest_env \<Rightarrow> string \<Rightarrow> ((string \<times> nat) \<times> string) list \<Rightarrow> 'w callback \<Rightarrow> parsed_file list
   \<Rightarrow> ingestion_result \<Rightarrow> ('w, bool \<times> ingestion_result) act" where
  "confirm_batch env repo ids on_ack batch result =
     act_seq (gs_flush (in_store env))
    (act_bind (batch_node_ids ids batch) (\<lambda>node_ids.
     act_bind (check_sidecar env node_ids) (\<lambda>durable.
       if \<not> durable
       then act_return (False, degraded_by
         ''Reopened vector sidecar is missing an acknowledged batch vector'' (batch_failed batch result))
       else commit_batch env repo on_ack batch result)))"

definition acknowledge_batch ::
  "'w ingest_env \<Rightarrow> string \<Rightarrow> ((string \<times> nat) \<times> string) list \<Rightarrow> 'w callback \<Rightarrow> parsed_file list
   \<Rightarrow> ingestion_result \<Rightarrow> ('w, bool \<times> ingestion_result) act" where
  "acknowledge_batch env repo ids on_ack batch result =
     act_bind (embed_batch env ids batch result) (\<lambda>(embedded, result).
       if \<not> embedded then act_return (False, batch_failed batch result)
       else confirm_batch env repo ids on_ack batch result)"

fun run_batches ::
  "'w ingest_env \<Rightarrow> string \<Rightarrow> ((string \<times> nat) \<times> string) list \<Rightarrow> 'w callback \<Rightarrow> nat \<Rightarrow> nat
   \<Rightarrow> parsed_file list list \<Rightarrow> ingestion_result \<Rightarrow> ('w, ingestion_result) act" where
  "run_batches env repo ids on_ack planned number [] result = act_return result"
| "run_batches env repo ids on_ack planned number (batch # batches) result =
     act_seq (check_cancelled env)
    (act_seq (in_report env \<lparr>pr_phase = ''embed'', pr_current = number, pr_total = planned,
        pr_path = pf_rel (hd batch),
        pr_message = ''Embedding and acknowledging complete-file batch '' @ nat_digits number\<rparr>)
    (act_bind (acknowledge_batch env repo ids on_ack batch result) (\<lambda>(go_on, result).
       if go_on then run_batches env repo ids on_ack planned (number + 1) batches result
       else act_return result)))"

section \<open>Deleting files\<close>

definition delete_batch :: "'w ingest_env \<Rightarrow> string \<Rightarrow> string list \<Rightarrow> ('w, unit) act" where
  "delete_batch env repo batch =
     act_seq (check_cancelled env)
    (act_bind (act_map (gs_node_ids (in_store env) repo) batch) (\<lambda>ids.
       let removed = concat ids in
       act_seq (gs_delete_nodes (in_store env) (sorted_set removed))
      (act_seq (gs_flush (in_store env))
      (act_bind (if removed \<noteq> [] then gs_vectors_absent (in_store env) removed else act_return True) (\<lambda>absent.
         if \<not> absent
         then act_raise (RuntimeError ''Reopened vector sidecar retains a deleted file's vector'')
         else act_seq (gs_delete_records (in_store env) repo batch) (act_return ()))))))"

fun delete_batches :: "'w ingest_env \<Rightarrow> string \<Rightarrow> string list list \<Rightarrow> ('w, unit) act" where
  "delete_batches env repo [] = act_return ()"
| "delete_batches env repo (b # bs) = act_seq (delete_batch env repo b) (delete_batches env repo bs)"

definition delete_paths :: "'w ingest_env \<Rightarrow> string \<Rightarrow> string list \<Rightarrow> ('w, nat) act" where
  "delete_paths env repo paths =
     (let deleted = sorted_set paths in
      act_seq (delete_batches env repo (slices batch_max_files deleted)) (act_return (length deleted)))"

section \<open>Ingesting entries\<close>

definition select_changed ::
  "bool \<Rightarrow> (string \<times> string) list \<Rightarrow> string list \<Rightarrow> file_entry list \<Rightarrow> file_entry list" where
  "select_changed force hashes missing entries =
     filter (\<lambda>entry. force \<or> map_of hashes (fe_rel_path entry) \<noteq> Some (fe_content_hash entry)
               \<or> fe_rel_path entry \<in> set missing) entries"

fun report_parsed :: "'w ingest_env \<Rightarrow> nat \<Rightarrow> nat \<Rightarrow> parsed_file list \<Rightarrow> ('w, unit) act" where
  "report_parsed env number planned [] = act_return ()"
| "report_parsed env number planned (pf # pfs) =
     act_seq (in_report env \<lparr>pr_phase = ''parse'', pr_current = number, pr_total = planned,
        pr_path = pf_rel pf, pr_message = []\<rparr>) (report_parsed env (number + 1) planned pfs)"

text \<open>The structural replacement: nodes of the parsed files, planned and retained edges.\<close>

definition replace_structure ::
  "'w ingest_env \<Rightarrow> string \<Rightarrow> nat \<Rightarrow> parsed_file list \<Rightarrow> ingestion_result \<Rightarrow> ('w, ingestion_result) act" where
  "replace_structure env repo repo_id parsed result =
     act_bind (act_map (\<lambda>pf. gs_node_ids (in_store env) repo (pf_rel pf)) parsed) (\<lambda>old.
     let replaced = concat old; changed = qualified_to_id repo parsed; nodes = plan_nodes repo repo_id parsed in
     act_bind (prepare_edges env repo parsed changed) (\<lambda>edges.
     act_bind (retained_inbound_edges env replaced changed) (\<lambda>retained.
     act_seq (if replaced \<noteq> [] then act_seq (gs_delete_nodes (in_store env) (sorted_set replaced)) (act_return ())
              else act_return ())
    (act_bind (if nodes \<noteq> [] then gs_upsert_nodes (in_store env) nodes else act_return (ir_entities result)) (\<lambda>entities.
     act_bind (if edges @ retained \<noteq> [] then gs_upsert_edges (in_store env) (edges @ retained) else act_return 0) (\<lambda>created.
       act_return (result\<lparr>ir_entities := entities, ir_edges := created,
         ir_edges_dropped := sum_list (map (\<lambda>pf. length (pf_edges pf)) parsed) - length edges\<rparr>)))))))"

definition ingest_changed ::
  "'w ingest_env \<Rightarrow> string \<Rightarrow> nat \<Rightarrow> file_entry list \<Rightarrow> 'w callback \<Rightarrow> ingestion_result
   \<Rightarrow> ('w, ingestion_result) act" where
  "ingest_changed env repo repo_id changed on_ack result =
     act_seq (check_cancelled env)
    (act_seq (in_report env \<lparr>pr_phase = ''parse'', pr_current = 0, pr_total = length changed, pr_path = [],
        pr_message = ''Parsing changed source files''\<rparr>)
    (act_bind (parse_files env changed) (\<lambda>(parsed, failed).
     act_seq (check_cancelled env)
    (act_seq (report_parsed env 1 (length changed) parsed)
    (act_bind (replace_structure env repo repo_id parsed (result\<lparr>ir_failed := length failed\<rparr>)) (\<lambda>result.
       let batches = plan_batches (sort_key pf_rel parsed) in
       run_batches env repo (entity_node_ids repo parsed) on_ack (length batches) 1 batches result))))))"

definition ingest_entries ::
  "'w ingest_env \<Rightarrow> string \<Rightarrow> file_entry list \<Rightarrow> bool \<Rightarrow> bool \<Rightarrow> 'w callback \<Rightarrow> ('w, ingestion_result) act" where
  "ingest_entries env repo entries force sweep on_ack =
     act_bind (gs_get_or_create_repo (in_store env) repo) (\<lambda>repo_id.
     act_bind (gs_ingested_files (in_store env) repo) (\<lambda>hashes.
     act_bind (if in_embed env \<noteq> None then gs_missing_embeddings (in_store env) repo_id else act_return []) (\<lambda>missing.
     let changed = select_changed force hashes missing entries in
     act_bind
       (if sweep
        then act_bind (gs_file_paths (in_store env) repo) (\<lambda>paths.
          delete_paths env repo
            (filter (\<lambda>p. p \<notin> fe_rel_path ` set entries) (paths @ map fst hashes)))
        else act_return 0) (\<lambda>deleted.
     let result = no_result\<lparr>ir_discovered := length entries, ir_changed := length changed,
                            ir_deleted := deleted\<rparr> in
     if changed = [] then act_return result
     else ingest_changed env repo repo_id changed on_ack result))))"

section \<open>The operations of the pipeline\<close>

definition assert_ingestable :: "'w ingest_env \<Rightarrow> ppath \<Rightarrow> ('w, unit) act" where
  "assert_ingestable env repo =
     act_seq (on_disk env (\<lambda>d. assert_not_user_home_repo (dv_fs d) repo))
    (act_bind (gs_indexed_repos (in_store env)) (\<lambda>indexed.
       on_disk env (\<lambda>d. assert_not_nested_under_indexed_repo (dv_fs d) indexed repo)))"

definition open_repository :: "'w ingest_env \<Rightarrow> ppath \<Rightarrow> ('w, string) act" where
  "open_repository env repo_path =
     act_bind (on_disk env (\<lambda>d. canonicalize_repo_path (dv_fs d) repo_path)) (\<lambda>canonical.
       act_seq (assert_ingestable env (parse_path canonical)) (act_return canonical))"

definition discover_all :: "'w ingest_env \<Rightarrow> string \<Rightarrow> ('w, file_entry list) act" where
  "discover_all env canonical =
     on_disk env (\<lambda>d. discover d (parse_path canonical) (in_extensions env) True (in_policy env))"

definition snapshot_record :: "file_entry \<Rightarrow> dict" where
  "snapshot_record entry =
     [(''rel_path'', JStr (fe_rel_path entry)), (''content_hash'', JStr (fe_content_hash entry)),
      (''language'', JStr (fe_language entry)), (''byte_size'', JInt (int (fe_byte_size entry)))]"

definition create_force_full_snapshot :: "'w ingest_env \<Rightarrow> ppath \<Rightarrow> ('w, dict list) act" where
  "create_force_full_snapshot env repo_path =
     act_bind (open_repository env repo_path) (\<lambda>canonical.
       act_bind (discover_all env canonical) (\<lambda>entries. act_return (map snapshot_record entries)))"

text \<open>One record of a frozen snapshot; a Python \<open>bool\<close> is an \<open>int\<close>.\<close>

definition snapshot_fields :: "dict \<Rightarrow> (string \<times> string \<times> string \<times> int) option" where
  "snapshot_fields r =
     (case (dict_get r ''rel_path'' JNull, dict_get r ''content_hash'' JNull,
            dict_get r ''language'' JNull, dict_get r ''byte_size'' JNull) of
        (JStr rel, JStr h, JStr language, JInt n) \<Rightarrow> Some (rel, h, language, n)
      | (JStr rel, JStr h, JStr language, JBool b) \<Rightarrow> Some (rel, h, language, of_bool b)
      | _ \<Rightarrow> None)"

definition snapshot_path_ok :: "string \<Rightarrow> bool" where
  "snapshot_path_ok rel =
     (rel \<noteq> [] \<and> \<not> is_absolute (parse_path rel) \<and> ''..'' \<notin> set (path_parts (parse_path rel)))"

fun snapshot_entries ::
  "discovery_env \<Rightarrow> ppath \<Rightarrow> string list \<Rightarrow> ingestion_policy \<Rightarrow> string list \<Rightarrow> dict list \<Rightarrow> exc + file_entry list" where
  "snapshot_entries d repo extensions policy seen [] = Inr []"
| "snapshot_entries d repo extensions policy seen (r # rs) =
     (case snapshot_fields r of
        None \<Rightarrow> Inl (ValueError ''Invalid force-full snapshot record'')
      | Some (rel, h, language, n) \<Rightarrow>
          if \<not> snapshot_path_ok rel \<or> rel \<in> set seen
          then Inl (ValueError ''Invalid force-full snapshot record'')
          else
            and_then (build_file_entry d (path_child repo rel) repo extensions policy) (\<lambda>built.
              case built of
                None \<Rightarrow> Inl (RuntimeError (''Force-full snapshot source is no longer ingestable: '' @ rel))
              | Some entry \<Rightarrow>
                  if fe_content_hash entry \<noteq> h \<or> fe_language entry \<noteq> language
                     \<or> int (fe_byte_size entry) \<noteq> n
                  then Inl (RuntimeError (''Force-full snapshot source changed: '' @ rel))
                  else and_then (snapshot_entries d repo extensions policy (rel # seen) rs) (\<lambda>entries.
                    Inr (entry # entries))))"

definition entries_from_force_snapshot ::
  "'w ingest_env \<Rightarrow> ppath \<Rightarrow> dict list \<Rightarrow> ('w, file_entry list) act" where
  "entries_from_force_snapshot env repo snapshot =
     on_disk env (\<lambda>d. and_then (snapshot_entries d repo (in_extensions env) (in_policy env) [] snapshot)
       (\<lambda>entries. Inr (sort_key fe_rel_path entries)))"

definition ingest ::
  "'w ingest_env \<Rightarrow> ppath \<Rightarrow> bool \<Rightarrow> dict list option \<Rightarrow> 'w callback \<Rightarrow> ('w, ingestion_result) act" where
  "ingest env repo_path force snapshot on_ack =
     act_bind (open_repository env repo_path) (\<lambda>canonical.
       act_bind (case snapshot of
                   None \<Rightarrow> discover_all env canonical
                 | Some records \<Rightarrow> entries_from_force_snapshot env (parse_path canonical) records) (\<lambda>entries.
         ingest_entries env canonical entries force (snapshot = None) on_ack))"

fun changed_entries ::
  "discovery_env \<Rightarrow> ppath \<Rightarrow> string list \<Rightarrow> ingestion_policy \<Rightarrow> ppath list \<Rightarrow> exc + file_entry list" where
  "changed_entries d repo extensions policy [] = Inr []"
| "changed_entries d repo extensions policy (file # files) =
     and_then (build_file_entry d file repo extensions policy) (\<lambda>entry.
       and_then (changed_entries d repo extensions policy files) (\<lambda>entries.
         Inr (case entry of None \<Rightarrow> entries | Some e \<Rightarrow> e # entries)))"

definition ingest_files ::
  "'w ingest_env \<Rightarrow> ppath \<Rightarrow> ppath list \<Rightarrow> string list \<Rightarrow> ('w, ingestion_result) act" where
  "ingest_files env repo_path files deleted_paths =
     act_bind (open_repository env repo_path) (\<lambda>canonical.
     act_bind (on_disk env (\<lambda>d. changed_entries d (parse_path canonical) (in_extensions env) (in_policy env) files)) (\<lambda>entries.
     act_bind (ingest_entries env canonical entries False False None) (\<lambda>result.
     act_bind (delete_paths env canonical deleted_paths) (\<lambda>n.
       act_return (result\<lparr>ir_deleted := ir_deleted result + n\<rparr>)))))"

definition cleanup_stale_files :: "'w ingest_env \<Rightarrow> ppath \<Rightarrow> ('w, ingestion_result) act" where
  "cleanup_stale_files env repo_path =
     act_bind (on_disk env (\<lambda>d. canonicalize_repo_path (dv_fs d) repo_path)) (\<lambda>canonical.
     act_bind (discover_all env canonical) (\<lambda>entries.
     act_bind (gs_file_paths (in_store env) canonical) (\<lambda>indexed.
     act_bind (delete_paths env canonical (filter (\<lambda>p. p \<notin> fe_rel_path ` set entries) indexed)) (\<lambda>n.
       act_return (no_result\<lparr>ir_discovered := length (remdups (map fe_rel_path entries)),
                             ir_deleted := n\<rparr>)))))"

definition acknowledged_force_snapshot_paths ::
  "'w ingest_env \<Rightarrow> ppath \<Rightarrow> dict list \<Rightarrow> ('w, string list) act" where
  "acknowledged_force_snapshot_paths env repo_path snapshot =
     act_bind (on_disk env (\<lambda>d. canonicalize_repo_path (dv_fs d) repo_path)) (\<lambda>canonical.
     act_bind (gs_ingested_files (in_store env) canonical) (\<lambda>hashes.
       act_return (sort (concat (map (\<lambda>r.
         case (dict_get r ''rel_path'' JNull, dict_get r ''content_hash'' JNull) of
           (JStr rel, JStr h) \<Rightarrow> if map_of hashes rel = Some h then [rel] else []
         | _ \<Rightarrow> []) snapshot)))))"

end
