(* ===== verification/Ingest_Durability.thy ===== *)
theory Ingest_Durability
  imports Ingest_Pipeline
begin

text \<open>
  What an ingestion leaves behind.  The hash recorded for a file is the pipeline's checkpoint:
  a file whose recorded hash equals its content is not indexed again.  Here the checkpoints are
  shown to move from the old index to the current sources one file at a time, however the run
  ends, and never ahead of the durable vectors.
\<close>

section \<open>The contract of the store\<close>

text \<open>
  \<open>hash w p\<close> is the hash recorded for path \<open>p\<close> of the repository and \<open>vecs w\<close> the nodes whose
  vectors the reopened sidecar holds.  The store promises that only acknowledgement and deletion
  of records change recorded hashes, each in one transaction, that only deletion of nodes removes
  vectors, and that its answer about the reopened sidecar is right.  The other collaborators
  do not touch the store.
\<close>

definition framed :: "('w \<Rightarrow> string \<Rightarrow> string option) \<Rightarrow> ('w \<Rightarrow> string set) \<Rightarrow> ('w, 'a) act \<Rightarrow> bool" where
  "framed hash vecs m = (\<forall>w. hash (snd (m w)) = hash w \<and> vecs w \<subseteq> vecs (snd (m w)))"

definition recorded :: "(string \<Rightarrow> string option) \<Rightarrow> (string \<times> string) list \<Rightarrow> string \<Rightarrow> string option" where
  "recorded h kvs p = (case map_of (rev kvs) p of None \<Rightarrow> h p | Some v \<Rightarrow> Some v)"

definition wiped :: "string set \<Rightarrow> (string \<Rightarrow> string option) \<Rightarrow> string \<Rightarrow> string option" where
  "wiped D h p = (if p \<in> D then None else h p)"

definition store_contract ::
  "'w graph_store \<Rightarrow> string \<Rightarrow> ('w \<Rightarrow> string \<Rightarrow> string option) \<Rightarrow> ('w \<Rightarrow> string set) \<Rightarrow> bool" where
  "store_contract st repo hash vecs =
     (framed hash vecs (gs_get_or_create_repo st repo) \<and> framed hash vecs (gs_ingested_files st repo)
      \<and> framed hash vecs (gs_file_paths st repo) \<and> (\<forall>p. framed hash vecs (gs_node_ids st repo p))
      \<and> (\<forall>n. framed hash vecs (gs_missing_embeddings st n)) \<and> (\<forall>q. framed hash vecs (gs_resolve st repo q))
      \<and> (\<forall>ns. framed hash vecs (gs_upsert_nodes st ns)) \<and> (\<forall>es. framed hash vecs (gs_upsert_edges st es))
      \<and> (\<forall>i. framed hash vecs (gs_incoming_edges st i)) \<and> (\<forall>vs. framed hash vecs (gs_upsert_embeddings st vs))
      \<and> framed hash vecs (gs_flush st) \<and> (\<forall>ids. framed hash vecs (gs_vectors_contain st ids))
      \<and> (\<forall>ids. framed hash vecs (gs_vectors_absent st ids))
      \<and> (\<forall>ids w. hash (snd (gs_delete_nodes st ids w)) = hash w)
      \<and> (\<forall>ps w. case gs_delete_records st repo ps w of
           (Inr _, w') \<Rightarrow> hash w' = wiped (set ps) (hash w) | (Inl _, w') \<Rightarrow> hash w' = hash w)
      \<and> (\<forall>rs w. case gs_acknowledge st rs w of
           (Inr _, w') \<Rightarrow> hash w' = recorded (hash w) (map (\<lambda>r. (ig_rel_path r, ig_content_hash r)) rs)
                           \<and> vecs w \<subseteq> vecs w'
         | (Inl _, w') \<Rightarrow> hash w' = hash w \<and> vecs w \<subseteq> vecs w')
      \<and> (\<forall>ids w. case gs_vectors_contain st ids w of (Inr True, w') \<Rightarrow> set ids \<subseteq> vecs w' | _ \<Rightarrow> True)
      \<and> (\<forall>w. case gs_ingested_files st repo w of (Inr d, _) \<Rightarrow> map_of d = hash w | _ \<Rightarrow> True))"

definition pipeline_contract ::
  "'w ingest_env \<Rightarrow> string \<Rightarrow> 'w callback \<Rightarrow> ('w \<Rightarrow> string \<Rightarrow> string option) \<Rightarrow> ('w \<Rightarrow> string set) \<Rightarrow> bool" where
  "pipeline_contract env repo on_ack hash vecs =
     (store_contract (in_store env) repo hash vecs \<and> framed hash vecs (in_cancelled env)
      \<and> (\<forall>p. framed hash vecs (in_report env p))
      \<and> (case in_embed env of None \<Rightarrow> True | Some f \<Rightarrow> \<forall>ts. framed hash vecs (f ts))
      \<and> (case on_ack of None \<Rightarrow> True | Some f \<Rightarrow> \<forall>ps. framed hash vecs (f ps)))"

section \<open>Actions that keep checkpoints and vectors\<close>

definition at_index ::
  "('w \<Rightarrow> string \<Rightarrow> string option) \<Rightarrow> ('w \<Rightarrow> string set) \<Rightarrow> (string \<Rightarrow> string option) \<Rightarrow> string set \<Rightarrow> 'w \<Rightarrow> bool" where
  "at_index hash vecs h V w = (hash w = h \<and> V \<subseteq> vecs w)"

lemma framed_keeps: "framed hash vecs m \<Longrightarrow> act_keeps (at_index hash vecs h V) m"
  by (rule keepsI) (force simp: framed_def at_index_def)

lemma keeps_read [intro!]: "act_keeps I (read_bytes env file)" "act_keeps I (on_disk env f)"
  by (rule keepsI; simp add: read_bytes_def on_disk_def)+

lemma keeps_parse_files: "act_keeps I (parse_files env entries)"
  by (induction entries)
     (auto simp: parse_file_def intro!: keeps_bind keeps_handle split: option.split)

lemma keeps_stable: "act_keeps I (sources_stable env batch)"
  by (induction batch) (auto simp: same_bytes_def intro!: keeps_bind keeps_handle)

lemma keeps_node_ids: "act_keeps I (batch_node_ids ids batch)"
  unfolding batch_node_ids_def by (intro keeps_map keeps_pure)

lemma contract_framed:
  assumes "pipeline_contract env repo on_ack hash vecs"
  shows "framed hash vecs (gs_get_or_create_repo (in_store env) repo)"
    "framed hash vecs (gs_ingested_files (in_store env) repo)"
    "framed hash vecs (gs_file_paths (in_store env) repo)"
    "framed hash vecs (gs_node_ids (in_store env) repo p)"
    "framed hash vecs (gs_missing_embeddings (in_store env) n)"
    "framed hash vecs (gs_resolve (in_store env) repo q)"
    "framed hash vecs (gs_upsert_nodes (in_store env) ns)"
    "framed hash vecs (gs_upsert_edges (in_store env) es)"
    "framed hash vecs (gs_incoming_edges (in_store env) i)"
    "framed hash vecs (gs_upsert_embeddings (in_store env) vs)"
    "framed hash vecs (gs_flush (in_store env))"
    "framed hash vecs (gs_vectors_contain (in_store env) ids)"
    "framed hash vecs (gs_vectors_absent (in_store env) ids)"
    "framed hash vecs (in_cancelled env)" "framed hash vecs (in_report env pr)"
  using assms by (simp_all add: pipeline_contract_def store_contract_def)

lemmas contract_keeps = contract_framed [THEN framed_keeps]

lemma contract_provider:
  assumes "pipeline_contract env repo on_ack hash vecs" "in_embed env = Some f"
  shows "act_keeps (at_index hash vecs h V) (f ts)"
  using assms by (intro framed_keeps) (simp add: pipeline_contract_def)

lemma contract_callback:
  assumes "pipeline_contract env repo on_ack hash vecs"
  shows "act_keeps (at_index hash vecs h V) (case on_ack of None \<Rightarrow> act_return () | Some f \<Rightarrow> f ps)"
  using assms by (cases on_ack) (auto simp: pipeline_contract_def intro!: framed_keeps)

lemma acknowledge_answer:
  assumes "pipeline_contract env repo on_ack hash vecs"
  shows "case gs_acknowledge (in_store env) rs w of
      (Inr _, w') \<Rightarrow> hash w' = recorded (hash w) (map (\<lambda>r. (ig_rel_path r, ig_content_hash r)) rs)
                      \<and> vecs w \<subseteq> vecs w'
    | (Inl _, w') \<Rightarrow> hash w' = hash w \<and> vecs w \<subseteq> vecs w'"
  using assms unfolding pipeline_contract_def store_contract_def by (elim conjE allE)

lemma contain_answer:
  assumes "pipeline_contract env repo on_ack hash vecs"
  shows "case gs_vectors_contain (in_store env) ids w of (Inr True, w') \<Rightarrow> set ids \<subseteq> vecs w' | _ \<Rightarrow> True"
  using assms unfolding pipeline_contract_def store_contract_def by (elim conjE allE)

lemma delete_records_answer:
  assumes "pipeline_contract env repo on_ack hash vecs"
  shows "case gs_delete_records (in_store env) repo ps w of
      (Inr _, w') \<Rightarrow> hash w' = wiped (set ps) (hash w) | (Inl _, w') \<Rightarrow> hash w' = hash w"
  using assms unfolding pipeline_contract_def store_contract_def by (elim conjE allE)

lemma ingested_files_answer:
  assumes "pipeline_contract env repo on_ack hash vecs"
  shows "case gs_ingested_files (in_store env) repo w of (Inr d, _) \<Rightarrow> map_of d = hash w | _ \<Rightarrow> True"
  using assms unfolding pipeline_contract_def store_contract_def by (elim conjE allE)

lemma delete_nodes_answer:
  assumes "pipeline_contract env repo on_ack hash vecs"
  shows "hash (snd (gs_delete_nodes (in_store env) ids w)) = hash w"
  using assms unfolding pipeline_contract_def store_contract_def by (elim conjE allE)

lemma contract_acknowledge:
  assumes "pipeline_contract env repo on_ack hash vecs"
  shows "act_ensures (at_index hash vecs h V) (gs_acknowledge (in_store env) rs)
    (\<lambda>_. at_index hash vecs (recorded h (map (\<lambda>r. (ig_rel_path r, ig_content_hash r)) rs)) V)
    (\<lambda>_. at_index hash vecs h V)"
proof (rule ensuresI)
  fix w w' u
  assume "at_index hash vecs h V w" "gs_acknowledge (in_store env) rs w = (Inr u, w')"
  then show "at_index hash vecs (recorded h (map (\<lambda>r. (ig_rel_path r, ig_content_hash r)) rs)) V w'"
    using acknowledge_answer [OF assms, of w rs] by (auto simp: at_index_def)
next
  fix w w' e
  assume "at_index hash vecs h V w" "gs_acknowledge (in_store env) rs w = (Inl e, w')"
  then show "at_index hash vecs h V w'"
    using acknowledge_answer [OF assms, of w rs] by (auto simp: at_index_def)
qed

lemma contract_contains:
  assumes "pipeline_contract env repo on_ack hash vecs"
  shows "act_ensures (at_index hash vecs h V) (gs_vectors_contain (in_store env) ids)
    (\<lambda>present. at_index hash vecs h (if present then V \<union> set ids else V)) (\<lambda>_. at_index hash vecs h V)"
proof (rule ensuresI)
  fix w w' present
  assume at: "at_index hash vecs h V w" and run: "gs_vectors_contain (in_store env) ids w = (Inr present, w')"
  have "at_index hash vecs h V w'" using contract_keeps(12) [OF assms] at run by (rule keepsD)
  moreover have "present \<Longrightarrow> set ids \<subseteq> vecs w'"
    using contain_answer [OF assms, of ids w] run by simp
  ultimately show "at_index hash vecs h (if present then V \<union> set ids else V) w'"
    by (simp add: at_index_def)
next
  fix w w' e
  assume "at_index hash vecs h V w" "gs_vectors_contain (in_store env) ids w = (Inl e, w')"
  with contract_keeps(12) [OF assms] show "at_index hash vecs h V w'" by (rule keepsD)
qed

section \<open>One batch\<close>

definition records_of :: "parsed_file list \<Rightarrow> (string \<times> string) list" where
  "records_of files = map (\<lambda>pf. (pf_rel pf, fe_content_hash (pf_entry pf))) files"

definition vectors_due :: "'w ingest_env \<Rightarrow> string \<Rightarrow> parsed_file list \<Rightarrow> string set" where
  "vectors_due env repo files =
     (if in_embed env = None then {} else (\<Union>pf\<in>set files. snd ` set (file_ids repo pf)))"

definition checkpointed ::
  "'w ingest_env \<Rightarrow> string \<Rightarrow> ('w \<Rightarrow> string \<Rightarrow> string option) \<Rightarrow> ('w \<Rightarrow> string set)
   \<Rightarrow> (string \<Rightarrow> string option) \<Rightarrow> parsed_file list \<Rightarrow> 'w \<Rightarrow> bool" where
  "checkpointed env repo hash vecs h files =
     at_index hash vecs (recorded h (records_of files)) (vectors_due env repo files)"

lemma recorded_append: "recorded (recorded h a) b = recorded h (a @ b)"
  by (auto simp: recorded_def map_add_def fun_eq_iff split: option.splits)

lemma recorded_Nil [simp]: "recorded h [] = h"
  by (simp add: recorded_def fun_eq_iff)

lemma records_of_append: "records_of (a @ b) = records_of a @ records_of b"
  by (simp add: records_of_def)

lemma vectors_due_append: "vectors_due env repo (a @ b) = vectors_due env repo a \<union> vectors_due env repo b"
  by (simp add: vectors_due_def)

lemma acknowledged_records:
  "map (\<lambda>r. (ig_rel_path r, ig_content_hash r)) (ingestion_records repo batch) = records_of batch"
  by (simp add: ingestion_records_def records_of_def)

lemma act_map_lift:
  "(\<And>x. x \<in> set xs \<Longrightarrow> f x = Inr (g x)) \<Longrightarrow> act_map (\<lambda>x. act_lift (f x)) xs w = (Inr (map g xs), w)"
  by (induction xs) (simp_all add: act_bind_def act_lift_def act_return_def)

lemma batch_node_ids_run:
  assumes "distinct (map pf_rel parsed)" "set batch \<subseteq> set parsed"
  shows "batch_node_ids (entity_node_ids repo parsed) batch w =
    (Inr (concat (map (\<lambda>pf. map snd (file_ids repo pf)) batch)), w)"
proof -
  define g where "g k = the (map_of (entity_node_ids repo parsed) k)" for k
  have at: "map_of (entity_node_ids repo parsed) (pf_rel pf, n) = Some (snd (file_ids repo pf ! n))"
    if "pf \<in> set batch" "n < length (pf_entities pf)" for pf n
    using entity_node_ids_at [OF assms(1)] assms(2) that by blast
  have "batch_node_ids (entity_node_ids repo parsed) batch w = (Inr (map g (batch_keys batch)), w)"
    unfolding batch_node_ids_def
    by (rule act_map_lift) (use at in \<open>auto simp: batch_keys_def g_def\<close>)
  moreover have "map g (map (Pair (pf_rel pf)) [0..<length (pf_entities pf)]) = map snd (file_ids repo pf)"
    if "pf \<in> set batch" for pf
    by (rule nth_equalityI) (use at that in \<open>auto simp: g_def\<close>)
  then have "map g (batch_keys batch) = concat (map (\<lambda>pf. map snd (file_ids repo pf)) batch)"
    by (simp add: batch_keys_def map_concat comp_def cong: map_cong)
  ultimately show ?thesis by simp
qed

text \<open>Rules for actions that keep the index, in the two-postcondition form.\<close>

lemma ensures_kept: "act_keeps I m \<Longrightarrow> act_ensures I m (\<lambda>_. I) (\<lambda>_. I)"
  by (simp add: act_keeps_def)

lemma keeps_embed_vectors:
  assumes "\<And>ts. act_keeps I (f ts)"
  shows "act_keeps I (embed_vectors f texts)"
  unfolding embed_vectors_def
  by (intro keeps_handle keeps_bind keeps_map keeps_if keeps_pure assms)

lemma keeps_embed_batch:
  assumes "pipeline_contract env repo on_ack hash vecs"
  shows "act_keeps (at_index hash vecs h V) (embed_batch env ids batch result)"
proof (cases "in_embed env")
  case None
  then show ?thesis by (simp add: embed_batch_def keeps_pure)
next
  case (Some f)
  have "act_keeps (at_index hash vecs h V) (embed_vectors f ts)" for ts
    by (rule keeps_embed_vectors) (rule contract_provider [OF assms Some])
  then show ?thesis unfolding embed_batch_def
    by (auto simp: Some split: sum.split
        intro!: keeps_bind keeps_node_ids contract_keeps [OF assms])
qed

lemma embed_batch_failed:
  assumes "embed_batch env ids batch result w = (Inr (ok, result'), w')"
  shows "ir_failed result' = ir_failed result"
proof (cases "in_embed env")
  case None
  then show ?thesis using assms by (simp add: embed_batch_def act_return_def)
next
  case (Some f)
  then obtain vectors w1 where
    "(case vectors of
        Inl reason \<Rightarrow> act_return (False, result\<lparr>ir_degraded := Some reason\<rparr>)
      | Inr vs \<Rightarrow>
          act_bind (batch_node_ids ids batch) (\<lambda>node_ids.
            if node_ids = [] then act_return (True, result)
            else act_bind (gs_upsert_embeddings (in_store env) (zip node_ids vs)) (\<lambda>n.
              act_return (True, result\<lparr>ir_embeddings := ir_embeddings result + n\<rparr>)))) w1
     = (Inr (ok, result'), w')"
    using assms by (auto simp: embed_batch_def act_bind_Inr_iff)
  then show ?thesis
    by (cases vectors) (auto simp: act_bind_Inr_iff act_return_def split: if_split_asm)
qed

lemma keeps_check_cancelled:
  "pipeline_contract env repo on_ack hash vecs \<Longrightarrow> act_keeps (at_index hash vecs h V) (check_cancelled env)"
  unfolding check_cancelled_def by (intro keeps_bind keeps_if keeps_pure contract_keeps)

text \<open>
  After one batch either nothing new is recorded and the batch is counted as failed, or the
  batch is recorded with its vectors durable; an exception leaves one of the two.
\<close>

definition batch_settled ::
  "(parsed_file list \<Rightarrow> 'w \<Rightarrow> bool) \<Rightarrow> parsed_file list \<Rightarrow> parsed_file list \<Rightarrow> ingestion_result
   \<Rightarrow> bool \<times> ingestion_result \<Rightarrow> 'w \<Rightarrow> bool" where
  "batch_settled st acked batch result out w =
     (if fst out then st (acked @ batch) w \<and> ir_failed (snd out) = ir_failed result
      else st acked w \<and> ir_failed (snd out) = ir_failed result + length batch)"

lemma ensures_kept_or:
  assumes "act_keeps I m" "\<And>e w. I w \<Longrightarrow> E e w"
  shows "act_ensures I m (\<lambda>_. I) E"
  using assms(1) unfolding act_keeps_def by (rule ensures_weaken) (use assms(2) in auto)

lemma embed_batch_settles:
  assumes "pipeline_contract env repo on_ack hash vecs" "\<And>e w. at_index hash vecs h V w \<Longrightarrow> E e w"
  shows "act_ensures (at_index hash vecs h V) (embed_batch env ids batch result)
    (\<lambda>out w. at_index hash vecs h V w \<and> ir_failed (snd out) = ir_failed result) E"
proof (rule ensuresI)
  fix w w' out
  assume at: "at_index hash vecs h V w" and run: "embed_batch env ids batch result w = (Inr out, w')"
  show "at_index hash vecs h V w' \<and> ir_failed (snd out) = ir_failed result"
    using keepsD [OF keeps_embed_batch [OF assms(1)] at run] embed_batch_failed run
    by (cases out) auto
next
  fix w w' e
  assume "at_index hash vecs h V w" "embed_batch env ids batch result w = (Inl e, w')"
  then show "E e w'" using keepsD [OF keeps_embed_batch [OF assms(1)]] assms(2) by blast
qed

text \<open>What the check of the reopened sidecar confirms is durable.\<close>

lemma sidecar_confirms:
  assumes "pipeline_contract env repo on_ack hash vecs" "\<And>e w. at_index hash vecs h V w \<Longrightarrow> E e w"
  shows "act_ensures (at_index hash vecs h V) (check_sidecar env ids)
    (\<lambda>durable. at_index hash vecs h (if durable \<and> in_embed env \<noteq> None then V \<union> set ids else V)) E"
proof (cases "in_embed env \<noteq> None \<and> ids \<noteq> []")
  case True
  then have "check_sidecar env ids = gs_vectors_contain (in_store env) ids" by (auto simp: check_sidecar_def)
  moreover have "act_ensures (at_index hash vecs h V) (gs_vectors_contain (in_store env) ids)
    (\<lambda>durable. at_index hash vecs h (if durable \<and> in_embed env \<noteq> None then V \<union> set ids else V)) E"
    by (rule ensures_weaken [OF contract_contains [OF assms(1)]]) (use True assms(2) in auto)
  ultimately show ?thesis by simp
next
  case False
  then have "check_sidecar env ids = act_return True" by (auto simp: check_sidecar_def)
  then show ?thesis using False by (auto intro!: ensures_return)
qed

lemma at_index_less: "at_index hash vecs h (V \<union> X) w \<Longrightarrow> at_index hash vecs h V w"
  by (simp add: at_index_def)

lemma vectors_due_ids:
  "vectors_due env repo batch =
   (if in_embed env = None then {} else set (concat (map (\<lambda>pf. map snd (file_ids repo pf)) batch)))"
  by (simp add: vectors_due_def)

text \<open>The states before and after a batch is recorded, with its vectors durable in both.\<close>

definition either_recorded :: "(parsed_file list \<Rightarrow> 'w \<Rightarrow> bool) \<Rightarrow> parsed_file list \<Rightarrow> parsed_file list \<Rightarrow> exc \<Rightarrow> 'w \<Rightarrow> bool" where
  "either_recorded st acked batch e w = (st acked w \<or> st (acked @ batch) w)"

lemma record_batch_settles:
  assumes contract: "pipeline_contract env repo on_ack hash vecs" and "ir_failed result' = ir_failed result"
  shows "act_ensures
      (at_index hash vecs (recorded h (records_of acked)) (vectors_due env repo acked \<union> vectors_due env repo batch))
      (record_batch env repo on_ack batch result')
      (batch_settled (checkpointed env repo hash vecs h) acked batch result)
      (either_recorded (checkpointed env repo hash vecs h) acked batch)"
proof -
  let ?st = "checkpointed env repo hash vecs h"
  have after: "?st (acked @ batch) = at_index hash vecs (recorded (recorded h (records_of acked)) (records_of batch))
      (vectors_due env repo acked \<union> vectors_due env repo batch)"
    by (simp add: checkpointed_def recorded_append records_of_append vectors_due_append)
  show ?thesis
    unfolding record_batch_def
  proof (rule ensures_seq)
    show "act_ensures
        (at_index hash vecs (recorded h (records_of acked)) (vectors_due env repo acked \<union> vectors_due env repo batch))
        (gs_acknowledge (in_store env) (ingestion_records repo batch)) (\<lambda>_. ?st (acked @ batch))
        (either_recorded ?st acked batch)"
      unfolding after
      by (rule ensures_weaken [OF contract_acknowledge [OF contract]])
         (auto simp: acknowledged_records either_recorded_def checkpointed_def dest: at_index_less)
    have cb: "act_keeps (?st (acked @ batch)) (case on_ack of None \<Rightarrow> act_return () | Some f \<Rightarrow> f (map pf_rel batch))"
      unfolding after by (rule contract_callback [OF contract])
    show "act_ensures (?st (acked @ batch))
        (act_seq (case on_ack of None \<Rightarrow> act_return () | Some f \<Rightarrow> f (map pf_rel batch)) (act_return (True, result')))
        (batch_settled ?st acked batch result) (either_recorded ?st acked batch)"
      by (rule ensures_seq [OF ensures_kept_or [OF cb] ensures_return])
         (simp_all add: either_recorded_def batch_settled_def assms(2))
  qed
qed

lemma commit_batch_settles:
  assumes contract: "pipeline_contract env repo on_ack hash vecs" and "ir_failed result' = ir_failed result"
  shows "act_ensures
      (at_index hash vecs (recorded h (records_of acked)) (vectors_due env repo acked \<union> vectors_due env repo batch))
      (commit_batch env repo on_ack batch result')
      (batch_settled (checkpointed env repo hash vecs h) acked batch result)
      (either_recorded (checkpointed env repo hash vecs h) acked batch)"
  unfolding commit_batch_def
  by (rule ensures_bind [OF ensures_kept_or [OF keeps_stable] ensures_if [OF ensures_return record_batch_settles]])
     (auto simp: contract assms(2) either_recorded_def checkpointed_def batch_settled_def degraded_by_def
        batch_failed_def dest: at_index_less)

lemma confirm_batch_settles:
  assumes contract: "pipeline_contract env repo on_ack hash vecs" and same: "ir_failed result' = ir_failed result"
    and parsed: "distinct (map pf_rel parsed)" "set batch \<subseteq> set parsed"
  shows "act_ensures (checkpointed env repo hash vecs h acked)
      (confirm_batch env repo (entity_node_ids repo parsed) on_ack batch result')
      (batch_settled (checkpointed env repo hash vecs h) acked batch result)
      (either_recorded (checkpointed env repo hash vecs h) acked batch)"
proof -
  let ?st = "checkpointed env repo hash vecs h" and ?due = "concat (map (\<lambda>pf. map snd (file_ids repo pf)) batch)"
  have durable: "act_ensures (?st acked)
      (act_bind (check_sidecar env ?due) (\<lambda>durable.
         if \<not> durable then act_return (False, degraded_by lost (batch_failed batch result'))
         else commit_batch env repo on_ack batch result'))
      (batch_settled ?st acked batch result) (either_recorded ?st acked batch)" for lost
    unfolding checkpointed_def [of _ _ _ _ _ acked]
  proof (rule ensures_bind [OF sidecar_confirms [OF contract]])
    fix durable
    show "act_ensures
        (at_index hash vecs (recorded h (records_of acked))
          (if durable \<and> in_embed env \<noteq> None then vectors_due env repo acked \<union> set ?due else vectors_due env repo acked))
        (if \<not> durable then act_return (False, degraded_by lost (batch_failed batch result'))
         else commit_batch env repo on_ack batch result')
        (batch_settled ?st acked batch result) (either_recorded ?st acked batch)"
      using commit_batch_settles [OF contract same, of h acked batch]
      by (cases durable)
         (auto simp: vectors_due_ids [of _ _ batch] batch_settled_def degraded_by_def batch_failed_def same
            checkpointed_def intro!: ensures_return)
  qed (simp add: either_recorded_def checkpointed_def)
  have flush: "act_keeps (?st acked) (gs_flush (in_store env))"
    unfolding checkpointed_def by (rule contract_keeps(11) [OF contract])
  have ids: "act_bind (batch_node_ids (entity_node_ids repo parsed) batch) f = f ?due" for f :: "string list \<Rightarrow> ('a, bool \<times> ingestion_result) act"
    by (rule ext) (simp add: act_bind_def batch_node_ids_run [OF parsed])
  show ?thesis
    unfolding confirm_batch_def ids
    by (rule ensures_seq [OF ensures_kept_or [OF flush] durable]) (simp add: either_recorded_def)
qed

lemma acknowledge_batch_settles:
  assumes contract: "pipeline_contract env repo on_ack hash vecs"
    and parsed: "distinct (map pf_rel parsed)" "set batch \<subseteq> set parsed"
  shows "act_ensures (checkpointed env repo hash vecs h acked)
      (acknowledge_batch env repo (entity_node_ids repo parsed) on_ack batch result)
      (batch_settled (checkpointed env repo hash vecs h) acked batch result)
      (either_recorded (checkpointed env repo hash vecs h) acked batch)"
proof -
  let ?st = "checkpointed env repo hash vecs h"
  show ?thesis
    unfolding acknowledge_batch_def checkpointed_def [of _ _ _ _ _ acked]
  proof (rule ensures_bind [OF embed_batch_settles [OF contract]])
    fix out :: "bool \<times> ingestion_result"
    obtain ok result' where out: "out = (ok, result')" by (cases out)
    show "act_ensures
        (\<lambda>w. at_index hash vecs (recorded h (records_of acked)) (vectors_due env repo acked) w
             \<and> ir_failed (snd out) = ir_failed result)
        (case out of (embedded, result) \<Rightarrow>
           if \<not> embedded then act_return (False, batch_failed batch result)
           else confirm_batch env repo (entity_node_ids repo parsed) on_ack batch result)
        (batch_settled ?st acked batch result) (either_recorded ?st acked batch)"
      using confirm_batch_settles [OF contract _ parsed, of result' result h acked]
      by (intro ensures_given)
         (auto simp: out batch_settled_def batch_failed_def checkpointed_def intro!: ensures_return)
  qed (simp add: either_recorded_def checkpointed_def)
qed

section \<open>The loop over the batches\<close>

text \<open>
  However the loop ends, the batches recorded are a prefix of the plan; it returns a result
  without a new failure only after recording all of them.
\<close>

definition prefix_recorded ::
  "(parsed_file list \<Rightarrow> 'w \<Rightarrow> bool) \<Rightarrow> parsed_file list \<Rightarrow> parsed_file list list \<Rightarrow> 'w \<Rightarrow> bool" where
  "prefix_recorded st acked batches w = (\<exists>k. st (acked @ concat (take k batches)) w)"

lemma prefix_recorded_0: "st acked w \<Longrightarrow> prefix_recorded st acked batches w"
  unfolding prefix_recorded_def by (rule exI [of _ 0]) simp

lemma prefix_recorded_Suc: "prefix_recorded st (acked @ b) bs w \<Longrightarrow> prefix_recorded st acked (b # bs) w"
  unfolding prefix_recorded_def by (elim exE) (rule_tac x = "Suc k" in exI, simp)

lemma prefix_recorded_1: "st (acked @ b) w \<Longrightarrow> prefix_recorded st acked (b # bs) w"
  by (intro prefix_recorded_Suc prefix_recorded_0)

definition loop_result ::
  "(parsed_file list \<Rightarrow> 'w \<Rightarrow> bool) \<Rightarrow> parsed_file list \<Rightarrow> parsed_file list list \<Rightarrow> ingestion_result
   \<Rightarrow> ingestion_result \<Rightarrow> 'w \<Rightarrow> bool" where
  "loop_result st acked batches result result' w =
     (prefix_recorded st acked batches w \<and> ir_failed result \<le> ir_failed result'
      \<and> (ir_failed result' = ir_failed result \<longrightarrow> st (acked @ concat batches) w))"

lemma run_batches_settle:
  assumes contract: "pipeline_contract env repo on_ack hash vecs" and distinct: "distinct (map pf_rel parsed)"
    and batches: "list_all (\<lambda>b. b \<noteq> [] \<and> set b \<subseteq> set parsed) batches"
  shows "act_ensures (checkpointed env repo hash vecs h acked)
    (run_batches env repo (entity_node_ids repo parsed) on_ack planned number batches result)
    (loop_result (checkpointed env repo hash vecs h) acked batches result)
    (\<lambda>_. prefix_recorded (checkpointed env repo hash vecs h) acked batches)"
  using batches
proof (induction batches arbitrary: acked number result)
  case Nil
  then show ?case by (auto intro!: ensures_return prefix_recorded_0 simp: loop_result_def)
next
  case (Cons b bs)
  let ?st = "checkpointed env repo hash vecs h"
  let ?E = "\<lambda>(_ :: exc). prefix_recorded ?st acked (b # bs)"
  have b: "b \<noteq> []" "set b \<subseteq> set parsed" and bs: "list_all (\<lambda>b. b \<noteq> [] \<and> set b \<subseteq> set parsed) bs"
    using Cons.prems by simp_all
  have keep: "act_keeps (?st acked) (check_cancelled env)" "act_keeps (?st acked) (in_report env p)" for p
    unfolding checkpointed_def by (rule keeps_check_cancelled [OF contract], rule contract_keeps(15) [OF contract])
  have rest: "act_ensures (batch_settled ?st acked b result out)
      (case out of (go_on, result) \<Rightarrow>
         if go_on then run_batches env repo (entity_node_ids repo parsed) on_ack planned (number + 1) bs result
         else act_return result)
      (loop_result ?st acked (b # bs) result) ?E" for out
  proof (cases out)
    case (Pair go_on result')
    show ?thesis
    proof (cases go_on)
      case True
      have "batch_settled ?st acked b result out = (\<lambda>w. ?st (acked @ b) w \<and> ir_failed result' = ir_failed result)"
        by (simp add: batch_settled_def Pair True fun_eq_iff)
      moreover have "act_ensures (?st (acked @ b))
          (run_batches env repo (entity_node_ids repo parsed) on_ack planned (number + 1) bs result')
          (loop_result ?st acked (b # bs) result) ?E" if "ir_failed result' = ir_failed result"
        by (rule ensures_weaken [OF Cons.IH [OF bs, of "acked @ b" "number + 1" result']])
           (auto simp: loop_result_def that intro: prefix_recorded_Suc)
      ultimately show ?thesis unfolding Pair split_conv if_P [OF True] by (auto intro: ensures_given)
    next
      case False
      then show ?thesis using b(1)
        by (auto simp: Pair batch_settled_def loop_result_def intro!: ensures_return prefix_recorded_0)
    qed
  qed
  have batch: "act_ensures (?st acked)
      (act_bind (acknowledge_batch env repo (entity_node_ids repo parsed) on_ack b result)
        (\<lambda>(go_on, result).
           if go_on then run_batches env repo (entity_node_ids repo parsed) on_ack planned (number + 1) bs result
           else act_return result))
      (loop_result ?st acked (b # bs) result) ?E"
    by (rule ensures_bind [OF _ rest], rule ensures_weaken [OF acknowledge_batch_settles [OF contract distinct b(2)]])
       (auto simp: either_recorded_def intro: prefix_recorded_0 prefix_recorded_1)
  show ?case
    unfolding run_batches.simps
    by (intro ensures_seq [OF ensures_kept_or [OF keep(1)]] ensures_seq [OF ensures_kept_or [OF keep(2)]] batch
        prefix_recorded_0)
qed

section \<open>Parsing and the structural replacement\<close>

definition parsed_from :: "'w ingest_env \<Rightarrow> parsed_file \<Rightarrow> bool" where
  "parsed_from env pf = (\<exists>bytes. parse_source env (pf_entry pf) bytes = Inr pf)"

lemma parse_source_entry: "parse_source env entry bytes = Inr pf \<Longrightarrow> pf_entry pf = entry"
  by (auto simp: parse_source_def and_then_Inr_iff Let_def split: if_split_asm)

lemma parse_files_run:
  "parse_files env entries w = (r, w') \<Longrightarrow>
   w' = w \<and> (\<exists>parsed failed. r = Inr (parsed, failed) \<and> subseq (map pf_entry parsed) entries
     \<and> list_all (parsed_from env) parsed \<and> (failed = [] \<longrightarrow> map pf_entry parsed = entries))"
proof (induction entries arbitrary: r w')
  case Nil
  then have "r = Inr ([], [])" "w' = w" by (simp_all add: act_return_def)
  then show ?case by simp
next
  case (Cons entry entries)
  obtain parsed failed where rest: "parse_files env entries w = (Inr (parsed, failed), w)"
    and facts: "subseq (map pf_entry parsed) entries" "list_all (parsed_from env) parsed"
      "failed = [] \<longrightarrow> map pf_entry parsed = entries"
    using Cons.IH by (cases "parse_files env entries w") blast
  have one: "parse_file env entry w =
      (and_then (dv_read_bytes (in_disk env w) (fe_abs_path entry)) (parse_source env entry), w)"
    by (simp add: parse_file_def read_bytes_def act_bind_def act_lift_def and_then_def split: sum.split)
  show ?case
  proof (cases "and_then (dv_read_bytes (in_disk env w) (fe_abs_path entry)) (parse_source env entry)")
    case (Inl e)
    then show ?thesis using Cons.prems rest facts one
      by (auto simp: act_bind_def act_handle_def act_return_def)
  next
    case (Inr pf)
    then obtain bytes where "parse_source env entry bytes = Inr pf" by (auto simp: and_then_Inr_iff)
    then have "pf_entry pf = entry" "parsed_from env pf"
      using parse_source_entry [of env entry bytes pf] by (auto simp: parsed_from_def)
    then show ?thesis using Cons.prems rest facts one Inr
      by (auto simp: act_bind_def act_handle_def act_return_def)
  qed
qed

abbreviation hashes_are :: "('w \<Rightarrow> string \<Rightarrow> string option) \<Rightarrow> ('w \<Rightarrow> string set) \<Rightarrow> (string \<Rightarrow> string option) \<Rightarrow> 'w \<Rightarrow> bool" where
  "hashes_are hash vecs h \<equiv> at_index hash vecs h {}"

lemma keeps_delete_nodes:
  assumes "pipeline_contract env repo on_ack hash vecs"
  shows "act_keeps (hashes_are hash vecs h) (gs_delete_nodes (in_store env) ids)"
proof (rule keepsI)
  fix w r w' assume "hashes_are hash vecs h w" "gs_delete_nodes (in_store env) ids w = (r, w')"
  then show "hashes_are hash vecs h w'" using delete_nodes_answer [OF assms, of ids w] by (simp add: at_index_def)
qed

lemma keeps_prepare_all:
  assumes "pipeline_contract env repo on_ack hash vecs"
  shows "act_keeps (at_index hash vecs h V) (prepare_all env repo changed es st)"
proof (induction es arbitrary: st)
  case Nil
  then show ?case by (simp add: keeps_pure)
next
  case (Cons e es)
  have "act_keeps (at_index hash vecs h V) (resolve_name env repo changed cache name)" for cache name
    by (auto simp: resolve_name_def split: option.split intro!: keeps_bind contract_keeps [OF assms])
  then have one: "act_keeps (at_index hash vecs h V) (prepare_edge env repo changed l d st)" for l d st
    unfolding prepare_edge_def by (auto intro!: keeps_bind split: prod.split)
  obtain l d where e: "e = (l, d)" by (cases e)
  show ?case unfolding e prepare_all.simps by (rule keeps_bind [OF one Cons.IH])
qed

lemma replace_structure_settles:
  assumes contract: "pipeline_contract env repo on_ack hash vecs"
  shows "act_ensures (hashes_are hash vecs h) (replace_structure env repo repo_id parsed result)
    (\<lambda>result' w. hashes_are hash vecs h w \<and> ir_failed result' = ir_failed result) (\<lambda>_. hashes_are hash vecs h)"
proof -
  note keep = contract_keeps [OF contract] keeps_delete_nodes [OF contract]
  have "act_keeps (hashes_are hash vecs h) (replace_structure env repo repo_id parsed result)"
    unfolding replace_structure_def prepare_edges_def retained_inbound_edges_def Let_def
    by (intro keeps_bind keeps_seq keeps_if keeps_map keeps_pure keep keeps_prepare_all [OF contract])
  moreover have "ir_failed result' = ir_failed result"
    if "replace_structure env repo repo_id parsed result w = (Inr result', w')" for w w' result'
    using that by (auto simp: replace_structure_def act_seq_def act_bind_Inr_iff act_return_def Let_def)
  ultimately show ?thesis by (intro ensuresI conjI) (auto dest: keepsD)
qed

section \<open>Deletions\<close>

text \<open>However a deletion ends, the records wiped are some of the given paths; all when it returns.\<close>

definition some_wiped ::
  "('w \<Rightarrow> string \<Rightarrow> string option) \<Rightarrow> (string \<Rightarrow> string option) \<Rightarrow> string set \<Rightarrow> 'w \<Rightarrow> bool" where
  "some_wiped hash h P w = (\<exists>D. D \<subseteq> P \<and> hash w = wiped D h)"

lemma wiped_wiped: "wiped D (wiped D' h) = wiped (D \<union> D') h"
  by (auto simp: wiped_def fun_eq_iff)

lemma wiped_empty [simp]: "wiped {} h = h"
  by (simp add: wiped_def fun_eq_iff)

lemma delete_batch_settles:
  assumes contract: "pipeline_contract env repo on_ack hash vecs"
  shows "act_ensures (hashes_are hash vecs h) (delete_batch env repo batch)
    (\<lambda>_. hashes_are hash vecs (wiped (set batch) h)) (\<lambda>_. hashes_are hash vecs h)"
proof -
  have records: "act_ensures (hashes_are hash vecs h) (gs_delete_records (in_store env) repo batch)
      (\<lambda>_. hashes_are hash vecs (wiped (set batch) h)) (\<lambda>_. hashes_are hash vecs h)"
  proof (rule ensuresI)
    fix w w' n assume "hashes_are hash vecs h w" "gs_delete_records (in_store env) repo batch w = (Inr n, w')"
    then show "hashes_are hash vecs (wiped (set batch) h) w'"
      using delete_records_answer [OF contract, of w batch] by (simp add: at_index_def)
  next
    fix w w' e assume "hashes_are hash vecs h w" "gs_delete_records (in_store env) repo batch w = (Inl e, w')"
    then show "hashes_are hash vecs h w'"
      using delete_records_answer [OF contract, of w batch] by (simp add: at_index_def)
  qed
  note keep = contract_keeps [OF contract] keeps_delete_nodes [OF contract] keeps_check_cancelled [OF contract]
  show ?thesis
    unfolding delete_batch_def Let_def
    by (intro ensures_seq [OF ensures_kept] ensures_bind [OF ensures_kept] keeps_map keeps_if keep keeps_pure
        ensures_if ensures_raise ensures_seq [OF records] ensures_return)
qed

lemma delete_batches_settle:
  assumes contract: "pipeline_contract env repo on_ack hash vecs"
  shows "act_ensures (hashes_are hash vecs h) (delete_batches env repo batches)
    (\<lambda>_. hashes_are hash vecs (wiped (set (concat batches)) h)) (\<lambda>_. some_wiped hash h (set (concat batches)))"
proof (induction batches arbitrary: h)
  case Nil
  then show ?case by (simp add: ensures_return)
next
  case (Cons b bs)
  show ?case
    unfolding delete_batches.simps
  proof (rule ensures_seq)
    show "act_ensures (hashes_are hash vecs h) (delete_batch env repo b) (\<lambda>_. hashes_are hash vecs (wiped (set b) h))
        (\<lambda>_. some_wiped hash h (set (concat (b # bs))))"
      by (rule ensures_weaken [OF delete_batch_settles [OF contract]])
         (auto simp: some_wiped_def at_index_def intro!: exI [of _ "{}"])
    show "act_ensures (hashes_are hash vecs (wiped (set b) h)) (delete_batches env repo bs)
        (\<lambda>_. hashes_are hash vecs (wiped (set (concat (b # bs))) h)) (\<lambda>_. some_wiped hash h (set (concat (b # bs))))"
    proof (rule ensures_weaken [OF Cons.IH])
      fix w and e :: exc
      assume "some_wiped hash (wiped (set b) h) (set (concat bs)) w"
      then obtain D where "D \<subseteq> set (concat bs)" "hash w = wiped (D \<union> set b) h"
        by (auto simp: some_wiped_def wiped_wiped)
      then show "some_wiped hash h (set (concat (b # bs))) w"
        unfolding some_wiped_def by (intro exI [of _ "D \<union> set b"]) auto
    qed (simp_all add: wiped_wiped Un_commute)
  qed
qed

lemma delete_paths_settle:
  assumes contract: "pipeline_contract env repo on_ack hash vecs"
  shows "act_ensures (hashes_are hash vecs h) (delete_paths env repo paths)
    (\<lambda>_. hashes_are hash vecs (wiped (set paths) h)) (\<lambda>_. some_wiped hash h (set paths))"
proof -
  have all: "set (concat (slices batch_max_files (sorted_set paths))) = set paths"
    by (simp add: concat_slices batch_max_files_def)
  show ?thesis
    unfolding delete_paths_def Let_def
    using delete_batches_settle [OF contract, of h "slices batch_max_files (sorted_set paths)"]
    by (intro ensures_seq [OF _ ensures_return]) (simp_all only: all)
qed

section \<open>One ingestion\<close>

text \<open>What a run may have recorded: freshly parsed files of the selected entries, one per path.\<close>

definition fresh_files :: "'w ingest_env \<Rightarrow> file_entry list \<Rightarrow> parsed_file list \<Rightarrow> bool" where
  "fresh_files env changed acked =
     (distinct (map pf_rel acked) \<and> list_all (\<lambda>pf. parsed_from env pf \<and> pf_entry pf \<in> set changed) acked)"

definition ingested ::
  "'w ingest_env \<Rightarrow> string \<Rightarrow> ('w \<Rightarrow> string \<Rightarrow> string option) \<Rightarrow> ('w \<Rightarrow> string set)
   \<Rightarrow> (string \<Rightarrow> string option) \<Rightarrow> file_entry list \<Rightarrow> 'w \<Rightarrow> bool" where
  "ingested env repo hash vecs h changed w =
     (\<exists>acked. fresh_files env changed acked \<and> checkpointed env repo hash vecs h acked w)"

definition fully_ingested ::
  "'w ingest_env \<Rightarrow> string \<Rightarrow> ('w \<Rightarrow> string \<Rightarrow> string option) \<Rightarrow> ('w \<Rightarrow> string set)
   \<Rightarrow> (string \<Rightarrow> string option) \<Rightarrow> file_entry list \<Rightarrow> 'w \<Rightarrow> bool" where
  "fully_ingested env repo hash vecs h changed w =
     (\<exists>acked. fresh_files env changed acked \<and> pf_entry ` set acked = set changed
        \<and> checkpointed env repo hash vecs h acked w)"

lemma checkpointed_Nil: "checkpointed env repo hash vecs h [] = hashes_are hash vecs h"
  by (simp add: checkpointed_def records_of_def vectors_due_def)

lemma ingested_nothing: "hashes_are hash vecs h w \<Longrightarrow> ingested env repo hash vecs h changed w"
  unfolding ingested_def by (rule exI [of _ "[]"]) (simp add: fresh_files_def checkpointed_Nil)

lemma plan_batches_facts:
  "concat (plan_batches parsed) = parsed" "b \<in> set (plan_batches parsed) \<Longrightarrow> b \<noteq> []"
  using plan_batches_from_partition [of "[]" parsed] by (auto simp: plan_batches_def list_all_iff batch_ok_def)

lemma planned_batches:
  "list_all (\<lambda>b. b \<noteq> [] \<and> set b \<subseteq> set parsed) (plan_batches (sort_key pf_rel parsed))"
proof -
  have "set b \<subseteq> set parsed" if "b \<in> set (plan_batches (sort_key pf_rel parsed))" for b
    using that arg_cong [OF plan_batches_facts(1) [of "sort_key pf_rel parsed"], of set] by auto
  then show ?thesis by (auto simp: list_all_iff plan_batches_facts(2))
qed

lemma subseq_subset: "subseq xs ys \<Longrightarrow> set xs \<subseteq> set ys"
  by (induction rule: list_emb.induct) auto

lemma subseq_distinct: "subseq xs ys \<Longrightarrow> distinct ys \<Longrightarrow> distinct xs"
  by (induction rule: list_emb.induct) (auto dest: list_emb_set)

lemma fresh_prefix:
  assumes "distinct (map fe_rel_path changed)" "subseq (map pf_entry parsed) changed" "list_all (parsed_from env) parsed"
  shows "distinct (map pf_rel parsed)"
    "fresh_files env changed (concat (take k (plan_batches (sort_key pf_rel parsed))))"
proof -
  have "subseq (map fe_rel_path (map pf_entry parsed)) (map fe_rel_path changed)"
    using assms(2) by (rule subseq_map)
  then have "distinct (map fe_rel_path (map pf_entry parsed))" using assms(1) by (rule subseq_distinct)
  moreover have rel: "pf_rel = fe_rel_path \<circ> pf_entry" by (simp add: fun_eq_iff pf_rel_def)
  ultimately show d: "distinct (map pf_rel parsed)" by simp
  let ?s = "sort_key pf_rel parsed" and ?acked = "concat (take k (plan_batches (sort_key pf_rel parsed)))"
  have "?acked @ concat (drop k (plan_batches ?s)) = ?s"
    by (metis append_take_drop_id concat_append plan_batches_facts(1))
  then have pre: "?s = ?acked @ concat (drop k (plan_batches ?s))" by simp
  have "distinct (map pf_rel ?s)"
    using d by (simp add: distinct_map)
  then have "distinct (map pf_rel ?acked)" by (subst (asm) pre) simp
  moreover have "set ?acked \<subseteq> set parsed" by (metis pre set_append set_sort Un_upper1)
  moreover have "pf_entry ` set parsed \<subseteq> set changed"
    using subseq_subset [OF assms(2)] by simp
  ultimately show "fresh_files env changed ?acked" using assms(3) by (auto simp: fresh_files_def list_all_iff)
qed

lemma parse_files_settle:
  "act_ensures (hashes_are hash vecs h) (parse_files env changed)
    (\<lambda>out w. hashes_are hash vecs h w
       \<and> subseq (map pf_entry (fst out)) changed \<and> list_all (parsed_from env) (fst out)
       \<and> (snd out = [] \<longrightarrow> map pf_entry (fst out) = changed))
    (\<lambda>_. ingested env repo hash vecs h changed)"
  by (rule ensuresI) (use parse_files_run in \<open>fastforce+\<close>)

lemma ingest_changed_settles:
  assumes contract: "pipeline_contract env repo on_ack hash vecs" and distinct: "distinct (map fe_rel_path changed)"
  shows "act_ensures (hashes_are hash vecs h) (ingest_changed env repo repo_id changed on_ack result)
    (\<lambda>result' w. ingested env repo hash vecs h changed w
       \<and> (ir_failed result' = 0 \<longrightarrow> fully_ingested env repo hash vecs h changed w))
    (\<lambda>_. ingested env repo hash vecs h changed)"
proof -
  let ?E = "\<lambda>(_ :: exc). ingested env repo hash vecs h changed"
  let ?Q = "\<lambda>result' w. ingested env repo hash vecs h changed w
       \<and> (ir_failed result' = 0 \<longrightarrow> fully_ingested env repo hash vecs h changed w)"
  have kept: "act_ensures (hashes_are hash vecs h) m (\<lambda>_. hashes_are hash vecs h) ?E"
    if "act_keeps (hashes_are hash vecs h) m" for m :: "('a, 'b) act"
    by (rule ensures_kept_or [OF that]) (rule ingested_nothing)
  have report: "act_keeps (hashes_are hash vecs h) (report_parsed env n k pfs)" for n k pfs
    by (induction pfs arbitrary: n) (auto intro!: keeps_seq contract_keeps [OF contract])
  have loop: "act_ensures (hashes_are hash vecs h)
      (run_batches env repo (entity_node_ids repo parsed) on_ack n 1 (plan_batches (sort_key pf_rel parsed)) result')
      ?Q ?E"
    if parsed: "subseq (map pf_entry parsed) changed" "list_all (parsed_from env) parsed"
      "failed = [] \<longrightarrow> map pf_entry parsed = changed" and res: "ir_failed result' = length failed"
    for parsed result' n and failed :: "file_entry list"
  proof (rule ensures_weaken)
    note pre = fresh_prefix [OF distinct parsed(1,2)]
    show "act_ensures (checkpointed env repo hash vecs h [])
      (run_batches env repo (entity_node_ids repo parsed) on_ack n 1 (plan_batches (sort_key pf_rel parsed)) result')
      (loop_result (checkpointed env repo hash vecs h) [] (plan_batches (sort_key pf_rel parsed)) result')
      (\<lambda>_. prefix_recorded (checkpointed env repo hash vecs h) [] (plan_batches (sort_key pf_rel parsed)))"
      by (rule run_batches_settle [OF contract pre(1) planned_batches])
    show "?E e w" if "prefix_recorded (checkpointed env repo hash vecs h) [] (plan_batches (sort_key pf_rel parsed)) w" for e w
      using that pre(2) by (auto simp: prefix_recorded_def ingested_def)
    fix r w
    assume loop: "loop_result (checkpointed env repo hash vecs h) [] (plan_batches (sort_key pf_rel parsed)) result' r w"
    then have "ingested env repo hash vecs h changed w"
      using pre(2) by (auto simp: loop_result_def prefix_recorded_def ingested_def)
    moreover have "fully_ingested env repo hash vecs h changed w" if "ir_failed r = 0"
    proof -
      have "failed = []" "checkpointed env repo hash vecs h (sort_key pf_rel parsed) w"
        using loop that res by (simp_all add: loop_result_def plan_batches_facts(1))
      moreover have "fresh_files env changed (sort_key pf_rel parsed)"
        using pre(2) [of "length (plan_batches (sort_key pf_rel parsed))"] by (simp add: plan_batches_facts(1))
      moreover have "pf_entry ` set (sort_key pf_rel parsed) = set changed"
        using parsed(3) \<open>failed = []\<close> by (metis list.set_map set_sort)
      ultimately show ?thesis unfolding fully_ingested_def by blast
    qed
    ultimately show "?Q r w" by blast
  qed (simp add: checkpointed_Nil)
  have replaced: "act_ensures (hashes_are hash vecs h)
      (act_bind (replace_structure env repo repo_id parsed (result\<lparr>ir_failed := length failed\<rparr>)) (\<lambda>result.
         let batches = plan_batches (sort_key pf_rel parsed) in
         run_batches env repo (entity_node_ids repo parsed) on_ack (length batches) 1 batches result)) ?Q ?E"
    if "subseq (map pf_entry parsed) changed" "list_all (parsed_from env) parsed"
      "failed = [] \<longrightarrow> map pf_entry parsed = changed" for parsed and failed :: "file_entry list"
    unfolding Let_def
    by (rule ensures_bind [OF ensures_weaken [OF replace_structure_settles [OF contract]] ensures_given [OF loop [OF that]]])
       (auto intro: ingested_nothing)
  have parsed: "act_ensures (\<lambda>w. hashes_are hash vecs h w
       \<and> subseq (map pf_entry (fst out)) changed \<and> list_all (parsed_from env) (fst out)
       \<and> (snd out = [] \<longrightarrow> map pf_entry (fst out) = changed))
    (case out of (parsed, failed) \<Rightarrow>
       act_seq (check_cancelled env)
      (act_seq (report_parsed env 1 (length changed) parsed)
      (act_bind (replace_structure env repo repo_id parsed (result\<lparr>ir_failed := length failed\<rparr>)) (\<lambda>result.
         let batches = plan_batches (sort_key pf_rel parsed) in
         run_batches env repo (entity_node_ids repo parsed) on_ack (length batches) 1 batches result)))) ?Q ?E"
    for out :: "parsed_file list \<times> file_entry list"
  proof (cases out)
    case (Pair parsed failed)
    show ?thesis unfolding Pair split_conv fst_conv snd_conv
    proof (rule ensures_given)
      assume facts: "subseq (map pf_entry parsed) changed \<and> list_all (parsed_from env) parsed
        \<and> (failed = [] \<longrightarrow> map pf_entry parsed = changed)"
      show "act_ensures (hashes_are hash vecs h)
        (act_seq (check_cancelled env)
        (act_seq (report_parsed env 1 (length changed) parsed)
        (act_bind (replace_structure env repo repo_id parsed (result\<lparr>ir_failed := length failed\<rparr>)) (\<lambda>result.
           let batches = plan_batches (sort_key pf_rel parsed) in
           run_batches env repo (entity_node_ids repo parsed) on_ack (length batches) 1 batches result)))) ?Q ?E"
        by (rule ensures_seq [OF kept [OF keeps_check_cancelled [OF contract]]],
            rule ensures_seq [OF kept [OF report]], rule replaced) (use facts in auto)
    qed
  qed
  show ?thesis
    unfolding ingest_changed_def
    by (intro ensures_seq [OF kept] keeps_check_cancelled [OF contract] contract_keeps(15) [OF contract]
        ensures_bind [OF parse_files_settle parsed])
qed

section \<open>The index moves towards the sources\<close>

text \<open>
  The abstract meaning of an ingestion: a path of an entry gets the hash of that entry, any
  other path is forgotten by a sweep and kept otherwise.
\<close>

definition sync_target ::
  "(string \<Rightarrow> string option) \<Rightarrow> file_entry list \<Rightarrow> bool \<Rightarrow> string \<Rightarrow> string option" where
  "sync_target h entries sweep p =
     (case map_of (map (\<lambda>e. (fe_rel_path e, fe_content_hash e)) entries) p of
        Some v \<Rightarrow> Some v | None \<Rightarrow> if sweep then None else h p)"

definition between :: "(string \<Rightarrow> string option) \<Rightarrow> (string \<Rightarrow> string option) \<Rightarrow> (string \<Rightarrow> string option) \<Rightarrow> bool" where
  "between h t h' = (\<forall>p. h' p = h p \<or> h' p = t p)"

text \<open>Where a run of \<open>ingest_entries\<close> stands: some paths swept, some fresh files recorded.\<close>

definition run_stands ::
  "'w ingest_env \<Rightarrow> string \<Rightarrow> ('w \<Rightarrow> string \<Rightarrow> string option) \<Rightarrow> ('w \<Rightarrow> string set)
   \<Rightarrow> (string \<Rightarrow> string option) \<Rightarrow> file_entry list \<Rightarrow> bool \<Rightarrow> 'w \<Rightarrow> bool" where
  "run_stands env repo hash vecs h entries sweep w =
     (\<exists>D. D \<inter> fe_rel_path ` set entries = {} \<and> (D = {} \<or> sweep)
        \<and> ingested env repo hash vecs (wiped D h) entries w)"

definition sweeps :: "(string \<Rightarrow> string option) \<Rightarrow> file_entry list \<Rightarrow> bool \<Rightarrow> string set \<Rightarrow> bool" where
  "sweeps h entries sweep D =
     (D \<inter> fe_rel_path ` set entries = {} \<and> (D = {} \<or> sweep)
      \<and> (sweep \<longrightarrow> dom h \<subseteq> D \<union> fe_rel_path ` set entries))"

definition run_complete ::
  "'w ingest_env \<Rightarrow> string \<Rightarrow> ('w \<Rightarrow> string \<Rightarrow> string option) \<Rightarrow> ('w \<Rightarrow> string set)
   \<Rightarrow> (string \<Rightarrow> string option) \<Rightarrow> file_entry list \<Rightarrow> bool \<Rightarrow> 'w \<Rightarrow> bool" where
  "run_complete env repo hash vecs h entries sweep w =
     (\<exists>D changed. sweeps h entries sweep D
        \<and> set changed \<subseteq> set entries
        \<and> list_all (\<lambda>e. e \<in> set changed \<or> h (fe_rel_path e) = Some (fe_content_hash e)) entries
        \<and> fully_ingested env repo hash vecs (wiped D h) changed w)"

lemma fresh_more: "set changed \<subseteq> set entries \<Longrightarrow> fresh_files env changed acked \<Longrightarrow> fresh_files env entries acked"
  by (auto simp: fresh_files_def list_all_iff)

lemma ingested_more:
  "set changed \<subseteq> set entries \<Longrightarrow> ingested env repo hash vecs h changed w \<Longrightarrow> ingested env repo hash vecs h entries w"
  unfolding ingested_def using fresh_more by blast

lemma select_changed_facts:
  "set (select_changed force hashes missing entries) \<subseteq> set entries"
  "distinct (map fe_rel_path entries) \<Longrightarrow> distinct (map fe_rel_path (select_changed force hashes missing entries))"
  "list_all (\<lambda>e. e \<in> set (select_changed force hashes missing entries)
     \<or> map_of hashes (fe_rel_path e) = Some (fe_content_hash e)) entries"
  by (auto simp: select_changed_def list_all_iff distinct_map_filter)

definition sweep_entries ::
  "'w ingest_env \<Rightarrow> string \<Rightarrow> file_entry list \<Rightarrow> bool \<Rightarrow> (string \<times> string) list \<Rightarrow> ('w, nat) act" where
  "sweep_entries env repo entries sweep hashes =
     (if sweep
      then act_bind (gs_file_paths (in_store env) repo) (\<lambda>paths.
        delete_paths env repo
          (filter (\<lambda>p. p \<notin> fe_rel_path ` set entries) (paths @ map fst hashes)))
      else act_return 0)"

definition swept :: "('w \<Rightarrow> string \<Rightarrow> string option) \<Rightarrow> (string \<Rightarrow> string option) \<Rightarrow> file_entry list \<Rightarrow> bool \<Rightarrow> 'w \<Rightarrow> bool" where
  "swept hash h entries sweep w =
     (\<exists>D. D \<inter> fe_rel_path ` set entries = {} \<and> (D = {} \<or> sweep) \<and> hash w = wiped D h)"

definition sweep_complete ::
  "('w \<Rightarrow> string \<Rightarrow> string option) \<Rightarrow> (string \<Rightarrow> string option) \<Rightarrow> file_entry list \<Rightarrow> bool \<Rightarrow> string set \<Rightarrow> 'w \<Rightarrow> bool" where
  "sweep_complete hash h entries sweep D w = (hash w = wiped D h \<and> sweeps h entries sweep D)"

lemma sweep_settles:
  assumes contract: "pipeline_contract env repo on_ack hash vecs" and hashes: "map_of hashes = h"
  shows "act_ensures (hashes_are hash vecs h) (sweep_entries env repo entries sweep hashes)
    (\<lambda>_ w. \<exists>D. sweep_complete hash h entries sweep D w) (\<lambda>_. swept hash h entries sweep)"
proof (cases sweep)
  case False
  then show ?thesis
    unfolding sweep_entries_def
    by (auto intro!: ensures_return exI [of _ "{}"] simp: sweep_complete_def sweeps_def at_index_def)
next
  case True
  have dom: "dom h \<subseteq> set (map fst hashes)" unfolding hashes [symmetric] by (auto dest!: map_of_SomeD intro: rev_image_eqI)
  have start: "hashes_are hash vecs h w \<Longrightarrow> swept hash h entries sweep w" for w
    by (auto simp: swept_def at_index_def intro!: exI [of _ "{}"])
  have del: "act_ensures (hashes_are hash vecs h)
      (delete_paths env repo (filter (\<lambda>p. p \<notin> fe_rel_path ` set entries) (paths @ map fst hashes)))
      (\<lambda>_ w. \<exists>D. sweep_complete hash h entries sweep D w) (\<lambda>_. swept hash h entries sweep)" for paths
  proof (rule ensures_weaken [OF delete_paths_settle [OF contract]])
    let ?P = "set (filter (\<lambda>p. p \<notin> fe_rel_path ` set entries) (paths @ map fst hashes))"
    fix n :: nat and w
    assume "hashes_are hash vecs (wiped ?P h) w"
    then show "\<exists>D. sweep_complete hash h entries sweep D w"
      using True dom by (intro exI [of _ ?P]) (auto simp: sweep_complete_def sweeps_def at_index_def)
  next
    let ?P = "set (filter (\<lambda>p. p \<notin> fe_rel_path ` set entries) (paths @ map fst hashes))"
    fix e :: exc and w
    assume "some_wiped hash h ?P w"
    then obtain D where "D \<subseteq> ?P" "hash w = wiped D h" unfolding some_wiped_def by blast
    then show "swept hash h entries sweep w" using True unfolding swept_def by (intro exI [of _ D]) auto
  qed simp
  have eq: "sweep_entries env repo entries sweep hashes = act_bind (gs_file_paths (in_store env) repo) (\<lambda>paths.
        delete_paths env repo (filter (\<lambda>p. p \<notin> fe_rel_path ` set entries) (paths @ map fst hashes)))"
    by (simp add: sweep_entries_def True)
  show ?thesis
    unfolding eq by (rule ensures_bind [OF ensures_kept_or [OF contract_keeps(3) [OF contract] start] del])
qed

lemma stands_swept: "swept hash h entries sweep w \<Longrightarrow> run_stands env repo hash vecs h entries sweep w"
  unfolding swept_def run_stands_def
  by (elim exE) (auto intro!: ingested_nothing exI simp: at_index_def)

lemma ensures_pre: "(\<And>x. act_ensures (P x) m Q E) \<Longrightarrow> act_ensures (\<lambda>w. \<exists>x. P x w) m Q E"
  by (rule ensuresI) (blast dest: ensures_Inr ensures_Inl)+

lemma changed_after_sweep:
  assumes contract: "pipeline_contract env repo on_ack hash vecs" and distinct: "distinct (map fe_rel_path entries)"
    and hashes: "map_of hashes = h" and changed: "changed = select_changed force hashes missing entries"
  shows "act_ensures (sweep_complete hash h entries sweep D)
    (if changed = [] then act_return result else ingest_changed env repo repo_id changed on_ack result)
    (\<lambda>result' w. run_stands env repo hash vecs h entries sweep w
       \<and> (ir_failed result' = 0 \<longrightarrow> run_complete env repo hash vecs h entries sweep w))
    (\<lambda>_. run_stands env repo hash vecs h entries sweep)"
proof -
  note facts = select_changed_facts [where force = force and hashes = hashes and missing = missing and entries = entries, folded changed]
  have pre: "sweep_complete hash h entries sweep D =
      (\<lambda>w. hashes_are hash vecs (wiped D h) w \<and> sweeps h entries sweep D)"
    by (simp add: sweep_complete_def at_index_def fun_eq_iff)
  have stands: "run_stands env repo hash vecs h entries sweep w"
    if "ingested env repo hash vecs (wiped D h) changed w" "sweeps h entries sweep D" for w
    using ingested_more [OF facts(1) that(1)] that(2) unfolding run_stands_def sweeps_def
    by - (elim conjE, intro exI [of _ D] conjI; assumption)
  have complete: "run_complete env repo hash vecs h entries sweep w"
    if "fully_ingested env repo hash vecs (wiped D h) changed w" "sweeps h entries sweep D" for w
    using that facts(1) facts(3) [unfolded hashes] unfolding run_complete_def by blast
  have none_due: "fully_ingested env repo hash vecs (wiped D h) [] w" if "hashes_are hash vecs (wiped D h) w" for w
    unfolding fully_ingested_def using that
    by (intro exI [of _ "[]"]) (simp add: fresh_files_def checkpointed_Nil)
  show ?thesis
    unfolding pre
  proof (rule ensures_given, cases "changed = []")
    case True
    assume good: "sweeps h entries sweep D"
    show "act_ensures (hashes_are hash vecs (wiped D h))
      (if changed = [] then act_return result else ingest_changed env repo repo_id changed on_ack result)
      (\<lambda>result' w. run_stands env repo hash vecs h entries sweep w
         \<and> (ir_failed result' = 0 \<longrightarrow> run_complete env repo hash vecs h entries sweep w))
      (\<lambda>_. run_stands env repo hash vecs h entries sweep)"
      unfolding if_P [OF True]
    proof (rule ensures_return)
      fix w assume at: "hashes_are hash vecs (wiped D h) w"
      have full: "fully_ingested env repo hash vecs (wiped D h) changed w" unfolding True by (rule none_due [OF at])
      show "run_stands env repo hash vecs h entries sweep w
         \<and> (ir_failed result = 0 \<longrightarrow> run_complete env repo hash vecs h entries sweep w)"
        using stands [OF ingested_nothing [OF at] good] complete [OF full good] by simp
    qed
  next
    case False
    assume good: "sweeps h entries sweep D"
    have "act_ensures (hashes_are hash vecs (wiped D h)) (ingest_changed env repo repo_id changed on_ack result)
      (\<lambda>result' w. run_stands env repo hash vecs h entries sweep w
         \<and> (ir_failed result' = 0 \<longrightarrow> run_complete env repo hash vecs h entries sweep w))
      (\<lambda>_. run_stands env repo hash vecs h entries sweep)"
      by (rule ensures_weaken [OF ingest_changed_settles [OF contract facts(2) [OF distinct]]])
         (use stands complete good in blast)+
    then show "act_ensures (hashes_are hash vecs (wiped D h))
      (if changed = [] then act_return result else ingest_changed env repo repo_id changed on_ack result)
      (\<lambda>result' w. run_stands env repo hash vecs h entries sweep w
         \<and> (ir_failed result' = 0 \<longrightarrow> run_complete env repo hash vecs h entries sweep w))
      (\<lambda>_. run_stands env repo hash vecs h entries sweep)"
      using False by simp
  qed
qed

lemma ingest_entries_settles:
  assumes contract: "pipeline_contract env repo on_ack hash vecs" and distinct: "distinct (map fe_rel_path entries)"
  shows "act_ensures (hashes_are hash vecs h) (ingest_entries env repo entries force sweep on_ack)
    (\<lambda>result w. run_stands env repo hash vecs h entries sweep w
       \<and> (ir_failed result = 0 \<longrightarrow> run_complete env repo hash vecs h entries sweep w))
    (\<lambda>_. run_stands env repo hash vecs h entries sweep)"
proof -
  let ?E = "\<lambda>(_ :: exc). run_stands env repo hash vecs h entries sweep"
  let ?Q = "\<lambda>result w. run_stands env repo hash vecs h entries sweep w
       \<and> (ir_failed result = 0 \<longrightarrow> run_complete env repo hash vecs h entries sweep w)"
  have start: "hashes_are hash vecs h w \<Longrightarrow> run_stands env repo hash vecs h entries sweep w" for w
    by (rule stands_swept) (auto simp: swept_def at_index_def intro!: exI [of _ "{}"])
  have keep: "act_ensures (hashes_are hash vecs h) m (\<lambda>_. hashes_are hash vecs h) ?E"
    if "act_keeps (hashes_are hash vecs h) m" for m :: "('a, 'b) act"
    by (rule ensures_kept_or [OF that start])
  have read: "act_ensures (hashes_are hash vecs h) (gs_ingested_files (in_store env) repo)
      (\<lambda>hashes w. hashes_are hash vecs h w \<and> map_of hashes = h) ?E"
  proof (rule ensuresI)
    fix w w' hashes
    assume at: "hashes_are hash vecs h w" and run: "gs_ingested_files (in_store env) repo w = (Inr hashes, w')"
    then show "hashes_are hash vecs h w' \<and> map_of hashes = h"
      using keepsD [OF contract_keeps(2) [OF contract] at run] ingested_files_answer [OF contract, of w]
      by (simp add: at_index_def)
  next
    fix w w' e
    assume "hashes_are hash vecs h w" "gs_ingested_files (in_store env) repo w = (Inl e, w')"
    then show "?E e w'" using keepsD [OF contract_keeps(2) [OF contract]] start by blast
  qed
  have missing: "act_keeps (hashes_are hash vecs h)
      (if in_embed env \<noteq> None then gs_missing_embeddings (in_store env) n else act_return [])" for n
    by (intro keeps_if keeps_pure contract_keeps(5) [OF contract])
  have sweep: "act_ensures (hashes_are hash vecs h) (sweep_entries env repo entries sweep hashes)
      (\<lambda>_ w. \<exists>D. sweep_complete hash h entries sweep D w) ?E" if "map_of hashes = h" for hashes
    by (rule ensures_weaken [OF sweep_settles [OF contract that]]) (auto intro: stands_swept)
  note rest = changed_after_sweep [OF contract distinct _ refl, of _ h]
  show ?thesis
    unfolding ingest_entries_def sweep_entries_def [symmetric] Let_def
    by (rule ensures_bind [OF keep [OF contract_keeps(1) [OF contract]]], rule ensures_bind [OF read],
        rule ensures_given, rule ensures_bind [OF keep [OF missing]], rule ensures_bind [OF sweep],
        assumption, rule ensures_pre, rule rest)
qed

section \<open>The two promises of an ingestion\<close>

lemma entry_hash:
  "distinct (map fe_rel_path entries) \<Longrightarrow> e \<in> set entries \<Longrightarrow>
   map_of (map (\<lambda>e. (fe_rel_path e, fe_content_hash e)) entries) (fe_rel_path e) = Some (fe_content_hash e)"
  by (induction entries) (auto simp: image_iff)

lemma no_entry_hash:
  "p \<notin> fe_rel_path ` set entries \<Longrightarrow> map_of (map (\<lambda>e. (fe_rel_path e, fe_content_hash e)) entries) p = None"
  by (induction entries) auto

lemma recorded_at:
  assumes "distinct (map pf_rel acked)"
  shows "recorded h (records_of acked) p =
    (case find (\<lambda>pf. pf_rel pf = p) acked of None \<Rightarrow> h p | Some pf \<Rightarrow> Some (fe_content_hash (pf_entry pf)))"
proof -
  have "map_of (rev (records_of acked)) = map_of (records_of acked)"
    by (rule map_of_inject_set [THEN iffD2])
       (simp_all add: records_of_def assms comp_def rev_map [symmetric])
  moreover have "map_of (records_of acked) p =
      map_option (\<lambda>pf. fe_content_hash (pf_entry pf)) (find (\<lambda>pf. pf_rel pf = p) acked)"
    by (induction acked) (auto simp: records_of_def)
  ultimately show ?thesis by (simp add: recorded_def split: option.split)
qed

lemma find_rel_Some: "find (\<lambda>pf. pf_rel pf = p) acked = Some pf \<Longrightarrow> pf \<in> set acked \<and> pf_rel pf = p"
  by (induction acked) (auto split: if_splits)

lemma fresh_hash:
  assumes "distinct (map fe_rel_path entries)" "fresh_files env entries acked" "find (\<lambda>pf. pf_rel pf = p) acked = Some pf"
  shows "sync_target h entries sweep p = Some (fe_content_hash (pf_entry pf))"
proof -
  have "pf \<in> set acked" "pf_rel pf = p" using find_rel_Some [OF assms(3)] by auto
  moreover have "pf_entry pf \<in> set entries" using assms(2) \<open>pf \<in> set acked\<close> by (simp add: fresh_files_def list_all_iff)
  ultimately show ?thesis using entry_hash [OF assms(1)] by (auto simp: sync_target_def pf_rel_def)
qed

lemma wiped_target:
  "D \<inter> fe_rel_path ` set entries = {} \<Longrightarrow> D = {} \<or> sweep \<Longrightarrow>
   wiped D h p = h p \<or> wiped D h p = sync_target h entries sweep p"
  by (cases "p \<in> D") (auto simp: wiped_def sync_target_def no_entry_hash disjoint_iff)

lemma stands_between:
  assumes "distinct (map fe_rel_path entries)" "run_stands env repo hash vecs h entries sweep w"
  shows "between h (sync_target h entries sweep) (hash w)"
proof -
  obtain D acked where D: "D \<inter> fe_rel_path ` set entries = {}" "D = {} \<or> sweep"
    and fresh: "fresh_files env entries acked"
    and at: "hash w = recorded (wiped D h) (records_of acked)"
    using assms(2) by (auto simp: run_stands_def ingested_def checkpointed_def at_index_def)
  have "distinct (map pf_rel acked)" using fresh by (simp add: fresh_files_def)
  then show ?thesis
    unfolding between_def at
    using wiped_target [OF D] fresh_hash [OF assms(1) fresh] by (auto simp: recorded_at split: option.split)
qed

lemma complete_target:
  assumes distinct: "distinct (map fe_rel_path entries)" and "run_complete env repo hash vecs h entries sweep w"
  shows "hash w = sync_target h entries sweep"
proof
  fix p
  obtain D changed where sweeps: "sweeps h entries sweep D"
    and changed: "set changed \<subseteq> set entries"
      "list_all (\<lambda>e. e \<in> set changed \<or> h (fe_rel_path e) = Some (fe_content_hash e)) entries"
    and full: "fully_ingested env repo hash vecs (wiped D h) changed w"
    using assms(2) unfolding run_complete_def by blast
  note D = sweeps [unfolded sweeps_def, THEN conjunct1]
    sweeps [unfolded sweeps_def, THEN conjunct2, THEN conjunct1]
    sweeps [unfolded sweeps_def, THEN conjunct2, THEN conjunct2]
  obtain acked where fresh: "fresh_files env changed acked" "pf_entry ` set acked = set changed"
    and at: "hash w = recorded (wiped D h) (records_of acked)"
    using full by (auto simp: fully_ingested_def checkpointed_def at_index_def)
  have d: "distinct (map pf_rel acked)" using fresh(1) by (simp add: fresh_files_def)
  show "hash w p = sync_target h entries sweep p"
  proof (cases "find (\<lambda>pf. pf_rel pf = p) acked")
    case (Some pf)
    then show ?thesis
      using fresh_hash [OF distinct fresh_more [OF changed(1) fresh(1)] Some] by (simp add: at recorded_at [OF d])
  next
    case None
    then have w: "hash w p = wiped D h p" by (simp add: at recorded_at [OF d])
    show ?thesis
    proof (cases "p \<in> fe_rel_path ` set entries")
      case True
      then obtain e where e: "e \<in> set entries" "p = fe_rel_path e" by auto
      have "e \<notin> set changed"
      proof
        assume "e \<in> set changed"
        then obtain pf where "pf \<in> set acked" "pf_entry pf = e" using fresh(2) by (metis imageE)
        then show False using None e(2) by (auto simp: find_None_iff pf_rel_def)
      qed
      then have "h p = Some (fe_content_hash e)" using changed(2) e by (auto simp: list_all_iff)
      moreover have "p \<notin> D" using D(1) True by auto
      ultimately show ?thesis using w entry_hash [OF distinct e(1)] e(2) by (simp add: wiped_def sync_target_def)
    next
      case False
      then show ?thesis using w D(2,3) by (auto simp: wiped_def sync_target_def no_entry_hash)
    qed
  qed
qed

text \<open>C18: 
  An ingestion refines the abstract synchronisation of the recorded hashes with the entries it
  was given.  However it ends - a parse failure, a provider or store failure, cancellation, an
  exception of a callback - every path has its old record or its target record, so a later run
  picks up exactly the rest; and a run that returns without a failed file has reached the target
  everywhere: entries recorded with their content hash, other paths forgotten by a sweep and
  kept otherwise.
\<close>

theorem ingestion_refines_sync:
  assumes "pipeline_contract env repo on_ack hash vecs" "distinct (map fe_rel_path entries)"
    and "ingest_entries env repo entries force sweep on_ack w = (r, w')"
  shows "between (hash w) (sync_target (hash w) entries sweep) (hash w')
       \<and> (case r of Inl _ \<Rightarrow> True
          | Inr result \<Rightarrow> ir_failed result = 0 \<longrightarrow> hash w' = sync_target (hash w) entries sweep)"
proof -
  have at: "hashes_are hash vecs (hash w) w" by (simp add: at_index_def)
  note run = ingest_entries_settles [OF assms(1,2), of "hash w" force sweep]
  show ?thesis
  proof (cases r)
    case (Inl e)
    then have "run_stands env repo hash vecs (hash w) entries sweep w'" using ensures_Inl [OF run at] assms(3) by simp
    from stands_between [OF assms(2) this] show ?thesis using Inl by simp
  next
    case (Inr result)
    then have "run_stands env repo hash vecs (hash w) entries sweep w'"
      and whole: "ir_failed result = 0 \<Longrightarrow> run_complete env repo hash vecs (hash w) entries sweep w'"
      using ensures_Inr [OF run at] assms(3) by simp_all
    from stands_between [OF assms(2) this(1)] complete_target [OF assms(2) whole] show ?thesis using Inr by simp
  qed
qed

section \<open>A store in memory\<close>

record memory =
  me_records :: "(string \<times> string) list"
  me_pending :: "string list"
  me_vectors :: "string list"

definition memory_store :: "memory graph_store" where
  "memory_store =
     \<lparr>gs_get_or_create_repo = (\<lambda>_. act_return 1),
      gs_ingested_files = (\<lambda>_. act_gets me_records),
      gs_file_paths = (\<lambda>_. act_gets (\<lambda>m. map fst (me_records m))),
      gs_node_ids = (\<lambda>_ _. act_return []), gs_missing_embeddings = (\<lambda>_. act_return []),
      gs_resolve = (\<lambda>_ _. act_return None), gs_upsert_nodes = (\<lambda>ns. act_return (length ns)),
      gs_upsert_edges = (\<lambda>es. act_return (length es)), gs_incoming_edges = (\<lambda>_. act_return []),
      gs_upsert_embeddings = (\<lambda>vs m. (Inr (length vs), m\<lparr>me_pending := map fst vs @ me_pending m\<rparr>)),
      gs_flush = (\<lambda>m. (Inr True, m\<lparr>me_vectors := me_pending m @ me_vectors m, me_pending := []\<rparr>)),
      gs_vectors_contain = (\<lambda>ids m. (Inr (list_all (\<lambda>i. i \<in> set (me_vectors m)) ids), m)),
      gs_vectors_absent = (\<lambda>ids m. (Inr (list_all (\<lambda>i. i \<notin> set (me_vectors m)) ids), m)),
      gs_delete_nodes = (\<lambda>ids m. (Inr (length ids), m\<lparr>me_vectors := filter (\<lambda>i. i \<notin> set ids) (me_vectors m)\<rparr>)),
      gs_delete_records = (\<lambda>_ ps m. (Inr (length ps), m\<lparr>me_records := filter (\<lambda>r. fst r \<notin> set ps) (me_records m)\<rparr>)),
      gs_acknowledge = (\<lambda>rs m. (Inr (), m\<lparr>me_records :=
         rev (map (\<lambda>r. (ig_rel_path r, ig_content_hash r)) rs) @ me_records m\<rparr>)),
      gs_indexed_repos = act_return []\<rparr>"

definition memory_env :: "memory ingest_env" where
  "memory_env =
     \<lparr>in_store = memory_store, in_disk = (\<lambda>_. demo_discovery [97]), in_extensions = [''.py''],
      in_policy = default_policy, in_parse = (\<lambda>_ _. Inr ([], [])),
      in_embed = Some (\<lambda>ts. act_return (map (\<lambda>_. [1]) ts)), in_cancelled = act_return False,
      in_report = (\<lambda>_. act_return ())\<rparr>"

definition memory_hash :: "memory \<Rightarrow> string \<Rightarrow> string option" where
  "memory_hash m = map_of (me_records m)"

definition memory_vectors :: "memory \<Rightarrow> string set" where
  "memory_vectors m = set (me_vectors m)"

lemma map_of_filter_fst: "map_of (filter (\<lambda>r. fst r \<notin> P) kvs) = wiped P (map_of kvs)"
  by (induction kvs) (auto simp: wiped_def fun_eq_iff)

lemma memory_contract: "pipeline_contract memory_env repo None memory_hash memory_vectors"
  unfolding pipeline_contract_def store_contract_def framed_def memory_env_def memory_store_def
    memory_hash_def memory_vectors_def
  by (auto simp: act_return_def act_gets_def map_of_filter_fst list_all_iff recorded_def fun_eq_iff
      map_add_def rev_map split: option.split bool.split)

definition demo_entry_a :: file_entry where
  "demo_entry_a = \<lparr>fe_rel_path = ''a'', fe_abs_path = parse_path ''/w/a'', fe_language = ''text'',
     fe_byte_size = 1, fe_content_hash = sha256_bytes [97]\<rparr>"

definition demo_memory :: memory where
  "demo_memory = \<lparr>me_records = [(''gone'', ''h'')], me_pending = [], me_vectors = []\<rparr>"

definition demo_entity :: parsed_entity where
  "demo_entity = \<lparr>pe_kind = FileNode, pe_name = ''a'', pe_qualified_name = ''a'', pe_start_line = 0,
     pe_end_line = 0, pe_signature = [], pe_docstring = [97], pe_raw_text = [97], pe_parent = None,
     pe_bases = [], pe_imports = [], pe_calls = [], pe_complexity = None\<rparr>"

definition demo_parsed :: parsed_file where
  "demo_parsed = \<lparr>pf_entry = demo_entry_a, pf_entities = [demo_entity], pf_edges = []\<rparr>"

definition demo_node :: string where
  "demo_node = node_id ''/w'' ''a'' demo_entity 0"

lemmas act_run = act_return_def act_gets_def act_bind_def act_seq_def act_lift_def act_handle_def

lemma memory_env_fields:
  "in_disk memory_env m = demo_discovery [97]" "in_embed memory_env = Some (\<lambda>ts. act_return (map (\<lambda>_. [1]) ts))"
  "in_cancelled memory_env = act_return False" "in_report memory_env p = act_return ()"
  "in_store memory_env = memory_store"
  by (simp_all add: memory_env_def)

lemma demo_entry_fields:
  "fe_rel_path demo_entry_a = ''a''" "fe_language demo_entry_a = ''text''"
  "fe_content_hash demo_entry_a = sha256_bytes [97]" "fe_abs_path demo_entry_a = parse_path ''/w/a''"
  "pf_entry demo_parsed = demo_entry_a" "pf_entities demo_parsed = [demo_entity]" "pf_edges demo_parsed = []"
  "pf_rel demo_parsed = ''a''"
  by (simp_all add: demo_entry_a_def demo_parsed_def pf_rel_def)

lemma demo_file_ids: "file_ids ''/w'' demo_parsed = [(demo_entity, demo_node)]"
  by (simp add: file_ids_def demo_entry_fields demo_node_def)

lemma demo_parse: "parse_files memory_env [demo_entry_a] m = (Inr ([demo_parsed], []), m)"
proof -
  have "utf8_decode [65533] [97] = [97]" by (simp add: utf8_decode.simps utf8_unit_def)
  then have "parse_source memory_env demo_entry_a [97] = Inr demo_parsed"
    by (simp add: parse_source_def demo_entry_fields demo_parsed_def demo_entity_def how_many_def Let_def)
  then show ?thesis
    by (simp add: parse_file_def read_bytes_def memory_env_fields demo_env_fields act_run)
qed

lemma demo_replace:
  "replace_structure memory_env ''/w'' 1 [demo_parsed] result m =
   (Inr (result\<lparr>ir_entities := 1, ir_edges := 0, ir_edges_dropped := 0\<rparr>), m)"
  by (simp add: replace_structure_def prepare_edges_def retained_inbound_edges_def plan_nodes_def demo_file_ids
      demo_entry_fields memory_env_fields memory_store_def act_run assign_def)

lemma demo_batch:
  "\<exists>result' m'. acknowledge_batch memory_env ''/w'' (entity_node_ids ''/w'' [demo_parsed]) None [demo_parsed] result m
     = (Inr (True, result'), m') \<and> ir_failed result' = ir_failed result \<and> ir_deleted result' = ir_deleted result
     \<and> me_records m' = (''a'', sha256_bytes [97]) # me_records m"
proof -
  let ?ids = "entity_node_ids ''/w'' [demo_parsed]"
  have ids: "batch_node_ids ?ids [demo_parsed] m = (Inr [demo_node], m)" for m
    using batch_node_ids_run [of "[demo_parsed]" "[demo_parsed]" "''/w''" m] by (simp add: demo_file_ids)
  have embed: "embed_batch memory_env ?ids [demo_parsed] result m =
      (Inr (True, result\<lparr>ir_embeddings := ir_embeddings result + 1\<rparr>), m\<lparr>me_pending := demo_node # me_pending m\<rparr>)"
    by (simp add: embed_batch_def embed_vectors_def memory_env_fields demo_entry_fields slices_step slices_empty
        embed_batch_size_def ids act_run memory_store_def)
  have stable: "same_bytes memory_env demo_parsed m = (Inr True, m)" for m
    by (simp add: same_bytes_def read_bytes_def memory_env_fields demo_env_fields demo_entry_fields act_run)
  show ?thesis
    by (simp add: acknowledge_batch_def embed confirm_batch_def ids check_sidecar_def commit_batch_def stable
        record_batch_def ingestion_records_def demo_entry_fields memory_env_fields memory_store_def act_run)
qed

lemma demo_sweep:
  "sweep_entries memory_env ''/w'' [demo_entry_a] True [(''gone'', ''h'')] demo_memory
   = (Inr 1, demo_memory\<lparr>me_records := []\<rparr>)"
  by (simp add: sweep_entries_def delete_paths_def delete_batch_def check_cancelled_def sorted_set_def slices_step
      slices_empty batch_max_files_def memory_env_fields memory_store_def demo_memory_def demo_entry_fields act_run)

lemma demo_ingest:
  "\<exists>result w'. ingest_entries memory_env ''/w'' [demo_entry_a] False True None demo_memory = (Inr result, w')
     \<and> ir_failed result = 0 \<and> ir_deleted result = 1 \<and> me_records w' = [(''a'', sha256_bytes [97])]"
proof -
  have batches: "plan_batches [demo_parsed] = [[demo_parsed]]"
    by (simp add: plan_batches_def batch_limits)
  obtain result' m' where batch: "acknowledge_batch memory_env ''/w'' (entity_node_ids ''/w'' [demo_parsed]) None [demo_parsed]
      (no_result\<lparr>ir_discovered := 1, ir_changed := 1, ir_deleted := 1, ir_failed := 0,
         ir_entities := 1, ir_edges := 0, ir_edges_dropped := 0\<rparr>) (demo_memory\<lparr>me_records := []\<rparr>) = (Inr (True, result'), m')"
    and facts: "ir_failed result' = 0" "ir_deleted result' = 1" "me_records m' = [(''a'', sha256_bytes [97])]"
    using demo_batch by fastforce
  have changed: "ingest_changed memory_env ''/w'' 1 [demo_entry_a] None
      (no_result\<lparr>ir_discovered := 1, ir_changed := 1, ir_deleted := 1\<rparr>) (demo_memory\<lparr>me_records := []\<rparr>) = (Inr result', m')"
    using batch
    by (simp add: ingest_changed_def check_cancelled_def memory_env_fields demo_parse demo_replace batches act_run
        del: parse_files.simps One_nat_def)
  have "ingest_entries memory_env ''/w'' [demo_entry_a] False True None demo_memory = (Inr result', m')"
    unfolding ingest_entries_def sweep_entries_def [symmetric] Let_def
    using changed [unfolded One_nat_def] demo_sweep [unfolded One_nat_def]
    by (simp add: memory_env_fields memory_store_def act_run select_changed_def demo_entry_fields demo_memory_def)
  then show ?thesis using facts by blast
qed

text \<open>
  The run below deletes the record of a file that is gone and records the file that is there.
\<close>

theorem ingestion_refines_sync_witness:
  "\<exists>result w'. ingest_entries memory_env ''/w'' [demo_entry_a] False True None demo_memory = (Inr result, w')
     \<and> ir_failed result = 0 \<and> ir_deleted result = 1
     \<and> memory_hash w' = sync_target (memory_hash demo_memory) [demo_entry_a] True
     \<and> memory_hash w' ''a'' = Some (sha256_bytes [97]) \<and> memory_hash w' ''gone'' = None"
proof -
  obtain result w' where run: "ingest_entries memory_env ''/w'' [demo_entry_a] False True None demo_memory = (Inr result, w')"
    and facts: "ir_failed result = 0" "ir_deleted result = 1" "me_records w' = [(''a'', sha256_bytes [97])]"
    using demo_ingest by blast
  have "memory_hash w' = sync_target (memory_hash demo_memory) [demo_entry_a] True"
    using ingestion_refines_sync [OF memory_contract _ run] facts(1) by simp
  moreover have "memory_hash w' ''a'' = Some (sha256_bytes [97])" "memory_hash w' ''gone'' = None"
    using facts(3) by (simp_all add: memory_hash_def)
  ultimately show ?thesis using run facts(1,2) by blast
qed



end
