(* ===== verification/Uninstall_Plan.thy ===== *)
theory Uninstall_Plan
  imports Repository_Paths
begin

text \<open>
  What \<open>scs uninstall --purge\<close> decides to remove (\<open>src/src/scs/uninstall.py\<close>): the check
  that the running executable is the uv-installed tool, and the purge plan with every
  reason to refuse a configured directory.  The file system is the set of answers the
  code asks it for; the catalog of projects is an answer too.
\<close>

section \<open>The executing installation\<close>

record installation =
  it_uv :: string
  it_root :: ppath

record executable =
  ex_uv :: "string option"
  ex_prefix :: ppath
  ex_module :: ppath

definition not_the_tool :: exc where
  "not_the_tool = RuntimeError (''run uninstall with the uv-installed SCS executable; ''
     @ ''source-tree, pip, and pipx environments are not supported'')"

definition installation_of :: "file_system \<Rightarrow> executable \<Rightarrow> exc + installation" where
  "installation_of fs ex =
     (case ex_uv ex of
        None \<Rightarrow> Inl (RuntimeError ''uv is required on PATH; install uv before uninstalling SCS'')
      | Some uv \<Rightarrow>
          and_then (fs_resolve fs (ex_prefix ex)) (\<lambda>root.
            if path_name root \<noteq> ''scs'' \<or> \<not> fs_is_file fs (path_child root ''uv-receipt.toml'')
            then Inl not_the_tool
            else
              and_then (fs_resolve fs (ex_module ex)) (\<lambda>module.
                if is_relative_to module root then Inr \<lparr>it_uv = uv, it_root = root\<rparr>
                else Inl not_the_tool)))"

section \<open>The purge plan\<close>

definition repository_markers :: "string list" where
  "repository_markers = [''.git'', ''.hg'', ''.svn'']"

definition system_containers :: "string list" where
  "system_containers =
     [''/'', ''/Applications'', ''/Library'', ''/System'', ''/Users'', ''/Volumes'', ''/bin'', ''/etc'', ''/home'',
      ''/opt'', ''/opt/homebrew'', ''/private'', ''/sbin'', ''/tmp'', ''/usr'', ''/usr/local'', ''/var'']"

definition shared_home_directories :: "string list" where
  "shared_home_directories =
     [''.cache'', ''.config'', ''.local'', ''Desktop'', ''Documents'', ''Downloads'', ''Library'', ''Music'',
      ''Pictures'', ''Public'', ''Repositories'', ''Videos'']"

record plan_env =
  pe_fs :: file_system
  pe_is_symlink :: "ppath \<Rightarrow> bool"
  pe_exists :: "ppath \<Rightarrow> bool"
  pe_walk :: "ppath \<Rightarrow> (ppath \<times> string list) list \<times> exc option"  \<comment> \<open>what is walked, and the error that cuts it\<close>
  pe_base_prefix :: ppath
  pe_default_logs :: ppath
  pe_default_runtime :: ppath
  pe_source_roots :: "exc + string list"

record purge_settings =
  ps_home :: ppath
  ps_model_cache :: ppath
  ps_logs :: ppath
  ps_runtime :: ppath

record purge_plan =
  pp_directories :: "ppath list"
  pp_config :: ppath

definition unsafe :: "string \<Rightarrow> ppath \<Rightarrow> exc" where
  "unsafe what p = RuntimeError (what @ '': '' @ path_str p)"

fun each_of :: "('a \<Rightarrow> exc + 'b) \<Rightarrow> 'a list \<Rightarrow> exc + 'b list" where
  "each_of f [] = Inr []"
| "each_of f (x # xs) = and_then (f x) (\<lambda>y. and_then (each_of f xs) (\<lambda>ys. Inr (y # ys)))"

definition protected_paths :: "plan_env \<Rightarrow> installation \<Rightarrow> ppath \<Rightarrow> exc + ppath list" where
  "protected_paths env inst user_home =
     (let fs = pe_fs env in
      and_then (each_of (fs_resolve fs)
          ([fs_cwd fs, parse_path (it_uv inst), pe_base_prefix env]
           @ map (path_child user_home) shared_home_directories)) (\<lambda>resolved.
      and_then (each_of (fs_resolve fs) [pe_default_logs env, pe_default_runtime env]) (\<lambda>defaults.
      and_then (each_of (\<lambda>s. fs_resolve fs (parse_path s)) system_containers) (\<lambda>containers.
        Inr ([user_home, path_parent (it_root inst)] @ resolved @ map path_parent defaults @ containers)))))"

definition overlaps_protected ::
  "ppath list \<Rightarrow> installation \<Rightarrow> ppath \<Rightarrow> ppath list \<Rightarrow> ppath \<Rightarrow> bool" where
  "overlaps_protected protected inst base_prefix roots directory =
     (list_ex (\<lambda>p. is_relative_to p directory) protected
      \<or> is_relative_to directory (path_parent (it_root inst))
      \<or> is_relative_to directory base_prefix
      \<or> list_ex (\<lambda>root. is_relative_to root directory \<or> is_relative_to directory root) roots)"

text \<open>The first walked directory that holds a marker.\<close>

definition marked_directory :: "(ppath \<times> string list) list \<Rightarrow> ppath option" where
  "marked_directory walked =
     map_option fst (find (\<lambda>(_, names). list_ex (\<lambda>n. n \<in> set repository_markers) names) walked)"

definition check_directory ::
  "plan_env \<Rightarrow> installation \<Rightarrow> ppath list \<Rightarrow> ppath \<Rightarrow> ppath list \<Rightarrow> ppath \<Rightarrow> exc + ppath" where
  "check_directory env inst protected base_prefix roots configured =
     (let fs = pe_fs env; raw = fs_expanduser fs configured in
      and_then (fs_resolve fs raw) (\<lambda>directory.
        if pe_is_symlink env raw then Inl (unsafe ''unsafe purge directory symlink'' raw)
        else if overlaps_protected protected inst base_prefix roots directory
          then Inl (unsafe ''unsafe purge directory overlaps protected files'' raw)
        else if pe_exists env directory \<and> \<not> fs_is_dir fs directory
          then Inl (unsafe ''purge path is not a directory'' raw)
        else if list_ex (\<lambda>parent. list_ex (\<lambda>marker. pe_exists env (path_child parent marker)) repository_markers)
                  (directory # path_parents directory)
          then Inl (unsafe ''unsafe purge directory is inside a repository'' raw)
        else if \<not> pe_exists env directory then Inr directory
        else
          (case pe_walk env directory of
             (walked, failure) \<Rightarrow>
               (case marked_directory walked of
                  Some root \<Rightarrow> Inl (unsafe ''unsafe purge directory contains a repository'' root)
                | None \<Rightarrow> (case failure of Some e \<Rightarrow> Inl e | None \<Rightarrow> Inr directory)))))"

text \<open>Directories below another planned one are dropped, the rest is sorted by its text.\<close>

definition outermost :: "ppath list \<Rightarrow> ppath list" where
  "outermost directories =
     filter (\<lambda>d. \<not> list_ex (\<lambda>p. p \<in> set directories) (path_parents d)) (sort_key path_str (remdups directories))"

definition plan_purge :: "plan_env \<Rightarrow> installation \<Rightarrow> purge_settings \<Rightarrow> exc + purge_plan" where
  "plan_purge env inst settings =
     (let fs = pe_fs env in
      and_then (fs_resolve fs (fs_home fs)) (\<lambda>user_home.
        let config_directory = path_child (fs_home fs) ''.scs'';
            config = path_child config_directory ''config.toml'' in
        if pe_is_symlink env config_directory \<or> pe_is_symlink env config
        then Inl (unsafe ''unsafe purge configuration symlink'' config)
        else
          and_then (protected_paths env inst user_home) (\<lambda>protected.
          and_then (pe_source_roots env) (\<lambda>records.
          and_then (each_of (\<lambda>root. fs_resolve fs (parse_path root)) records) (\<lambda>roots.
          and_then (fs_resolve fs (pe_base_prefix env)) (\<lambda>base_prefix.
          and_then (each_of (check_directory env inst protected base_prefix roots)
              [ps_home settings, ps_model_cache settings, ps_logs settings, ps_runtime settings]) (\<lambda>directories.
            Inr \<lparr>pp_directories = outermost directories, pp_config = config\<rparr>)))))))"

section \<open>What an accepted plan guarantees\<close>

lemma each_of_Inr: "each_of f xs = Inr ys \<Longrightarrow> list_all2 (\<lambda>x y. f x = Inr y) xs ys"
  by (induction xs arbitrary: ys) (auto simp: and_then_Inr_iff)

lemma each_of_set: "each_of f xs = Inr ys \<Longrightarrow> y \<in> set ys \<Longrightarrow> \<exists>x\<in>set xs. f x = Inr y"
  by (induction xs arbitrary: ys) (auto simp: and_then_Inr_iff)

lemma each_of_mem: "each_of f xs = Inr ys \<Longrightarrow> x \<in> set xs \<Longrightarrow> \<exists>y\<in>set ys. f x = Inr y"
  by (induction xs arbitrary: ys) (auto simp: and_then_Inr_iff)

lemma set_outermost: "set (outermost ds) = {d \<in> set ds. \<forall>p\<in>set ds. is_relative_to d p \<longrightarrow> p = d}"
  by (auto simp: outermost_def list_ex_iff path_parents_iff)

lemma outermost_antichain:
  "d \<in> set (outermost ds) \<Longrightarrow> e \<in> set (outermost ds) \<Longrightarrow> is_relative_to d e \<Longrightarrow> d = e"
  unfolding set_outermost by blast

lemma distinct_outermost: "distinct (outermost ds)"
  by (simp add: outermost_def)

text \<open>Every configured directory lies below a kept one.\<close>

lemma outermost_covers:
  assumes "d \<in> set ds"
  shows "\<exists>e\<in>set (outermost ds). is_relative_to d e"
proof -
  define above where "above = {e \<in> set ds. is_relative_to d e}"
  have "finite above" "d \<in> above" using assms by (auto simp: above_def)
  then obtain e where e: "e \<in> above" and least: "\<And>x. x \<in> above \<Longrightarrow> length (p_comps e) \<le> length (p_comps x)"
    using arg_min_least [of above _ "\<lambda>x. length (p_comps x)"] arg_min_if_finite(1) [of above]
    by (metis empty_iff)
  have "e \<in> set (outermost ds)"
    unfolding set_outermost
  proof (intro CollectI conjI ballI impI)
    show "e \<in> set ds" using e by (simp add: above_def)
    fix p assume p: "p \<in> set ds" "is_relative_to e p"
    then have "p \<in> above" using e is_relative_to_trans by (auto simp: above_def)
    then have "length (p_comps e) \<le> length (p_comps p)" by (rule least)
    then show "p = e" using p(2) by (cases p; cases e) (auto simp: is_relative_to_iff prefix_def)
  qed
  then show ?thesis using e by (auto simp: above_def)
qed

lemma check_directory_safe:
  assumes "check_directory env inst protected base_prefix roots configured = Inr d"
  shows "fs_resolve (pe_fs env) (fs_expanduser (pe_fs env) configured) = Inr d"
    "\<not> overlaps_protected protected inst base_prefix roots d"
    "\<not> list_ex (\<lambda>parent. list_ex (\<lambda>marker. pe_exists env (path_child parent marker)) repository_markers)
         (d # path_parents d)"
  using assms
  by (auto simp: check_directory_def Let_def and_then_Inr_iff split: if_splits option.splits prod.splits)

lemma plan_purge_directory:
  assumes "plan_purge env inst settings = Inr plan" "d \<in> set (pp_directories plan)"
  obtains user_home protected records roots base_prefix configured where
    "fs_resolve (pe_fs env) (fs_home (pe_fs env)) = Inr user_home"
    "protected_paths env inst user_home = Inr protected"
    "pe_source_roots env = Inr records"
    "each_of (\<lambda>root. fs_resolve (pe_fs env) (parse_path root)) records = Inr roots"
    "fs_resolve (pe_fs env) (pe_base_prefix env) = Inr base_prefix"
    "configured \<in> {ps_home settings, ps_model_cache settings, ps_logs settings, ps_runtime settings}"
    "check_directory env inst protected base_prefix roots configured = Inr d"
proof -
  obtain user_home protected records roots base_prefix directories where
    *: "fs_resolve (pe_fs env) (fs_home (pe_fs env)) = Inr user_home"
    "protected_paths env inst user_home = Inr protected"
    "pe_source_roots env = Inr records"
    "each_of (\<lambda>root. fs_resolve (pe_fs env) (parse_path root)) records = Inr roots"
    "fs_resolve (pe_fs env) (pe_base_prefix env) = Inr base_prefix"
    and ds: "each_of (check_directory env inst protected base_prefix roots)
              [ps_home settings, ps_model_cache settings, ps_logs settings, ps_runtime settings] = Inr directories"
    and plan: "pp_directories plan = outermost directories"
    using assms(1) unfolding plan_purge_def Let_def and_then_Inr_iff
    by (auto split: if_splits simp: and_then_Inr_iff simp del: each_of.simps)
  have "d \<in> set directories" using assms(2) plan by (simp add: set_outermost)
  from each_of_set [OF ds this] obtain configured where
    "configured \<in> set [ps_home settings, ps_model_cache settings, ps_logs settings, ps_runtime settings]"
    "check_directory env inst protected base_prefix roots configured = Inr d" by blast
  then show ?thesis using * that by simp
qed

end
