(* ===== verification/Uninstall_Purge.thy ===== *)
theory Uninstall_Purge
  imports Uninstall_Plan
begin

text \<open>
  The removal itself (\<open>_purge_directory\<close> and \<open>uninstall\<close> in
  \<open>src/src/scs/uninstall.py\<close>) on a tree of directories, files and symbolic links.  Stopping
  the daemon, taking a lock, and \<open>uv tool uninstall\<close> are actions on that tree given by the
  environment, as is the failure of a single removal, which may leave a part of what it
  was to remove.
\<close>

section \<open>Directory trees\<close>

text \<open>A link knows whether its target exists.\<close>

datatype fnode = File | Link bool | Dir "(string \<times> fnode) list"

fun node_at :: "fnode \<Rightarrow> string list \<Rightarrow> fnode option" where
  "node_at t [] = Some t"
| "node_at (Dir es) (c # cs) = (case map_of es c of None \<Rightarrow> None | Some t \<Rightarrow> node_at t cs)"
| "node_at File (c # cs) = None"
| "node_at (Link b) (c # cs) = None"

text \<open>Put a node, or nothing, at the place of an existing one.\<close>

fun replace_at :: "string list \<Rightarrow> fnode option \<Rightarrow> fnode \<Rightarrow> fnode" where
  "replace_at [] r t = (case r of None \<Rightarrow> t | Some t' \<Rightarrow> t')"
| "replace_at (c # cs) r (Dir es) =
     (if cs = [] \<and> r = None then Dir (AList.delete c es)
      else (case map_of es c of None \<Rightarrow> Dir es | Some t \<Rightarrow> Dir (AList.update c (replace_at cs r t) es)))"
| "replace_at (c # cs) r t = t"

lemma node_at_append: "node_at t p = Some u \<Longrightarrow> node_at t (p @ q) = node_at u q"
  by (induction t p rule: node_at.induct) (auto split: option.splits)

text \<open>A path of the tree and everything below it looks the same.\<close>

definition untouched :: "string list \<Rightarrow> fnode \<Rightarrow> fnode \<Rightarrow> bool" where
  "untouched p t t' = (\<forall>q. prefix p q \<longrightarrow> node_at t' q = node_at t q)"

lemma untouched_refl [simp]: "untouched p t t"
  by (simp add: untouched_def)

lemma untouched_trans: "untouched p t u \<Longrightarrow> untouched p u v \<Longrightarrow> untouched p t v"
  by (simp add: untouched_def)

lemma node_at_replace: "q \<parallel> p \<Longrightarrow> node_at (replace_at p r t) q = node_at t q"
proof (induction p r t arbitrary: q rule: replace_at.induct)
  case (2 c cs r es)
  then obtain d ds where q: "q = d # ds" by (cases q) auto
  show ?case
  proof (cases "d = c")
    case True
    then have "ds \<parallel> cs" using 2(2) by (auto simp: q parallel_def)
    then have "cs \<noteq> []" by auto
    then show ?thesis using 2(1) \<open>ds \<parallel> cs\<close> True
      by (auto simp: q update_conv' split: option.splits)
  next
    case False
    then show ?thesis by (auto simp: q update_conv' delete_conv' split: option.splits)
  qed
qed auto

lemma untouched_replace: "r \<parallel> p \<Longrightarrow> untouched r t (replace_at p x t)"
  unfolding untouched_def by (metis node_at_replace parallel_append prefixE append_Nil2 parallel_cancel)

section \<open>Removing a planned directory\<close>

type_synonym removal = "string list \<Rightarrow> fnode \<Rightarrow> (exc \<times> fnode option) option"

definition opt_entry :: "string \<Rightarrow> fnode option \<Rightarrow> (string \<times> fnode) list" where
  "opt_entry c t = (case t of None \<Rightarrow> [] | Some t \<Rightarrow> [(c, t)])"

fun purge_directory :: "removal \<Rightarrow> string list list \<Rightarrow> string list \<Rightarrow> fnode \<Rightarrow> exc option \<times> fnode option"
and purge_entries ::
  "removal \<Rightarrow> string list list \<Rightarrow> string list \<Rightarrow> (string \<times> fnode) list \<Rightarrow> exc option \<times> (string \<times> fnode) list"
where
  "purge_directory rm locks at (Link exists) =
     (if exists then (Some (RuntimeError (''purge directory became a symlink: /'' @ intercalate ''/'' at)), Some (Link exists))
      else (None, Some (Link exists)))"
| "purge_directory rm locks at File = (Some (OSError ''Not a directory''), Some File)"
| "purge_directory rm locks at (Dir es) =
     (case purge_entries rm locks at es of
        (Some e, es') \<Rightarrow> (Some e, Some (Dir es'))
      | (None, es') \<Rightarrow>
          (if list_ex (prefix at) locks then (None, Some (Dir es'))
           else if es' \<noteq> [] then (Some (OSError ''Directory not empty''), Some (Dir es'))
           else (case rm at (Dir es') of Some (e, t) \<Rightarrow> (Some e, t) | None \<Rightarrow> (None, None))))"
| "purge_entries rm locks at [] = (None, [])"
| "purge_entries rm locks at ((c, t) # es) =
     (if at @ [c] \<in> set locks then
        (case purge_entries rm locks at es of (failure, es') \<Rightarrow> (failure, (c, t) # es'))
      else if list_ex (prefix (at @ [c])) locks then
        (case purge_directory rm locks (at @ [c]) t of
           (Some e, t') \<Rightarrow> (Some e, opt_entry c t' @ es)
         | (None, t') \<Rightarrow>
             (case purge_entries rm locks at es of (failure, es') \<Rightarrow> (failure, opt_entry c t' @ es')))
      else
        (case rm (at @ [c]) t of
           Some (e, t') \<Rightarrow> (Some e, opt_entry c t' @ es)
         | None \<Rightarrow> purge_entries rm locks at es))"

definition purge_planned :: "removal \<Rightarrow> string list list \<Rightarrow> ppath \<Rightarrow> (fnode, unit) act" where
  "purge_planned rm locks directory t =
     (case node_at t (p_comps directory) of
        None \<Rightarrow> (Inr (), t)
      | Some d \<Rightarrow>
          (case purge_directory rm locks (p_comps directory) d of
             (failure, d') \<Rightarrow>
               (case failure of None \<Rightarrow> Inr () | Some e \<Rightarrow> Inl e, replace_at (p_comps directory) d' t)))"

fun purge_all :: "removal \<Rightarrow> string list list \<Rightarrow> ppath list \<Rightarrow> (fnode, unit) act" where
  "purge_all rm locks [] = act_return ()"
| "purge_all rm locks (d # ds) = act_seq (purge_planned rm locks d) (purge_all rm locks ds)"

section \<open>Uninstalling\<close>

record uninstall_env =
  ue_executable :: executable
  ue_before :: plan_env
  ue_after :: plan_env
  ue_stop :: "(fnode, bool) act"
  ue_lock :: "ppath \<Rightarrow> (fnode, unit) act"
  ue_uv :: "installation \<Rightarrow> (fnode, unit) act"
  ue_remove :: removal

text \<open>\<open>SCSPaths.resolve\<close>: the directories of the service, with aliases resolved.\<close>

record scs_directories =
  sd_home :: ppath
  sd_model_cache :: ppath
  sd_runtime :: ppath
  sd_logs :: ppath

definition resolved :: "file_system \<Rightarrow> ppath \<Rightarrow> exc + ppath" where
  "resolved fs p = fs_resolve fs (fs_expanduser fs p)"

definition resolve_scs_paths :: "file_system \<Rightarrow> purge_settings \<Rightarrow> exc + scs_directories" where
  "resolve_scs_paths fs s =
     and_then (resolved fs (ps_home s)) (\<lambda>home.
     and_then (resolved fs (ps_model_cache s)) (\<lambda>cache.
     and_then (resolved fs (ps_runtime s)) (\<lambda>runtime.
     and_then (resolved fs (ps_logs s)) (\<lambda>logs.
       Inr \<lparr>sd_home = home, sd_model_cache = cache, sd_runtime = runtime, sd_logs = logs\<rparr>))))"

text \<open>The exceptions that become an \<open>UninstallError\<close>, a \<open>RuntimeError\<close> itself.\<close>

definition uninstall_failure :: "exc \<Rightarrow> bool" where
  "uninstall_failure e = (case e of KeyError _ \<Rightarrow> False | TypeError _ \<Rightarrow> False | IndexError _ \<Rightarrow> False
      | OverflowError _ \<Rightarrow> False | AttributeError _ \<Rightarrow> False | ClientError _ \<Rightarrow> False
      | ImportError _ \<Rightarrow> False | HTTPException _ \<Rightarrow> False | _ \<Rightarrow> True)"

definition failing_stage :: "string \<Rightarrow> (fnode \<Rightarrow> string) \<Rightarrow> (fnode, 'a) act \<Rightarrow> (fnode, 'a) act" where
  "failing_stage stage recovery m =
     act_handle m (\<lambda>e.
       if uninstall_failure e
       then act_bind (act_gets recovery) (\<lambda>text.
              act_raise (RuntimeError (stage @ '' failed: '' @ exc_str e @ text)))
       else act_raise e)"

definition validated_plan :: "uninstall_env \<Rightarrow> installation \<Rightarrow> purge_settings \<Rightarrow> bool \<Rightarrow> exc + purge_plan option" where
  "validated_plan env inst settings purge =
     (if \<not> purge then Inr None
      else (case plan_purge (ue_before env) inst settings of
              Inr plan \<Rightarrow> Inr (Some plan)
            | Inl e \<Rightarrow> if uninstall_failure e then Inl (RuntimeError (''purge validation failed: '' @ exc_str e))
                       else Inl e))"

definition same_plan :: "uninstall_env \<Rightarrow> installation \<Rightarrow> purge_settings \<Rightarrow> purge_plan option \<Rightarrow> exc + unit" where
  "same_plan env inst settings plan =
     (case plan of
        None \<Rightarrow> Inr ()
      | Some p \<Rightarrow>
          and_then (plan_purge (ue_after env) inst settings) (\<lambda>p'.
            if p' = p then Inr () else Inl (RuntimeError ''purge paths changed during shutdown'')))"

text \<open>Unlinking acts on the directory the parent path resolves to.\<close>

definition unlink_config :: "uninstall_env \<Rightarrow> ppath \<Rightarrow> (fnode, unit) act" where
  "unlink_config env config t =
     (case fs_resolve (pe_fs (ue_after env)) (path_parent config) of
        Inl e \<Rightarrow> (Inl e, t)
      | Inr parent \<Rightarrow>
          (let at = p_comps parent @ [path_name config] in
           case node_at t at of
             None \<Rightarrow> (Inr (), t)
           | Some n \<Rightarrow>
               (case ue_remove env at n of
                  Some (e, n') \<Rightarrow> (Inl e, replace_at at n' t)
                | None \<Rightarrow> (Inr (), replace_at at None t))))"

definition cleanup :: "uninstall_env \<Rightarrow> string list list \<Rightarrow> purge_plan option \<Rightarrow> (fnode, unit) act" where
  "cleanup env locks plan =
     (case plan of
        None \<Rightarrow> act_return ()
      | Some p \<Rightarrow>
          act_seq (purge_all (ue_remove env) locks (pp_directories p)) (unlink_config env (pp_config p)))"

definition remaining_paths :: "purge_plan option \<Rightarrow> fnode \<Rightarrow> string" where
  "remaining_paths plan t =
     (case plan of
        None \<Rightarrow> []
      | Some p \<Rightarrow> ''; inspect remaining paths for manual cleanup: ''
          @ intercalate '', '' (map path_str
              (filter (\<lambda>q. case node_at t (p_comps q) of None \<Rightarrow> False | Some (Link b) \<Rightarrow> b | Some _ \<Rightarrow> True)
                 (pp_directories p @ [pp_config p]))))"

definition uninstall :: "uninstall_env \<Rightarrow> purge_settings \<Rightarrow> bool \<Rightarrow> (fnode, unit) act" where
  "uninstall env settings purge =
     act_bind (act_lift (installation_of (pe_fs (ue_before env)) (ue_executable env))) (\<lambda>inst.
     act_bind (act_lift (validated_plan env inst settings purge)) (\<lambda>plan.
     act_bind (act_lift (resolve_scs_paths (pe_fs (ue_before env)) settings)) (\<lambda>paths.
       let bootstrap = path_child (sd_runtime paths) ''.bootstrap.lock'';
           writer = path_child (sd_home paths) ''.daemon.lock'' in
       if pe_is_symlink (ue_before env) bootstrap
       then act_raise (unsafe ''unsafe lifecycle lock symlink'' bootstrap)
       else if pe_is_symlink (ue_before env) writer
       then act_raise (unsafe ''unsafe lifecycle lock symlink'' writer)
       else
         act_seq (failing_stage ''lifecycle shutdown'' (\<lambda>_. [])
             (act_seq (ue_lock env bootstrap)
               (act_seq (ue_stop env)
                 (act_seq (ue_lock env writer) (act_lift (same_plan env inst settings plan))))))
         (act_seq (failing_stage ''package removal'' (\<lambda>_. []) (ue_uv env inst))
           (failing_stage ''package removed; cleanup'' (remaining_paths plan)
             (cleanup env [p_comps bootstrap, p_comps writer] plan))))))"

section \<open>What a purge keeps\<close>

lemma purge_planned_untouched:
  assumes "r \<parallel> p_comps d" "purge_planned rm locks d t = (res, t')"
  shows "untouched r t t'"
  using assms(2)
  by (auto simp: purge_planned_def split: option.splits prod.splits intro: untouched_replace [OF assms(1)])

lemma purge_all_untouched:
  "\<forall>d\<in>set ds. r \<parallel> p_comps d \<Longrightarrow> purge_all rm locks ds t = (res, t') \<Longrightarrow> untouched r t t'"
proof (induction ds arbitrary: t)
  case Nil
  then show ?case by (simp add: act_return_def)
next
  case (Cons d ds)
  obtain r1 t1 where 1: "purge_planned rm locks d t = (r1, t1)" by (cases "purge_planned rm locks d t")
  have "untouched r t t1" using Cons.prems(1) 1 by (auto intro: purge_planned_untouched)
  moreover have "untouched r t1 t'"
    using Cons.prems 1 Cons.IH [of t1] by (auto simp: act_seq_def act_bind_def split: sum.splits)
  ultimately show ?case by (rule untouched_trans)
qed

lemma map_of_opt_entry [simp]:
  "(m ++ map_of (opt_entry c t)) d = (if d = c \<and> t \<noteq> None then t else m d)"
  by (cases t) (auto simp: opt_entry_def)

text \<open>An entry on the way to a lock stays, purged in turn or not reached.\<close>

lemma purge_entries_keeps:
  assumes "purge_entries rm locks at es = (failure, es')" "l \<in> set locks" "prefix (at @ [c]) l"
    "map_of es c = Some t"
    "snd (purge_directory rm locks (at @ [c]) t) \<noteq> None"
  shows "\<exists>t'. map_of es' c = Some t' \<and>
     (t' = t \<or> (at @ [c] \<notin> set locks \<and> (\<exists>failure. purge_directory rm locks (at @ [c]) t = (failure, Some t'))))"
  using assms
proof (induction es arbitrary: failure es')
  case Nil
  then show ?case by simp
next
  case (Cons e es)
  obtain d u where e: "e = (d, u)" by (cases e)
  have onway: "list_ex (prefix (at @ [c])) locks" using Cons.prems(2,3) by (auto simp: list_ex_iff)
  obtain f es1 where rest: "purge_entries rm locks at es = (f, es1)" by (cases "purge_entries rm locks at es")
  show ?case
  proof (cases "d = c")
    case True
    then have [simp]: "u = t" using Cons.prems(4) by (simp add: e)
    show ?thesis
    proof (cases "at @ [c] \<in> set locks")
      case True
      then show ?thesis using Cons.prems(1) \<open>d = c\<close> by (auto simp: e rest)
    next
      case False
      obtain f' t' where step: "purge_directory rm locks (at @ [c]) t = (f', t')"
        by (cases "purge_directory rm locks (at @ [c]) t")
      then obtain t'' where "t' = Some t''" using Cons.prems(5) by auto
      then show ?thesis using Cons.prems(1) \<open>d = c\<close> False onway step
        by (auto simp: e rest split: option.splits)
    qed
  next
    case False
    then have mem: "map_of es c = Some t" using Cons.prems(4) by (simp add: e)
    note IH = Cons.IH [OF rest Cons.prems(2,3) mem Cons.prems(5)]
    show ?thesis using Cons.prems(1) False IH mem
      by (auto simp: e rest split: if_splits option.splits prod.splits)
  qed
qed

lemma purge_directory_stays:
  "list_ex (prefix at) locks \<Longrightarrow> snd (purge_directory rm locks at t) \<noteq> None"
  by (cases t) (auto split: prod.splits option.splits if_splits)

text \<open>A lock below the purged directory is kept as it is, on every outcome.\<close>

lemma purge_keeps_lock:
  assumes "purge_directory rm locks at t = (failure, t')" "at @ q \<in> set locks" "q \<noteq> []"
    "node_at t q = Some n" "\<And>l. l \<in> set locks \<Longrightarrow> prefix l (at @ q) \<Longrightarrow> l = at @ q"
  shows "\<exists>u. t' = Some u \<and> node_at u q = Some n"
  using assms
proof (induction q arbitrary: at t failure t')
  case Nil
  then show ?case by simp
next
  case (Cons c cs)
  then obtain es where t: "t = Dir es" by (cases t) auto
  obtain u where u: "map_of es c = Some u" "node_at u cs = Some n"
    using Cons.prems(4) by (auto simp: t split: option.splits)
  have onway: "prefix (at @ [c]) (at @ c # cs)" by simp
  obtain f es' where ent: "purge_entries rm locks at es = (f, es')" by (cases "purge_entries rm locks at es")
  have stays: "snd (purge_directory rm locks (at @ [c]) u) \<noteq> None"
    by (rule purge_directory_stays)
       (use Cons.prems(2) onway in \<open>auto simp: list_ex_iff intro: bexI [of _ "at @ c # cs"]\<close>)
  obtain u' where u': "map_of es' c = Some u'"
    "u' = u \<or> (at @ [c] \<notin> set locks \<and> (\<exists>failure. purge_directory rm locks (at @ [c]) u = (failure, Some u')))"
    using purge_entries_keeps [OF ent Cons.prems(2) onway u(1) stays] by blast
  have t': "t' = Some (Dir es')"
    using Cons.prems(1,2) ent by (auto simp: t list_ex_iff split: option.splits if_splits)
  have "node_at u' cs = Some n"
  proof (cases "u' = u")
    case True
    then show ?thesis using u(2) by simp
  next
    case False
    then obtain failure where step: "purge_directory rm locks (at @ [c]) u = (failure, Some u')"
      and "at @ [c] \<notin> set locks" using u'(2) by blast
    then have "cs \<noteq> []" using Cons.prems(2) by auto
    have "\<exists>v. Some u' = Some v \<and> node_at v cs = Some n"
      by (rule Cons.IH [OF step _ \<open>cs \<noteq> []\<close> u(2)]) (use Cons.prems(2,5) in auto)
    then show ?thesis by simp
  qed
  then show ?case using t' u'(1) by simp
qed

text \<open>A purge that returns leaves nothing but the locks and the directories above them.\<close>

definition near_lock :: "string list list \<Rightarrow> string list \<Rightarrow> bool" where
  "near_lock locks p = list_ex (\<lambda>l. prefix p l \<or> prefix l p) locks"

lemma purge_success_leaves_locks:
  "purge_directory rm locks at t = (None, Some t') \<Longrightarrow> list_ex (prefix at) locks \<Longrightarrow>
   node_at t' q \<noteq> None \<Longrightarrow> near_lock locks (at @ q)"
  "purge_entries rm locks at es = (None, es') \<Longrightarrow> (c, u) \<in> set es' \<Longrightarrow>
   node_at u r \<noteq> None \<Longrightarrow> near_lock locks (at @ c # r)"
proof (induction at t and at es arbitrary: t' q and es' c u r rule: purge_directory_purge_entries.induct)
  case (1 rm locks at ex)
  then show ?case by (cases q) (auto simp: near_lock_def list_ex_iff split: if_splits)
next
  case (2 rm locks at)
  then show ?case by simp
next
  case (3 rm locks at es)
  then obtain es' where es': "purge_entries rm locks at es = (None, es')" "t' = Dir es'"
    by (auto split: prod.splits option.splits if_splits)
  show ?case
  proof (cases q)
    case Nil
    then show ?thesis using "3.prems"(2) by (auto simp: near_lock_def list_ex_iff)
  next
    case (Cons d ds)
    then show ?thesis using "3.prems"(3) es' "3.IH"(1) [OF es'(1)]
      by (auto split: option.splits dest: map_of_SomeD)
  qed
next
  case (4 rm locks at)
  then show ?case by simp
next
  case (5 rm locks at d t es)
  show ?case
  proof (cases "at @ [d] \<in> set locks")
    case True
    have "near_lock locks (at @ d # r')" for r'
      using True by (auto simp: near_lock_def list_ex_iff intro!: bexI [of _ "at @ [d]"])
    then show ?thesis using 5 True by (auto split: prod.splits)
  next
    case False
    then show ?thesis
      using 5 by (auto simp: opt_entry_def split: prod.splits option.splits if_splits)
  qed
qed

lemma node_at_replaced:
  "node_at t p \<noteq> None \<Longrightarrow> node_at (replace_at p (Some u) t) (p @ q) = node_at u q"
  by (induction p "Some u" t rule: replace_at.induct) (auto simp: update_conv' split: option.splits)

lemma node_at_removed:
  "node_at t p \<noteq> None \<Longrightarrow> p \<noteq> [] \<Longrightarrow> node_at (replace_at p None t) (p @ q) = None"
  by (induction p "None :: fnode option" t rule: replace_at.induct)
     (auto simp: update_conv' delete_conv' split: option.splits)

section \<open>Properties\<close>

definition spares :: "string list \<Rightarrow> (fnode, 'a) act \<Rightarrow> bool" where
  "spares p m = (\<forall>t r t'. m t = (r, t') \<longrightarrow> untouched p t t')"

lemma sparesI: "(\<And>t r t'. m t = (r, t') \<Longrightarrow> untouched p t t') \<Longrightarrow> spares p m"
  by (simp add: spares_def)

lemma spares_pure: "spares p (act_lift r)" "spares p (act_raise e)" "spares p (act_return x)" "spares p (act_gets f)"
  by (simp_all add: spares_def act_defs)

lemma spares_bind:
  assumes "spares p m" "\<And>x. spares p (f x)" shows "spares p (act_bind m f)"
proof (rule sparesI)
  fix t r t' assume run: "act_bind m f t = (r, t')"
  obtain r1 t1 where 1: "m t = (r1, t1)" by (cases "m t")
  have "untouched p t t1" using assms(1) 1 by (simp add: spares_def)
  moreover have "untouched p t1 t'"
    using run 1 assms(2) by (cases r1) (auto simp: act_bind_def spares_def)
  ultimately show "untouched p t t'" by (rule untouched_trans)
qed

lemma spares_seq: "spares p m \<Longrightarrow> spares p n \<Longrightarrow> spares p (act_seq m n)"
  unfolding act_seq_def by (rule spares_bind)

lemma spares_handle:
  assumes "spares p m" "\<And>e. spares p (h e)" shows "spares p (act_handle m h)"
proof (rule sparesI)
  fix t r t' assume run: "act_handle m h t = (r, t')"
  obtain r1 t1 where 1: "m t = (r1, t1)" by (cases "m t")
  have "untouched p t t1" using assms(1) 1 by (simp add: spares_def)
  moreover have "untouched p t1 t'"
    using run 1 assms(2) by (cases r1) (auto simp: act_handle_def spares_def)
  ultimately show "untouched p t t'" by (rule untouched_trans)
qed

lemma spares_failing_stage: "spares p m \<Longrightarrow> spares p (failing_stage stage recovery m)"
  unfolding failing_stage_def by (auto intro!: spares_handle spares_bind spares_pure)

lemma spares_lifted_bind: "(\<And>x. r = Inr x \<Longrightarrow> spares p (f x)) \<Longrightarrow> spares p (act_bind (act_lift r) f)"
  by (cases r) (auto simp: spares_def act_bind_def act_lift_def)

text \<open>The file system answers with absolute paths.\<close>

definition absolute_answers :: "file_system \<Rightarrow> bool" where
  "absolute_answers fs = (\<forall>p q. fs_resolve fs p = Inr q \<longrightarrow> p_root q = ''/'')"

lemma planned_parallel:
  assumes plan: "plan_purge env inst settings = Inr plan" "d \<in> set (pp_directories plan)"
    and root: "pe_source_roots env = Inr records" "root \<in> set records"
      "fs_resolve (pe_fs env) (parse_path root) = Inr r"
    and abs: "absolute_answers (pe_fs env)"
  shows "p_comps r \<parallel> p_comps d"
proof -
  obtain user_home protected records' roots base_prefix configured where
    *: "pe_source_roots env = Inr records'"
    "each_of (\<lambda>root. fs_resolve (pe_fs env) (parse_path root)) records' = Inr roots"
    "check_directory env inst protected base_prefix roots configured = Inr d"
    by (rule plan_purge_directory [OF plan])
  have "r \<in> set roots" using each_of_mem [OF *(2), of root] *(1) root by auto
  then have "\<not> is_relative_to r d" "\<not> is_relative_to d r"
    using check_directory_safe(2) [OF *(3)] by (auto simp: overlaps_protected_def list_ex_iff)
  moreover have "p_root r = ''/''" "p_root d = ''/''"
    using root(3) check_directory_safe(1) [OF *(3)] abs unfolding absolute_answers_def by blast+
  ultimately show ?thesis by (auto simp: is_relative_to_iff parallel_def)
qed

lemma plan_purge_config:
  "plan_purge env inst settings = Inr plan \<Longrightarrow>
   pp_config plan = path_child (path_child (fs_home (pe_fs env)) ''.scs'') ''config.toml''"
  by (auto simp: plan_purge_def Let_def and_then_Inr_iff simp del: each_of.simps split: if_splits)

lemma config_location:
  "path_parent (path_child (path_child p ''.scs'') ''config.toml'') = path_child p ''.scs''"
  "path_name (path_child p ''config.toml'') = ''config.toml''"
  by (simp_all add: path_parent_def path_child_def path_join_def parse_path_def parse_root_def path_name_def
       butlast_append)

lemma spares_cleanup:
  assumes "\<And>p d. plan = Some p \<Longrightarrow> d \<in> set (pp_directories p) \<Longrightarrow> r \<parallel> p_comps d"
    "\<And>p parent. plan = Some p \<Longrightarrow> fs_resolve (pe_fs (ue_after env)) (path_parent (pp_config p)) = Inr parent \<Longrightarrow>
       r \<parallel> p_comps parent @ [path_name (pp_config p)]"
  shows "spares r (cleanup env locks plan)"
proof (cases plan)
  case None
  then show ?thesis by (simp add: cleanup_def spares_pure)
next
  case (Some p)
  have "spares r (purge_all (ue_remove env) locks (pp_directories p))"
    by (rule sparesI, rule purge_all_untouched) (use assms(1) Some in blast)
  moreover have "spares r (unlink_config env (pp_config p))"
    using assms(2) [OF Some]
    by (intro sparesI) (auto simp: unlink_config_def Let_def split: sum.splits option.splits intro!: untouched_replace)
  ultimately show ?thesis by (simp add: Some cleanup_def spares_seq)
qed


definition demo_fs :: file_system where
  "demo_fs = \<lparr>fs_resolve = (\<lambda>p. Inr (p\<lparr>p_root := ''/''\<rparr>)), fs_resolve_strict = Inr,
     fs_listdir = (\<lambda>_. Inr []), fs_is_file = (\<lambda>_. True), fs_is_dir = (\<lambda>_. True), fs_expanduser = id,
     fs_cwd = parse_path ''/w'', fs_home = parse_path ''/home/u''\<rparr>"

definition demo_plan_env :: plan_env where
  "demo_plan_env = \<lparr>pe_fs = demo_fs, pe_is_symlink = (\<lambda>_. False), pe_exists = (\<lambda>p. path_name p \<noteq> ''.git'' \<and> path_name p \<noteq> ''.hg'' \<and> path_name p \<noteq> ''.svn''),
     pe_walk = (\<lambda>p. ([(p, [''jobs.db''])], None)), pe_base_prefix = parse_path ''/usr/python'',
     pe_default_logs = parse_path ''/home/u/state/logs'', pe_default_runtime = parse_path ''/home/u/state/run'',
     pe_source_roots = Inr [''/home/u/r'']\<rparr>"

definition demo_settings :: purge_settings where
  "demo_settings = \<lparr>ps_home = parse_path ''/d'', ps_model_cache = parse_path ''/d/m'',
     ps_logs = parse_path ''/l'', ps_runtime = parse_path ''/d/run''\<rparr>"

definition demo_uninstall :: uninstall_env where
  "demo_uninstall = \<lparr>ue_executable = \<lparr>ex_uv = Some ''/bin/uv'', ex_prefix = parse_path ''/t/scs'', ex_module = parse_path ''/t/scs/u.py''\<rparr>,
     ue_before = demo_plan_env, ue_after = demo_plan_env, ue_stop = act_return True, ue_lock = (\<lambda>_. act_return ()),
     ue_uv = (\<lambda>_. act_return ()), ue_remove = (\<lambda>_ _. None)\<rparr>"

definition demo_tree :: fnode where
  "demo_tree = Dir [(''d'', Dir [(''.daemon.lock'', File), (''jobs.db'', File), (''m'', Dir [(''w'', File)]),
        (''run'', Dir [(''.bootstrap.lock'', File), (''scs.sock'', File)])]),
      (''l'', Dir [(''daemon.log'', File)]),
      (''home'', Dir [(''u'', Dir [(''.scs'', Dir [(''config.toml'', File)]), (''r'', Dir [(''a.py'', File)])])])]"

lemma demo_purge:
  "uninstall demo_uninstall demo_settings True demo_tree =
     (Inr (), Dir [(''d'', Dir [(''.daemon.lock'', File), (''run'', Dir [(''.bootstrap.lock'', File)])]),
       (''home'', Dir [(''u'', Dir [(''.scs'', Dir []), (''r'', Dir [(''a.py'', File)])])])])"
  by code_simp

lemma demo_roots:
  "pe_source_roots (ue_before demo_uninstall) = Inr [''/home/u/r'']"
  "fs_resolve (pe_fs (ue_before demo_uninstall)) (parse_path ''/home/u/r'') =
     Inr \<lparr>p_root = ''/'', p_comps = [''home'', ''u'', ''r'']\<rparr>"
  "absolute_answers (pe_fs (ue_before demo_uninstall))"
  by (simp_all add: demo_uninstall_def demo_plan_env_def demo_fs_def absolute_answers_def parse_path_def parse_root_def)

lemma demo_config_apart:
  "fs_resolve (pe_fs (ue_after demo_uninstall)) (path_child (fs_home (pe_fs (ue_before demo_uninstall))) ''.scs'') = Inr parent
   \<Longrightarrow> [''home'', ''u'', ''r''] \<parallel> p_comps parent @ [''config.toml'']"
  by (auto simp: demo_uninstall_def demo_plan_env_def demo_fs_def path_child_def path_join_def parse_path_def
      parse_root_def parallel_def)


text \<open>Aux: Purging a planned directory keeps every lifecycle lock as it is, however the purge
  ends, and when it succeeds nothing else is left below the directory than the locks and
  the directories that lead to them; without a lock below it the directory is gone.\<close>

theorem purge_leaves_only_locks:
  assumes "node_at t (p_comps d) = Some (Dir es)" "p_comps d \<noteq> []"
    and "purge_planned rm locks d t = (res, t')"
  shows "(res = Inr () \<longrightarrow> prefix (p_comps d) p \<longrightarrow> node_at t' p \<noteq> None \<longrightarrow> near_lock locks p) \<and>
    (lock \<in> set locks \<longrightarrow> strict_prefix (p_comps d) lock \<longrightarrow> (\<forall>l\<in>set locks. prefix l lock \<longrightarrow> l = lock) \<longrightarrow>
       node_at t lock = Some n \<longrightarrow> node_at t' lock = Some n)"
proof -
  obtain failure d' where run: "purge_directory rm locks (p_comps d) (Dir es) = (failure, d')"
    by (cases "purge_directory rm locks (p_comps d) (Dir es)")
  have t': "t' = replace_at (p_comps d) d' t" and res: "res = Inr () \<longleftrightarrow> failure = None"
    using assms(1,3) run by (auto simp: purge_planned_def split: option.splits)
  have "near_lock locks p"
    if ok: "res = Inr ()" and p: "prefix (p_comps d) p" and left: "node_at t' p \<noteq> None"
  proof -
    obtain q where q: "p = p_comps d @ q" using p by (rule prefixE)
    obtain u where u: "d' = Some u"
      using left node_at_removed [of t "p_comps d" q] assms(1,2) by (cases d') (auto simp: t' q)
    have "node_at u q \<noteq> None" using left node_at_replaced [of t "p_comps d" u q] assms(1) by (simp add: t' q u)
    moreover have gone: "purge_directory rm locks (p_comps d) (Dir es) = (None, Some u)"
      using run ok res u by simp
    moreover have "list_ex (prefix (p_comps d)) locks"
      using gone by (auto split: prod.splits option.splits if_splits)
    ultimately show ?thesis unfolding q by (intro purge_success_leaves_locks(1))
  qed
  moreover have "node_at t' lock = Some n"
    if lock: "lock \<in> set locks" "strict_prefix (p_comps d) lock"
      "\<forall>l\<in>set locks. prefix l lock \<longrightarrow> l = lock" "node_at t lock = Some n"
  proof -
    obtain q where q: "lock = p_comps d @ q" "q \<noteq> []" using lock(2) by (auto simp: strict_prefix_def prefix_def)
    have "node_at (Dir es) q = Some n"
      using lock(4) assms(1) q(1) by (simp add: node_at_append)
    then obtain u where "d' = Some u" "node_at u q = Some n"
      using purge_keeps_lock [OF run] lock(1,3) q by auto
    then show ?thesis
      using node_at_replaced [of t "p_comps d" u q] assms(1) by (simp add: t' q)
  qed
  ultimately show ?thesis by blast
qed

definition demo_home :: ppath where
  "demo_home = \<lparr>p_root = ''/'', p_comps = [''d'']\<rparr>"

definition demo_locks :: "string list list" where
  "demo_locks = [[''d'', ''run'', ''.bootstrap.lock''], [''d'', ''.daemon.lock'']]"

lemma demo_planned:
  "purge_planned (\<lambda>_ _. None) demo_locks demo_home
     (Dir [(''d'', Dir [(''.daemon.lock'', File), (''jobs.db'', File), (''run'', Dir [(''.bootstrap.lock'', File)])])]) =
   (Inr (), Dir [(''d'', Dir [(''.daemon.lock'', File), (''run'', Dir [(''.bootstrap.lock'', File)])])])"
  by code_simp

theorem purge_leaves_only_locks_witness:
  "near_lock demo_locks [''d'', ''run''] \<and>
   node_at (Dir [(''d'', Dir [(''.daemon.lock'', File), (''run'', Dir [(''.bootstrap.lock'', File)])])])
     [''d'', ''.daemon.lock''] = Some File"
  using purge_leaves_only_locks [where p = "[''d'', ''run'']" and lock = "[''d'', ''.daemon.lock'']" and n = File,
      OF _ _ demo_planned]
  by (simp add: demo_home_def demo_locks_def strict_prefix_def)

end
