(* ===== verification/Daemon_Lifecycle.thy ===== *)
theory Daemon_Lifecycle
  imports Scs_Prelude
begin

text \<open>
  The life of the daemon process: the exclusive process lock (\<open>src/src/scs/service.py\<close>), the
  published identity record (\<open>src/src/scs/identity.py\<close>), the order in which start and stop
  of a daemon use both, and the timers that end an unused daemon (\<open>SCSDaemon\<close> in \<open>src/src/scs/main.py\<close>).
\<close>

section \<open>The process lock\<close>

text \<open>The advisory locks of the system are the list of the locked paths.\<close>

record process_lock =
  pl_path :: string
  pl_held :: bool

definition acquire :: "process_lock \<Rightarrow> (string list, process_lock) act" where
  "acquire pl locked =
     (if pl_held pl then (Inl (RuntimeError ''SCS process lock is already acquired''), locked)
      else if pl_path pl \<in> set locked
      then (Inl (RuntimeError ''SCS daemon is already running for this storage root''), locked)
      else (Inr (pl\<lparr>pl_held := True\<rparr>), pl_path pl # locked))"

definition release :: "process_lock \<Rightarrow> (string list, process_lock) act" where
  "release pl locked =
     (if pl_held pl then (Inr (pl\<lparr>pl_held := False\<rparr>), remove1 (pl_path pl) locked) else (Inr pl, locked))"

section \<open>The identity record\<close>

datatype identity_file = NoFile | SymbolicLink | Unreadable exc | NotJson | Payload json

record identity =
  id_service :: string
  id_pid :: int
  id_start_time :: string
  id_generation :: string
  id_artifact :: string

definition identity_payload :: "identity \<Rightarrow> json" where
  "identity_payload i =
     JObj [(''artifact_sha256'', JStr (id_artifact i)), (''generation'', JStr (id_generation i)),
       (''pid'', JInt (id_pid i)), (''protocol_max'', JInt 1), (''protocol_min'', JInt 1),
       (''service'', JStr (id_service i)), (''start_time'', JStr (id_start_time i))]"

text \<open>
  \<open>publish\<close> writes a temporary file, replaces the record by it and flushes the directory;
  \<open>written\<close> is the outcome of everything up to the replacement, \<open>flushed\<close> of the rest.
\<close>

definition publish_identity :: "exc + unit \<Rightarrow> exc + unit \<Rightarrow> identity \<Rightarrow> (identity_file, unit) act" where
  "publish_identity written flushed i file =
     (case written of Inl e \<Rightarrow> (Inl e, file) | Inr _ \<Rightarrow> (flushed, Payload (identity_payload i)))"

text \<open>
  \<open>remove_owned\<close> reads the record and unlinks it in two steps.  Reading catches
  \<open>OSError\<close> and \<open>JSONDecodeError\<close>; another exception of decoding the text escapes.
\<close>

definition owns_record :: "identity \<Rightarrow> identity_file \<Rightarrow> exc + bool" where
  "owns_record i file =
     (case file of
        Payload (JObj values) \<Rightarrow>
          Inr (dict_get values ''service'' JNull = JStr (id_service i)
               \<and> dict_get values ''generation'' JNull = JStr (id_generation i))
      | Unreadable (OSError _) \<Rightarrow> Inr False
      | Unreadable e \<Rightarrow> Inl e
      | _ \<Rightarrow> Inr False)"

definition unlink_record :: "(identity_file, bool) act" where
  "unlink_record file =
     (case file of NoFile \<Rightarrow> (Inl (OSError ''No such file or directory''), NoFile) | _ \<Rightarrow> (Inr True, NoFile))"

definition remove_owned :: "identity \<Rightarrow> (identity_file, bool) act" where
  "remove_owned i =
     act_bind (act_bind (act_gets (owns_record i)) act_lift) (\<lambda>own. if own then unlink_record else act_return False)"

lemma payload_owned_iff:
  "owns_record i (Payload (identity_payload j)) =
     Inr (id_service j = id_service i \<and> id_generation j = id_generation i)"
  by (simp add: owns_record_def identity_payload_def dict_get_def)

text \<open>Without interference a daemon removes its own record and no other.\<close>

lemma remove_owned_alone:
  "remove_owned i (Payload (identity_payload j)) =
     (if id_service j = id_service i \<and> id_generation j = id_generation i
      then (Inr True, NoFile) else (Inr False, Payload (identity_payload j)))"
  by (simp add: remove_owned_def act_bind_def act_gets_def act_lift_def payload_owned_iff unlink_record_def act_return_def)

section \<open>Daemons of one storage root, interleaved\<close>

text \<open>
  What a daemon does to the lock and to the record, in the order of \<open>start\<close> and \<open>stop\<close>:
  \<open>stop\<close> releases the lock before it removes the record, a failing \<open>start\<close> after it.
\<close>

datatype daemon_phase = Stopped | Owner | Serving | Released | Removing | Ended

record root_state =
  rt_locked :: "string list"
  rt_file :: identity_file
  rt_daemons :: "(identity \<times> process_lock \<times> daemon_phase) list"

definition set_daemon ::
  "nat \<Rightarrow> process_lock \<Rightarrow> daemon_phase \<Rightarrow> root_state \<Rightarrow> root_state" where
  "set_daemon k pl ph s =
     s\<lparr>rt_daemons := (rt_daemons s)[k := (fst (rt_daemons s ! k), pl, ph)]\<rparr>"

inductive daemon_step :: "root_state \<Rightarrow> root_state \<Rightarrow> bool" where
  own: "k < length (rt_daemons s) \<Longrightarrow> rt_daemons s ! k = (i, pl, Stopped) \<Longrightarrow>
     acquire pl (rt_locked s) = (Inr pl', locked) \<Longrightarrow>
     daemon_step s (set_daemon k pl' Owner (s\<lparr>rt_locked := locked\<rparr>))"
| announce: "k < length (rt_daemons s) \<Longrightarrow> rt_daemons s ! k = (i, pl, Owner) \<Longrightarrow>
     publish_identity written flushed i (rt_file s) = (res, file) \<Longrightarrow>
     daemon_step s (set_daemon k pl (if is_raise res then Owner else Serving) (s\<lparr>rt_file := file\<rparr>))"
| abort: "k < length (rt_daemons s) \<Longrightarrow> rt_daemons s ! k = (i, pl, Owner) \<Longrightarrow>
     remove_owned i (rt_file s) = (res, file) \<Longrightarrow> release pl (rt_locked s) = (Inr pl', locked) \<Longrightarrow>
     daemon_step s (set_daemon k pl' Ended (s\<lparr>rt_file := file, rt_locked := locked\<rparr>))"
| let_go: "k < length (rt_daemons s) \<Longrightarrow> rt_daemons s ! k = (i, pl, Serving) \<Longrightarrow>
     release pl (rt_locked s) = (Inr pl', locked) \<Longrightarrow>
     daemon_step s (set_daemon k pl' Released (s\<lparr>rt_locked := locked\<rparr>))"
| examine: "k < length (rt_daemons s) \<Longrightarrow> rt_daemons s ! k = (i, pl, Released) \<Longrightarrow>
     owns_record i (rt_file s) = Inr own \<Longrightarrow>
     daemon_step s (set_daemon k pl (if own then Removing else Ended) s)"
| unlink: "k < length (rt_daemons s) \<Longrightarrow> rt_daemons s ! k = (i, pl, Removing) \<Longrightarrow>
     unlink_record (rt_file s) = (res, file) \<Longrightarrow>
     daemon_step s (set_daemon k pl Ended (s\<lparr>rt_file := file\<rparr>))"

definition fresh_root :: "string \<Rightarrow> identity list \<Rightarrow> root_state" where
  "fresh_root path ids =
     \<lparr>rt_locked = [], rt_file = NoFile,
      rt_daemons = map (\<lambda>i. (i, \<lparr>pl_path = path, pl_held = False\<rparr>, Stopped)) ids\<rparr>"

inductive root_reachable :: "root_state \<Rightarrow> bool" where
  start: "root_reachable (fresh_root path ids)"
| step: "root_reachable s \<Longrightarrow> daemon_step s s' \<Longrightarrow> root_reachable s'"

definition owning :: "identity \<times> process_lock \<times> daemon_phase \<Rightarrow> bool" where
  "owning d = (case d of (_, _, ph) \<Rightarrow> ph = Owner \<or> ph = Serving)"

definition root_ok :: "string \<Rightarrow> root_state \<Rightarrow> bool" where
  "root_ok path s =
     ((\<forall>d\<in>set (rt_daemons s). pl_path (fst (snd d)) = path \<and> (pl_held (fst (snd d)) \<longleftrightarrow> owning d))
      \<and> rt_locked s = replicate (how_many owning (rt_daemons s)) path
      \<and> how_many owning (rt_daemons s) \<le> 1)"

lemma owning_simps [simp]:
  "owning (i, pl, ph) \<longleftrightarrow> ph = Owner \<or> ph = Serving"
  by (simp add: owning_def)

lemma how_many_set_daemon:
  "k < length (rt_daemons s) \<Longrightarrow> rt_daemons s ! k = (i, pl, ph) \<Longrightarrow>
   how_many owning (rt_daemons (set_daemon k pl' ph' s)) + of_bool (ph = Owner \<or> ph = Serving) =
   how_many owning (rt_daemons s) + of_bool (ph' = Owner \<or> ph' = Serving)"
  using how_many_update [of k "rt_daemons s" owning "(i, pl', ph')"] by (simp add: set_daemon_def)

lemma set_daemon_simps [simp]:
  "rt_locked (set_daemon k pl ph s) = rt_locked s" "rt_file (set_daemon k pl ph s) = rt_file s"
  "length (rt_daemons (set_daemon k pl ph s)) = length (rt_daemons s)"
  by (simp_all add: set_daemon_def)

lemma locks_ok_set:
  assumes "\<forall>d\<in>set (rt_daemons s). pl_path (fst (snd d)) = path \<and> (pl_held (fst (snd d)) \<longleftrightarrow> owning d)"
    "k < length (rt_daemons s)" "pl_path pl = path" "pl_held pl \<longleftrightarrow> ph = Owner \<or> ph = Serving"
  shows "\<forall>d\<in>set (rt_daemons (set_daemon k pl ph s)). pl_path (fst (snd d)) = path \<and> (pl_held (fst (snd d)) \<longleftrightarrow> owning d)"
  using assms by (auto simp: set_daemon_def dest!: set_update_subset_insert [THEN subsetD])

lemma nth_locks_ok:
  assumes "\<forall>d\<in>set (rt_daemons s). pl_path (fst (snd d)) = path \<and> (pl_held (fst (snd d)) \<longleftrightarrow> owning d)"
    "k < length (rt_daemons s)" "rt_daemons s ! k = (i, pl, ph)"
  shows "pl_path pl = path \<and> (pl_held pl \<longleftrightarrow> ph = Owner \<or> ph = Serving)"
  using assms(1) nth_mem [OF assms(2)] unfolding assms(3) by fastforce

lemma how_many_owner:
  "k < length (rt_daemons s) \<Longrightarrow> rt_daemons s ! k = (i, pl, ph) \<Longrightarrow> ph = Owner \<or> ph = Serving \<Longrightarrow>
   0 < how_many owning (rt_daemons s)"
  unfolding how_many_pos by (metis nth_mem owning_simps)

lemma root_ok_set:
  assumes "root_ok path s" "rt_daemons s' = rt_daemons s" "k < length (rt_daemons s)"
    and "pl_path pl = path" "pl_held pl \<longleftrightarrow> ph = Owner \<or> ph = Serving"
    and "how_many owning (rt_daemons (set_daemon k pl ph s')) = n" "rt_locked s' = replicate n path" "n \<le> 1"
  shows "root_ok path (set_daemon k pl ph s')"
  unfolding root_ok_def
proof (intro conjI)
  show "\<forall>d\<in>set (rt_daemons (set_daemon k pl ph s')).
      pl_path (fst (snd d)) = path \<and> (pl_held (fst (snd d)) \<longleftrightarrow> owning d)"
    by (rule locks_ok_set) (use assms(1-5) in \<open>simp_all add: root_ok_def\<close>)
qed (use assms(6-8) in simp_all)

lemma root_ok_facts:
  assumes "root_ok path s"
  shows "\<forall>d\<in>set (rt_daemons s). pl_path (fst (snd d)) = path \<and> (pl_held (fst (snd d)) \<longleftrightarrow> owning d)"
    "rt_locked s = replicate (how_many owning (rt_daemons s)) path" "how_many owning (rt_daemons s) \<le> 1"
  using assms unfolding root_ok_def by blast+

text \<open>The owner that gives its lock back was the only one.\<close>

lemma release_last:
  assumes "root_ok path s" "k < length (rt_daemons s)" "rt_daemons s ! k = (i, pl, ph)"
    and "ph = Owner \<or> ph = Serving" "release pl (rt_locked s) = (Inr pl', locked)"
  shows "how_many owning (rt_daemons s) = 1 \<and> pl' = pl\<lparr>pl_held := False\<rparr> \<and> locked = [] \<and> pl_path pl = path"
proof -
  note ok = root_ok_facts [OF assms(1)]
  have pl: "pl_path pl = path" "pl_held pl" using nth_locks_ok [OF ok(1) assms(2,3)] assms(4) by simp_all
  have one: "how_many owning (rt_daemons s) = 1"
    using how_many_owner [OF assms(2,3,4)] ok(3) by simp
  then show ?thesis using assms(5) pl ok(2) by (auto simp: release_def)
qed

lemma root_ok_step:
  assumes "daemon_step s s'" "root_ok path s"
  shows "root_ok path s'"
  using assms
proof (induction rule: daemon_step.induct)
  case (own k s i pl pl' locked)
  note ok = root_ok_facts [OF own(4)]
  have pl: "pl_path pl = path" "\<not> pl_held pl" using nth_locks_ok [OF ok(1) own(1,2)] by simp_all
  then have free: "path \<notin> set (rt_locked s)" "pl' = pl\<lparr>pl_held := True\<rparr>" "locked = path # rt_locked s"
    using own(3) by (auto simp: acquire_def split: if_splits)
  then have zero: "how_many owning (rt_daemons s) = 0" using ok(2) by (cases "how_many owning (rt_daemons s)") auto
  have "how_many owning (rt_daemons (set_daemon k pl' Owner (s\<lparr>rt_locked := locked\<rparr>))) = 1"
    using how_many_set_daemon [of k "s\<lparr>rt_locked := locked\<rparr>" i pl Stopped pl' Owner] own(1,2) zero by simp
  then show ?case by (rule root_ok_set [OF own(4) _ own(1), rotated 3]) (use free zero pl ok(2) in simp_all)
next
  case (announce k s i pl written flushed res f)
  note ok = root_ok_facts [OF announce(4)]
  have pl: "pl_path pl = path" "pl_held pl" using nth_locks_ok [OF ok(1) announce(1,2)] by simp_all
  let ?ph = "if is_raise res then Owner else Serving"
  have "how_many owning (rt_daemons (set_daemon k pl ?ph (s\<lparr>rt_file := f\<rparr>))) = how_many owning (rt_daemons s)"
    using how_many_set_daemon [of k "s\<lparr>rt_file := f\<rparr>" i pl Owner pl ?ph] announce(1,2)
    by (cases "is_raise res") simp_all
  then show ?case by (rule root_ok_set [OF announce(4) _ announce(1), rotated 3]) (use pl ok(2,3) in simp_all)
next
  case (abort k s i pl res f pl' locked)
  note ok = root_ok_facts [OF abort(5)]
  note gone = release_last [OF abort(5,1,2) _ abort(4)]
  have "how_many owning (rt_daemons (set_daemon k pl' Ended (s\<lparr>rt_file := f, rt_locked := locked\<rparr>))) = 0"
    using how_many_set_daemon [of k "s\<lparr>rt_file := f, rt_locked := locked\<rparr>" i pl Owner pl' Ended] abort(1,2) gone by simp
  then show ?case by (rule root_ok_set [OF abort(5) _ abort(1), rotated 3]) (use gone in simp_all)
next
  case (let_go k s i pl pl' locked)
  note gone = release_last [OF let_go(4,1,2) _ let_go(3)]
  have "how_many owning (rt_daemons (set_daemon k pl' Released (s\<lparr>rt_locked := locked\<rparr>))) = 0"
    using how_many_set_daemon [of k "s\<lparr>rt_locked := locked\<rparr>" i pl Serving pl' Released] let_go(1,2) gone by simp
  then show ?case by (rule root_ok_set [OF let_go(4) _ let_go(1), rotated 3]) (use gone in simp_all)
next
  case (examine k s i pl own)
  note ok = root_ok_facts [OF examine(4)]
  have pl: "pl_path pl = path" "\<not> pl_held pl" using nth_locks_ok [OF ok(1) examine(1,2)] by simp_all
  have "how_many owning (rt_daemons (set_daemon k pl (if own then Removing else Ended) s)) = how_many owning (rt_daemons s)"
    using how_many_set_daemon [of k s i pl Released pl "if own then Removing else Ended"] examine(1,2) by simp
  then show ?case by (rule root_ok_set [OF examine(4) _ examine(1), rotated 3]) (use pl ok(2,3) in simp_all)
next
  case (unlink k s i pl res f)
  note ok = root_ok_facts [OF unlink(4)]
  have pl: "pl_path pl = path" "\<not> pl_held pl" using nth_locks_ok [OF ok(1) unlink(1,2)] by simp_all
  have "how_many owning (rt_daemons (set_daemon k pl Ended (s\<lparr>rt_file := f\<rparr>))) = how_many owning (rt_daemons s)"
    using how_many_set_daemon [of k "s\<lparr>rt_file := f\<rparr>" i pl Removing pl Ended] unlink(1,2) by simp
  then show ?case by (rule root_ok_set [OF unlink(4) _ unlink(1), rotated 3]) (use pl ok(2,3) in simp_all)
qed

lemma root_ok_reachable: "root_reachable s \<Longrightarrow> \<exists>path. root_ok path s"
proof (induction rule: root_reachable.induct)
  case (start path ids)
  have "how_many owning (rt_daemons (fresh_root path ids)) = 0"
    by (auto simp: how_many_def fresh_root_def filter_empty_conv)
  then have "root_ok path (fresh_root path ids)" by (auto simp: root_ok_def fresh_root_def)
  then show ?case ..
next
  case (step s s')
  then show ?case using root_ok_step by blast
qed


definition demo_identity :: "string \<Rightarrow> identity" where
  "demo_identity g = \<lparr>id_service = ''scs-daemon'', id_pid = 1, id_start_time = [], id_generation = g, id_artifact = []\<rparr>"

text \<open>The schedule in which the old daemon looks at its record, the new one starts, and the old one unlinks.\<close>

definition handover :: "daemon_phase \<Rightarrow> daemon_phase \<Rightarrow> identity_file \<Rightarrow> root_state" where
  "handover old new file =
     \<lparr>rt_locked = (if old \<in> {Owner, Serving} \<or> new \<in> {Owner, Serving} then [''/d''] else []), rt_file = file,
      rt_daemons = [(demo_identity ''a'', \<lparr>pl_path = ''/d'', pl_held = old \<in> {Owner, Serving}\<rparr>, old),
        (demo_identity ''b'', \<lparr>pl_path = ''/d'', pl_held = new \<in> {Owner, Serving}\<rparr>, new)]\<rparr>"

abbreviation record_of :: "string \<Rightarrow> identity_file" where
  "record_of g \<equiv> Payload (identity_payload (demo_identity g))"

lemma handover_steps:
  "daemon_step (handover Stopped Stopped NoFile) (handover Owner Stopped NoFile)"
  "daemon_step (handover Owner Stopped NoFile) (handover Serving Stopped (record_of ''a''))"
  "daemon_step (handover Serving Stopped (record_of ''a'')) (handover Released Stopped (record_of ''a''))"
  "daemon_step (handover Released Stopped (record_of ''a'')) (handover Removing Stopped (record_of ''a''))"
  "daemon_step (handover Removing Stopped (record_of ''a'')) (handover Removing Owner (record_of ''a''))"
  "daemon_step (handover Removing Owner (record_of ''a'')) (handover Removing Serving (record_of ''b''))"
  "daemon_step (handover Removing Serving (record_of ''b'')) (handover Ended Serving NoFile)"
  using daemon_step.own [of 0 "handover Stopped Stopped NoFile"]
    daemon_step.announce [where k = 0 and s = "handover Owner Stopped NoFile" and written = "Inr ()" and flushed = "Inr ()" and res = "Inr ()"]
    daemon_step.let_go [of 0 "handover Serving Stopped (record_of ''a'')"]
    daemon_step.examine [of 0 "handover Released Stopped (record_of ''a'')"]
    daemon_step.own [of 1 "handover Removing Stopped (record_of ''a'')"]
    daemon_step.announce [where k = 1 and s = "handover Removing Owner (record_of ''a'')" and written = "Inr ()" and flushed = "Inr ()" and res = "Inr ()"]
    daemon_step.unlink [of 0 "handover Removing Serving (record_of ''b'')"]
  by (simp_all add: handover_def set_daemon_def acquire_def release_def publish_identity_def
      payload_owned_iff unlink_record_def)

lemma handover_reachable: "root_reachable (handover Ended Serving NoFile)"
proof -
  have "handover Stopped Stopped NoFile = fresh_root ''/d'' [demo_identity ''a'', demo_identity ''b'']"
    by (simp add: handover_def fresh_root_def)
  then have "root_reachable (handover Stopped Stopped NoFile)" by (metis root_reachable.start)
  then show ?thesis by (meson handover_steps root_reachable.step)
qed

text \<open>Aux: Because \<open>stop\<close> gives the lock back before it removes its record, there is a schedule in
  which a stopping daemon unlinks the record its successor has just published: the
  successor serves and no identity is on disk.\<close>

theorem successor_identity_removed:
  "root_reachable (handover Ended Serving NoFile) \<and> owning (rt_daemons (handover Ended Serving NoFile) ! 1)
   \<and> rt_file (handover Ended Serving NoFile) = NoFile"
  using handover_reachable by (simp add: handover_def)


section \<open>The timers that end an unused daemon\<close>

text \<open>
  \<open>_shutdown_task\<close> sleeps and then asks the queue whether work is active.  The client count
  changes at any time and cancels it; a failing query ends the task with its exception.
\<close>

datatype shutdown_task = NoTask | Sleeping bool | Asking bool | Finished

record lifetime =
  lt_ever_attached :: bool
  lt_task :: shutdown_task
  lt_requested :: bool
  lt_clients :: nat

datatype lifetime_event =
    ArmGrace
  | CountChanged nat
  | SleepEnds
  | QueueAnswers "exc + bool"

definition new_lifetime :: lifetime where
  "new_lifetime = \<lparr>lt_ever_attached = False, lt_task = NoTask, lt_requested = False, lt_clients = 0\<rparr>"

definition arm_startup_grace :: "lifetime \<Rightarrow> lifetime" where
  "arm_startup_grace s = (if lt_task s = NoTask then s\<lparr>lt_task := Sleeping True\<rparr> else s)"

definition client_count_changed :: "nat \<Rightarrow> lifetime \<Rightarrow> lifetime" where
  "client_count_changed n s =
     (let s = s\<lparr>lt_task := NoTask, lt_clients := n\<rparr> in
      if n > 0 then s\<lparr>lt_ever_attached := True\<rparr>
      else if lt_ever_attached s then s\<lparr>lt_task := Sleeping False\<rparr>
      else s)"

definition shutdown_after :: "bool \<Rightarrow> exc + bool \<Rightarrow> lifetime \<Rightarrow> lifetime" where
  "shutdown_after unattached active s =
     (case active of
        Inl _ \<Rightarrow> s\<lparr>lt_task := Finished\<rparr>
      | Inr True \<Rightarrow> s\<lparr>lt_task := Sleeping unattached\<rparr>
      | Inr False \<Rightarrow>
          (let s = s\<lparr>lt_task := Finished\<rparr> in
           if \<not> unattached \<or> \<not> lt_ever_attached s then s\<lparr>lt_requested := True\<rparr> else s))"

fun live :: "lifetime_event \<Rightarrow> lifetime \<Rightarrow> lifetime" where
  "live ArmGrace s = arm_startup_grace s"
| "live (CountChanged n) s = client_count_changed n s"
| "live SleepEnds s = (case lt_task s of Sleeping u \<Rightarrow> s\<lparr>lt_task := Asking u\<rparr> | _ \<Rightarrow> s)"
| "live (QueueAnswers a) s = (case lt_task s of Asking u \<Rightarrow> shutdown_after u a s | _ \<Rightarrow> s)"

definition task_alive :: "shutdown_task \<Rightarrow> bool" where
  "task_alive t = (case t of Sleeping _ \<Rightarrow> True | Asking _ \<Rightarrow> True | _ \<Rightarrow> False)"

definition handoff :: "shutdown_task \<Rightarrow> bool" where
  "handoff t = (t = Sleeping False \<or> t = Asking False)"

text \<open>The server announces a count of zero only after a positive one.\<close>

fun announced :: "nat \<Rightarrow> lifetime_event list \<Rightarrow> bool" where
  "announced n [] = True"
| "announced n (CountChanged k # es) = ((k > 0 \<or> n > 0) \<and> announced k es)"
| "announced n (e # es) = announced n es"

definition lifetime_ok :: "lifetime \<Rightarrow> bool" where
  "lifetime_ok s =
     ((0 < lt_clients s \<longrightarrow> lt_ever_attached s)
      \<and> (handoff (lt_task s) \<longrightarrow> lt_clients s = 0))"

definition lifetime_awake :: "lifetime \<Rightarrow> bool" where
  "lifetime_awake s =
     (lt_clients s = 0 \<longrightarrow> \<not> lt_requested s \<longrightarrow>
        task_alive (lt_task s) \<and> (lt_ever_attached s \<longrightarrow> handoff (lt_task s)))"

lemma lifetime_ok_live: "lifetime_ok s \<Longrightarrow> lifetime_ok (live e s)"
  by (cases e; cases "lt_task s")
     (auto simp: lifetime_ok_def arm_startup_grace_def client_count_changed_def shutdown_after_def handoff_def Let_def
       split: sum.splits bool.splits)

lemma lifetime_ok_run: "lifetime_ok s \<Longrightarrow> lifetime_ok (fold live es s)"
  by (induction es arbitrary: s) (simp_all add: lifetime_ok_live)

lemma request_needs_no_client:
  "lifetime_ok s \<Longrightarrow> \<not> lt_requested s \<Longrightarrow> lt_requested (live e s) \<Longrightarrow>
   lt_clients s = 0 \<and> e = QueueAnswers (Inr False)"
  by (cases e; cases "lt_task s")
     (auto simp: lifetime_ok_def arm_startup_grace_def client_count_changed_def shutdown_after_def handoff_def Let_def
       split: sum.splits bool.splits if_splits)

lemma lifetime_awake_live:
  assumes "lifetime_awake s" "lifetime_ok s" "\<And>x. e \<noteq> QueueAnswers (Inl x)"
    "\<And>k. e = CountChanged k \<Longrightarrow> 0 < k \<or> 0 < lt_clients s"
  shows "lifetime_awake (live e s)"
  using assms
  by (cases e; cases "lt_task s")
     (auto simp: lifetime_awake_def lifetime_ok_def arm_startup_grace_def client_count_changed_def shutdown_after_def
       handoff_def task_alive_def Let_def split: sum.splits bool.splits if_splits)

lemma lt_clients_live: "lt_clients (live e s) = (case e of CountChanged k \<Rightarrow> k | _ \<Rightarrow> lt_clients s)"
  by (cases e; cases "lt_task s")
     (auto simp: arm_startup_grace_def client_count_changed_def shutdown_after_def Let_def split: sum.splits bool.splits)

lemma lifetime_awake_run:
  "lifetime_awake s \<Longrightarrow> lifetime_ok s \<Longrightarrow> announced (lt_clients s) es \<Longrightarrow>
   (\<And>x. QueueAnswers (Inl x) \<notin> set es) \<Longrightarrow> lifetime_awake (fold live es s)"
proof (induction es arbitrary: s)
  case (Cons e es)
  have "announced (lt_clients (live e s)) es" using Cons.prems(3) by (cases e) (simp_all add: lt_clients_live del: live.simps)
  moreover have "lifetime_awake (live e s)"
    by (rule lifetime_awake_live) (use Cons.prems in auto)
  ultimately show ?case using Cons lifetime_ok_live [of s e] by simp
qed simp


definition demo_visit :: "lifetime_event list" where
  "demo_visit = [SleepEnds, CountChanged 1, CountChanged 0, SleepEnds, QueueAnswers (Inr True), SleepEnds]"

lemma demo_visit_end:
  "fold live demo_visit (arm_startup_grace new_lifetime) =
     \<lparr>lt_ever_attached = True, lt_task = Asking False, lt_requested = False, lt_clients = 0\<rparr>"
  by code_simp


end
