(* ===== verification/Py_Integers.thy ===== *)
theory Py_Integers
  imports Scs_Prelude
begin

text \<open>
  How Python reads an integer from a text; the daemon and the routes convert stored
  metadata with it.
\<close>

text \<open>\<open>int(text)\<close>: white space around, a sign, digits with single underscores between them.\<close>

definition is_digit :: "char \<Rightarrow> bool" where
  "is_digit c = (48 \<le> (of_char c :: nat) \<and> (of_char c :: nat) \<le> 57)"

fun digits_value :: "nat \<Rightarrow> string \<Rightarrow> nat option" where
  "digits_value n [] = Some n"
| "digits_value n (c # cs) =
     (if is_digit c then digits_value (10 * n + (of_char c - 48)) cs
      else if c = CHR ''_''
      then (case cs of d # _ \<Rightarrow> if is_digit d then digits_value n cs else None | [] \<Rightarrow> None)
      else None)"

definition unsigned_value :: "string \<Rightarrow> nat option" where
  "unsigned_value s = (case s of c # _ \<Rightarrow> if is_digit c then digits_value 0 s else None | [] \<Rightarrow> None)"

definition int_of_text :: "string \<Rightarrow> exc + int" where
  "int_of_text s =
     (let t = strip s;
          value = (case t of
              c # cs \<Rightarrow> if c = CHR ''-'' then map_option (\<lambda>n. - int n) (unsigned_value cs)
                        else map_option int (unsigned_value (if c = CHR ''+'' then cs else t))
            | [] \<Rightarrow> None) in
      case value of
        None \<Rightarrow> Inl (ValueError (''invalid literal for int() with base 10: '' @ repr_string s))
      | Some i \<Rightarrow> Inr i)"

end
