(* ===== verification/Daemon_Service.thy ===== *)
theory Daemon_Service
  imports Job_Runner Store_Registry Wire_Router Py_Integers
begin

text \<open>
  The operations that \<open>SCSDaemon\<close> (\<open>src/src/scs/main.py\<close>) registers on its router and gives
  to the job runner: enrolling, deleting and listing repositories, jobs and health.  They
  compose the durable queue, the project-store registry and the watchers.  A handler is one
  action: enrollment and deletion of one root are serialized by their mutation lock, and
  what other requests do meanwhile concerns other rows.
\<close>

section \<open>State\<close>

record service =
  da_jobs :: jobs
  da_registry :: registry
  da_watchers :: "string list"
  da_graph :: "binding option"
  da_jobs_ready :: bool
  da_stores_ready :: bool
  da_started :: bool
  da_shutdown :: bool

record service_env =
  ve_registry :: registry_env
  ve_auto_reindex :: bool
  ve_watch :: "string \<Rightarrow> exc + unit"
  ve_stats :: "binding \<Rightarrow> exc + (string \<times> dict) list"
  ve_time :: "nat \<Rightarrow> string"
  ve_version :: string
  ve_generation :: string
  ve_decision_ready :: "bool option"  \<comment> \<open>of the Laya provider, when one is configured\<close>

text \<open>What a request draws from the clock and from \<open>uuid4\<close>.\<close>

record stamp =
  st_now :: nat
  st_job :: string
  st_generation :: string

abbreviation service_fs :: "service_env \<Rightarrow> file_system" where
  "service_fs env \<equiv> re_fs (ve_registry env)"

definition on_jobs :: "(jobs \<Rightarrow> exc + jobs \<times> 'a) \<Rightarrow> (service, 'a) act" where
  "on_jobs f s =
     (case f (da_jobs s) of Inl e \<Rightarrow> (Inl e, s) | Inr (rows, x) \<Rightarrow> (Inr x, s\<lparr>da_jobs := rows\<rparr>))"

definition on_registry :: "(registry, 'a) act \<Rightarrow> (service, 'a) act" where
  "on_registry m s = (case m (da_registry s) of (r, rg) \<Rightarrow> (r, s\<lparr>da_registry := rg\<rparr>))"

definition require :: "(service \<Rightarrow> bool) \<Rightarrow> string \<Rightarrow> (service, unit) act" where
  "require ready message =
     act_bind (act_gets ready) (\<lambda>ok. if ok then act_return () else act_raise (RuntimeError message))"

definition require_jobs :: "(service, unit) act" where
  "require_jobs = require da_jobs_ready ''SCS daemon is not ready''"

definition require_stores :: "(service, unit) act" where
  "require_stores = require da_stores_ready ''SCS project-store registry is not ready''"

section \<open>Values on the wire\<close>

definition json_opt :: "('a \<Rightarrow> json) \<Rightarrow> 'a option \<Rightarrow> json" where
  "json_opt f x = (case x of None \<Rightarrow> JNull | Some y \<Rightarrow> f y)"

definition mode_text :: "job_mode \<Rightarrow> string" where
  "mode_text m =
     (case m of Files \<Rightarrow> ''files'' | Full \<Rightarrow> ''full'' | ForceFull \<Rightarrow> ''force_full''
      | Cleanup \<Rightarrow> ''cleanup'' | DropIndex \<Rightarrow> ''drop_index'')"

definition job_to_dict :: "(nat \<Rightarrow> string) \<Rightarrow> job \<Rightarrow> dict" where
  "job_to_dict time j =
     [(''id'', JStr (j_id j)), (''repo_path'', JStr (j_repo j)),
      (''store_id'', json_opt JStr (j_store j)), (''store_generation'', json_opt JStr (j_gen j)),
      (''mode'', JStr (mode_text (j_mode j))), (''reason'', JStr (j_reason j)),
      (''payload'', JObj (j_payload j)), (''status'', JStr (status_name (j_status j))),
      (''phase'', JStr (j_phase j)), (''current'', JInt (j_current j)), (''total'', JInt (j_total j)),
      (''message'', JStr (j_message j)), (''attempts'', JInt (j_attempts j)),
      (''max_attempts'', JInt (j_max_attempts j)), (''lease_owner'', json_opt JStr (j_lease_owner j)),
      (''lease_expires_at'', json_opt (JStr \<circ> time) (j_lease_expires j)),
      (''error'', json_opt JStr (j_error j)), (''result'', json_opt JObj (j_result j)),
      (''created_at'', JStr (time (j_created j))), (''updated_at'', JStr (time (j_updated j))),
      (''finished_at'', json_opt (JStr \<circ> time) (j_finished j))]"

definition metadata_integer :: "dict \<Rightarrow> string \<Rightarrow> exc + int" where
  "metadata_integer values key =
     (case dict_get values key (JInt 0) of
        JInt i \<Rightarrow> Inr i
      | JBool b \<Rightarrow> Inr (if b then 1 else 0)
      | JStr s \<Rightarrow> int_of_text s
      | _ \<Rightarrow> Inl (TypeError (key @ '' must be numeric'')))"

section \<open>Stores and watchers\<close>

definition lookup_repository_graph :: "service_env \<Rightarrow> string \<Rightarrow> (service, binding option) act" where
  "lookup_repository_graph env root =
     act_bind (act_gets da_stores_ready) (\<lambda>ready.
       if ready then on_registry (lookup_graph (ve_registry env) root) else act_return None)"

definition binding_for_repository :: "service_env \<Rightarrow> string \<Rightarrow> (service, binding option) act" where
  "binding_for_repository env root =
     act_bind (act_gets da_stores_ready) (\<lambda>ready.
       if \<not> ready then act_return None
       else
         act_bind (act_gets (\<lambda>s. da_jobs_ready s \<and> active_deletion root (da_jobs s) \<noteq> None)) (\<lambda>deleting.
           if deleting then act_raise (ValueError ''repository deletion is in progress'')
           else
             act_bind (on_registry (read_catalog (catalog_lookup (service_fs env) root))) (\<lambda>record.
               act_return (case record of
                   None \<Rightarrow> None
                 | Some r \<Rightarrow> (case c_gen r of None \<Rightarrow> None | Some g \<Rightarrow> Some (c_store r, g))))))"

definition start_watcher_for :: "service_env \<Rightarrow> string \<Rightarrow> (service, unit) act" where
  "start_watcher_for env canonical =
     act_seq require_stores
    (act_bind (on_registry (read_catalog (catalog_lookup (service_fs env) canonical))) (\<lambda>record.
       if record = None \<or> c_gen (the record) = None then act_return ()
       else act_seq (act_lift (ve_watch env canonical))
              (act_modify (\<lambda>s. s\<lparr>da_watchers := da_watchers s @ [canonical]\<rparr>))))"

definition ensure_watcher :: "service_env \<Rightarrow> string \<Rightarrow> (service, unit) act" where
  "ensure_watcher env root =
     act_bind (act_lift (canonicalize_repo_path (service_fs env) (parse_path root))) (\<lambda>canonical.
     act_bind (act_gets (\<lambda>s. canonical \<in> set (da_watchers s))) (\<lambda>watched.
       if \<not> ve_auto_reindex env \<or> watched \<or> \<not> fs_is_dir (service_fs env) (parse_path canonical)
       then act_return ()
       else act_seq require_jobs (start_watcher_for env canonical)))"

section \<open>Enrolling and deleting\<close>

definition path_param :: "dict \<Rightarrow> exc + string" where
  "path_param params =
     (case dict_get params ''repo_path'' JNull of
        JStr p \<Rightarrow> if p \<noteq> [] then Inr p else Inl (ValueError ''repo_path must be a non-empty string'')
      | _ \<Rightarrow> Inl (ValueError ''repo_path must be a non-empty string''))"

definition index_job :: "string \<Rightarrow> binding \<Rightarrow> bool \<Rightarrow> request" where
  "index_job root b force =
     \<lparr>q_repo = root, q_store = Some (fst b), q_gen = Some (snd b),
      q_mode = (if force then ForceFull else Full),
      q_reason = (if force then ''explicit_reindex'' else ''explicit_index''), q_payload = None, q_max = 3\<rparr>"

definition deletion_job :: "string \<Rightarrow> string \<times> string option \<Rightarrow> request" where
  "deletion_job root target =
     \<lparr>q_repo = root, q_store = Some (fst target), q_gen = snd target, q_mode = DropIndex,
      q_reason = ''explicit_drop_index'', q_payload = None, q_max = 3\<rparr>"

definition accepted :: "service_env \<Rightarrow> job \<Rightarrow> dict" where
  "accepted env j = [(''accepted'', JBool True), (''job'', JObj (job_to_dict (ve_time env) j))]"

definition enroll :: "service_env \<Rightarrow> stamp \<Rightarrow> string \<Rightarrow> bool \<Rightarrow> (service, job) act" where
  "enroll env st canonical force =
     act_bind (act_gets (\<lambda>s. active_deletion canonical (da_jobs s))) (\<lambda>deletion.
       if deletion \<noteq> None then act_raise (ValueError ''repository deletion is in progress'')
       else
         act_bind (on_registry (ensure_graph (ve_registry env) (st_generation st) canonical)) (\<lambda>(record, b).
           case c_gen record of
             None \<Rightarrow> act_raise (RuntimeError ''explicit project store creation did not activate a generation'')
           | Some g \<Rightarrow>
               act_seq (act_modify (\<lambda>s. s\<lparr>da_graph := Some b\<rparr>))
              (act_bind (on_jobs (enqueue (st_now st) (st_job st) (index_job canonical (c_store record, g) force)))
                 (\<lambda>job. act_seq (ensure_watcher env canonical) (act_return job)))))"

definition enqueue_repository :: "service_env \<Rightarrow> stamp \<Rightarrow> bool \<Rightarrow> dict \<Rightarrow> (service, dict) act" where
  "enqueue_repository env st force params =
     act_bind (act_lift (path_param params)) (\<lambda>raw.
     act_bind (act_lift (canonicalize_repo_path (service_fs env) (parse_path raw))) (\<lambda>canonical.
       if \<not> fs_is_dir (service_fs env) (parse_path canonical)
       then act_raise (ValueError (''repository directory does not exist: '' @ canonical))
       else
         act_seq require_jobs
        (act_seq require_stores
          (act_bind (enroll env st canonical force) (\<lambda>job. act_return (accepted env job))))))"

definition request_deletion :: "service_env \<Rightarrow> stamp \<Rightarrow> string \<Rightarrow> (service, dict) act" where
  "request_deletion env st canonical =
     act_bind (act_gets (\<lambda>s. active_deletion canonical (da_jobs s))) (\<lambda>active.
       case active of
         Some j \<Rightarrow> act_return (dict_set (accepted env j) ''already_absent'' (JBool False))
       | None \<Rightarrow>
           act_bind (on_registry (deletion_target (ve_registry env) canonical)) (\<lambda>target.
             case target of
               None \<Rightarrow> act_return [(''accepted'', JBool True), (''already_absent'', JBool True), (''job'', JNull)]
             | Some t \<Rightarrow>
                 act_bind (on_jobs (enqueue (st_now st) (st_job st) (deletion_job canonical t))) (\<lambda>job.
                 act_seq (act_modify (\<lambda>s. s\<lparr>da_watchers := removeAll canonical (da_watchers s)\<rparr>))
                   (act_return (dict_set (accepted env job) ''already_absent'' (JBool False))))))"

definition drop_index :: "service_env \<Rightarrow> stamp \<Rightarrow> dict \<Rightarrow> (service, dict) act" where
  "drop_index env st params =
     act_bind (act_lift (path_param params)) (\<lambda>raw.
     act_seq require_jobs
    (act_seq require_stores
    (act_bind (act_lift (canonicalize_repo_path (service_fs env) (parse_path raw))) (\<lambda>canonical.
       request_deletion env st canonical))))"

section \<open>Projects\<close>

definition project_root :: "service_env \<Rightarrow> int \<Rightarrow> (service, string) act" where
  "project_root env project =
     act_bind (on_registry (read_catalog (lookup_project project))) (\<lambda>record.
       case record of
         None \<Rightarrow> act_raise (ValueError (''project ID is not enrolled: '' @ int_str project))
       | Some r \<Rightarrow> act_return (c_root r))"

definition selected_project :: "service_env \<Rightarrow> bool \<Rightarrow> dict \<Rightarrow> (service, string) act" where
  "selected_project env require_enrolled params =
     (let project = dict_get params ''project_id'' JNull; path = dict_get params ''repo_path'' JNull in
      if (project = JNull) = (path = JNull)
      then act_raise (ValueError ''exactly one project_id or repo_path is required'')
      else
        act_seq require_stores
          (case project of
             JNull \<Rightarrow>
               act_bind (act_lift (path_param params)) (\<lambda>raw.
               act_bind (act_lift (canonicalize_repo_path (service_fs env) (parse_path raw))) (\<lambda>canonical.
                 if \<not> require_enrolled then act_return canonical
                 else
                   act_bind (on_registry (read_catalog (catalog_lookup (service_fs env) canonical))) (\<lambda>record.
                     if record = None then act_raise (ValueError (''repository is not enrolled: '' @ canonical))
                     else act_return canonical)))
           | JInt i \<Rightarrow>
               if i < 1 then act_raise (ValueError ''project_id must be a positive integer'')
               else project_root env i
           | _ \<Rightarrow> act_raise (ValueError ''project_id must be a positive integer'')))"

definition project_delete :: "service_env \<Rightarrow> stamp \<Rightarrow> dict \<Rightarrow> (service, dict) act" where
  "project_delete env st params =
     act_bind (selected_project env False params) (\<lambda>root. drop_index env st [(''repo_path'', JStr root)])"

definition project_reingest :: "service_env \<Rightarrow> stamp \<Rightarrow> dict \<Rightarrow> (service, dict) act" where
  "project_reingest env st params =
     act_bind (selected_project env True params) (\<lambda>root.
       enqueue_repository env st True [(''repo_path'', JStr root)])"

section \<open>Status\<close>

definition string_values :: "json \<Rightarrow> exc + string list" where
  "string_values v =
     (let bad = Inl (ValueError ''repo_paths must be a list of strings'') in
      case v of
        JList xs \<Rightarrow> if list_all (\<lambda>x. case x of JStr _ \<Rightarrow> True | _ \<Rightarrow> False) xs then Inr (map py_str xs) else bad
      | _ \<Rightarrow> bad)"

text \<open>A dict comprehension keeps the last job of a repository.\<close>

definition last_by_repo :: "(job \<Rightarrow> bool) \<Rightarrow> job list \<Rightarrow> string \<Rightarrow> job option" where
  "last_by_repo P jobs = map_of (rev (map (\<lambda>j. (j_repo j, j)) (filter P jobs)))"

definition repository_state :: "job option \<Rightarrow> dict \<Rightarrow> bool \<Rightarrow> string" where
  "repository_state active stats failed =
     (case active of
        Some j \<Rightarrow> if j_status j = Running \<or> j_status j = Cancelling then ''indexing'' else ''queued''
      | None \<Rightarrow> if stats \<noteq> [] then ''indexed'' else if failed then ''failed'' else ''unindexed'')"

definition repository_status :: "service_env \<Rightarrow> job list \<Rightarrow> string \<Rightarrow> (service, dict) act" where
  "repository_status env recent raw =
     act_bind (act_lift (canonicalize_repo_path (service_fs env) (parse_path raw))) (\<lambda>path.
     act_bind (lookup_repository_graph env path) (\<lambda>graph.
     act_bind (act_lift (case graph of None \<Rightarrow> Inr [] | Some b \<Rightarrow> ve_stats env b)) (\<lambda>all_stats.
       let active = last_by_repo active_status recent path;
           stats = (case map_of all_stats path of None \<Rightarrow> [] | Some d \<Rightarrow> d);
           failed = (last_by_repo (\<lambda>j. j_status j = Failed) recent path \<noteq> None) in
       act_bind (act_lift (metadata_integer stats ''file_count'')) (\<lambda>count.
         act_return
           [(''repo_path'', JStr path), (''state'', JStr (repository_state active stats failed)),
            (''file_count'', JInt count), (''last_indexed'', dict_get stats ''last_indexed'' JNull),
            (''active_job_id'', json_opt (JStr \<circ> j_id) active)]))))"

definition repository_statuses :: "service_env \<Rightarrow> dict \<Rightarrow> (service, dict list) act" where
  "repository_statuses env params =
     act_bind (act_lift (string_values (dict_get params ''repo_paths'' (JList [])))) (\<lambda>paths.
     act_seq require_jobs
    (act_bind (act_gets (\<lambda>s. list_recent None None 200 (da_jobs s))) (\<lambda>recent.
       act_map (repository_status env recent) paths)))"

definition projects_list :: "service_env \<Rightarrow> (service, dict list) act" where
  "projects_list env =
     act_seq require_stores
    (act_bind (on_registry (read_catalog list_records)) (\<lambda>records.
     act_bind (repository_statuses env [(''repo_paths'', JList (map (JStr \<circ> c_root) records))]) (\<lambda>statuses.
       act_return (map (\<lambda>(r, status). (''id'', JInt (c_project r)) # status) (zip records statuses)))))"

definition jobs_recent :: "service_env \<Rightarrow> dict \<Rightarrow> (service, dict list) act" where
  "jobs_recent env params =
     act_seq require_jobs
    (act_bind (act_lift (case dict_get params ''repo_path'' JNull of
          JNull \<Rightarrow> Inr None | JStr p \<Rightarrow> Inr (Some p) | _ \<Rightarrow> Inl (ValueError ''repo_path must be a string'')))
       (\<lambda>repo.
     act_bind (act_lift (case dict_get params ''limit'' (JInt 50) of
          JInt i \<Rightarrow> Inr i | JBool b \<Rightarrow> Inr (of_bool b) | _ \<Rightarrow> Inl (ValueError ''limit must be an integer'')))
       (\<lambda>limit. act_gets (\<lambda>s. map (job_to_dict (ve_time env)) (list_recent repo None limit (da_jobs s))))))"

section \<open>Health and shutdown\<close>

definition health :: "service_env \<Rightarrow> (service, dict) act" where
  "health env =
     act_gets (\<lambda>s.
       [(''service'', JStr ''scs''), (''version'', JStr (ve_version env)),
        (''generation'', JStr (ve_generation env)),
        (''ready'', JBool (da_started s \<and> (case ve_decision_ready env of None \<Rightarrow> True | Some r \<Rightarrow> r))),
        (''protocol_min'', JInt 1), (''protocol_max'', JInt 1)])"

definition client_attach :: "service_env \<Rightarrow> (service, dict) act" where
  "client_attach env = act_return [(''generation'', JStr (ve_generation env)), (''attached'', JBool True)]"

definition system_shutdown :: "service_env \<Rightarrow> stamp \<Rightarrow> dict \<Rightarrow> (service, dict) act" where
  "system_shutdown env st params =
     (if dict_get params ''generation'' JNull \<noteq> JStr (ve_generation env)
      then act_raise (ValueError ''daemon generation changed before shutdown'')
      else
        act_bind
          (if dict_get params ''cancel_active'' JNull = JBool True
           then act_seq require_jobs
                  (act_bind (on_jobs (request_cancel_all (st_now st))) (\<lambda>js. act_return (length js)))
           else act_return 0)
          (\<lambda>cancelled.
             act_seq (act_modify (\<lambda>s. s\<lparr>da_shutdown := True\<rparr>))
               (act_return [(''accepted'', JBool True), (''generation'', JStr (ve_generation env)),
                  (''cancelled_jobs'', JInt (int cancelled))])))"

section \<open>What the job runner is given\<close>

definition job_binding :: "string \<Rightarrow> job \<Rightarrow> exc + binding" where
  "job_binding complaint j =
     (case (j_store j, j_gen j) of
        (Some st, Some g) \<Rightarrow> Inr (st, g)
      | _ \<Rightarrow> Inl (RuntimeError complaint))"

definition graph_for_job :: "service_env \<Rightarrow> job \<Rightarrow> (service, binding) act" where
  "graph_for_job env j =
     act_bind (act_lift (job_binding ''legacy unbound ingestion job is not executable'' j)) (\<lambda>b.
       on_registry (graph_for_binding (ve_registry env) (j_repo j) b))"

definition delete_job_repository :: "service_env \<Rightarrow> job \<Rightarrow> (service, dict) act" where
  "delete_job_repository env j =
     (case j_store j of
        None \<Rightarrow> act_raise (RuntimeError ''repository deletion job has no store identity'')
      | Some st \<Rightarrow>
          act_seq (act_modify (\<lambda>s. s\<lparr>da_graph := None\<rparr>))
            (on_registry (Store_Registry.delete_repository (ve_registry env) (j_repo j) st (j_gen j) (j_id j))))"

definition restore_failed_deletion :: "service_env \<Rightarrow> job \<Rightarrow> (service, unit) act" where
  "restore_failed_deletion env j =
     (if j_mode j = DropIndex then ensure_watcher env (j_repo j) else act_return ())"

definition mark_job_store_ready :: "service_env \<Rightarrow> job \<Rightarrow> (service, unit) act" where
  "mark_job_store_ready env j =
     (if j_mode j = DropIndex then act_return ()
      else
        act_bind (act_lift (job_binding ''legacy unbound ingestion job cannot publish readiness'' j)) (\<lambda>b.
          act_seq (on_registry (mark_semantic_ready (ve_registry env) (j_repo j) b)) (act_return ())))"

definition mark_job_store_stale :: "service_env \<Rightarrow> job \<Rightarrow> (service, unit) act" where
  "mark_job_store_stale env j =
     (if j_mode j = DropIndex then act_return ()
      else
        act_bind (act_lift (job_binding ''legacy unbound ingestion job cannot publish staleness'' j)) (\<lambda>b.
          act_seq
            (on_registry (on_catalog (update_store_state (service_fs env) (j_repo j) (snd b) SemanticStale)))
            (act_return ())))"

section \<open>The methods of the daemon\<close>

definition listing :: "string \<Rightarrow> (service, dict list) act \<Rightarrow> (service, dict) act" where
  "listing key m = act_bind m (\<lambda>xs. act_return [(key, JList (map JObj xs))])"

definition daemon_methods :: "service_env \<Rightarrow> stamp \<Rightarrow> (string \<times> service handler) list" where
  "daemon_methods env st =
     [(''system.health'', \<lambda>_. health env),
      (''system.client.attach'', \<lambda>_. client_attach env),
      (''system.shutdown'', system_shutdown env st),
      (''repositories.status'', \<lambda>params. listing ''repositories'' (repository_statuses env params)),
      (''repository.index'', enqueue_repository env st False),
      (''repository.reindex'', enqueue_repository env st True),
      (''repository.drop_index'', drop_index env st),
      (''projects.list'', \<lambda>_. listing ''projects'' (projects_list env)),
      (''project.delete'', project_delete env st),
      (''project.reingest'', project_reingest env st),
      (''jobs.recent'', \<lambda>params. listing ''jobs'' (jobs_recent env params))]"

fun register_methods :: "(string \<times> 's handler) list \<Rightarrow> 's router \<Rightarrow> exc + 's router" where
  "register_methods [] r = Inr r"
| "register_methods ((name, handler) # hs) r =
     and_then (register_method name True handler r) (register_methods hs)"

end
