(* ===== verification/Daemon_Requests.thy ===== *)
theory Daemon_Requests
  imports Daemon_Service Job_Queue
begin

text \<open>
  What the requests of the daemon do: they keep the queue and the catalog well formed, an
  accepted index request leaves a queued job bound to the store the catalog names, and a
  deletion request leaves exactly one active deletion.
\<close>

section \<open>The catalog and the registry stay well formed\<close>

definition registry_ok :: "registry \<Rightarrow> bool" where
  "registry_ok rg = catalog_ok (rg_catalog rg)"

lemma catalog_ok_Absent [simp]: "catalog_ok Absent" "catalog_ok NoTable"
  by (simp_all add: catalog_ok_def)

lemma catalog_ok_touched [simp]: "catalog_ok cat \<Longrightarrow> catalog_ok (touched cat)"
  by (cases cat) (simp_all add: touched_def)

lemma keeps_register: "act_keeps catalog_ok (register_store fs root)"
proof (rule keepsI)
  fix cat r cat' assume ok: "catalog_ok cat" and run: "register_store fs root cat = (r, cat')"
  show "catalog_ok cat'"
  proof (cases "canonical_repository_root fs root")
    case (Inl e)
    then show ?thesis using ok run by (simp add: register_store_def)
  next
    case canonical: (Inr c)
    show ?thesis
    proof (cases "store_id_for_root fs c")
      case (Inl e)
      then show ?thesis using ok run canonical by (simp add: register_store_def)
    next
      case derived: (Inr d)
      have table: "(case cat of Table rows seq \<Rightarrow> (rows, seq) | _ \<Rightarrow> ([], 0)) = (catalog_rows cat, catalog_seq cat)"
        by (simp add: catalog_rows_def catalog_seq_def split: catalog.split)
      have ok0: "catalog_ok (Table (catalog_rows cat) (catalog_seq cat))"
        using ok by (auto simp: catalog_rows_def catalog_seq_def catalog_ok_def split: catalog.splits)
      show ?thesis
      proof (cases "insert_root c d (catalog_rows cat) (catalog_seq cat)")
        case (Inl e)
        then show ?thesis using run canonical derived ok0 by (simp add: register_store_def table)
      next
        case (Inr p)
        obtain rows seq where p: "p = (rows, seq)" by (cases p)
        have "catalog_ok (Table rows seq)"
          using insert_root_ok [OF ok0 store_id_for_root_valid [OF derived] Inr [unfolded p]] by blast
        moreover have "cat' = Table rows seq"
          using run canonical derived Inr p
          by (auto simp: register_store_def table split: option.splits sum.splits if_splits)
        ultimately show ?thesis by simp
      qed
    qed
  qed
qed

lemma keeps_activate: "act_keeps catalog_ok (activate_store fs root g st)"
  by (rule keepsI)
     (auto simp: activate_store_def validate_store_generation_def update_root_def record_from_row_def Let_def
       split: sum.splits if_splits catalog.splits intro!: catalog_ok_update)

lemma keeps_update_state: "act_keeps catalog_ok (update_store_state fs root g st)"
  by (rule keepsI)
     (auto simp: update_store_state_def record_from_row_def Let_def split: sum.splits if_splits catalog.splits
       intro!: catalog_ok_update)

lemma keeps_unregister: "act_keeps catalog_ok (unregister_store fs root st g)"
  by (rule keepsI)
     (auto simp: unregister_store_def split: sum.splits if_splits catalog.splits intro!: catalog_ok_filter)

lemma keeps_effect:
  assumes "\<And>s r t. registry_ok s \<Longrightarrow> f s = (r, t) \<Longrightarrow> registry_ok t"
  shows "act_keeps registry_ok (effect f)"
proof (rule keepsI)
  fix s r t assume ok: "registry_ok s" and run: "effect f s = (r, t)"
  have frame: "registry_ok (s\<lparr>rg_budget := b\<rparr>)" for b using ok by (simp add: registry_ok_def)
  show "registry_ok t"
    using run ok frame assms
    by (cases "rg_budget s") (auto simp: effect_def split: nat.splits)
qed

lemma keeps_on_catalog: "act_keeps catalog_ok m \<Longrightarrow> act_keeps registry_ok (on_catalog m)"
  unfolding on_catalog_def
  by (rule keeps_effect) (auto simp: registry_ok_def split: prod.splits dest: keepsD)

lemma keeps_read_catalog: "act_keeps I (read_catalog f)"
  unfolding read_catalog_def by (intro keeps_bind keeps_pure)

lemmas registry_keeps =
  keeps_on_catalog [OF keeps_register] keeps_on_catalog [OF keeps_activate]
  keeps_on_catalog [OF keeps_update_state] keeps_on_catalog [OF keeps_unregister] keeps_read_catalog

lemma keeps_option: "(\<And>x. act_keeps I (f x)) \<Longrightarrow> act_keeps I m \<Longrightarrow> act_keeps I (case x of None \<Rightarrow> m | Some x \<Rightarrow> f x)"
  by (cases x) simp_all

lemma keeps_prod: "(\<And>x y. act_keeps I (f x y)) \<Longrightarrow> act_keeps I (case p of (x, y) \<Rightarrow> f x y)"
  by (cases p) simp

lemma keeps_frame: "(\<And>s. rg_catalog (f s) = rg_catalog s) \<Longrightarrow> act_keeps registry_ok (effect (\<lambda>s. (Inr x, f s)))"
  by (rule keeps_effect) (auto simp: registry_ok_def)

lemma keeps_frame_modify: "(\<And>s. rg_catalog (f s) = rg_catalog s) \<Longrightarrow> act_keeps registry_ok (act_modify f)"
  by (rule keeps_modify) (simp add: registry_ok_def)

lemma keeps_open_graph: "act_keeps registry_ok (open_graph env b)"
  unfolding open_graph_def by (intro keeps_intros keeps_pure keeps_frame) simp

lemma keeps_lookup_graph: "act_keeps registry_ok (lookup_graph env root)"
  unfolding lookup_graph_def
  by (intro keeps_intros keeps_option keeps_pure keeps_open_graph registry_keeps)

lemma keeps_ensure_graph: "act_keeps registry_ok (ensure_graph env fresh root)"
  unfolding ensure_graph_def Let_def make_directories_def
  by (intro keeps_intros keeps_option keeps_pure keeps_open_graph registry_keeps keeps_frame keeps_frame_modify) simp_all

lemma keeps_deletion_target: "act_keeps registry_ok (deletion_target env root)"
  unfolding deletion_target_def Let_def by (intro keeps_intros keeps_pure registry_keeps)

section \<open>Service state\<close>

definition service_ok :: "service \<Rightarrow> bool" where
  "service_ok s = (job_inv (da_jobs s) \<and> registry_ok (da_registry s))"

lemma keeps_on_registry: "act_keeps registry_ok m \<Longrightarrow> act_keeps service_ok (on_registry m)"
  by (rule keepsI) (auto simp: on_registry_def service_ok_def split: prod.splits dest: keepsD)

lemma keeps_on_jobs:
  assumes "\<And>rows rows' x. job_inv rows \<Longrightarrow> f rows = Inr (rows', x) \<Longrightarrow> job_inv rows'"
  shows "act_keeps service_ok (on_jobs f)"
  using assms by (intro keepsI) (auto simp: on_jobs_def service_ok_def split: sum.splits)

lemma keeps_service_modify:
  "(\<And>s. da_jobs (f s) = da_jobs s \<and> da_registry (f s) = da_registry s) \<Longrightarrow> act_keeps service_ok (act_modify f)"
  by (rule keeps_modify) (simp add: service_ok_def)

lemma keeps_require: "act_keeps I (require r m)"
  unfolding require_def by (intro keeps_intros keeps_pure)

lemma request_ok_jobs [simp]: "request_ok (index_job root b force)" "request_ok (deletion_job root t)"
  by (simp_all add: request_ok_def index_job_def deletion_job_def)

lemma keeps_enqueue: "request_ok q \<Longrightarrow> act_keeps service_ok (on_jobs (enqueue now fresh q))"
  by (rule keeps_on_jobs) (blast elim: enqueue_InrE)

lemma keeps_cancel_all: "act_keeps service_ok (on_jobs (request_cancel_all now))"
  by (rule keeps_on_jobs) (rule request_cancel_all_inv)

lemmas service_keeps = keeps_pure keeps_require keeps_enqueue keeps_cancel_all keeps_service_modify
  keeps_on_registry [OF keeps_lookup_graph] keeps_on_registry [OF keeps_ensure_graph]
  keeps_on_registry [OF keeps_deletion_target] keeps_on_registry [OF keeps_read_catalog]

lemma keeps_ensure_watcher: "act_keeps service_ok (ensure_watcher env root)"
  unfolding ensure_watcher_def start_watcher_for_def require_jobs_def require_stores_def
  by (intro keeps_intros service_keeps) simp

lemma keeps_enroll: "act_keeps service_ok (enroll env st root force)"
  unfolding enroll_def
  by (intro keeps_intros keeps_option keeps_prod service_keeps keeps_ensure_watcher) simp_all

lemma keeps_enqueue_repository: "act_keeps service_ok (enqueue_repository env st force params)"
  unfolding enqueue_repository_def require_jobs_def require_stores_def
  by (intro keeps_intros service_keeps keeps_enroll)

lemma keeps_request_deletion: "act_keeps service_ok (request_deletion env st root)"
  unfolding request_deletion_def
  by (intro keeps_intros keeps_option service_keeps) simp_all

lemma keeps_drop_index: "act_keeps service_ok (drop_index env st params)"
  unfolding drop_index_def require_jobs_def require_stores_def
  by (intro keeps_intros service_keeps keeps_request_deletion)

lemma keeps_json: 
  "(\<And>b. act_keeps I (fb b)) \<Longrightarrow> (\<And>i. act_keeps I (fi i)) \<Longrightarrow> (\<And>t. act_keeps I (fs t)) \<Longrightarrow>
   (\<And>xs. act_keeps I (fl xs)) \<Longrightarrow> (\<And>d. act_keeps I (fo d)) \<Longrightarrow> act_keeps I fn \<Longrightarrow>
   act_keeps I (case v of JNull \<Rightarrow> fn | JBool b \<Rightarrow> fb b | JInt i \<Rightarrow> fi i | JStr t \<Rightarrow> fs t | JList xs \<Rightarrow> fl xs | JObj d \<Rightarrow> fo d)"
  by (cases v) simp_all

lemma keeps_selected_project: "act_keeps service_ok (selected_project env enrolled params)"
  unfolding selected_project_def project_root_def Let_def require_stores_def
  by (intro keeps_intros keeps_json keeps_option service_keeps)

lemma keeps_statuses: "act_keeps service_ok (repository_statuses env params)"
  unfolding repository_statuses_def repository_status_def lookup_repository_graph_def Let_def require_jobs_def
  by (intro keeps_intros keeps_map service_keeps)

lemma keeps_listing: "act_keeps service_ok m \<Longrightarrow> act_keeps service_ok (listing key m)"
  unfolding listing_def by (intro keeps_intros service_keeps)

lemma keeps_methods: "(name, handler) \<in> set (daemon_methods env st) \<Longrightarrow> act_keeps service_ok (handler params)"
  unfolding daemon_methods_def
  by (auto simp: health_def client_attach_def system_shutdown_def projects_list_def project_delete_def
       project_reingest_def jobs_recent_def require_jobs_def require_stores_def
       intro!: keeps_intros keeps_listing service_keeps keeps_statuses keeps_enqueue_repository keeps_drop_index
         keeps_selected_project)

definition request_step :: "service_env \<Rightarrow> stamp \<times> string \<times> dict \<Rightarrow> service \<Rightarrow> service" where
  "request_step env request s =
     (case request of (st, name, params) \<Rightarrow>
        snd (dispatch \<lparr>ro_handlers = daemon_methods env st, ro_observer = None\<rparr> name params s))"

lemma request_step_ok: "service_ok s \<Longrightarrow> service_ok (request_step env request s)"
proof -
  assume ok: "service_ok s"
  obtain st name params where q: "request = (st, name, params)" by (cases request)
  let ?r = "\<lparr>ro_handlers = daemon_methods env st, ro_observer = None\<rparr>"
  have keep: "act_keeps service_ok (dispatch ?r name params)"
    unfolding dispatch_def observe_fail_open_def
    by (auto split: option.splits intro!: keeps_intros keeps_pure keeps_option dest: map_of_SomeD intro: keeps_methods)
  obtain res t where "dispatch ?r name params s = (res, t)" by (cases "dispatch ?r name params s")
  then show ?thesis using keepsD [OF keep ok] by (simp add: request_step_def q)
qed


section \<open>An accepted index request\<close>

lemma register_returns:
  assumes "catalog_ok cat" "register_store fs root cat = (Inr r, cat')"
  shows "catalog_ok cat' \<and> r \<in> set (catalog_rows cat') \<and> canonical_repository_root fs root = Inr (c_root r)"
proof -
  have "catalog_ok cat'" by (rule keepsD [OF keeps_register assms])
  moreover have "r \<in> set (catalog_rows cat') \<and> canonical_repository_root fs root = Inr (c_root r)"
    using assms(2)
    by (auto simp: register_store_def find_root_def find_Some_iff catalog_rows_def Let_def
        split: sum.splits catalog.splits option.splits if_splits prod.splits dest!: record_from_row_fields)
  ultimately show ?thesis by simp
qed

lemma activate_returns:
  assumes "catalog_ok cat" "activate_store fs root g st cat = (Inr a, cat')"
    "r \<in> set (catalog_rows cat)" "canonical_repository_root fs root = Inr (c_root r)"
  shows "a \<in> set (catalog_rows cat') \<and> a = r\<lparr>c_gen := Some g, c_state := st\<rparr>"
proof -
  obtain rows seq where cat: "cat = Table rows seq" "catalog_rows cat = rows"
    using assms(2,4) by (cases cat) (auto simp: activate_store_def catalog_rows_def split: sum.splits if_splits)
  let ?f = "\<lambda>r. r\<lparr>c_gen := Some g, c_state := st\<rparr>"
  have run: "return_root (c_root r) (update_root (c_root r) ?f rows) = Inr a"
    "cat' = Table (update_root (c_root r) ?f rows) seq"
    using assms(2,4) unfolding cat activate_store_def
    by (auto simp: Let_def validate_store_generation_def split: sum.splits if_splits)
  have ok': "catalog_ok cat'" by (rule keepsD [OF keeps_activate assms(1,2)])
  have mem: "?f r \<in> set (update_root (c_root r) ?f rows)"
    using assms(3) cat(2) by (auto simp: update_root_def set_update_where)
  then have "find_root (c_root r) (update_root (c_root r) ?f rows) = Some (?f r)"
    using ok' run(2) by (subst find_root_iff) (auto simp: catalog_ok_def)
  then have "a = ?f r" using run(1) by (auto simp: return_root_def dest!: record_from_row_fields)
  then show ?thesis using mem run(2) by (simp add: catalog_rows_def)
qed

text \<open>What a successful run of a registry action did, read off step by step.\<close>

lemma effect_InrE:
  assumes "effect f s = (Inr x, t)" obtains b where "f (s\<lparr>rg_budget := b\<rparr>) = (Inr x, t)"
proof (cases "rg_budget s")
  case None
  have "s\<lparr>rg_budget := rg_budget s\<rparr> = s" by simp
  then show ?thesis using assms that [of "rg_budget s"] None by (simp only: effect_def option.case)
next
  case (Some n)
  then show ?thesis using assms that by (cases n) (auto simp: effect_def)
qed

lemma on_catalog_InrE:
  assumes "on_catalog m s = (Inr x, t)"
  obtains cat where "m (rg_catalog s) = (Inr x, cat)" "rg_catalog t = cat"
  using assms unfolding on_catalog_def by (elim effect_InrE) (auto split: prod.splits)

lemma effect_frame_Inr:
  "effect (\<lambda>s. (Inr x, f s)) s = (Inr y, t) \<Longrightarrow> y = x \<and> (\<exists>b. t = f (s\<lparr>rg_budget := b\<rparr>))"
  by (elim effect_InrE) auto

lemma open_graph_returns:
  "open_graph env b s = (Inr c, t) \<Longrightarrow> c = b \<and> b \<in> set (rg_open t) \<and> rg_catalog t = rg_catalog s"
  by (auto simp: open_graph_def act_bind_Inr_iff act_seq_def act_gets_def act_return_def act_lift_def
      split: if_splits dest!: effect_frame_Inr)

lemma ensure_graph_returns:
  assumes ok: "registry_ok rg" and run: "ensure_graph env fresh root rg = (Inr (record, b), rg')"
    and root: "canonical_repository_root (re_fs env) root = Inr root"
  shows "record \<in> set (catalog_rows (rg_catalog rg')) \<and> c_root record = root \<and> c_gen record = Some (snd b)
    \<and> c_store record = fst b \<and> b \<in> set (rg_open rg')"
proof -
  obtain r1 rg1 where reg: "on_catalog (register_store (re_fs env) root) rg = (Inr r1, rg1)"
    using run unfolding ensure_graph_def act_bind_Inr_iff by blast
  then obtain cat1 where cat1: "register_store (re_fs env) root (rg_catalog rg) = (Inr r1, cat1)" "rg_catalog rg1 = cat1"
    by (rule on_catalog_InrE)
  have r1: "catalog_ok cat1" "r1 \<in> set (catalog_rows cat1)" "c_root r1 = root"
    using register_returns [OF ok [unfolded registry_ok_def] cat1(1)] root by auto
  show ?thesis
  proof (cases "c_gen r1")
    case (Some g)
    then have "open_graph env (c_store r1, g) rg1 = (Inr b, rg')" "record = r1"
      using run reg unfolding ensure_graph_def
      by (auto simp: act_bind_Inr_iff act_seq_def act_lift_def act_return_def)
    then show ?thesis using open_graph_returns r1 cat1(2) Some by fastforce
  next
    case None
    let ?b = "(c_store r1, fresh)"
    have "\<exists>budget rg3. on_catalog (activate_store (re_fs env) root fresh SemanticStale)
            (rg1\<lparr>rg_entries := List.insert (c_store r1) (rg_entries rg1), rg_budget := budget,
               rg_databases := List.insert ?b (rg_databases rg1)\<rparr>) = (Inr record, rg3)
        \<and> rg' = rg3\<lparr>rg_open := rg_open rg3 @ [?b]\<rparr> \<and> b = ?b"
      using run reg None root unfolding ensure_graph_def make_directories_def Let_def
      by (auto simp: act_bind_Inr_iff act_seq_def act_lift_def act_return_def act_modify_def
          dest!: effect_frame_Inr) blast
    then obtain budget rg3 where step:
      "on_catalog (activate_store (re_fs env) root fresh SemanticStale)
         (rg1\<lparr>rg_entries := List.insert (c_store r1) (rg_entries rg1), rg_budget := budget,
            rg_databases := List.insert ?b (rg_databases rg1)\<rparr>) = (Inr record, rg3)"
      "rg' = rg3\<lparr>rg_open := rg_open rg3 @ [?b]\<rparr>" "b = ?b" by blast
    obtain cat3 where cat3: "activate_store (re_fs env) root fresh SemanticStale cat1 = (Inr record, cat3)"
      "rg_catalog rg3 = cat3"
      using step(1) by (rule on_catalog_InrE) (use cat1(2) in simp)
    have "record \<in> set (catalog_rows cat3) \<and> record = r1\<lparr>c_gen := Some fresh, c_state := SemanticStale\<rparr>"
      by (rule activate_returns [OF r1(1) cat3(1) r1(2)]) (use root r1(3) in simp)
    then show ?thesis using step(2,3) cat3(2) r1(3) by auto
  qed
qed

lemma ensure_watcher_frame:
  assumes "ensure_watcher env root s = (r, t)"
  shows "da_jobs t = da_jobs s \<and> da_registry t = da_registry s \<and> da_graph t = da_graph s
    \<and> set (da_watchers s) \<subseteq> set (da_watchers t)"
  using assms
  by (auto simp: ensure_watcher_def start_watcher_for_def require_jobs_def require_stores_def require_def on_registry_def
      read_catalog_def act_defs split: sum.splits if_splits prod.splits option.splits)

lemma ensure_watcher_watches:
  assumes "ensure_watcher env root s = (Inr (), t)" "canonicalize_repo_path (service_fs env) (parse_path root) = Inr root"
    and "ve_auto_reindex env" "fs_is_dir (service_fs env) (parse_path root)"
    and "registry_ok (da_registry s)" "record \<in> set (catalog_rows (rg_catalog (da_registry s)))"
      "c_root record = root" "c_gen record = Some g"
  shows "root \<in> set (da_watchers t)"
proof -
  obtain rows seq where cat: "rg_catalog (da_registry s) = Table rows seq" "record \<in> set rows"
    using assms(6) by (cases "rg_catalog (da_registry s)") (auto simp: catalog_rows_def)
  have "catalog_lookup (service_fs env) root (rg_catalog (da_registry s)) = Inr (Some record)"
  proof -
    have ok: "catalog_ok (Table rows seq)" using assms(5) cat(1) by (simp add: registry_ok_def)
    then have "find_root root rows = Some record"
      using find_root_iff [of rows] cat(2) assms(7) by (auto simp: catalog_ok_def)
    moreover have "record_from_row record = Inr record" using ok cat(2) by (simp add: catalog_ok_def)
    ultimately show ?thesis
      using assms(2) cat(1) by (simp add: catalog_lookup_def canonical_repository_root_def checked_row_def)
  qed
  then show ?thesis
    using assms
    by (auto simp: ensure_watcher_def start_watcher_for_def require_jobs_def require_stores_def require_def on_registry_def
        read_catalog_def act_defs split: sum.splits if_splits)
qed

lemma deletion_row_active: "deletion_row root rows = active_deletion root rows"
proof -
  have "(j_status r \<in> set active_job_statuses) = active_status r" for r
    by (cases "j_status r") (simp_all add: active_job_statuses_def active_queue_statuses_def)
  then show ?thesis by (simp add: deletion_row_def active_deletion_def)
qed


section \<open>A deletion request\<close>

lemma enqueue_deletion:
  assumes inv: "job_inv rows" and ok: "request_ok q" "q_mode q = DropIndex"
    and run: "enqueue now fresh q rows = Inr (rows', j)"
  shows "deletion_row (q_repo q) rows' = Some j"
proof (cases "deletion_row (q_repo q) rows")
  case (Some d)
  then show ?thesis using run ok(2) by (auto simp: enqueue_def and_then_Inr_iff)
next
  case None
  have inv': "job_inv rows'" using inv ok(1) run by (blast elim: enqueue_InrE)
  have j: "j \<in> set rows'" "j_repo j = q_repo q" "queued_status j" "mode_rank (q_mode q) \<le> mode_rank (j_mode j)"
    using enqueue_index [OF inv ok(1) None run] by simp_all
  have "j_mode j = DropIndex" using j(4) ok(2) by (cases "j_mode j") (simp_all add: mode_rank_def)
  moreover have "active_status j" using j(3) by (cases "j_status j") simp_all
  ultimately show ?thesis using active_deletion_unique [OF inv' j(1)] j(2) by simp
qed

lemma deletion_target_reads: "deletion_target env root s = (r, t) \<Longrightarrow> t = s"
  by (auto simp: deletion_target_def read_catalog_def act_defs Let_def split: sum.splits prod.splits if_splits option.splits)

definition absent_reply :: dict where
  "absent_reply = [(''accepted'', JBool True), (''already_absent'', JBool True), (''job'', JNull)]"

definition deletion_reply :: "service_env \<Rightarrow> job \<Rightarrow> dict" where
  "deletion_reply env j = dict_set (accepted env j) ''already_absent'' (JBool False)"

lemma request_deletion_cases:
  assumes ok: "service_ok s" and run: "request_deletion env st root s = (Inr reply, t)"
  shows "(reply = absent_reply \<and> t = s) \<or>
    (\<exists>job. deletion_row root (da_jobs t) = Some job \<and> reply = deletion_reply env job
       \<and> da_jobs_ready t = da_jobs_ready s \<and> da_stores_ready t = da_stores_ready s
       \<and> (deletion_row root (da_jobs s) = None \<longrightarrow> root \<notin> set (da_watchers t)))"
proof (cases "active_deletion root (da_jobs s)")
  case (Some j)
  then show ?thesis
    using run by (auto simp: request_deletion_def act_defs deletion_row_active deletion_reply_def)
next
  case None
  obtain target rg where target: "deletion_target (ve_registry env) root (da_registry s) = (Inr target, rg)"
    using run None by (auto simp: request_deletion_def on_registry_def act_defs split: sum.splits prod.splits)
  then have "rg = da_registry s" by (rule deletion_target_reads)
  show ?thesis
  proof (cases target)
    case None': None
    then show ?thesis
      using run None target \<open>rg = _\<close>
      by (auto simp: request_deletion_def on_registry_def act_defs absent_reply_def)
  next
    case (Some x)
    then obtain rows job where queued: "enqueue (st_now st) (st_job st) (deletion_job root x) (da_jobs s) = Inr (rows, job)"
      and t: "t = s\<lparr>da_jobs := rows, da_watchers := removeAll root (da_watchers s)\<rparr>" "reply = deletion_reply env job"
      using run None target \<open>rg = _\<close>
      by (auto simp: request_deletion_def on_registry_def on_jobs_def act_defs deletion_reply_def
          split: sum.splits prod.splits)
    have "deletion_row root rows = Some job"
      using enqueue_deletion [OF _ request_ok_jobs(2) _ queued] ok by (simp add: service_ok_def deletion_job_def)
    then show ?thesis using t by simp
  qed
qed

text \<open>C26: A deletion request either finds nothing of the repository and changes nothing, or
  leaves an active deletion of that repository and no watcher of its own making; until that
  deletion ends, repeating the request answers with the same job and changes nothing, and
  every index request for the repository is refused and changes nothing.\<close>

theorem deletion_request_settles:
  assumes ok: "service_ok s" and run: "drop_index env st params s = (Inr reply, s')"
    and path: "path_param params = Inr raw" "canonicalize_repo_path (service_fs env) (parse_path raw) = Inr root"
  shows "(reply = absent_reply \<and> s' = s) \<or>
    (\<exists>job. deletion_row root (da_jobs s') = Some job \<and> reply = deletion_reply env job
       \<and> (deletion_row root (da_jobs s) = None \<longrightarrow> root \<notin> set (da_watchers s'))
       \<and> drop_index env st' params s' = (Inr reply, s')
       \<and> (\<exists>message. enqueue_repository env st' force params s' = (Inl (ValueError message), s')))"
proof -
  have ready: "da_jobs_ready s" "da_stores_ready s" and run': "request_deletion env st root s = (Inr reply, s')"
    using run path by (auto simp: drop_index_def require_jobs_def require_stores_def require_def act_defs
        split: if_splits)
  have "drop_index env st' params s' = (Inr (deletion_reply env job), s')
      \<and> (\<exists>message. enqueue_repository env st' force params s' = (Inl (ValueError message), s'))"
    if "deletion_row root (da_jobs s') = Some job" "da_jobs_ready s'" "da_stores_ready s'" for job
    using that path
    by (auto simp: drop_index_def enqueue_repository_def enroll_def request_deletion_def require_jobs_def
        require_stores_def require_def act_defs deletion_row_active [symmetric] deletion_reply_def)
  then show ?thesis using request_deletion_cases [OF ok run'] ready by metis
qed

section \<open>A daemon with one repository\<close>

definition demo_own :: string where
  "demo_own = sha256_hex ''/a''"

definition demo_record :: catalog_record where
  "demo_record = \<lparr>c_project = 1, c_root = ''/a'', c_store = demo_own, c_gen = Some ''g1'', c_state = SemanticReady\<rparr>"

definition demo_service_env :: service_env where
  "demo_service_env =
     \<lparr>ve_registry = \<lparr>re_fs = plain_fs, re_home = parse_path ''/h'', re_open = \<lambda>_. Inr (),
        re_create = \<lambda>_ _. Inr (), re_delete = \<lambda>_ _. Inr [], re_flush = \<lambda>_. Inr ()\<rparr>,
      ve_auto_reindex = True, ve_watch = \<lambda>_. Inr (), ve_stats = \<lambda>_. Inr [], ve_time = \<lambda>_. '''',
      ve_version = '''', ve_generation = '''', ve_decision_ready = None\<rparr>"

definition demo_service :: service where
  "demo_service =
     \<lparr>da_jobs = [], da_registry = \<lparr>rg_catalog = Table [demo_record] 1, rg_entries = [demo_own],
        rg_databases = [(demo_own, ''g1'')], rg_open = [], rg_budget = None\<rparr>,
      da_watchers = [], da_graph = None, da_jobs_ready = True, da_stores_ready = True, da_started = True,
      da_shutdown = False\<rparr>"

definition demo_stamp :: stamp where
  "demo_stamp = \<lparr>st_now = 1, st_job = ''j1'', st_generation = ''g2''\<rparr>"

definition demo_params :: dict where
  "demo_params = [(''repo_path'', JStr ''/a'')]"

lemma demo_own_id: "is_store_id demo_own" "parse_root demo_own = []"
proof -
  show "is_store_id demo_own" by (simp add: is_store_id_def demo_own_def sha256_hex_shape)
  have "\<forall>c\<in>set demo_own. lower_hex c" using sha256_hex_shape by (simp add: demo_own_def list_all_iff)
  moreover have "\<not> lower_hex CHR ''/''" by code_simp
  moreover have "parse_root s = []" if "\<forall>c\<in>set s. lower_hex c" "\<not> lower_hex CHR ''/''" for s
    using that by (cases s) (auto simp: parse_root_def numeral_eq_Suc)
  ultimately show "parse_root demo_own = []" by blast
qed

lemma demo_service_ok: "service_ok demo_service"
proof -
  have "is_generation ''g1''" by code_simp
  then show ?thesis
    by (simp add: service_ok_def demo_service_def job_inv_def registry_ok_def catalog_ok_def demo_record_def
        demo_own_id record_from_row_def)
qed

lemma demo_canonical: "canonical_repository_root plain_fs ''/a'' = Inr ''/a''"
  by code_simp

lemma demo_path:
  "path_param demo_params = Inr ''/a''"
  "canonicalize_repo_path (service_fs demo_service_env) (parse_path ''/a'') = Inr ''/a''"
  by code_simp+

lemma plain_contained: "parse_root x = [] \<Longrightarrow> assert_contained plain_fs p (path_child p x) = Inr (path_child p x)"
  by (simp add: assert_contained_def plain_fs_def path_child_def path_join_def parse_path_def is_relative_to_iff)

lemma demo_resolved: "\<exists>p. resolve_store_paths plain_fs (parse_path ''/h'') demo_own ''g1'' = Inr p"
proof -
  have "is_generation ''g1''" by code_simp
  moreover have "parse_root ''projects'' = []" "parse_root ''generations'' = []" "parse_root ''g1'' = []"
    "parse_root ''index.db'' = []" "parse_root ''index.usearch'' = []" "parse_root ''provider.json'' = []"
    "parse_root ''CURRENT'' = []"
    by (simp_all add: parse_root_def)
  moreover have "fs_resolve plain_fs p = Inr p" "fs_expanduser plain_fs p = p" for p by (simp_all add: plain_fs_def)
  ultimately show ?thesis
    by (simp add: resolve_store_paths_def validate_scs_home_def validate_store_id_def validate_store_generation_def
        demo_own_id plain_contained)
qed

lemma demo_register:
  "register_store plain_fs ''/a'' (Table [demo_record] 1) = (Inr demo_record, Table [demo_record] 1)"
proof -
  have "is_generation ''g1''" by code_simp
  then show ?thesis
    using demo_own_id(1)
    by (simp add: register_store_def demo_canonical store_id_for_root_def insert_root_def find_root_def
        record_from_row_def demo_record_def demo_own_def)
qed

lemma demo_ensure:
  "ensure_graph (ve_registry demo_service_env) ''g2'' ''/a'' (da_registry demo_service) =
     (Inr (demo_record, (demo_own, ''g1'')), (da_registry demo_service)\<lparr>rg_open := [(demo_own, ''g1'')]\<rparr>)"
proof -
  obtain p where p: "resolve_store_paths plain_fs (parse_path ''/h'') demo_own ''g1'' = Inr p"
    using demo_resolved by blast
  then show ?thesis
    by (simp add: ensure_graph_def demo_service_env_def demo_service_def on_catalog_def effect_def demo_register
        store_paths_for_def open_graph_def act_defs)
       (simp add: demo_record_def act_defs effect_def p store_paths_for_def open_graph_def)
qed

definition demo_job :: job where
  "demo_job = new_job 1 ''j1'' (index_job ''/a'' (demo_own, ''g1'') False) []"

lemma index_job_fields [simp]:
  "q_repo (index_job root b force) = root" "q_mode (index_job root b force) = (if force then ForceFull else Full)"
  "q_payload (index_job root b force) = None"
  by (simp_all add: index_job_def)

lemma demo_queue: "enqueue 1 ''j1'' (index_job ''/a'' (demo_own, ''g1'') False) [] = Inr ([demo_job], demo_job)"
proof -
  have "deletion_row ''/a'' [] = None" "queued_row ''/a'' [] = None" by code_simp+
  moreover have "normalize_payload Full None = Inr []" by code_simp
  moreover have "execute_statement [demo_job] = Inr [demo_job]" "get_locked ''j1'' [demo_job] = Inr ([demo_job], demo_job)"
    by (simp_all add: execute_statement_def schema_ok_def unique_queued_def get_locked_def find_job_def demo_job_def new_job_def)
  moreover have "new_job (Suc 0) ''j1'' (index_job ''/a'' (demo_own, ''g1'') False) [] = demo_job" by (simp add: demo_job_def)
  ultimately show ?thesis by (simp add: enqueue_def)
qed

lemma demo_lookup: "catalog_lookup plain_fs ''/a'' (Table [demo_record] 1) = Inr (Some demo_record)"
proof -
  have "is_generation ''g1''" by code_simp
  then show ?thesis
    by (simp add: catalog_lookup_def demo_canonical checked_row_def find_root_def record_from_row_def demo_own_id
        demo_record_def)
qed

lemma demo_fields [simp]:
  "da_jobs demo_service = []" "da_jobs_ready demo_service" "da_stores_ready demo_service"
  "da_watchers demo_service = []" "rg_budget (da_registry demo_service) = None"
  "rg_catalog (da_registry demo_service) = Table [demo_record] 1"
  "re_fs (ve_registry demo_service_env) = plain_fs" "ve_auto_reindex demo_service_env"
  "ve_watch demo_service_env root = Inr ()" "fs_is_dir plain_fs q"
  "c_gen demo_record = Some ''g1''" "c_store demo_record = demo_own" "c_root demo_record = ''/a''"
  "st_now demo_stamp = 1" "st_job demo_stamp = ''j1''" "st_generation demo_stamp = ''g2''"
  by (simp_all add: demo_service_def demo_service_env_def plain_fs_def demo_record_def demo_stamp_def)

lemma demo_enqueue:
  "enqueue_repository demo_service_env demo_stamp False demo_params demo_service =
     (Inr (accepted demo_service_env demo_job),
      demo_service\<lparr>da_jobs := [demo_job],
        da_registry := (da_registry demo_service)\<lparr>rg_open := [(demo_own, ''g1'')]\<rparr>,
        da_watchers := [''/a''], da_graph := Some (demo_own, ''g1'')\<rparr>)"
proof -
  have "deletion_row ''/a'' [] = None" by code_simp
  then have "active_deletion ''/a'' [] = None" by (simp add: deletion_row_active)
  then show ?thesis
    using demo_path demo_lookup demo_queue demo_ensure
    by (simp add: enqueue_repository_def enroll_def act_defs require_jobs_def require_stores_def require_def
        ensure_watcher_def start_watcher_for_def on_registry_def on_jobs_def read_catalog_def)
qed



definition demo_stored :: service where
  "demo_stored =
     \<lparr>da_jobs = [], da_registry = \<lparr>rg_catalog = Table demo_catalog 2, rg_entries = [demo_store],
        rg_databases = [(demo_store, ''g1'')], rg_open = [], rg_budget = None\<rparr>,
      da_watchers = [], da_graph = None, da_jobs_ready = True, da_stores_ready = True, da_started = True,
      da_shutdown = False\<rparr>"

theorem deletion_request_settles_witness:
  "\<exists>reply s'. drop_index demo_service_env demo_stamp demo_params demo_stored = (Inr reply, s')
     \<and> drop_index demo_service_env demo_stamp demo_params s' = (Inr reply, s')"
proof -
  have ok: "service_ok demo_stored" by code_simp
  have "\<not> is_raise (fst (drop_index demo_service_env demo_stamp demo_params demo_stored))" by code_simp
  then obtain reply s' where run: "drop_index demo_service_env demo_stamp demo_params demo_stored = (Inr reply, s')"
    by (cases "drop_index demo_service_env demo_stamp demo_params demo_stored") (auto simp: is_raise_def split: sum.splits)
  have "fst (drop_index demo_service_env demo_stamp demo_params demo_stored) \<noteq> Inr absent_reply" by code_simp
  with deletion_request_settles [OF ok run demo_path] run show ?thesis by auto
qed

end
