(* ===== verification/Py_Floats.thy ===== *)
theory Py_Floats
  imports Complex_Main Scs_Prelude
begin

text \<open>
  Python's floating-point numbers where they enter from outside: a finite one is the rational
  it denotes, so that comparisons and conversions are those of the language; and decoded JSON
  with such numbers in it.
\<close>

section \<open>Floats\<close>

text \<open>\<open>Infinite True\<close> is minus infinity.  Zero stands for both signed zeros, which compare equal.\<close>

datatype pyfloat = Finite rat | Infinite bool | NaN

definition is_finite :: "pyfloat \<Rightarrow> bool" where
  "is_finite x = (case x of Finite _ \<Rightarrow> True | _ \<Rightarrow> False)"

definition float_less :: "pyfloat \<Rightarrow> pyfloat \<Rightarrow> bool" where
  "float_less x y =
     (case (x, y) of
        (Finite a, Finite b) \<Rightarrow> a < b
      | (Finite a, Infinite below) \<Rightarrow> \<not> below
      | (Infinite below, Finite b) \<Rightarrow> below
      | (Infinite below, Infinite below') \<Rightarrow> below \<and> \<not> below'
      | _ \<Rightarrow> False)"

fun bit_length :: "nat \<Rightarrow> nat" where
  "bit_length n = (if n = 0 then 0 else Suc (bit_length (n div 2)))"

declare bit_length.simps [simp del]

text \<open>\<open>float(i)\<close>: the nearest number with 53 bits, ties to even, below \<open>2 ^ 1024\<close>.\<close>

definition nearest_double :: "nat \<Rightarrow> nat" where
  "nearest_double n =
     (let e = bit_length n - 53; q = n div 2 ^ e; r = n mod 2 ^ e in
      if e = 0 then n
      else if 2 ^ e < 2 * r \<or> (2 * r = 2 ^ e \<and> odd q) then (q + 1) * 2 ^ e
      else q * 2 ^ e)"

definition float_of_int :: "int \<Rightarrow> exc + pyfloat" where
  "float_of_int i =
     (let m = nearest_double (nat \<bar>i\<bar>) in
      if 2 ^ 1024 \<le> m then Inl (OverflowError ''int too large to convert to float'')
      else Inr (Finite (if i < 0 then - of_nat m else of_nat m)))"

section \<open>Decoded JSON\<close>

datatype decoded =
    DNull
  | DBool bool
  | DInt int
  | DFloat pyfloat
  | DStr string
  | DList "decoded list"
  | DObj "(string \<times> decoded) list"

text \<open>\<open>dict.get\<close>\<close>

definition field :: "(string \<times> decoded) list \<Rightarrow> string \<Rightarrow> decoded" where
  "field kvs key = (case map_of kvs key of None \<Rightarrow> DNull | Some v \<Rightarrow> v)"

text \<open>\<open>float(v)\<close> of a value that is an \<open>int\<close> or a \<open>float\<close> and no \<open>bool\<close>; None for any other value.\<close>

definition numeric :: "decoded \<Rightarrow> (exc + pyfloat) option" where
  "numeric v =
     (case v of DInt i \<Rightarrow> Some (float_of_int i) | DFloat x \<Rightarrow> Some (Inr x) | _ \<Rightarrow> None)"

section \<open>Conversion of integers\<close>

lemma bit_length_bounds: "0 < n \<Longrightarrow> 2 ^ (bit_length n - 1) \<le> n \<and> n < 2 ^ bit_length n"
proof (induction n rule: bit_length.induct)
  case (1 n)
  show ?case
  proof (cases "n div 2 = 0")
    case True
    then have "n = 1" using 1(2) by auto
    then show ?thesis by (simp add: bit_length.simps)
  next
    case False
    let ?k = "bit_length (n div 2)"
    have ih: "2 ^ (?k - 1) \<le> n div 2" "n div 2 < 2 ^ ?k" using 1 False by auto
    have "0 < ?k" using False by (subst bit_length.simps) simp
    then have "2 * 2 ^ (?k - 1) = (2 ^ ?k :: nat)" by (cases ?k) simp_all
    moreover have "bit_length n = Suc ?k" using 1(2) by (subst bit_length.simps) simp
    moreover have "n < 2 * (n div 2) + 2" "2 * (n div 2) \<le> n" by auto
    ultimately show ?thesis using ih by (simp only: power_Suc diff_Suc_1) linarith
  qed
qed

lemma nearest_double_small: "n < 2 ^ 53 \<Longrightarrow> nearest_double n = n"
proof -
  assume "n < 2 ^ 53"
  have "bit_length n \<le> 53"
  proof (cases "n = 0")
    case True
    then show ?thesis by (simp add: bit_length.simps)
  next
    case False
    then have "(2::nat) ^ (bit_length n - 1) < 2 ^ 53" using bit_length_bounds [of n] \<open>n < 2 ^ 53\<close> by linarith
    then show ?thesis using power_less_imp_less_exp [of "2::nat" "bit_length n - 1" 53] by simp
  qed
  then show ?thesis by (simp add: nearest_double_def Let_def)
qed

text \<open>Every integer at or above \<open>2 ^ 1024\<close> overflows.\<close>

lemma nearest_double_large:
  assumes "(2::nat) ^ 1024 \<le> n"
  shows "2 ^ 1024 \<le> nearest_double n"
proof -
  define e where "e = bit_length n - 53"
  have "0 < n" using assms by (rule less_le_trans [rotated]) simp
  then have up: "n < 2 ^ bit_length n" and low: "2 ^ (bit_length n - 1) \<le> n" using bit_length_bounds by auto
  have "(2::nat) ^ 1024 < 2 ^ bit_length n" using assms up by linarith
  then have len: "1024 < bit_length n" using power_less_imp_less_exp [of "2::nat" 1024 "bit_length n"] by linarith
  then have split: "bit_length n - 1 = 52 + e" and "e \<noteq> 0" by (auto simp: e_def)
  have "2 ^ 52 * 2 ^ e \<le> n" using low by (simp only: split power_add)
  then have "2 ^ 52 \<le> n div 2 ^ e" by (simp add: less_eq_div_iff_mult_less_eq)
  then have "2 ^ 52 * 2 ^ e \<le> n div 2 ^ e * 2 ^ e" by simp
  moreover have "n div 2 ^ e * 2 ^ e \<le> nearest_double n"
    using \<open>e \<noteq> 0\<close> by (simp add: nearest_double_def Let_def e_def [symmetric])
  moreover have "(2::nat) ^ 1024 \<le> 2 ^ 52 * 2 ^ e"
  proof -
    have "(2::nat) ^ 1024 \<le> 2 ^ (bit_length n - 1)" using len by (intro power_increasing) auto
    then show ?thesis by (simp only: split power_add)
  qed
  ultimately show ?thesis by linarith
qed

lemma float_of_large_int: "2 ^ 1024 \<le> \<bar>i\<bar> \<Longrightarrow> float_of_int i = Inl (OverflowError ''int too large to convert to float'')"
proof -
  assume "2 ^ 1024 \<le> \<bar>i\<bar>"
  then have "(2::nat) ^ 1024 \<le> nat \<bar>i\<bar>" by (simp add: le_nat_iff)
  then show ?thesis using nearest_double_large by (simp add: float_of_int_def Let_def)
qed

lemma float_of_small_int: "\<bar>i\<bar> < 2 ^ 53 \<Longrightarrow> float_of_int i = Inr (Finite (of_int i))"
proof -
  assume small: "\<bar>i\<bar> < 2 ^ 53"
  then have "nat \<bar>i\<bar> < 2 ^ 53" by (simp only: nat_less_eq_zless [symmetric]) simp
  moreover from this have "\<not> 2 ^ 1024 \<le> nat \<bar>i\<bar>" by (simp add: not_le less_trans)
  ultimately show ?thesis by (auto simp: float_of_int_def nearest_double_small of_nat_nat Let_def)
qed

lemma float_of_int_finite: "float_of_int i = Inr x \<Longrightarrow> is_finite x"
  by (auto simp: float_of_int_def Let_def is_finite_def split: if_splits)

end
