(* ===== verification/Route_Params.thy ===== *)
theory Route_Params
  imports Graph_Model Repository_Paths Py_Integers Py_Floats
begin

text \<open>
  The validation of route parameters (\<open>src/src/scs/services/routes.py\<close>, module functions):
  every parameter arrives as an untyped JSON value.  Seconds are the only numbers with a
  fraction among them.
\<close>

section \<open>Integers, strings and lists\<close>

definition integer_param :: "dict \<Rightarrow> string \<Rightarrow> int \<Rightarrow> int \<Rightarrow> exc + int" where
  "integer_param params key dflt minimum =
     (case dict_get params key (JInt dflt) of
        JInt i \<Rightarrow> Inr (max minimum i)
      | _ \<Rightarrow> Inl (ValueError (key @ '' must be an integer'')))"

definition string_param :: "dict \<Rightarrow> string \<Rightarrow> bool \<Rightarrow> exc + string option" where
  "string_param params key required =
     (let value = dict_get params key JNull in
      if value = JNull \<and> \<not> required then Inr None
      else
        (case value of
           JStr s \<Rightarrow> if s \<noteq> [] then Inr (Some s) else Inl (ValueError (key @ '' must be a non-empty string''))
         | _ \<Rightarrow> Inl (ValueError (key @ '' must be a non-empty string''))))"

definition required_string :: "dict \<Rightarrow> string \<Rightarrow> exc + string" where
  "required_string params key = and_then (string_param params key True) (\<lambda>s. Inr (the s))"

fun all_strings :: "json list \<Rightarrow> string list option" where
  "all_strings [] = Some []"
| "all_strings (JStr s # xs) = map_option ((#) s) (all_strings xs)"
| "all_strings (_ # xs) = None"

definition string_list :: "dict \<Rightarrow> string \<Rightarrow> bool \<Rightarrow> exc + string list" where
  "string_list params key optional =
     (let value = dict_get params key JNull;
          value = (if optional \<and> value = JNull then JList [] else value);
          bad = Inl (ValueError (key @ '' must be a list of strings'')) in
      case value of
        JList xs \<Rightarrow> (case all_strings xs of Some ss \<Rightarrow> Inr ss | None \<Rightarrow> bad)
      | _ \<Rightarrow> bad)"

fun all_objects :: "json list \<Rightarrow> dict list option" where
  "all_objects [] = Some []"
| "all_objects (JObj d # xs) = map_option ((#) d) (all_objects xs)"
| "all_objects (_ # xs) = None"

section \<open>Search parameters\<close>

definition node_type_of :: "string \<Rightarrow> node_type option" where
  "node_type_of v = find (\<lambda>t. node_type_value t = v) node_types"

definition node_type_param :: "json \<Rightarrow> exc + node_type option" where
  "node_type_param value =
     (if value = JNull \<or> value = JStr '''' then Inr None
      else
        (case value of
           JStr v \<Rightarrow>
             (case node_type_of v of
                Some t \<Rightarrow> Inr (Some t)
              | None \<Rightarrow> Inl (ValueError (''unsupported node_type: '' @ v)))
         | _ \<Rightarrow> Inl (ValueError ''node_type must be a string'')))"

definition max_search_queries :: nat where
  "max_search_queries = 5"

definition search_queries :: "dict \<Rightarrow> string \<Rightarrow> exc + string list" where
  "search_queries params primary =
     and_then (string_list params ''queries'' True) (\<lambda>queries.
       if length (primary # queries) > max_search_queries
       then Inl (ValueError ''search accepts at most 5 queries'')
       else if list_ex (\<lambda>q. strip q = []) (primary # queries)
       then Inl (ValueError ''search queries cannot be blank'')
       else Inr queries)"

definition search_mode_param :: "dict \<Rightarrow> exc + string" where
  "search_mode_param params =
     and_then (string_param params ''search_mode'' False) (\<lambda>given.
       let value = (case given of Some v \<Rightarrow> v | None \<Rightarrow> ''thorough'') in
       if value \<in> {''fast'', ''balanced'', ''thorough''} then Inr value
       else Inl (ValueError ''search_mode must be fast, balanced, or thorough''))"

definition traversal_direction :: "dict \<Rightarrow> string \<Rightarrow> exc + string" where
  "traversal_direction params dflt =
     and_then (string_param params ''direction'' False) (\<lambda>given.
       let value = (case given of Some v \<Rightarrow> v | None \<Rightarrow> dflt);
           value = (if value = ''dependencies'' then ''outgoing''
                    else if value = ''dependents'' then ''incoming'' else value) in
       if value \<in> {''outgoing'', ''incoming'', ''both''} then Inr value
       else Inl (ValueError ''direction must be outgoing, incoming, both, dependencies, or dependents''))"

definition active_directions :: "string \<Rightarrow> string list" where
  "active_directions direction = (if direction = ''both'' then [''outgoing'', ''incoming''] else [direction])"

section \<open>Seconds\<close>

text \<open>What \<open>params.get(key, 0.0)\<close> yields; \<open>json.loads\<close> accepts \<open>NaN\<close> and \<open>Infinity\<close>.\<close>

type_synonym seconds = pyfloat

datatype seconds_value = NotGiven | Number seconds | NotNumber

definition max_job_wait :: rat where
  "max_job_wait = 10"

text \<open>\<open>value < 0\<close>, and \<open>min(float(value), MAX_JOB_WAIT_SECONDS)\<close>, whose second argument wins only when smaller.\<close>

definition negative :: "seconds \<Rightarrow> bool" where
  "negative s = (case s of Finite x \<Rightarrow> x < 0 | Infinite below \<Rightarrow> below | NaN \<Rightarrow> False)"

definition capped :: "rat \<Rightarrow> seconds \<Rightarrow> seconds" where
  "capped most s =
     (case s of
        Finite x \<Rightarrow> Finite (if most < x then most else x)
      | Infinite below \<Rightarrow> if below then s else Finite most
      | NaN \<Rightarrow> NaN)"

definition bounded_seconds :: "string \<Rightarrow> seconds_value \<Rightarrow> exc + seconds" where
  "bounded_seconds key value =
     (case value of
        NotNumber \<Rightarrow> Inl (ValueError (key @ '' must be a number''))
      | NotGiven \<Rightarrow> Inr (Finite 0)
      | Number s \<Rightarrow>
          if negative s then Inl (ValueError (key @ '' must be non-negative''))
          else Inr (capped max_job_wait s))"

section \<open>Integers of the metadata\<close>

text \<open>\<open>_integer_metadata\<close>: null is the default, a boolean is the integer it is.\<close>

definition integer_metadata :: "json \<Rightarrow> string \<Rightarrow> int \<Rightarrow> exc + int" where
  "integer_metadata value key dflt =
     (case value of
        JNull \<Rightarrow> Inr dflt
      | JStr s \<Rightarrow> int_of_text s
      | JInt i \<Rightarrow> Inr i
      | JBool b \<Rightarrow> Inr (of_bool b)
      | _ \<Rightarrow> Inl (TypeError (key @ '' must be numeric'')))"

text \<open>\<open>str.casefold\<close> as code points: \<open>lower\<close> except for the sharp s and the micro sign.\<close>

definition casefold :: "string \<Rightarrow> nat list" where
  "casefold s =
     concat (map (\<lambda>c. let n = (of_char c :: nat) in
        if n = 223 then [115, 115] else if n = 181 then [956] else [of_char (lower_char c)]) s)"

end
