(* ===== verification/Route_Reads.thy ===== *)
theory Route_Reads
  imports Route_Params Code_Search Slices
begin

text \<open>
  The reading routes of \<open>SCSServiceRoutes\<close> (\<open>src/src/scs/services/routes.py\<close>): search, symbol
  lists, related symbols and graph context, over the methods of the project graph.  A reply
  is a record of the fields of the dictionary the code returns, without its timings.
\<close>

section \<open>The graph and the collaborators of the routes\<close>

record code_graph =
  cg_repo_id :: "string \<Rightarrow> exc + int option"
  cg_list :: "node_type \<Rightarrow> int \<Rightarrow> int \<Rightarrow> int option \<Rightarrow> exc + node list"
  cg_count :: "node_type \<Rightarrow> int option \<Rightarrow> exc + int"
  cg_file_ids :: "string \<Rightarrow> string \<Rightarrow> exc + string list"
  cg_node :: "string \<Rightarrow> exc + node option"
  cg_nodes :: "string list \<Rightarrow> exc + node list"
  cg_node_edges :: "string \<Rightarrow> string \<Rightarrow> exc + edge list"
  cg_edges :: "string list \<Rightarrow> string \<Rightarrow> exc + (string \<times> edge list) list"
  cg_by_name :: "string \<Rightarrow> node_type \<Rightarrow> int \<Rightarrow> int option \<Rightarrow> exc + node list"
  cg_neighbors :: "string \<Rightarrow> int \<Rightarrow> exc + node list"
  cg_traverse :: "string \<Rightarrow> int \<Rightarrow> string option \<Rightarrow> string \<Rightarrow> exc + dict list"
  cg_search :: "node_type option \<Rightarrow> int option \<Rightarrow> exc + search_env"
  cg_counts :: "int option \<Rightarrow> exc + (string \<times> int) list"
  cg_unembedded :: "int option \<Rightarrow> exc + int"
  cg_embeddings :: "exc + int"
  cg_ingestion :: "exc + (string \<times> dict) list"
  cg_vectors :: "bool \<times> string option"
  cg_bytes :: "exc + int"

record routes =
  ro_fs :: file_system
  ro_graph :: "exc + code_graph"
  ro_graph_for :: "(string \<Rightarrow> exc + code_graph option) option"
  ro_binding_for :: "(string \<Rightarrow> exc + (string \<times> string) option) option"
  ro_provider :: "exc + bool \<times> string option"

definition read_graph :: "routes \<Rightarrow> json \<Rightarrow> exc + code_graph option" where
  "read_graph env repo =
     (case ro_graph_for env of
        Some resolver \<Rightarrow>
          if repo \<noteq> JNull then
            (case repo of
               JStr p \<Rightarrow> and_then (canonicalize_repo_path (ro_fs env) (parse_path p)) resolver
             | _ \<Rightarrow> Inl (ValueError ''repo_path must be a string''))
          else (case ro_graph env of Inr g \<Rightarrow> Inr (Some g) | Inl (RuntimeError _) \<Rightarrow> Inr None | Inl e \<Rightarrow> Inl e)
      | None \<Rightarrow> (case ro_graph env of Inr g \<Rightarrow> Inr (Some g) | Inl (RuntimeError _) \<Rightarrow> Inr None | Inl e \<Rightarrow> Inl e))"

definition repo_id_of :: "routes \<Rightarrow> json \<Rightarrow> exc + int option" where
  "repo_id_of env repo =
     (case repo of
        JNull \<Rightarrow> Inr None
      | JStr p \<Rightarrow>
          and_then (read_graph env repo) (\<lambda>graph.
            case graph of
              None \<Rightarrow> Inr None
            | Some g \<Rightarrow> and_then (canonicalize_repo_path (ro_fs env) (parse_path p)) (cg_repo_id g))
      | _ \<Rightarrow> Inl (ValueError ''repo_path must be a string''))"

section \<open>Search\<close>

record compact_match =
  cm_id :: string
  cm_type :: node_type
  cm_name :: string
  cm_qualified :: json
  cm_path :: json
  cm_start :: json
  cm_end :: json
  cm_signature :: json
  cm_content :: string
  cm_distance :: "rat option"

datatype search_item = FullItem node "rat option" | CompactItem compact_match

definition compact_content :: nat where
  "compact_content = 1024"

definition compact_match_dict :: "match \<Rightarrow> compact_match" where
  "compact_match_dict m =
     (let n = ma_node m; md = nd_metadata n in
      \<lparr>cm_id = nd_id n, cm_type = nd_type n, cm_name = nd_name n,
       cm_qualified = dict_get md ''qualified_name'' JNull, cm_path = dict_get md ''file_path'' JNull,
       cm_start = dict_get md ''start_line'' JNull, cm_end = dict_get md ''end_line'' JNull,
       cm_signature = dict_get md ''signature'' JNull, cm_content = take compact_content (nd_content n),
       cm_distance = ma_distance m\<rparr>)"

definition item_id :: "search_item \<Rightarrow> string" where
  "item_id item = (case item of FullItem n _ \<Rightarrow> nd_id n | CompactItem c \<Rightarrow> cm_id c)"

record diagnostics =
  dg_queries :: "string list"
  dg_matches :: "(string \<times> nat list) list"
  dg_available :: bool
  dg_reranked :: bool
  dg_stage :: "string option"
  dg_timed_out :: bool
  dg_reason :: "string option"

record search_reply =
  sr_query :: string
  sr_results :: "search_item list"
  sr_neighbors :: "node list"
  sr_total :: nat
  sr_mode :: mode
  sr_diagnostics :: diagnostics

definition search_diagnostics :: "response \<Rightarrow> diagnostics" where
  "search_diagnostics r =
     \<lparr>dg_queries = rs_queries r,
      dg_matches = foldl (\<lambda>d m. AList.update (nd_id (ma_node m)) (ma_queries m) d) [] (rs_matches r),
      dg_available = rs_available r, dg_reranked = rs_reranked r, dg_stage = rs_stage r,
      dg_timed_out = rs_timed_out r, dg_reason = rs_reason r\<rparr>"

definition empty_search_diagnostics :: "string \<Rightarrow> string list \<Rightarrow> diagnostics" where
  "empty_search_diagnostics query queries =
     \<lparr>dg_queries = dedup (query # queries), dg_matches = [], dg_available = False, dg_reranked = False,
      dg_stage = Some ''semantic'', dg_timed_out = False, dg_reason = Some ''repository is not indexed''\<rparr>"

definition empty_search :: "string \<Rightarrow> string list \<Rightarrow> search_reply" where
  "empty_search query queries =
     \<lparr>sr_query = query, sr_results = [], sr_neighbors = [], sr_total = 0, sr_mode = NoneMode,
      sr_diagnostics = empty_search_diagnostics query queries\<rparr>"

text \<open>The neighbours of the results in order, each new node once.\<close>

fun add_neighbors :: "string list \<Rightarrow> node list \<Rightarrow> node list \<Rightarrow> string list \<times> node list" where
  "add_neighbors seen acc [] = (seen, acc)"
| "add_neighbors seen acc (n # ns) =
     (if nd_id n \<in> set seen then add_neighbors seen acc ns
      else add_neighbors (nd_id n # seen) (acc @ [n]) ns)"

fun neighbors_of :: "code_graph \<Rightarrow> string list \<Rightarrow> node list \<Rightarrow> string list \<Rightarrow> exc + node list" where
  "neighbors_of g seen acc [] = Inr acc"
| "neighbors_of g seen acc (i # is) =
     and_then (cg_neighbors g i 20) (\<lambda>adjacent.
       case add_neighbors seen acc adjacent of (seen, acc) \<Rightarrow> neighbors_of g seen acc is)"

definition search_items :: "string \<Rightarrow> response \<Rightarrow> search_item list" where
  "search_items detail r =
     (if detail = ''compact'' then map (CompactItem \<circ> compact_match_dict) (rs_matches r)
      else map (\<lambda>m. FullItem (ma_node m) (ma_distance m)) (rs_matches r))"

definition route_search :: "routes \<Rightarrow> dict \<Rightarrow> exc + search_reply" where
  "route_search env params =
     and_then (required_string params ''query'') (\<lambda>query.
     and_then (integer_param params ''limit'' 10 1) (\<lambda>wanted.
     and_then (string_param params ''result_detail'' False) (\<lambda>detail.
       let limit = min 200 wanted; detail = (case detail of Some d \<Rightarrow> d | None \<Rightarrow> ''full'') in
       if detail \<notin> {''full'', ''compact''} then Inl (ValueError ''result_detail must be full or compact'')
       else
         and_then (node_type_param (dict_get params ''node_type'' JNull)) (\<lambda>nt.
         and_then (search_queries params query) (\<lambda>queries.
         and_then (search_mode_param params) (\<lambda>smode.
           let repo = dict_get params ''repo_path'' JNull in
           and_then (repo_id_of env repo) (\<lambda>repo_id.
             if repo \<noteq> JNull \<and> repo_id = None then Inr (empty_search query queries)
             else
               and_then (read_graph env repo) (\<lambda>graph.
                 case graph of
                   None \<Rightarrow> Inr (empty_search query queries)
                 | Some g \<Rightarrow>
                     and_then (cg_search g nt repo_id) (\<lambda>engine.
                     and_then (search engine query limit queries smode) (\<lambda>r.
                       let items = search_items detail r in
                       and_then
                         (if truthy (dict_get params ''include_neighbors'' JNull)
                          then neighbors_of g (map item_id items) [] (map item_id items) else Inr []) (\<lambda>ns.
                         Inr \<lparr>sr_query = query, sr_results = items, sr_neighbors = ns, sr_total = length items,
                              sr_mode = rs_mode r, sr_diagnostics = search_diagnostics r\<rparr>)))))))))))"

section \<open>Lists of symbols\<close>

record nodes_reply =
  nr_nodes :: "node list"
  nr_total :: int
  nr_limit :: int
  nr_offset :: int

definition nodes_list :: "routes \<Rightarrow> dict \<Rightarrow> exc + nodes_reply" where
  "nodes_list env params =
     and_then (node_type_param (dict_get params ''node_type'' (JStr ''function''))) (\<lambda>nt.
       case nt of
         None \<Rightarrow> Inl (ValueError ''node_type must identify a code symbol'')
       | Some t \<Rightarrow>
           if t \<notin> set symbol_node_types then Inl (ValueError ''node_type must identify a code symbol'')
           else
             and_then (integer_param params ''limit'' 50 1) (\<lambda>wanted.
             and_then (integer_param params ''offset'' 0 0) (\<lambda>offset.
               let limit = min 200 wanted; repo = dict_get params ''repo_path'' JNull;
                   empty = \<lparr>nr_nodes = [], nr_total = 0, nr_limit = limit, nr_offset = offset\<rparr> in
               and_then (read_graph env repo) (\<lambda>graph.
                 case graph of
                   None \<Rightarrow> Inr empty
                 | Some g \<Rightarrow>
                     and_then (repo_id_of env repo) (\<lambda>repo_id.
                       if repo \<noteq> JNull \<and> repo_id = None then Inr empty
                       else
                         and_then (cg_list g t limit offset repo_id) (\<lambda>nodes.
                         and_then (cg_count g t repo_id) (\<lambda>total.
                           Inr (empty\<lparr>nr_nodes := nodes, nr_total := total\<rparr>))))))))"

section \<open>Related symbols\<close>

record related_reply =
  rr_symbol :: "string option"
  rr_node_id :: "string option"
  rr_matches :: "node list"
  rr_related :: "dict list"

text \<open>\<open>{node.id: node ...}.values()\<close> keeps the first place and the last value of an id.\<close>

definition by_id :: "node list \<Rightarrow> node list" where
  "by_id ns = map snd (foldl (\<lambda>d n. AList.update (nd_id n) n d) [] ns)"

definition name_matches :: "string \<Rightarrow> node list \<Rightarrow> node list" where
  "name_matches symbol found =
     (let matches = sort_key (\<lambda>n. (casefold (nd_name n) \<noteq> casefold symbol, nd_name n, nd_id n)) (by_id found);
          exact = filter (\<lambda>n. casefold (nd_name n) = casefold symbol) matches in
      take 20 (if exact \<noteq> [] then exact else matches))"

definition related_seeds ::
  "code_graph \<Rightarrow> json \<Rightarrow> int option \<Rightarrow> string option \<Rightarrow> string option \<Rightarrow> exc + node list" where
  "related_seeds g repo repo_id symbol node_id =
     (if repo \<noteq> JNull \<and> repo_id = None then Inr []
      else
        (case node_id of
           Some i \<Rightarrow>
             and_then (cg_node g i) (\<lambda>n.
               Inr (case n of
                      None \<Rightarrow> []
                    | Some n \<Rightarrow> if repo = JNull \<or> nd_repo n = repo_id then [n] else []))
         | None \<Rightarrow>
             and_then (gather (\<lambda>t. cg_by_name g (the symbol) t 20 repo_id) symbol_node_types) (\<lambda>found.
               Inr (name_matches (the symbol) (concat found)))))"

definition tagged :: "string \<Rightarrow> string \<Rightarrow> dict \<Rightarrow> dict" where
  "tagged direction seed item = dict_set (dict_set item ''direction'' (JStr direction)) ''seed_id'' (JStr seed)"

definition traverse_seeds ::
  "code_graph \<Rightarrow> int \<Rightarrow> string option \<Rightarrow> string list \<Rightarrow> node list \<Rightarrow> exc + dict list" where
  "traverse_seeds g depth relationship directions seeds =
     and_then
       (gather (\<lambda>(n, d). and_then (cg_traverse g (nd_id n) depth relationship d) (\<lambda>items.
            Inr (map (tagged d (nd_id n)) items)))
          (List.product seeds directions)) (\<lambda>items. Inr (concat items))"

definition related_route :: "routes \<Rightarrow> dict \<Rightarrow> exc + related_reply" where
  "related_route env params =
     and_then (string_param params ''symbol_name'' False) (\<lambda>symbol.
     and_then (string_param params ''node_id'' False) (\<lambda>node_id.
       let repo = dict_get params ''repo_path'' JNull;
           empty = \<lparr>rr_symbol = symbol, rr_node_id = node_id, rr_matches = [], rr_related = []\<rparr> in
       if (symbol = None) = (node_id = None)
       then Inl (ValueError ''exactly one of symbol_name or node_id is required'')
       else
         and_then (read_graph env repo) (\<lambda>graph.
           case graph of
             None \<Rightarrow> Inr empty
           | Some g \<Rightarrow>
               and_then (repo_id_of env repo) (\<lambda>repo_id.
               and_then (traversal_direction params ''outgoing'') (\<lambda>direction.
               and_then (related_seeds g repo repo_id symbol node_id) (\<lambda>seeds.
                 if seeds = [] then Inr empty
                 else
                   and_then (integer_param params ''depth'' 2 1) (\<lambda>depth.
                   and_then (string_param params ''relationship'' False) (\<lambda>relationship.
                   and_then (traverse_seeds g (min 3 depth) relationship (active_directions direction) seeds)
                     (\<lambda>items. Inr (empty\<lparr>rr_matches := seeds, rr_related := items\<rparr>))))))))))"

section \<open>Graph context\<close>

record context_reply =
  cr_query :: string
  cr_direction :: string
  cr_seeds :: "search_item list"
  cr_context :: "dict list"
  cr_search :: diagnostics

definition context_key :: "dict \<Rightarrow> string" where
  "context_key item =
     (case dict_get item ''node'' (JObj item) of
        JObj node \<Rightarrow> py_str (dict_get node ''id'' (JStr ''''))
      | _ \<Rightarrow> py_repr (JObj item))"

fun add_context :: "string \<Rightarrow> string list \<times> dict list \<Rightarrow> dict list \<Rightarrow> string list \<times> dict list" where
  "add_context direction (seen, acc) [] = (seen, acc)"
| "add_context direction (seen, acc) (item # items) =
     (if context_key item \<in> set seen then add_context direction (seen, acc) items
      else add_context direction
             (context_key item # seen, acc @ [dict_set item ''direction'' (JStr direction)]) items)"

fun context_from ::
  "code_graph \<Rightarrow> dict \<Rightarrow> string list \<times> dict list \<Rightarrow> (string \<times> string) list \<Rightarrow> exc + dict list" where
  "context_from g params (seen, acc) [] = Inr acc"
| "context_from g params (seen, acc) ((seed, direction) # rest) =
     and_then (integer_param params ''hop_limit'' 2 1) (\<lambda>hops.
     and_then (cg_traverse g seed (min 3 hops) None direction) (\<lambda>items.
       context_from g params (add_context direction (seen, acc) items) rest))"

definition graph_context :: "routes \<Rightarrow> dict \<Rightarrow> exc + context_reply" where
  "graph_context env params =
     (let search_params =
        dict_set (dict_set params ''limit'' (dict_get params ''vector_limit'' (JInt 5)))
          ''include_neighbors'' (JBool False) in
      and_then (route_search env search_params) (\<lambda>seeds.
      and_then (traversal_direction params ''both'') (\<lambda>direction.
      and_then (read_graph env (dict_get params ''repo_path'' JNull)) (\<lambda>graph.
        let reply = \<lparr>cr_query = sr_query seeds, cr_direction = direction, cr_seeds = [], cr_context = [],
                     cr_search = sr_diagnostics seeds\<rparr> in
        case graph of
          None \<Rightarrow> Inr reply
        | Some g \<Rightarrow>
            and_then (context_from g params ([], [])
                (List.product (map item_id (sr_results seeds)) (active_directions direction))) (\<lambda>context.
              Inr (reply\<lparr>cr_seeds := sr_results seeds, cr_context := context\<rparr>))))))"

end
