(* ===== verification/Route_Inspect.thy ===== *)
theory Route_Inspect
  imports Route_Reads "HOL-Library.Sublist" "HOL-Library.Multiset"
begin

text \<open>
  The routes that inspect a file: its nodes and edges within limits, the dependents and
  tests a change may break, and the references of the symbol at a position
  (\<open>inspect_file\<close>, \<open>composite_regression_risk\<close> and \<open>lsp_references\<close> of
  \<open>src/src/scs/services/routes.py\<close>).
\<close>

section \<open>Inspecting a file\<close>

definition unknown_line :: int where
  "unknown_line = 2 ^ 63 - 1"

definition inspection_rank :: "node \<Rightarrow> nat \<times> int \<times> nat list \<times> string" where
  "inspection_rank n =
     ((if nd_type n \<in> set symbol_node_types then 0
       else if nd_type n = FileNode \<or> nd_type n = ModuleNode then 1 else 2),
      (case dict_get (nd_metadata n) ''start_line'' JNull of
         JInt i \<Rightarrow> if 0 \<le> i then i else unknown_line
       | JBool b \<Rightarrow> of_bool b
       | _ \<Rightarrow> unknown_line),
      casefold (nd_name n), nd_id n)"

definition inspect_read_batch :: nat where
  "inspect_read_batch = 128"

text \<open>\<open>heapq.nsmallest(n, xs, key)\<close> is \<open>sorted(xs, key=key)[:n]\<close>.\<close>

definition inspection_nodes :: "code_graph \<Rightarrow> string list \<Rightarrow> nat \<Rightarrow> exc + node list" where
  "inspection_nodes g ids limit =
     and_then (gather (cg_nodes g) (slices inspect_read_batch ids)) (\<lambda>found.
       Inr (take limit (sort_key inspection_rank (concat found))))"

definition edge_key :: "edge \<Rightarrow> string \<times> string \<times> string \<times> string" where
  "edge_key e = (ed_source e, ed_target e, relationship_value (ed_relationship e), ed_id e)"

definition ordered_edges :: "(string \<times> edge list) list \<Rightarrow> (string \<times> edge) list" where
  "ordered_edges all =
     concat (map (\<lambda>i. map (Pair i) (sort_key edge_key (case map_of all i of Some es \<Rightarrow> es | None \<Rightarrow> [])))
       (sorted_set (map fst all)))"

definition add_to :: "'k \<Rightarrow> 'v \<Rightarrow> ('k \<times> 'v list) list \<Rightarrow> ('k \<times> 'v list) list" where
  "add_to k v d = AList.update k ((case map_of d k of Some vs \<Rightarrow> vs | None \<Rightarrow> []) @ [v]) d"

definition grouped :: "('k \<times> 'v) list \<Rightarrow> ('k \<times> 'v list) list" where
  "grouped kvs = foldl (\<lambda>d (k, v). add_to k v d) [] kvs"

record inspection =
  is_repo :: string
  is_file :: string
  is_nodes :: "node list"
  is_edges :: "(string \<times> edge list) list"
  is_nodes_cut :: bool
  is_edges_cut :: bool

definition inspect_file_route :: "routes \<Rightarrow> dict \<Rightarrow> exc + inspection" where
  "inspect_file_route env params =
     and_then (required_string params ''repo_path'') (\<lambda>repo.
     and_then (required_string params ''file_path'') (\<lambda>file.
     and_then (read_graph env (JStr repo)) (\<lambda>graph.
     and_then (canonicalize_repo_path (ro_fs env) (parse_path repo)) (\<lambda>canonical.
       let path = path_str (parse_path file);
           reply = \<lparr>is_repo = canonical, is_file = path, is_nodes = [], is_edges = [],
                    is_nodes_cut = False, is_edges_cut = False\<rparr> in
       case graph of
         None \<Rightarrow> Inr reply
       | Some g \<Rightarrow>
           and_then (cg_file_ids g canonical path) (\<lambda>ids.
           and_then (integer_param params ''node_limit'' 50 1) (\<lambda>nodes_wanted.
           and_then (integer_param params ''edge_limit'' 100 1) (\<lambda>edges_wanted.
           and_then (inspection_nodes g ids (nat (min 200 nodes_wanted))) (\<lambda>nodes.
           and_then (if nodes \<noteq> [] then cg_edges g (map nd_id nodes) ''both'' else Inr []) (\<lambda>all.
             let ordered = ordered_edges all; limited = take (nat (min 500 edges_wanted)) ordered in
             Inr (reply\<lparr>is_nodes := nodes, is_edges := grouped limited,
                        is_nodes_cut := length nodes < length ids,
                        is_edges_cut := length limited < length ordered\<rparr>)))))))))) "

section \<open>Regression risk\<close>

definition test_path_markers :: "string list" where
  "test_path_markers = [''tests/'', ''test/'', ''test_'', ''_test.'', ''.test.'', ''Tests.swift'']"

definition dependency_relationships :: "relationship list" where
  "dependency_relationships = [Calls, Imports, Inherits, Implements, References]"

record dependency =
  dy_dependent :: string
  dy_affected :: string
  dy_relationship :: relationship

record risk =
  rk_files :: "string list"
  rk_affected :: "string list"
  rk_dependents :: "node list"
  rk_tests :: "node list"
  rk_total_dependents :: nat
  rk_dependents_cut :: bool
  rk_targets :: "(string \<times> dependency list) list"
  rk_total_targets :: nat
  rk_targets_cut :: bool
  rk_complete :: bool

definition empty_risk :: "string list \<Rightarrow> risk" where
  "empty_risk files =
     \<lparr>rk_files = files, rk_affected = [], rk_dependents = [], rk_tests = [], rk_total_dependents = 0,
      rk_dependents_cut = False, rk_targets = [], rk_total_targets = 0, rk_targets_cut = False,
      rk_complete = True\<rparr>"

definition affected_by :: "routes \<Rightarrow> code_graph \<Rightarrow> string \<Rightarrow> string \<Rightarrow> exc + string list" where
  "affected_by env g base raw =
     and_then (validated_source_path (ro_fs env) raw (Some base) False) (\<lambda>source.
       case relative_to (parse_path source) (parse_path base) of
         None \<Rightarrow> Inl (ValueError (source @ '' is not in the subpath of '' @ base))
       | Some rel \<Rightarrow> cg_file_ids g base (path_str rel))"

definition dependency_of :: "edge \<Rightarrow> dependency" where
  "dependency_of e = \<lparr>dy_dependent = ed_source e, dy_affected = ed_target e, dy_relationship = ed_relationship e\<rparr>"

definition dependency_key :: "dependency \<Rightarrow> string \<times> string \<times> string" where
  "dependency_key d = (dy_dependent d, dy_affected d, relationship_value (dy_relationship d))"

text \<open>The dependencies on the affected nodes from outside, each once and in order.\<close>

definition crosses :: "string list \<Rightarrow> edge \<Rightarrow> bool" where
  "crosses affected e =
     (ed_target e \<in> set affected \<and> ed_source e \<notin> set affected
      \<and> ed_relationship e \<in> set dependency_relationships)"

definition relevant_dependencies :: "string list \<Rightarrow> (string \<times> edge list) list \<Rightarrow> dependency list" where
  "relevant_dependencies affected edges =
     sort_key dependency_key
       (remdups (map dependency_of (filter (crosses affected) (concat (map snd edges)))))"

definition node_path :: "node \<Rightarrow> json" where
  "node_path n = dict_get (nd_metadata n) ''file_path'' JNull"

definition is_test_node :: "node \<Rightarrow> bool" where
  "is_test_node n =
     list_ex (\<lambda>marker. sublist marker (py_str (dict_get (nd_metadata n) ''file_path'' (JStr '''')))) test_path_markers"

definition test_paths :: "node list \<Rightarrow> string list" where
  "test_paths tests = sorted_set (map (py_str \<circ> node_path) (filter (truthy \<circ> node_path) tests))"

definition target_evidence :: "dependency list \<Rightarrow> node list \<Rightarrow> string \<Rightarrow> dependency list" where
  "target_evidence deps tests path =
     concat (map (\<lambda>n. filter (\<lambda>d. dy_dependent d = nd_id n) deps)
       (filter (\<lambda>n. py_str (node_path n) = path) tests))"

definition composite_regression_risk :: "routes \<Rightarrow> dict \<Rightarrow> exc + risk" where
  "composite_regression_risk env params =
     and_then (string_list params ''file_paths'' False) (\<lambda>files.
     and_then (required_string params ''repo_path'') (\<lambda>repo.
     and_then (canonicalize_repo_path (ro_fs env) (parse_path repo)) (\<lambda>base.
     and_then (integer_param params ''dependent_limit'' 200 1) (\<lambda>dependents_wanted.
     and_then (integer_param params ''test_target_limit'' 50 1) (\<lambda>targets_wanted.
     and_then (read_graph env (JStr repo)) (\<lambda>graph.
       case graph of
         None \<Rightarrow> Inr (empty_risk files)
       | Some g \<Rightarrow>
           and_then (gather (affected_by env g base) files) (\<lambda>found.
           let affected = dedup (concat found) in
           and_then (if affected \<noteq> [] then cg_edges g affected ''incoming'' else Inr []) (\<lambda>edges.
           let deps = relevant_dependencies affected edges;
               ids = sorted_set (map dy_dependent deps);
               selected = take (nat (min 1000 dependents_wanted)) ids in
           and_then (cg_nodes g selected) (\<lambda>dependents.
           let tests = filter is_test_node dependents;
               paths = test_paths tests;
               shown = take (nat (min 1000 targets_wanted)) paths;
               dependents_cut = length selected < length ids; targets_cut = length shown < length paths in
           Inr \<lparr>rk_files = files, rk_affected = affected, rk_dependents = dependents, rk_tests = tests,
                rk_total_dependents = length ids, rk_dependents_cut = dependents_cut,
                rk_targets = map (\<lambda>p. (p, target_evidence deps tests p)) shown,
                rk_total_targets = length paths, rk_targets_cut = targets_cut,
                rk_complete = (\<not> dependents_cut \<and> \<not> targets_cut)\<rparr>)))))))))"

section \<open>References of the symbol at a position\<close>

text \<open>The first root of the list whose graph holds the file, with its repository-relative path.\<close>

fun owning_root ::
  "routes \<Rightarrow> (string \<Rightarrow> exc + code_graph option) \<Rightarrow> string \<Rightarrow> ppath list \<Rightarrow>
   exc + (code_graph \<times> string \<times> string) option" where
  "owning_root env resolver file [] = Inr None"
| "owning_root env resolver file (base # bases) =
     and_then (canonicalize_repo_path (ro_fs env) base) (\<lambda>repo.
     and_then (resolver repo) (\<lambda>graph.
       case graph of
         None \<Rightarrow> owning_root env resolver file bases
       | Some g \<Rightarrow>
           (case validated_source_path (ro_fs env) file (Some repo) True of
              Inl (ValueError _) \<Rightarrow> owning_root env resolver file bases
            | Inl e \<Rightarrow> Inl e
            | Inr source \<Rightarrow>
                (case relative_to (parse_path source) (parse_path repo) of
                   None \<Rightarrow> Inl (ValueError (source @ '' is not in the subpath of '' @ repo))
                 | Some rel \<Rightarrow> Inr (Some (g, repo, path_str rel))))))"

fun ingested_root ::
  "routes \<Rightarrow> code_graph \<Rightarrow> string \<Rightarrow> string list \<Rightarrow> exc + (code_graph \<times> string \<times> string) option" where
  "ingested_root env g file [] = Inr None"
| "ingested_root env g file (repo # repos) =
     (case validated_source_path (ro_fs env) file (Some (path_str (parse_path repo))) True of
        Inl (ValueError _) \<Rightarrow> ingested_root env g file repos
      | Inl e \<Rightarrow> Inl e
      | Inr source \<Rightarrow>
          (case relative_to (parse_path source) (parse_path repo) of
             None \<Rightarrow> Inl (ValueError (source @ '' is not in the subpath of '' @ repo))
           | Some rel \<Rightarrow> Inr (Some (g, repo, path_str rel))))"

definition indexed_location :: "routes \<Rightarrow> string \<Rightarrow> exc + (code_graph \<times> string \<times> string) option" where
  "indexed_location env file =
     and_then (case ro_graph_for env of
                 None \<Rightarrow> Inr None
               | Some resolver \<Rightarrow> owning_root env resolver file (path_parents (parse_path file))) (\<lambda>owned.
       case owned of
         Some x \<Rightarrow> Inr (Some x)
       | None \<Rightarrow>
           and_then (read_graph env JNull) (\<lambda>graph.
             case graph of
               None \<Rightarrow> Inr None
             | Some g \<Rightarrow> and_then (cg_ingestion g) (\<lambda>stats. ingested_root env g file (map fst stats))))"

definition line_of :: "node \<Rightarrow> string \<Rightarrow> int \<Rightarrow> exc + int" where
  "line_of n key dflt = integer_metadata (dict_get (nd_metadata n) key JNull) key dflt"

definition contains_line :: "int \<Rightarrow> node \<Rightarrow> exc + bool" where
  "contains_line line n =
     and_then (line_of n ''start_line'' (- 1)) (\<lambda>first.
       if line < first then Inr False
       else and_then (line_of n ''end_line'' (- 1)) (\<lambda>last. Inr (line \<le> last)))"

fun containing :: "int \<Rightarrow> node list \<Rightarrow> exc + node list" where
  "containing line [] = Inr []"
| "containing line (n # ns) =
     and_then (contains_line line n) (\<lambda>inside.
     and_then (containing line ns) (\<lambda>rest. Inr (if inside then n # rest else rest)))"

definition span :: "int \<Rightarrow> node \<Rightarrow> exc + int" where
  "span line n =
     and_then (line_of n ''end_line'' line) (\<lambda>last.
     and_then (line_of n ''start_line'' line) (\<lambda>first. Inr (last - first)))"

text \<open>\<open>min(..., key=...)\<close> returns the first of the smallest.\<close>

fun first_least :: "('k::linorder \<times> 'a) list \<Rightarrow> 'a option" where
  "first_least [] = None"
| "first_least [(k, x)] = Some x"
| "first_least ((k, x) # (l, y) # rest) = first_least ((if l < k then (l, y) else (k, x)) # rest)"

definition innermost :: "int \<Rightarrow> node list \<Rightarrow> exc + node option" where
  "innermost line ns =
     and_then (containing line ns) (\<lambda>inside.
     and_then (gather (\<lambda>n. and_then (span line n) (\<lambda>s. Inr (s, n))) inside) (\<lambda>spans.
       Inr (first_least spans)))"

definition node_at_position :: "routes \<Rightarrow> dict \<Rightarrow> exc + (code_graph \<times> node) option" where
  "node_at_position env params =
     and_then (required_string params ''file_path'') (\<lambda>file.
     and_then (integer_param params ''line'' 0 0) (\<lambda>line.
     and_then (validated_source_path (ro_fs env) file None True) (\<lambda>source.
     and_then (indexed_location env source) (\<lambda>location.
       case location of
         None \<Rightarrow> Inr None
       | Some (g, repo, rel) \<Rightarrow>
           and_then (cg_file_ids g repo rel) (\<lambda>ids.
           and_then (gather (cg_node g) ids) (\<lambda>found.
           and_then (innermost line (List.map_filter id found)) (\<lambda>node.
             Inr (map_option (Pair g) node))))))))"

datatype lsp_reply = Unavailable string string | Available node "node list"

definition lsp_references :: "routes \<Rightarrow> dict \<Rightarrow> exc + lsp_reply" where
  "lsp_references env params =
     and_then (node_at_position env params) (\<lambda>located.
       case located of
         None \<Rightarrow> Inr (Unavailable (py_str (dict_get params ''file_path'' (JStr '''')))
                        ''no indexed symbol exists at this position'')
       | Some (g, n) \<Rightarrow>
           and_then (cg_node_edges g (nd_id n) ''incoming'') (\<lambda>edges.
           and_then (gather (\<lambda>e. cg_node g (ed_source e)) edges) (\<lambda>found.
             Inr (Available n (List.map_filter id found)))))"

section \<open>What an inspection shows\<close>

definition ungrouped :: "('k \<times> 'v list) list \<Rightarrow> ('k \<times> 'v) list" where
  "ungrouped d = concat (map (\<lambda>(k, vs). map (Pair k) vs) d)"

lemma mset_add_to: "mset (ungrouped (add_to k v d)) = add_mset (k, v) (mset (ungrouped d))"
  by (induction d) (auto simp: ungrouped_def add_to_def)

lemma mset_grouped_onto:
  "mset (ungrouped (foldl (\<lambda>d (k, v). add_to k v d) d kvs)) = mset (ungrouped d) + mset kvs"
  by (induction kvs arbitrary: d) (auto simp: mset_add_to)

lemma mset_grouped: "mset (ungrouped (grouped kvs)) = mset kvs"
  by (simp add: grouped_def mset_grouped_onto) (simp add: ungrouped_def)

lemma grouped_facts: "set (ungrouped (grouped kvs)) = set kvs" "length (ungrouped (grouped kvs)) = length kvs"
  using mset_grouped [of kvs] by (metis set_mset_mset, metis size_mset)

definition edges_of :: "(string \<times> edge list) list \<Rightarrow> (string \<times> edge) set" where
  "edges_of all = {(i, e). \<exists>es. map_of all i = Some es \<and> e \<in> set es}"

lemma set_ordered_edges: "set (ordered_edges all) = edges_of all"
proof -
  have "i \<in> set (map fst all)" if "map_of all i = Some es" for i es
    using map_of_SomeD [OF that] by force
  moreover have "set (ordered_edges all) = {(i, e). i \<in> set (map fst all) \<and> (\<exists>es. map_of all i = Some es \<and> e \<in> set es)}"
    unfolding ordered_edges_def set_concat set_map set_sorted_set image_image
    by (force split: option.splits)
  ultimately show ?thesis unfolding edges_of_def by blast
qed

text \<open>The front of a sorted list leaves nothing smaller behind.\<close>

lemma take_sorted:
  "mset (take n (sort_key f xs)) + mset (drop n (sort_key f xs)) = mset xs"
  "sorted (map f (take n (sort_key f xs)))"
  "x \<in> set (take n (sort_key f xs)) \<Longrightarrow> y \<in> set (drop n (sort_key f xs)) \<Longrightarrow> f x \<le> f y"
proof -
  let ?s = "sort_key f xs"
  show "mset (take n ?s) + mset (drop n ?s) = mset xs"
    by (metis append_take_drop_id mset_append mset_sort)
  have "sorted (map f (take n ?s) @ map f (drop n ?s))" by (simp flip: map_append)
  then show "sorted (map f (take n ?s))"
    "x \<in> set (take n ?s) \<Longrightarrow> y \<in> set (drop n ?s) \<Longrightarrow> f x \<le> f y"
    by (auto simp: sorted_append)
qed

lemma required_string_param: "required_string params key = Inr s \<Longrightarrow> dict_get params key JNull = JStr s"
  by (auto simp: required_string_def string_param_def and_then_Inr_iff Let_def split: json.splits if_splits)

text \<open>Aux: The inspection of a file is bounded and honest.  It shows at most 200 nodes of the file,
  in rank order, and nothing it hides ranks before anything it shows; it shows at most 500
  edges, all of them edges of shown nodes.  When it does not report a cut of the nodes and
  the store has no more nodes than identities of the file, no node is hidden, and when it
  does not report a cut of the edges, every edge of the shown nodes is there.\<close>

theorem inspection_is_honest:
  assumes run: "inspect_file_route env params = Inr reply"
    and graph: "read_graph env (dict_get params ''repo_path'' JNull) = Inr (Some g)"
  shows "\<exists>ids found all hidden.
      cg_file_ids g (is_repo reply) (is_file reply) = Inr ids
    \<and> gather (cg_nodes g) (slices inspect_read_batch ids) = Inr found
    \<and> (if is_nodes reply = [] then all = [] else cg_edges g (map nd_id (is_nodes reply)) ''both'' = Inr all)
    \<and> length (is_nodes reply) \<le> 200 \<and> length (ungrouped (is_edges reply)) \<le> 500
    \<and> sorted (map inspection_rank (is_nodes reply))
    \<and> mset (is_nodes reply) + mset hidden = mset (concat found)
    \<and> (\<forall>n\<in>set (is_nodes reply). \<forall>m\<in>set hidden. inspection_rank n \<le> inspection_rank m)
    \<and> (\<not> is_nodes_cut reply \<and> length (concat found) \<le> length ids \<longrightarrow> hidden = [])
    \<and> set (ungrouped (is_edges reply)) \<subseteq> edges_of all
    \<and> (\<not> is_edges_cut reply \<longrightarrow> set (ungrouped (is_edges reply)) = edges_of all)"
proof -
  obtain repo path where strings: "required_string params ''repo_path'' = Inr repo" "required_string params ''file_path'' = Inr path"
    using run by (auto simp: inspect_file_route_def and_then_Inr_iff)
  have graph': "read_graph env (JStr repo) = Inr (Some g)" using graph required_string_param [OF strings(1)] by simp
  obtain canonical ids nw ew nodes all where steps:
    "cg_file_ids g canonical (path_str (parse_path path)) = Inr ids"
    "inspection_nodes g ids (nat (min 200 nw)) = Inr nodes"
    "(if nodes \<noteq> [] then cg_edges g (map nd_id nodes) ''both'' else Inr []) = Inr all"
    and reply: "reply = \<lparr>is_repo = canonical, is_file = path_str (parse_path path), is_nodes = nodes,
       is_edges = grouped (take (nat (min 500 ew)) (ordered_edges all)), is_nodes_cut = length nodes < length ids,
       is_edges_cut = length (take (nat (min 500 ew)) (ordered_edges all)) < length (ordered_edges all)\<rparr>"
    using run strings graph' by (auto simp: inspect_file_route_def and_then_Inr_iff Let_def)
  define nl el where "nl = nat (min 200 nw)" and "el = nat (min 500 ew)"
  note reply = reply [folded el_def]
  obtain found where found: "gather (cg_nodes g) (slices inspect_read_batch ids) = Inr found"
    "nodes = take nl (sort_key inspection_rank (concat found))"
    using steps(2) by (auto simp: inspection_nodes_def and_then_Inr_iff nl_def)
  have limits: "nl \<le> 200" "el \<le> 500" by (simp_all add: nl_def el_def)
  let ?hidden = "drop nl (sort_key inspection_rank (concat found))"
  note front = take_sorted [where n = nl and f = inspection_rank and xs = "concat found"]
  have none: "?hidden = []" if "\<not> is_nodes_cut reply" "length (concat found) \<le> length ids"
    using that by (simp add: reply found(2) min_def split: if_splits)
  have edges: "set (take el (ordered_edges all)) \<subseteq> edges_of all"
    using set_take_subset [of el "ordered_edges all"] by (simp add: set_ordered_edges)
  have whole: "set (take el (ordered_edges all)) = edges_of all" if "\<not> is_edges_cut reply"
    using that by (simp add: reply set_ordered_edges [symmetric] min_def split: if_splits)
  show ?thesis
    by (intro exI [of _ ids] exI [of _ found] exI [of _ all] exI [of _ ?hidden] conjI)
      (use steps(1,3) found limits front none edges whole in
        \<open>auto simp: reply grouped_facts split: if_splits\<close>)
qed

section \<open>What a risk report says\<close>

lemma set_relevant:
  "set (relevant_dependencies affected edges) =
     dependency_of ` {e. e \<in> (\<Union>(_, es)\<in>set edges. set es) \<and> crosses affected e}"
  by (force simp: relevant_dependencies_def)

lemma dependents_relevant:
  "set (map dy_dependent (relevant_dependencies affected edges)) =
     ed_source ` {e. e \<in> (\<Union>(_, es)\<in>set edges. set es) \<and> crosses affected e}"
  by (simp add: set_relevant image_image) (simp add: dependency_of_def)

lemma target_evidence_sound:
  "d \<in> set (target_evidence deps tests path) \<Longrightarrow> d \<in> set deps \<and> (\<exists>n\<in>set tests. nd_id n = dy_dependent d)"
  by (force simp: target_evidence_def)

lemma take_short: "\<not> length (take n xs) < length xs \<Longrightarrow> take n xs = xs"
  by (simp add: min_def split: if_splits)

text \<open>C27: A risk report is bounded and honest.  Its total counts exactly the outside nodes that
  depend on the affected ones by an edge of the store; every piece of evidence is such an
  edge into an affected node, from a reported test; and when it calls itself complete, it
  looked up all of those nodes and lists the file of every test among them.\<close>

theorem risk_report_is_honest:
  assumes run: "composite_regression_risk env params = Inr report"
    and graph: "read_graph env (dict_get params ''repo_path'' JNull) = Inr (Some g)"
  shows "\<exists>edges ids.
      (if rk_affected report = [] then edges = [] else cg_edges g (rk_affected report) ''incoming'' = Inr edges)
    \<and> set ids = ed_source ` {e. e \<in> (\<Union>(_, es)\<in>set edges. set es) \<and> crosses (rk_affected report) e}
    \<and> distinct ids \<and> rk_total_dependents report = length ids
    \<and> (\<exists>asked. cg_nodes g asked = Inr (rk_dependents report) \<and> set asked \<subseteq> set ids \<and> length asked \<le> 1000
         \<and> (rk_complete report \<longrightarrow> asked = ids))
    \<and> length (rk_targets report) \<le> 1000
    \<and> (rk_complete report \<longrightarrow> map fst (rk_targets report) = test_paths (filter is_test_node (rk_dependents report)))
    \<and> (\<forall>(path, evidence)\<in>set (rk_targets report). \<forall>d\<in>set evidence.
         (\<exists>n\<in>set (rk_tests report). nd_id n = dy_dependent d)
         \<and> (\<exists>e\<in>(\<Union>(_, es)\<in>set edges. set es). crosses (rk_affected report) e \<and> d = dependency_of e))"
proof -
  obtain files repo base nd nt where parsed: "string_list params ''file_paths'' False = Inr files"
    "required_string params ''repo_path'' = Inr repo" "canonicalize_repo_path (ro_fs env) (parse_path repo) = Inr base"
    "integer_param params ''dependent_limit'' 200 1 = Inr nd" "integer_param params ''test_target_limit'' 50 1 = Inr nt"
    using run unfolding composite_regression_risk_def and_then_Inr_iff by blast
  have graph': "read_graph env (JStr repo) = Inr (Some g)" using graph required_string_param [OF parsed(2)] by simp
  define dl tl where "dl = nat (min 1000 nd)" and "tl = nat (min 1000 nt)"
  have limits: "dl \<le> 1000" "tl \<le> 1000" by (simp_all add: dl_def tl_def)
  obtain found edges dependents where steps: "gather (affected_by env g base) files = Inr found"
    "(if dedup (concat found) \<noteq> [] then cg_edges g (dedup (concat found)) ''incoming'' else Inr []) = Inr edges"
    "cg_nodes g (take dl (sorted_set (map dy_dependent (relevant_dependencies (dedup (concat found)) edges)))) = Inr dependents"
    and report: "report =
      (let affected = dedup (concat found); deps = relevant_dependencies affected edges;
           ids = sorted_set (map dy_dependent deps); selected = take dl ids; tests = filter is_test_node dependents;
           paths = test_paths tests; shown = take tl paths in
       \<lparr>rk_files = files, rk_affected = affected, rk_dependents = dependents, rk_tests = tests,
        rk_total_dependents = length ids, rk_dependents_cut = length selected < length ids,
        rk_targets = map (\<lambda>p. (p, target_evidence deps tests p)) shown, rk_total_targets = length paths,
        rk_targets_cut = length shown < length paths,
        rk_complete = (\<not> length selected < length ids \<and> \<not> length shown < length paths)\<rparr>)"
    using run by (clarsimp simp: composite_regression_risk_def parsed graph' and_then_Inr_iff Let_def dl_def tl_def)
  define affected where "affected = dedup (concat found)"
  define deps where "deps = relevant_dependencies affected edges"
  define ids where "ids = sorted_set (map dy_dependent deps)"
  note report = report [unfolded Let_def, folded affected_def, folded deps_def, folded ids_def]
  have fields: "rk_affected report = affected" "rk_dependents report = dependents" "rk_total_dependents report = length ids"
    "rk_tests report = filter is_test_node dependents"
    by (simp_all add: report)
  have all: "set ids = ed_source ` {e. e \<in> (\<Union>(_, es)\<in>set edges. set es) \<and> crosses affected e}"
    using dependents_relevant [of affected edges] by (simp only: ids_def deps_def set_sorted_set)
  have asked: "cg_nodes g (take dl ids) = Inr dependents"
    using steps(3) by (simp only: ids_def deps_def affected_def)
  have complete: "rk_complete report \<longrightarrow> take dl ids = ids"
    "rk_complete report \<longrightarrow> map fst (rk_targets report) = test_paths (filter is_test_node dependents)"
    by (auto simp: report comp_def min_def split: if_splits)
  have sound: "(\<exists>n\<in>set (rk_tests report). nd_id n = dy_dependent d)
      \<and> (\<exists>e\<in>(\<Union>(_, es)\<in>set edges. set es). crosses affected e \<and> d = dependency_of e)"
    if "(path, evidence) \<in> set (rk_targets report)" "d \<in> set evidence" for path evidence d
  proof -
    have "d \<in> set (target_evidence deps (rk_tests report) path)" using that by (auto simp: report)
    then show ?thesis using target_evidence_sound [of d deps "rk_tests report" path] set_relevant [of affected edges]
      unfolding deps_def by blast
  qed
  have "if affected = [] then edges = [] else cg_edges g affected ''incoming'' = Inr edges"
    using steps(2) by (simp add: affected_def [symmetric] split: if_splits)
  moreover have "distinct ids" "length (rk_targets report) \<le> 1000"
    using limits by (simp_all add: ids_def report)
  moreover have "\<forall>(path, evidence)\<in>set (rk_targets report). \<forall>d\<in>set evidence.
      (\<exists>n\<in>set (rk_tests report). nd_id n = dy_dependent d)
      \<and> (\<exists>e\<in>(\<Union>(_, es)\<in>set edges. set es). crosses affected e \<and> d = dependency_of e)"
    by (rule ballI, rule case_prodI2, rule ballI, rule sound) simp_all
  moreover have "\<exists>asked. cg_nodes g asked = Inr dependents \<and> set asked \<subseteq> set ids \<and> length asked \<le> 1000
      \<and> (rk_complete report \<longrightarrow> asked = ids)"
    using asked complete(1) limits(1) set_take_subset [of dl ids] by (intro exI [of _ "take dl ids"]) auto
  ultimately show ?thesis
    unfolding fields(1-3) using all complete(2)
    by - (rule exI [of _ edges], rule exI [of _ ids], intro conjI; (assumption | rule refl))
qed

section \<open>Which symbol a position names\<close>

lemma containing_iff:
  "containing line ns = Inr inside \<Longrightarrow> n \<in> set inside \<longleftrightarrow> n \<in> set ns \<and> contains_line line n = Inr True"
  by (induction ns arbitrary: inside) (auto simp: and_then_Inr_iff split: if_splits)

lemma first_least_correct:
  "xs \<noteq> [] \<Longrightarrow> \<exists>k x. first_least xs = Some x \<and> (k, x) \<in> set xs \<and> (\<forall>(l, y)\<in>set xs. k \<le> l)"
proof (induction xs rule: first_least.induct)
  case (3 k x l y rest)
  let ?p = "if l < k then (l, y) else (k, x)"
  obtain m z where m: "first_least (?p # rest) = Some z" "(m, z) \<in> set (?p # rest)" "\<forall>(j, w)\<in>set (?p # rest). m \<le> j"
    using 3 by blast
  have "m \<le> fst ?p" using m(3) by auto
  then have "m \<le> k" "m \<le> l" by (auto split: if_splits)
  then show ?case using m by (intro exI [of _ m] exI [of _ z]) (auto split: if_splits)
qed auto

lemma gather_set: "gather f xs = Inr ys \<Longrightarrow> set ys = {y. \<exists>x\<in>set xs. f x = Inr y}"
  by (induction xs arbitrary: ys) (auto simp: and_then_Inr_iff)

lemma gather_all: "gather f xs = Inr ys \<Longrightarrow> x \<in> set xs \<Longrightarrow> \<exists>y\<in>set ys. f x = Inr y"
  by (induction xs arbitrary: ys) (auto simp: and_then_Inr_iff)

text \<open>Aux: The symbol at a line is the innermost one: it contains the line and no symbol that
  contains the line spans fewer lines; there is none exactly when no symbol contains it.\<close>

theorem position_names_innermost:
  assumes "innermost line ns = Inr found"
  shows "case found of
      None \<Rightarrow> \<forall>n\<in>set ns. contains_line line n \<noteq> Inr True
    | Some n \<Rightarrow> n \<in> set ns \<and> contains_line line n = Inr True
        \<and> (\<exists>k. span line n = Inr k \<and> (\<forall>m\<in>set ns. contains_line line m = Inr True \<longrightarrow> (\<exists>l. span line m = Inr l \<and> k \<le> l)))"
proof -
  let ?f = "\<lambda>n. and_then (span line n) (\<lambda>s. Inr (s, n))"
  obtain inside spans where run: "containing line ns = Inr inside" "gather ?f inside = Inr spans" "found = first_least spans"
    using assms by (auto simp: innermost_def and_then_Inr_iff)
  note mem = containing_iff [OF run(1)]
  show ?thesis
  proof (cases "inside = []")
    case True
    then show ?thesis using run mem by (auto simp: True)
  next
    case False
    then have "spans \<noteq> []" using run(2) by (cases inside) (auto simp: and_then_Inr_iff)
    then obtain k n where n: "found = Some n" "(k, n) \<in> set spans" "\<forall>(l, y)\<in>set spans. k \<le> l"
      using first_least_correct run(3) by metis
    have "span line n = Inr k" "n \<in> set inside"
      using n(2) gather_set [OF run(2)] by (auto simp: and_then_Inr_iff)
    moreover have "\<exists>l. span line m = Inr l \<and> k \<le> l" if "m \<in> set inside" for m
      using gather_all [OF run(2) that] n(3) by (auto simp: and_then_Inr_iff)
    ultimately show ?thesis using n(1) mem by auto
  qed
qed

section \<open>A small graph\<close>

definition demo_symbol :: "string \<Rightarrow> string \<Rightarrow> int \<Rightarrow> int \<Rightarrow> node" where
  "demo_symbol i path a b =
     (demo_node i)\<lparr>nd_metadata := [(''file_path'', JStr path), (''start_line'', JInt a), (''end_line'', JInt b)]\<rparr>"

definition demo_edge :: edge where
  "demo_edge = \<lparr>ed_id = ''e'', ed_source = ''t'', ed_target = ''f'', ed_relationship = Calls, ed_weight = 1, ed_metadata = []\<rparr>"

definition demo_symbols :: "node list" where
  "demo_symbols = [demo_symbol ''c'' ''a.py'' 1 9, demo_symbol ''f'' ''a.py'' 2 4, demo_symbol ''t'' ''tests/t.py'' 1 2]"

definition demo_graph :: code_graph where
  "demo_graph = \<lparr>cg_repo_id = \<lambda>_. Inr (Some 1), cg_list = \<lambda>_ _ _ _. Inr [], cg_count = \<lambda>_ _. Inr 0,
     cg_file_ids = \<lambda>_ path. Inr (map nd_id (filter (\<lambda>n. node_path n = JStr path) demo_symbols)),
     cg_node = \<lambda>i. Inr (find (\<lambda>n. nd_id n = i) demo_symbols),
     cg_nodes = \<lambda>is. Inr (filter (\<lambda>n. nd_id n \<in> set is) demo_symbols),
     cg_node_edges = \<lambda>i _. Inr (if i = ''f'' then [demo_edge] else []),
     cg_edges = \<lambda>is _. Inr (map (\<lambda>i. (i, if i = ''f'' then [demo_edge] else [])) is),
     cg_by_name = \<lambda>_ _ _ _. Inr [], cg_neighbors = \<lambda>_ _. Inr [], cg_traverse = \<lambda>_ _ _ _. Inr [],
     cg_search = \<lambda>_ _. Inr demo_search_env, cg_counts = \<lambda>_. Inr [], cg_unembedded = \<lambda>_. Inr 0,
     cg_embeddings = Inr 0, cg_ingestion = Inr [], cg_vectors = (False, None), cg_bytes = Inr 0\<rparr>"

definition demo_reads :: routes where
  "demo_reads = \<lparr>ro_fs = plain_fs, ro_graph = Inl (RuntimeError ''no graph''),
     ro_graph_for = Some (\<lambda>_. Inr (Some demo_graph)), ro_binding_for = None, ro_provider = Inr (False, None)\<rparr>"

definition demo_request :: dict where
  "demo_request = [(''repo_path'', JStr ''/a''), (''file_path'', JStr ''a.py''), (''file_paths'', JList [JStr ''a.py''])]"

lemma demo_graph_read: "read_graph demo_reads (dict_get demo_request ''repo_path'' JNull) = Inr (Some demo_graph)"
proof -
  have "canonicalize_repo_path plain_fs (parse_path ''/a'') = Inr ''/a''" by code_simp
  then show ?thesis by (simp add: read_graph_def demo_reads_def demo_request_def dict_get_def)
qed

theorem inspection_is_honest_witness:
  "\<exists>reply ids found. inspect_file_route demo_reads demo_request = Inr reply
     \<and> cg_file_ids demo_graph (is_repo reply) (is_file reply) = Inr ids
     \<and> gather (cg_nodes demo_graph) (slices inspect_read_batch ids) = Inr found
     \<and> sorted (map inspection_rank (is_nodes reply)) \<and> length (is_nodes reply) \<le> 200"
proof -
  have "\<not> is_raise (inspect_file_route demo_reads demo_request)" by code_simp
  then obtain reply where "inspect_file_route demo_reads demo_request = Inr reply"
    by (cases "inspect_file_route demo_reads demo_request") auto
  with inspection_is_honest [OF this demo_graph_read] show ?thesis
    by (elim exE conjE) (intro exI conjI; assumption)
qed

theorem risk_report_is_honest_witness:
  "\<exists>report. composite_regression_risk demo_reads demo_request = Inr report
     \<and> rk_complete report \<and> map fst (rk_targets report) = [''tests/t.py'']
     \<and> map fst (rk_targets report) = test_paths (filter is_test_node (rk_dependents report))"
proof -
  have "map_sum id (\<lambda>r. (rk_complete r, map fst (rk_targets r))) (composite_regression_risk demo_reads demo_request)
      = Inr (True, [''tests/t.py''])" by code_simp
  then obtain report where "composite_regression_risk demo_reads demo_request = Inr report"
    "rk_complete report" "map fst (rk_targets report) = [''tests/t.py'']"
    by (cases "composite_regression_risk demo_reads demo_request") auto
  with risk_report_is_honest [OF this(1) demo_graph_read] show ?thesis by (elim exE conjE) auto
qed

theorem position_names_innermost_witness:
  "contains_line 3 (demo_symbol ''f'' ''a.py'' 2 4) = Inr True
   \<and> innermost 3 demo_symbols = Inr (Some (demo_symbol ''f'' ''a.py'' 2 4))"
proof -
  have "innermost 3 demo_symbols = Inr (Some (demo_symbol ''f'' ''a.py'' 2 4))" by code_simp
  from position_names_innermost [OF this] this show ?thesis by simp
qed

end
