(* ===== verification/Route_Jobs.thy ===== *)
theory Route_Jobs
  imports Job_Service Route_Reads
begin

text \<open>
  The routes that touch the durable queue: enqueueing changed files, and the statistics of a
  project with their bounded wait for a job (\<open>ingest_files\<close>, \<open>stats\<close> and \<open>_wait_for_job\<close> of
  \<open>src/src/scs/services/routes.py\<close>).
\<close>

section \<open>Changed files\<close>

definition deleted_param :: "string \<Rightarrow> exc + string" where
  "deleted_param raw =
     (let candidate = parse_path raw in
      if is_absolute candidate \<or> ''..'' \<in> set (path_parts candidate)
      then Inl (ValueError (''deleted path must remain repository-relative: '' @ raw))
      else Inr (path_str candidate))"

definition ingest_files_route :: "routes \<Rightarrow> nat \<Rightarrow> string \<Rightarrow> dict \<Rightarrow> jobs \<Rightarrow> exc + jobs \<times> job" where
  "ingest_files_route env now fresh params rows =
     and_then (required_string params ''repo_path'') (\<lambda>repo.
     and_then (canonicalize_repo_path (ro_fs env) (parse_path repo)) (\<lambda>canonical.
     and_then (string_list params ''file_paths'' True) (\<lambda>raw_files.
     and_then (string_list params ''deleted_paths'' True) (\<lambda>raw_deleted.
     and_then (gather (\<lambda>raw. validated_source_path (ro_fs env) raw (Some canonical) True) raw_files) (\<lambda>files.
     and_then (gather deleted_param raw_deleted) (\<lambda>deleted.
       if files = [] \<and> deleted = [] then Inl (ValueError ''at least one changed or deleted file is required'')
       else
         and_then (case ro_binding_for env of None \<Rightarrow> Inr None | Some f \<Rightarrow> f canonical) (\<lambda>binding.
           if ro_binding_for env \<noteq> None \<and> binding = None
           then Inl (ValueError ''repository does not have an indexed project store'')
           else
             enqueue now fresh
               (service_request canonical (map_option fst binding) (map_option snd binding) Files
                  ''explicit_files'' files deleted) rows)))))))"

section \<open>Waiting for a job\<close>

text \<open>
  \<open>clock k\<close> and \<open>table k\<close> are what the k-th turn of the loop reads.  A turn that does not
  settle sleeps; the waiting is a partial function because nothing else bounds it.
\<close>

datatype wait_outcome = WaitNotFound | WaitTerminal job | WaitTimeout job

record waiting =
  wt_clock :: "nat \<Rightarrow> rat"
  wt_table :: "nat \<Rightarrow> jobs"

definition expired :: "seconds \<Rightarrow> rat \<Rightarrow> bool" where
  "expired deadline now =
     (case deadline of Finite d \<Rightarrow> d - now \<le> 0 | Infinite below \<Rightarrow> below | NaN \<Rightarrow> False)"

definition deadline_after :: "rat \<Rightarrow> seconds \<Rightarrow> seconds" where
  "deadline_after now timeout = (case timeout of Finite x \<Rightarrow> Finite (now + x) | _ \<Rightarrow> timeout)"

definition wait_turn :: "string \<Rightarrow> string \<Rightarrow> seconds \<Rightarrow> rat \<Rightarrow> jobs \<Rightarrow> wait_outcome option" where
  "wait_turn repo i deadline now rows =
     (case find_job i rows of
        None \<Rightarrow> Some WaitNotFound
      | Some j \<Rightarrow>
          if j_repo j \<noteq> repo then Some WaitNotFound
          else if j_status j \<notin> set active_job_statuses then Some (WaitTerminal j)
          else if expired deadline now then Some (WaitTimeout j)
          else None)"

partial_function (option) wait_from ::
  "waiting \<Rightarrow> string \<Rightarrow> string \<Rightarrow> seconds \<Rightarrow> nat \<Rightarrow> wait_outcome option" where
  "wait_from w repo i deadline k =
     (case wait_turn repo i deadline (wt_clock w k) (wt_table w k) of
        Some r \<Rightarrow> Some r
      | None \<Rightarrow> wait_from w repo i deadline (Suc k))"

definition wait_for_job :: "waiting \<Rightarrow> rat \<Rightarrow> string \<Rightarrow> string \<Rightarrow> seconds \<Rightarrow> wait_outcome option" where
  "wait_for_job w now repo i timeout = wait_from w repo i (deadline_after now timeout) 0"

definition poll :: rat where
  "poll = 1 / 10"

text \<open>The event loop sleeps at least as long as asked: \<open>min(JOB_WAIT_POLL_SECONDS, remaining)\<close>.\<close>

definition clock_runs :: "waiting \<Rightarrow> rat \<Rightarrow> seconds \<Rightarrow> bool" where
  "clock_runs w now deadline =
     (now \<le> wt_clock w 0
      \<and> (\<forall>k. \<not> expired deadline (wt_clock w k) \<longrightarrow>
           (case deadline of Finite d \<Rightarrow> wt_clock w k + min poll (d - wt_clock w k) | _ \<Rightarrow> wt_clock w k + poll)
             \<le> wt_clock w (Suc k)))"

section \<open>Statistics\<close>

record stats_reply =
  st_repo :: "string option"
  st_status :: string
  st_nodes :: int
  st_by_type :: "(string \<times> int) list"
  st_embeddings :: int
  st_vectors :: int
  st_ingestion :: "(string \<times> dict) list"
  st_bytes :: int
  st_vector_state :: "bool \<times> string option"
  st_structural_ready :: bool
  st_semantic_ready :: bool
  st_semantic_reason :: "string option"
  st_active :: "job option"
  st_latest :: "job option"
  st_retry_after :: "nat option"
  st_wait :: "wait_outcome option"

definition retry_after_ms :: nat where
  "retry_after_ms = 250"

definition empty_stats :: "string option \<Rightarrow> (job option \<times> job option) option \<Rightarrow> wait_outcome option \<Rightarrow> stats_reply" where
  "empty_stats canonical state outcome =
     (let active = (case state of None \<Rightarrow> None | Some s \<Rightarrow> fst s) in
      \<lparr>st_repo = canonical, st_status = (if active \<noteq> None then ''indexing'' else ''empty''), st_nodes = 0,
       st_by_type = [], st_embeddings = 0, st_vectors = 0, st_ingestion = [], st_bytes = 0,
       st_vector_state = (False, Some ''repository is not indexed''), st_structural_ready = False,
       st_semantic_ready = False, st_semantic_reason = Some ''repository is not indexed'',
       st_active = active, st_latest = (case state of None \<Rightarrow> None | Some s \<Rightarrow> snd s),
       st_retry_after = (if active \<noteq> None then Some retry_after_ms else None), st_wait = outcome\<rparr>)"

definition scope_counts ::
  "code_graph \<Rightarrow> bool \<Rightarrow> int option \<Rightarrow> exc + (string \<times> int) list \<times> int" where
  "scope_counts g unknown repo_id =
     (if unknown then Inr ([], 0)
      else and_then (cg_counts g repo_id) (\<lambda>counts. and_then (cg_unembedded g repo_id) (\<lambda>n. Inr (counts, n))))"

definition semantic_reason :: "bool \<times> string option \<Rightarrow> bool \<times> string option \<Rightarrow> bool \<Rightarrow> string option" where
  "semantic_reason provider vectors ready =
     (if ready then None
      else if \<not> fst provider then snd provider
      else if \<not> fst vectors then snd vectors
      else Some ''no indexed embeddings are available for this scope'')"

definition graph_stats :: "routes \<Rightarrow> code_graph \<Rightarrow> json \<Rightarrow> stats_reply \<Rightarrow> exc + stats_reply" where
  "graph_stats env g repo reply =
     and_then (repo_id_of env repo) (\<lambda>repo_id.
     and_then (scope_counts g (repo \<noteq> JNull \<and> repo_id = None) repo_id) (\<lambda>(counts, without).
     and_then (cg_embeddings g) (\<lambda>vectors.
     and_then (cg_ingestion g) (\<lambda>ingestion.
     and_then (ro_provider env) (\<lambda>provider.
     and_then (cg_bytes g) (\<lambda>bytes.
       let total = sum_list (map snd counts); embedded = total - without;
           ready = (fst provider \<and> fst (cg_vectors g) \<and> 0 < embedded) in
       Inr (reply\<lparr>st_status := (if total \<noteq> 0 then ''ready'' else ''empty''), st_nodes := total,
              st_by_type := counts, st_embeddings := embedded, st_vectors := vectors,
              st_ingestion := (case st_repo reply of
                  None \<Rightarrow> ingestion
                | Some c \<Rightarrow> [(c, (case map_of ingestion c of Some d \<Rightarrow> d | None \<Rightarrow> []))]),
              st_bytes := bytes, st_vector_state := cg_vectors g, st_structural_ready := 0 < total,
              st_semantic_ready := ready,
              st_semantic_reason := semantic_reason provider (cg_vectors g) ready\<rparr>)))))))"

text \<open>Not returning is \<open>None\<close>.\<close>

definition given :: "exc + 'a \<Rightarrow> ('a \<Rightarrow> (exc + 'b) option) \<Rightarrow> (exc + 'b) option" where
  "given r f = (case r of Inl e \<Rightarrow> Some (Inl e) | Inr x \<Rightarrow> f x)"

definition stats :: "routes \<Rightarrow> waiting \<Rightarrow> rat \<Rightarrow> dict \<Rightarrow> seconds_value \<Rightarrow> jobs \<Rightarrow> (exc + stats_reply) option" where
  "stats env w now params timeout rows =
     given (string_param params ''repo_path'' False) (\<lambda>repo.
     given (string_param params ''wait_job_id'' False) (\<lambda>wait_job.
     given (bounded_seconds ''wait_timeout_seconds'' timeout) (\<lambda>seconds.
       if wait_job \<noteq> None \<and> repo = None
       then Some (Inl (ValueError ''repo_path is required when wait_job_id is provided''))
       else
         given (case repo of
             None \<Rightarrow> Inr None
           | Some r \<Rightarrow> and_then (canonicalize_repo_path (ro_fs env) (parse_path r)) (\<lambda>c. Inr (Some c))) (\<lambda>canonical.
           let state = map_option (\<lambda>c. repository_job_state c rows) canonical;
               key = (case repo of None \<Rightarrow> JNull | Some r \<Rightarrow> JStr r);
               waited = (case (wait_job, canonical) of
                   (Some i, Some c) \<Rightarrow> map_option Some (wait_for_job w now c i seconds)
                 | _ \<Rightarrow> Some None) in
           case waited of
             None \<Rightarrow> None
           | Some outcome \<Rightarrow>
               given (read_graph env key) (\<lambda>graph.
                 case graph of
                   None \<Rightarrow> Some (Inr (empty_stats canonical state outcome))
                 | Some g \<Rightarrow> Some (graph_stats env g key (empty_stats canonical state outcome)))))))"

section \<open>How long a wait lasts\<close>

lemma wait_from_step:
  "wait_turn repo i deadline (wt_clock w k) (wt_table w k) = None \<Longrightarrow>
   wait_from w repo i deadline k = wait_from w repo i deadline (Suc k)"
  by (subst wait_from.simps) simp

lemma wait_from_turn:
  "wait_turn repo i deadline (wt_clock w k) (wt_table w k) = Some r \<Longrightarrow> wait_from w repo i deadline k = Some r"
  by (subst wait_from.simps) simp

lemma wait_from_skip:
  "(\<And>l. k \<le> l \<Longrightarrow> l < k + n \<Longrightarrow> wait_turn repo i deadline (wt_clock w l) (wt_table w l) = None) \<Longrightarrow>
   wait_from w repo i deadline k = wait_from w repo i deadline (k + n)"
proof (induction n arbitrary: k)
  case (Suc n)
  have "wait_from w repo i deadline k = wait_from w repo i deadline (Suc k)"
    using Suc.prems by (intro wait_from_step) simp
  also have "\<dots> = wait_from w repo i deadline (Suc k + n)" using Suc.prems by (intro Suc.IH) simp_all
  finally show ?case by simp
qed simp

lemma wait_settles:
  assumes "wait_from w repo i deadline k = Some r"
  shows "\<exists>l\<ge>k. wait_turn repo i deadline (wt_clock w l) (wt_table w l) = Some r"
proof (rule wait_from.raw_induct [OF _ assms])
  fix wait w repo i deadline k r
  assume IH: "\<And>w repo i deadline k r. wait w repo i deadline k = Some r \<Longrightarrow>
      \<exists>l\<ge>k. wait_turn repo i deadline (wt_clock w l) (wt_table w l) = Some r"
    and run: "(case wait_turn repo i deadline (wt_clock w k) (wt_table w k) of
        None \<Rightarrow> wait w repo i deadline (Suc k) | Some r \<Rightarrow> Some r) = Some r"
  show "\<exists>l\<ge>k. wait_turn repo i deadline (wt_clock w l) (wt_table w l) = Some r"
  proof (cases "wait_turn repo i deadline (wt_clock w k) (wt_table w k)")
    case None
    then show ?thesis using IH [of w repo i deadline "Suc k" r] run by (auto intro: Suc_leD)
  next
    case (Some r')
    then show ?thesis using run by auto
  qed
qed

lemma first_such: "P (e :: nat) \<Longrightarrow> \<exists>k\<le>e. P k \<and> (\<forall>l<k. \<not> P l)"
  by (metis LeastI Least_le not_less_Least)

lemma active_wait_turn:
  "find_job i rows = Some j \<Longrightarrow> j_repo j = repo \<Longrightarrow> j_status j \<in> set active_job_statuses \<Longrightarrow>
   wait_turn repo i deadline now rows = (if expired deadline now then Some (WaitTimeout j) else None)"
  by (simp add: wait_turn_def)

lemma clock_reaches:
  assumes "clock_runs w now (Finite d)" "\<And>l. l < k \<Longrightarrow> \<not> expired (Finite d) (wt_clock w l)"
  shows "min d (now + poll * of_nat k) \<le> wt_clock w k"
  using assms(2)
proof (induction k)
  case 0
  then show ?case using assms(1) by (simp add: clock_runs_def min_le_iff_disj)
next
  case (Suc k)
  have "wt_clock w k + min poll (d - wt_clock w k) \<le> wt_clock w (Suc k)"
    using assms(1) Suc.prems by (simp add: clock_runs_def)
  moreover have "min d (now + poll * of_nat k) \<le> wt_clock w k" using Suc by simp
  ultimately show ?case by (auto simp: poll_def algebra_simps add_divide_distrib min_def split: if_splits)
qed

lemma wait_expires:
  assumes "clock_runs w now (Finite d)" "d \<le> now + 10"
  shows "\<exists>k\<le>100. expired (Finite d) (wt_clock w k)"
proof (rule ccontr)
  assume none: "\<not> (\<exists>k\<le>100. expired (Finite d) (wt_clock w k))"
  then have "min d (now + poll * of_nat 100) \<le> wt_clock w 100" by (intro clock_reaches [OF assms(1)]) simp_all
  then have "d \<le> wt_clock w 100" using assms(2) by (simp add: poll_def)
  with none show False by (auto simp: expired_def)
qed

text \<open>C28: A wait whose timeout is an ordinary number ends: on a clock that runs it asks for the
  job at most 101 times, and its answer is what one of those turns saw: that the job is
  unknown in this repository, its terminal row, or, after the deadline, its active row.\<close>

theorem wait_is_bounded:
  assumes "bounded_seconds key value = Inr (Finite x)" "clock_runs w now (Finite (now + x))"
  shows "\<exists>k\<le>100. \<exists>r. wait_for_job w now repo i (Finite x) = Some r
     \<and> wait_turn repo i (Finite (now + x)) (wt_clock w k) (wt_table w k) = Some r
     \<and> (\<forall>l<k. wait_turn repo i (Finite (now + x)) (wt_clock w l) (wt_table w l) = None)"
proof -
  let ?turn = "\<lambda>k. wait_turn repo i (Finite (now + x)) (wt_clock w k) (wt_table w k)"
  have "x \<le> 10"
    using assms(1) by (auto simp: bounded_seconds_def capped_def max_job_wait_def split: seconds_value.splits pyfloat.splits if_splits)
  then obtain e where e: "e \<le> 100" "expired (Finite (now + x)) (wt_clock w e)"
    using wait_expires [OF assms(2)] by auto
  then have "?turn e \<noteq> None" by (auto simp: wait_turn_def split: option.splits)
  then obtain k where k: "k \<le> e" "?turn k \<noteq> None" "\<forall>l<k. ?turn l = None"
    using first_such [of "\<lambda>k. ?turn k \<noteq> None" e] by auto
  then obtain r where r: "?turn k = Some r" by blast
  have "wait_from w repo i (Finite (now + x)) 0 = wait_from w repo i (Finite (now + x)) (0 + k)"
    by (rule wait_from_skip) (use k(3) in simp)
  then have "wait_for_job w now repo i (Finite x) = Some r"
    using wait_from_turn [OF r] by (simp add: wait_for_job_def deadline_after_def)
  then show ?thesis using k(1,3) e(1) r by (metis order_trans)
qed

text \<open>Aux: The documented bound of ten seconds does not hold for every accepted timeout: \<open>NaN\<close>,
  which the frame decoder admits, passes the validation, and a wait with it never ends while
  the job stays active.\<close>

theorem nan_wait_never_ends:
  assumes "\<And>k. \<exists>j. find_job i (wt_table w k) = Some j \<and> j_repo j = repo \<and> j_status j \<in> set active_job_statuses"
  shows "bounded_seconds key (Number NaN) = Inr NaN \<and> wait_for_job w now repo i NaN = None"
proof
  show "bounded_seconds key (Number NaN) = Inr NaN" by (simp add: bounded_seconds_def negative_def capped_def)
  have "wait_turn repo i NaN (wt_clock w k) (wt_table w k) = None" for k
    using assms [of k] by (auto simp: active_wait_turn expired_def)
  then show "wait_for_job w now repo i NaN = None"
    using wait_settles [of w repo i NaN 0] by (cases "wait_from w repo i NaN 0") (auto simp: wait_for_job_def deadline_after_def)
qed

section \<open>What an accepted change request leaves\<close>

lemma normalize_files_payload:
  "normalize_payload Files (Some (files_payload fs ds)) = Inr (files_payload (sorted_set fs) (sorted_set ds))"
  by (simp add: normalize_payload_def files_payload_def json_strings_def sorted_path_strings_def
      dict_set_def dict_get_def Let_def comp_def)

lemma service_request_fields [simp]:
  "q_repo (service_request repo store gen mode reason fs ds) = repo"
  "q_store (service_request repo store gen mode reason fs ds) = store"
  "q_gen (service_request repo store gen mode reason fs ds) = gen"
  "q_mode (service_request repo store gen mode reason fs ds) = mode"
  "q_payload (service_request repo store gen Files reason fs ds) = Some (files_payload fs ds)"
  by (simp_all add: service_request_def)

lemma enqueue_refused: "enqueue now fresh q rows = Inr r \<Longrightarrow> q_mode q \<noteq> DropIndex \<Longrightarrow> deletion_row (q_repo q) rows = None"
  by (auto simp: enqueue_def and_then_Inr_iff split: option.splits)

text \<open>Aux: An accepted report of changed files names only source files that lie in the repository
  and deleted paths that stay below it, at least one of them; it finds the repository bound
  to an active store and not being deleted, and leaves a queued job of the repository.  When
  the repository had no queued job, that job is bound to the store and its payload is exactly
  the two sets of paths, sorted.\<close>

theorem accepted_files_are_queued:
  assumes inv: "job_inv rows" and run: "ingest_files_route env now fresh params rows = Inr (rows', job)"
    and parsed: "required_string params ''repo_path'' = Inr repo"
      "canonicalize_repo_path (ro_fs env) (parse_path repo) = Inr canonical"
      "string_list params ''file_paths'' True = Inr raw_files" "string_list params ''deleted_paths'' True = Inr raw_deleted"
  shows "\<exists>files deleted binding.
      gather (\<lambda>raw. validated_source_path (ro_fs env) raw (Some canonical) True) raw_files = Inr files
    \<and> gather deleted_param raw_deleted = Inr deleted \<and> files @ deleted \<noteq> []
    \<and> (case ro_binding_for env of None \<Rightarrow> binding = None | Some f \<Rightarrow> f canonical = Inr binding \<and> binding \<noteq> None)
    \<and> deletion_row canonical rows = None \<and> job_inv rows' \<and> job \<in> set rows' \<and> j_repo job = canonical \<and> queued_status job
    \<and> (queued_row canonical rows = None \<longrightarrow>
         j_store job = map_option fst binding \<and> j_gen job = map_option snd binding \<and> j_mode job = Files
         \<and> j_payload job = files_payload (sorted_set files) (sorted_set deleted))"
proof -
  obtain files deleted binding where got:
    "gather (\<lambda>raw. validated_source_path (ro_fs env) raw (Some canonical) True) raw_files = Inr files"
    "gather deleted_param raw_deleted = Inr deleted" "files @ deleted \<noteq> []"
    "(case ro_binding_for env of None \<Rightarrow> Inr None | Some f \<Rightarrow> f canonical) = Inr binding"
    "ro_binding_for env \<noteq> None \<Longrightarrow> binding \<noteq> None"
    and queued: "enqueue now fresh (service_request canonical (map_option fst binding) (map_option snd binding) Files
        ''explicit_files'' files deleted) rows = Inr (rows', job)"
    using run parsed by (auto simp: ingest_files_route_def and_then_Inr_iff split: if_splits)
  let ?q = "service_request canonical (map_option fst binding) (map_option snd binding) Files ''explicit_files'' files deleted"
  have del: "deletion_row (q_repo ?q) rows = None" using enqueue_refused [OF queued] by simp
  have "job_inv rows'" using inv service_request_ok queued by (blast elim: enqueue_InrE)
  moreover note enqueue_index [OF inv service_request_ok del queued]
  moreover have "case ro_binding_for env of None \<Rightarrow> binding = None | Some f \<Rightarrow> f canonical = Inr binding \<and> binding \<noteq> None"
    using got(4,5) by (auto split: option.splits)
  ultimately show ?thesis using got(1-3) del by (intro exI [of _ files] exI [of _ deleted] exI [of _ binding])
    (auto simp: normalize_files_payload)
qed

section \<open>Concrete runs\<close>

definition demo_routes :: routes where
  "demo_routes = \<lparr>ro_fs = plain_fs, ro_graph = Inl (RuntimeError ''no graph''), ro_graph_for = None,
     ro_binding_for = Some (\<lambda>_. Inr (Some (''s'', ''g1''))), ro_provider = Inr (False, None)\<rparr>"

definition demo_change :: dict where
  "demo_change = [(''repo_path'', JStr ''/a''), (''file_paths'', JList [JStr ''x.py'']), (''deleted_paths'', JList [JStr ''y.py''])]"

theorem accepted_files_are_queued_witness:
  "\<exists>rows' job. ingest_files_route demo_routes 1 ''j1'' demo_change [] = Inr (rows', job)
     \<and> j_payload job = files_payload [''/a/x.py''] [''y.py''] \<and> j_gen job = Some ''g1''"
proof -
  have "\<not> is_raise (ingest_files_route demo_routes 1 ''j1'' demo_change [])" by code_simp
  then obtain rows' job where run: "ingest_files_route demo_routes 1 ''j1'' demo_change [] = Inr (rows', job)"
    by (cases "ingest_files_route demo_routes 1 ''j1'' demo_change []") auto
  have parsed: "required_string demo_change ''repo_path'' = Inr ''/a''"
    "canonicalize_repo_path (ro_fs demo_routes) (parse_path ''/a'') = Inr ''/a''"
    "string_list demo_change ''file_paths'' True = Inr [''x.py'']" "string_list demo_change ''deleted_paths'' True = Inr [''y.py'']"
    by code_simp+
  have facts: "gather (\<lambda>raw. validated_source_path (ro_fs demo_routes) raw (Some ''/a'') True) [''x.py''] = Inr [''/a/x.py'']"
    "gather deleted_param [''y.py''] = Inr [''y.py'']" "queued_row ''/a'' [] = None" "job_inv []"
    "sorted_set [''/a/x.py''] = [''/a/x.py'']" "sorted_set [''y.py''] = [''y.py'']"
    by code_simp+
  have "ro_binding_for demo_routes = Some (\<lambda>_. Inr (Some (''s'', ''g1'')))" by (simp add: demo_routes_def)
  with accepted_files_are_queued [OF facts(4) run parsed] facts run show ?thesis by auto
qed

definition demo_stuck :: waiting where
  "demo_stuck = \<lparr>wt_clock = \<lambda>k. of_nat k,
     wt_table = \<lambda>_. [new_job 1 ''j1'' (service_request ''/a'' None None Full '''' [] []) []]\<rparr>"

theorem wait_is_bounded_witness:
  "\<exists>k\<le>100. \<exists>r. wait_for_job demo_stuck 0 ''/a'' ''j1'' (Finite 10) = Some r
     \<and> wait_turn ''/a'' ''j1'' (Finite (0 + 10)) (wt_clock demo_stuck k) (wt_table demo_stuck k) = Some r
     \<and> (\<forall>l<k. wait_turn ''/a'' ''j1'' (Finite (0 + 10)) (wt_clock demo_stuck l) (wt_table demo_stuck l) = None)"
proof (rule wait_is_bounded)
  show "bounded_seconds ''wait_timeout_seconds'' (Number (Finite 60)) = Inr (Finite 10)"
    by (simp add: bounded_seconds_def negative_def capped_def max_job_wait_def)
  show "clock_runs demo_stuck 0 (Finite (0 + 10))" by (simp add: clock_runs_def demo_stuck_def poll_def min_le_iff_disj)
qed

theorem nan_wait_never_ends_witness:
  "bounded_seconds ''wait_timeout_seconds'' (Number NaN) = Inr NaN
   \<and> wait_for_job demo_stuck 0 ''/a'' ''j1'' NaN = None"
  by (rule nan_wait_never_ends)
     (simp add: demo_stuck_def find_job_def new_job_def service_request_def active_job_statuses_def)

end
