(* ===== verification/Provider_Contract.thy ===== *)
theory Provider_Contract
  imports Code_Search Py_Floats
begin

text \<open>
  The ports of \<open>src/src/scs/providers/base.py\<close>: what search and ingestion may expect of a
  reranker and of an embedder, as locales, with what follows for their clients.
\<close>

section \<open>Failures of an endpoint\<close>

text \<open>\<open>except (aiohttp.ClientError, OSError, TimeoutError, TypeError, ValueError)\<close>, with the subclasses of these.\<close>

definition endpoint_failure :: "exc \<Rightarrow> bool" where
  "endpoint_failure e =
     (case e of ClientError _ \<Rightarrow> True | OSError _ \<Rightarrow> True | TimeoutError _ \<Rightarrow> True | TypeError _ \<Rightarrow> True
      | ValueError _ \<Rightarrow> True | ValidationError _ \<Rightarrow> True | FrameError _ \<Rightarrow> True | _ \<Rightarrow> False)"

text \<open>The state of a provider: the world its endpoint lives in and its last failure.\<close>

record 'w provider_state =
  ps_world :: 'w
  ps_unavailable :: "string option"

definition on_world :: "('w, 'a) act \<Rightarrow> ('w provider_state, 'a) act" where
  "on_world m s = (case m (ps_world s) of (r, w) \<Rightarrow> (r, s\<lparr>ps_world := w\<rparr>))"

definition note_failure :: "string option \<Rightarrow> ('w provider_state, unit) act" where
  "note_failure reason = act_modify (\<lambda>s. s\<lparr>ps_unavailable := reason\<rparr>)"

text \<open>The \<open>try\<close> around a call of the endpoint.\<close>

definition reported :: "string \<Rightarrow> ('w provider_state, 'a) act \<Rightarrow> ('w provider_state, 'a) act" where
  "reported what m =
     act_handle
       (act_bind m (\<lambda>x. act_seq (note_failure None) (act_return x)))
       (\<lambda>e. if endpoint_failure e
            then act_seq (note_failure (Some (exc_str e)))
                   (act_raise (ProviderUnavailableError (what @ '' is unavailable: '' @ exc_str e)))
            else act_raise e)"

lemma reported_Inr_iff:
  "reported what m s = (Inr x, t) \<longleftrightarrow> (\<exists>s'. m s = (Inr x, s') \<and> t = s'\<lparr>ps_unavailable := None\<rparr>)"
  by (cases "m s"; cases "fst (m s)") (auto simp: reported_def note_failure_def act_defs)

lemma reported_Inl:
  "reported what m s = (Inl e, t) \<Longrightarrow>
   \<exists>e' s'. m s = (Inl e', s')
     \<and> (if endpoint_failure e'
        then e = ProviderUnavailableError (what @ '' is unavailable: '' @ exc_str e')
             \<and> t = s'\<lparr>ps_unavailable := Some (exc_str e')\<rparr>
        else e = e' \<and> t = s')"
  by (cases "m s"; cases "fst (m s)") (auto simp: reported_def note_failure_def act_defs split: if_splits)

lemma reported_raised:
  "m s = (Inl e, s') \<Longrightarrow>
   reported what m s =
     (if endpoint_failure e
      then (Inl (ProviderUnavailableError (what @ '' is unavailable: '' @ exc_str e)), s'\<lparr>ps_unavailable := Some (exc_str e)\<rparr>)
      else (Inl e, s'))"
  by (simp add: reported_def note_failure_def act_defs)

section \<open>Rerankers\<close>

definition valid_ranking :: "int \<Rightarrow> nat \<Rightarrow> (int \<times> rat) list \<Rightarrow> bool" where
  "valid_ranking limit n ranked =
     (0 < limit \<and> length ranked = min (nat limit) n \<and> distinct (map fst ranked)
      \<and> fst ` set ranked \<subseteq> {0..<int n} \<and> sorted_wrt (\<lambda>a b. snd b \<le> snd a) ranked)"

lemma gather_map: "gather f xs = Inr ys \<longleftrightarrow> map f xs = map Inr ys"
  by (induction xs arbitrary: ys) (auto simp: and_then_Inr_iff Cons_eq_map_conv)

text \<open>What a reranked response consists of, given that the ranking was valid.\<close>

lemma reranked_matches:
  fixes fused :: "match list"
  assumes "gather (\<lambda>(i, score). and_then (py_index fused i) (\<lambda>x. Inr (x\<lparr>ma_rerank := Some score\<rparr>))) ranked = Inr ms"
    and valid: "valid_ranking limit (length fused) ranked"
  shows "ms = map (\<lambda>(i, score). (fused ! nat i)\<lparr>ma_rerank := Some score\<rparr>) ranked"
proof -
  have "map (\<lambda>(i, score). and_then (py_index fused i) (\<lambda>x. Inr (x\<lparr>ma_rerank := Some score\<rparr>))) ranked
      = map Inr (map (\<lambda>(i, score). (fused ! nat i)\<lparr>ma_rerank := Some score\<rparr>) ranked)"
  proof (simp only: map_map, rule map_cong [OF refl], clarify)
    fix i score assume "(i, score) \<in> set ranked"
    then have "i \<in> {0..<int (length fused)}" using valid by (force simp: valid_ranking_def)
    then show "and_then (py_index fused i) (\<lambda>x. Inr (x\<lparr>ma_rerank := Some score\<rparr>)) =
        (Inr \<circ> (\<lambda>(i, score). (fused ! nat i)\<lparr>ma_rerank := Some score\<rparr>)) (i, score)"
      by (simp add: py_index_def)
  qed
  moreover have "map (\<lambda>(i, score). and_then (py_index fused i) (\<lambda>x. Inr (x\<lparr>ma_rerank := Some score\<rparr>))) ranked = map Inr ms"
    using assms(1) by (simp only: gather_map)
  ultimately have "(map Inr ms :: (exc + match) list) = map Inr (map (\<lambda>(i, score). (fused ! nat i)\<lparr>ma_rerank := Some score\<rparr>) ranked)"
    by (simp only:)
  then show ?thesis by (rule map_injective) (simp add: inj_def)
qed

text \<open>A list is a valid reranking of the fused matches.\<close>

definition reranking_of :: "int \<Rightarrow> match list \<Rightarrow> match list \<Rightarrow> bool" where
  "reranking_of limit fused ms =
     (length ms = min (nat limit) (length fused) \<and> distinct (map ma_id ms)
      \<and> (\<forall>m\<in>set ms. m\<lparr>ma_rerank := None\<rparr> \<in> set fused)
      \<and> sorted_wrt (\<lambda>a b. the (ma_rerank b) \<le> the (ma_rerank a)) ms \<and> None \<notin> ma_rerank ` set ms)"

lemma valid_reranking:
  fixes fused :: "match list"
  assumes valid: "valid_ranking limit (length fused) ranked"
    and fused: "distinct (map ma_id fused)" "\<forall>m\<in>set fused. ma_rerank m = None"
  shows "reranking_of limit fused (map (\<lambda>(i, score). (fused ! nat i)\<lparr>ma_rerank := Some score\<rparr>) ranked)"
proof -
  let ?f = "\<lambda>(i, score). (fused ! nat i)\<lparr>ma_rerank := Some score\<rparr>"
  let ?ms = "map ?f ranked"
  have range: "0 \<le> i \<and> nat i < length fused" if "(i, score) \<in> set ranked" for i score
    using valid that by (force simp: valid_ranking_def)
  have ids: "map ma_id ?ms = map (\<lambda>i. ma_id (fused ! nat i)) (map fst ranked)"
    by (simp add: ma_id_def case_prod_beta)
  have "inj_on (\<lambda>i. ma_id (fused ! nat i)) (set (map fst ranked))"
  proof (rule inj_onI)
    fix i j assume ij: "i \<in> set (map fst ranked)" "j \<in> set (map fst ranked)"
      and eq: "ma_id (fused ! nat i) = ma_id (fused ! nat j)"
    have "0 \<le> i" "0 \<le> j" "nat i < length fused" "nat j < length fused" using ij range by auto
    then show "i = j" using nth_eq_iff_index_eq [OF fused(1), of "nat i" "nat j"] eq by (simp add: nat_eq_iff2)
  qed
  then have "distinct (map ma_id ?ms)"
    using valid by (simp only: ids distinct_map valid_ranking_def)
  moreover have "m\<lparr>ma_rerank := None\<rparr> \<in> set fused" if mem: "m \<in> set ?ms" for m
  proof -
    obtain i score where m: "(i, score) \<in> set ranked" "m = (fused ! nat i)\<lparr>ma_rerank := Some score\<rparr>"
      using mem by auto
    have "fused ! nat i \<in> set fused" using range [OF m(1)] by simp
    moreover from this have "ma_rerank (fused ! nat i) = None" using fused(2) by blast
    then have "(fused ! nat i)\<lparr>ma_rerank := None\<rparr> = fused ! nat i" by simp
    ultimately show ?thesis using m(2) by simp
  qed
  moreover have "sorted_wrt (\<lambda>a b. the (ma_rerank b) \<le> the (ma_rerank a)) ?ms"
    using valid by (simp add: valid_ranking_def sorted_wrt_map case_prod_beta)
  moreover have "None \<notin> ma_rerank ` set ?ms" by auto
  ultimately show ?thesis using valid by (simp add: reranking_of_def valid_ranking_def)
qed

locale reranker =
  fixes rerank :: "string \<Rightarrow> string list \<Rightarrow> int \<Rightarrow> ('s, (int \<times> rat) list) act"
  assumes ranking: "rerank query documents limit s = (Inr ranked, s') \<Longrightarrow> valid_ranking limit (length documents) ranked"
begin

text \<open>A search that uses the reranker in the state it finds it in.\<close>

lemma reranked_response:
  assumes "se_rerank env = Some (\<lambda>q ds l. fst (rerank q ds l s))"
    and r: "respond env limit sm qs results = Inr r" "rs_reranked r"
    and fused: "fused = merge_matches (map qr_matches results)"
  shows "reranking_of limit fused (rs_matches r) \<and> rs_queries r = qs \<and> fused \<noteq> [] \<and> sm \<noteq> ''fast''"
proof -
  have ne: "fused \<noteq> []" "sm \<noteq> ''fast''"
    using r unfolding fused by (auto simp: respond_def Let_def plain_response_def split: if_splits)
  let ?answer = "rerank (intercalate [CHR 0x0A] qs) (map (rerank_document \<circ> ma_node) fused) limit s"
  obtain ranked where ok: "fst ?answer = Inr ranked"
  proof (cases "fst ?answer")
    case (Inl e)
    then have False using r assms(1) ne unfolding fused
      by (auto simp: respond_def Let_def plain_response_def split: if_splits exc.splits)
    then show ?thesis ..
  qed
  have valid: "valid_ranking limit (length fused) ranked"
    using ranking [of _ "map (rerank_document \<circ> ma_node) fused" limit s ranked "snd ?answer"] ok
    by (metis length_map prod.collapse)
  obtain ms where ms: "gather (\<lambda>(i, score). and_then (py_index fused i) (\<lambda>x. Inr (x\<lparr>ma_rerank := Some score\<rparr>))) ranked = Inr ms"
    and r': "rs_matches r = ms" "rs_queries r = qs"
    using r(1) assms(1) ne ok unfolding fused
    by (auto simp: respond_def Let_def plain_response_def and_then_Inr_iff)
  have "distinct (map ma_id fused)" "\<forall>m\<in>set fused. ma_rerank m = None"
    unfolding fused merge_matches_def using collect_facts(1,3) by blast+
  then show ?thesis
    using valid_reranking [OF valid] reranked_matches [OF ms valid] r' ne by simp
qed

lemma reranked_search:
  assumes "se_rerank env = Some (\<lambda>q ds l. fst (rerank q ds l s))"
    and r: "search env query limit queries sm = Inr r" "rs_reranked r"
  shows "\<exists>rs. length rs = length (rs_queries r)
     \<and> (\<forall>i<length rs. se_lexical env (rs_queries r ! i) (candidate_limit (clamp_limit limit)) = Inr (snd (rs ! i))
          \<and> (\<exists>available reason. semantic_candidates env (rs_queries r ! i) (candidate_limit (clamp_limit limit)) =
               Inr (fst (rs ! i), available, reason)))
     \<and> reranking_of (clamp_limit limit) (merge_matches (fused_results 0 rs)) (rs_matches r)
     \<and> rs_matches r \<noteq> [] \<and> sm \<noteq> ''fast''"
proof -
  obtain qs results where s: "effective_queries query queries = Inr qs"
    "gather (retrieve_query env (candidate_limit (clamp_limit limit))) (enumerate 0 qs) = Inr results"
    "respond env (clamp_limit limit) sm qs results = Inr r"
    using search_Inr [OF r(1)] by metis
  obtain rs where rs: "length rs = length qs" "map qr_matches results = fused_results 0 rs"
    "\<forall>i<length qs. se_lexical env (qs ! i) (candidate_limit (clamp_limit limit)) = Inr (snd (rs ! i))
       \<and> (\<exists>available reason. semantic_candidates env (qs ! i) (candidate_limit (clamp_limit limit)) =
            Inr (fst (rs ! i), available, reason))"
    using gather_retrieve [OF s(2)] by blast
  have res: "reranking_of (clamp_limit limit) (merge_matches (fused_results 0 rs)) (rs_matches r)" "rs_queries r = qs"
    "merge_matches (fused_results 0 rs) \<noteq> []" "sm \<noteq> ''fast''"
    using reranked_response [OF assms(1) s(3) r(2) refl] by (simp_all add: rs(2))
  have "0 < nat (clamp_limit limit)" by (simp add: clamp_limit_def)
  then have "rs_matches r \<noteq> []" using res(1,3) by (auto simp: reranking_of_def min_def split: if_splits)
  then show ?thesis using rs res by (intro exI [of _ rs]) simp
qed

end

section \<open>Embedders\<close>

locale embedder =
  fixes embed_documents :: "'t list \<Rightarrow> ('s, 'c list list) act"
    and embed_query :: "'t \<Rightarrow> ('s, 'c list) act"
    and dimension :: nat
  assumes documents: "embed_documents texts s = (Inr vs, s') \<Longrightarrow> list_all (\<lambda>v. length v = dimension) vs"
    and query: "embed_query text s = (Inr v, s') \<Longrightarrow> length v = dimension"

end
