(* ===== verification/Rerank_Provider.thy ===== *)
theory Rerank_Provider
  imports Provider_Contract
begin

text \<open>
  The adapter of a document-reranking endpoint
  (\<open>src/src/scs/providers/openai_compatible_reranking.py\<close>).  Sending the request is an action
  on the world of the endpoint; the decoded reply is checked here.
\<close>

section \<open>Parsing a reply\<close>

definition checked_score :: "pyfloat \<Rightarrow> pyfloat \<Rightarrow> exc + rat" where
  "checked_score previous score =
     (case score of
        Finite x \<Rightarrow>
          if float_less previous score then Inl (ValueError ''reranking results must be ordered by score'')
          else Inr x
      | _ \<Rightarrow> Inl (ValueError ''reranking scores must be finite''))"

definition parse_item :: "nat \<Rightarrow> int list \<Rightarrow> pyfloat \<Rightarrow> decoded \<Rightarrow> exc + int \<times> rat" where
  "parse_item n seen previous item =
     (case item of
        DObj kvs \<Rightarrow>
          (let bad_index = Inl (ValueError ''reranking indexes must be unique and in range'') in
           case field kvs ''index'' of
             DInt i \<Rightarrow>
               if i < 0 \<or> int n \<le> i \<or> i \<in> set seen then bad_index
               else
                 (case numeric (field kvs ''relevance_score'') of
                    None \<Rightarrow> Inl (ValueError ''reranking scores must be numeric'')
                  | Some converted \<Rightarrow>
                      and_then (and_then converted (checked_score previous)) (\<lambda>x. Inr (i, x)))
           | _ \<Rightarrow> bad_index)
      | _ \<Rightarrow> Inl (ValueError ''reranking results must contain objects''))"

fun parse_items :: "nat \<Rightarrow> int list \<Rightarrow> pyfloat \<Rightarrow> decoded list \<Rightarrow> exc + (int \<times> rat) list" where
  "parse_items n seen previous [] = Inr []"
| "parse_items n seen previous (item # items) =
     and_then (parse_item n seen previous item) (\<lambda>(i, x).
       and_then (parse_items n (i # seen) (Finite x) items) (\<lambda>results. Inr ((i, x) # results)))"

definition parse_results :: "decoded \<Rightarrow> nat \<Rightarrow> nat \<Rightarrow> exc + (int \<times> rat) list" where
  "parse_results response document_count expected =
     (case response of
        DObj kvs \<Rightarrow>
          (let mismatch = Inl (ValueError ''reranking response count does not match request'') in
           case field kvs ''results'' of
             DList items \<Rightarrow>
               if length items \<noteq> expected then mismatch
               else parse_items document_count [] (Infinite False) items
           | _ \<Rightarrow> mismatch)
      | _ \<Rightarrow> Inl (ValueError ''reranking response must be an object''))"

section \<open>Reranking\<close>

record 'w rerank_config =
  rk_model :: string
  rk_post :: "dict \<Rightarrow> ('w, decoded) act"

definition rerank_payload :: "string \<Rightarrow> string \<Rightarrow> string list \<Rightarrow> nat \<Rightarrow> dict" where
  "rerank_payload model query documents n =
     [(''model'', JStr model), (''query'', JStr query), (''documents'', JList (map JStr documents)),
      (''top_n'', JInt (int n)), (''return_documents'', JBool False)]"

definition rerank :: "'w rerank_config \<Rightarrow> string \<Rightarrow> string list \<Rightarrow> int \<Rightarrow> ('w provider_state, (int \<times> rat) list) act" where
  "rerank cfg query documents limit =
     (if limit < 1 then act_raise (ValueError ''reranking limit must be positive'')
      else if documents = [] then act_return []
      else
        (let n = nat (min limit (int (length documents))) in
         reported ''OpenAI-compatible reranking provider''
           (act_bind (on_world (rk_post cfg (rerank_payload (rk_model cfg) query documents n))) (\<lambda>response.
              act_lift (parse_results response (length documents) n)))))"

section \<open>What a parsed reply is\<close>

lemma checked_score_Inr: "checked_score previous score = Inr x \<Longrightarrow> \<not> float_less previous (Finite x)"
  by (auto simp: checked_score_def split: pyfloat.splits if_splits)

lemma parse_item_Inr:
  assumes "parse_item n seen previous item = Inr (i, x)"
  shows "i \<in> {0..<int n}" "i \<notin> set seen" "\<not> float_less previous (Finite x)"
  using assms
  by (auto simp: parse_item_def Let_def and_then_Inr_iff split: decoded.splits if_splits option.splits
      dest: checked_score_Inr)

lemma parse_items_Inr:
  "parse_items n seen previous items = Inr results \<Longrightarrow>
   length results = length items \<and> distinct (map fst results) \<and> fst ` set results \<subseteq> {0..<int n} - set seen
   \<and> sorted_wrt (\<lambda>a b. snd b \<le> snd a) results
   \<and> (\<forall>r\<in>set results. \<not> float_less previous (Finite (snd r)))"
proof (induction n seen previous items arbitrary: results rule: parse_items.induct)
  case (1 n seen previous)
  then show ?case by simp
next
  case (2 n seen previous item items)
  from "2.prems" obtain i x rest where parts: "parse_item n seen previous item = Inr (i, x)"
    "parse_items n (i # seen) (Finite x) items = Inr rest" "results = (i, x) # rest"
    by (auto simp: and_then_Inr_iff)
  note ih = "2.IH" [OF parts(2)]
  note item = parse_item_Inr [OF parts(1)]
  have below: "snd r \<le> x" if "r \<in> set rest" for r
    using ih that by (auto simp: float_less_def)
  have prev: "\<not> float_less previous (Finite (snd r))" if "r \<in> set rest" for r
    using below [OF that] item(3) by (auto simp: float_less_def split: pyfloat.splits)
  show ?case using ih item below prev unfolding parts(3) by auto
qed

lemma rerank_valid:
  assumes "rerank cfg query documents limit s = (Inr ranked, s')"
  shows "valid_ranking limit (length documents) ranked"
proof (cases "documents = []")
  case True
  then show ?thesis using assms by (auto simp: rerank_def valid_ranking_def act_defs split: if_splits)
next
  case False
  let ?n = "nat (min limit (int (length documents)))"
  obtain t where "\<not> limit < 1"
    and m: "act_bind (on_world (rk_post cfg (rerank_payload (rk_model cfg) query documents ?n))) (\<lambda>response.
              act_lift (parse_results response (length documents) ?n)) s = (Inr ranked, t)"
    using assms False by (auto simp: rerank_def reported_Inr_iff act_raise_def Let_def split: if_splits)
  then obtain response where "parse_results response (length documents) ?n = Inr ranked"
    by (auto simp: act_bind_Inr_iff act_lift_def)
  then obtain items where "length items = ?n" "parse_items (length documents) [] (Infinite False) items = Inr ranked"
    by (auto simp: parse_results_def Let_def split: decoded.splits if_splits)
  then show ?thesis
    using parse_items_Inr [of "length documents" "[]" "Infinite False" items ranked] \<open>\<not> limit < 1\<close>
    by (auto simp: valid_ranking_def min_def)
qed

interpretation endpoint_reranker: reranker "rerank cfg" for cfg :: "'w rerank_config"
  by unfold_locales (rule rerank_valid)

section \<open>Search with the adapter\<close>

text \<open>C30: A reranked search is a reranking of the fused candidates.  With the rerank adapter over any
  endpoint, whatever it answers, a search that reports reranked results returns as many matches
  as the limit and the candidates allow, each one of the fused candidates with its fusion score
  and queries, none twice, in falling order of the scores the endpoint gave.\<close>

theorem reranked_search_is_valid:
  assumes "se_rerank env = Some (\<lambda>q ds l. fst (rerank cfg q ds l s))"
    and "search env query limit queries sm = Inr r" "rs_reranked r"
  shows "\<exists>rs. length rs = length (rs_queries r)
     \<and> (\<forall>i<length rs. se_lexical env (rs_queries r ! i) (candidate_limit (clamp_limit limit)) = Inr (snd (rs ! i))
          \<and> (\<exists>available reason. semantic_candidates env (rs_queries r ! i) (candidate_limit (clamp_limit limit)) =
               Inr (fst (rs ! i), available, reason)))
     \<and> reranking_of (clamp_limit limit) (merge_matches (fused_results 0 rs)) (rs_matches r)
     \<and> rs_matches r \<noteq> [] \<and> sm \<noteq> ''fast''"
  by (rule endpoint_reranker.reranked_search [OF assms])

definition demo_reply :: decoded where
  "demo_reply = DObj [(''results'', DList
     [DObj [(''index'', DInt 1), (''relevance_score'', DFloat (Finite (1/2)))],
      DObj [(''index'', DInt 0), (''relevance_score'', DInt 0)]])]"

definition demo_rerank_config :: "unit rerank_config" where
  "demo_rerank_config = \<lparr>rk_model = ''m'', rk_post = \<lambda>_. act_return demo_reply\<rparr>"

definition demo_provider_state :: "unit provider_state" where
  "demo_provider_state = \<lparr>ps_world = (), ps_unavailable = None\<rparr>"

definition demo_rerank_env :: search_env where
  "demo_rerank_env = demo_search_env
     \<lparr>se_rerank := Some (\<lambda>q ds l. fst (rerank demo_rerank_config q ds l demo_provider_state))\<rparr>"

lemma demo_reranked: "\<exists>r. search demo_rerank_env ''f'' 10 [] ''thorough'' = Inr r \<and> rs_reranked r \<and> length (rs_matches r) = 2"
proof -
  let ?fused = "merge_matches [fuse [(demo_node ''a'', 1/2)] [demo_node ''b'', demo_node ''a''] 0]"
  let ?rs = "[([(demo_node ''a'', 1/2 :: rat)], [demo_node ''b'', demo_node ''a''])]"
  have fused: "?fused = collect (map match_evidence (concat (fused_results 0 ?rs)))"
    by (simp add: merge_matches_def fused_results_def)
  have "set (map ma_id ?fused) = {i. \<exists>r\<in>set ?rs. found_in i r}"
    unfolding fused set_map collect_facts(2) by (rule merged_evidence(3) [unfolded set_map])
  also have "\<dots> = {''a'', ''b''}" by (auto simp: found_in_def demo_node_def)
  finally have ids: "set (map ma_id ?fused) = {''a'', ''b''}" .
  have "distinct (map ma_id ?fused)" unfolding fused by (rule collect_facts(1))
  from distinct_card [OF this] have len: "length ?fused = 2" unfolding ids by simp
  have "parse_results demo_reply 2 2 = Inr [(1, 1/2), (0, 0)]"
    by (simp add: demo_reply_def parse_results_def parse_item_def field_def numeric_def checked_score_def float_less_def
        float_of_small_int)
  then have answer: "fst (rerank demo_rerank_config q docs 10 demo_provider_state) = Inr [(1, 1/2), (0, 0)]"
    if "length docs = 2" for q docs
    using that
    by (cases "docs = []")
      (simp_all add: rerank_def demo_rerank_config_def reported_def on_world_def note_failure_def act_defs)
  have "effective_queries ''f'' [] = Inr [''f'']" by code_simp
  then show ?thesis using len
    by (auto simp: search_def demo_rerank_env_def demo_search_env_def retrieve_query_def semantic_candidates_def respond_def
        Let_def plain_response_def answer py_index_def reranked_mode_def retrieval_mode_def clamp_limit_def)
qed

theorem reranked_search_is_valid_witness:
  "\<exists>r. search demo_rerank_env ''f'' 10 [] ''thorough'' = Inr r \<and> rs_reranked r
     \<and> length (rs_matches r) = 2 \<and> distinct (map ma_id (rs_matches r))"
proof -
  obtain r where r: "search demo_rerank_env ''f'' 10 [] ''thorough'' = Inr r" "rs_reranked r" "length (rs_matches r) = 2"
    using demo_reranked by blast
  have "se_rerank demo_rerank_env = Some (\<lambda>q ds l. fst (rerank demo_rerank_config q ds l demo_provider_state))"
    by (simp add: demo_rerank_env_def)
  from reranked_search_is_valid [OF this r(1,2)]
  have "distinct (map ma_id (rs_matches r))" by (auto simp: reranking_of_def)
  then show ?thesis using r by blast
qed

section \<open>A score too large for a float\<close>

text \<open>An endpoint that gives every document the integer score \<open>n\<close>.\<close>

definition overflowing_endpoint :: "int \<Rightarrow> 'w rerank_config" where
  "overflowing_endpoint n =
     \<lparr>rk_model = ''m'',
      rk_post = \<lambda>payload. act_return (DObj [(''results'', DList
        (replicate (case dict_get payload ''top_n'' JNull of JInt k \<Rightarrow> nat k | _ \<Rightarrow> 0)
           (DObj [(''index'', DInt 0), (''relevance_score'', DInt n)])))])\<rparr>"

lemma rerank_overflow:
  assumes n: "2 ^ 1024 \<le> n" and "documents \<noteq> []" "1 \<le> limit"
  shows "fst (rerank (overflowing_endpoint n) query documents limit s) =
    Inl (OverflowError ''int too large to convert to float'')"
proof -
  define k where "k = nat (min limit (int (length documents)))"
  have k: "0 < k" using assms(2,3) by (simp add: k_def)
  have item: "parse_item (length documents) [] (Infinite False) (DObj [(''index'', DInt 0), (''relevance_score'', DInt n)]) =
      Inl (OverflowError ''int too large to convert to float'')"
  proof -
    have "2 ^ 1024 \<le> \<bar>n\<bar>" using n by (rule order_trans) simp
    note float_of_large_int [OF this]
    then show ?thesis using assms(2) by (simp add: parse_item_def field_def numeric_def)
  qed
  have "parse_results (DObj [(''results'', DList (replicate k (DObj [(''index'', DInt 0), (''relevance_score'', DInt n)])))])
      (length documents) k = Inl (OverflowError ''int too large to convert to float'')"
    using k by (cases k) (simp_all add: parse_results_def field_def item)
  then show ?thesis
    using assms(2,3)
    by (simp add: rerank_def Let_def k_def [symmetric] overflowing_endpoint_def rerank_payload_def dict_get_def reported_def
        on_world_def act_defs endpoint_failure_def)
qed

text \<open>Aux: A huge score makes search fail instead of degrade.  When the endpoint answers an integer score
  of \<open>2 ^ 1024\<close> or more, the conversion raises \<open>OverflowError\<close>, which the adapter does not
  report as the provider being unavailable: a search that succeeds without reranking raises it.\<close>

theorem huge_score_breaks_search:
  assumes "2 ^ 1024 \<le> n" "se_rerank env = Some (\<lambda>q ds l. fst (rerank (overflowing_endpoint n) q ds l s))"
    and "search env query limit queries ''fast'' = Inr r" "rs_matches r \<noteq> []" "sm = ''balanced'' \<or> sm = ''thorough''"
  shows "search env query limit queries sm = Inl (OverflowError ''int too large to convert to float'')"
proof -
  obtain qs results where s: "effective_queries query queries = Inr qs"
    "gather (retrieve_query env (candidate_limit (clamp_limit limit))) (enumerate 0 qs) = Inr results"
    "respond env (clamp_limit limit) ''fast'' qs results = Inr r"
    using search_Inr [OF assms(3)] by metis
  have sm: "sm \<noteq> ''fast''" "sm \<in> {''fast'', ''balanced'', ''thorough''}" using assms(5) by auto
  have fused: "merge_matches (map qr_matches results) \<noteq> []"
    using s(3) assms(4) by (auto simp: respond_def Let_def plain_response_def split: if_splits)
  have "1 \<le> clamp_limit limit" by (simp add: clamp_limit_def)
  then have "respond env (clamp_limit limit) sm qs results = Inl (OverflowError ''int too large to convert to float'')"
    using fused sm(1) by (simp add: respond_def Let_def assms(2) rerank_overflow [OF assms(1)] enrichment_failure_def)
  then show ?thesis using s(1,2) sm(2) by (simp add: search_def)
qed

theorem huge_score_breaks_search_witness:
  "search (demo_search_env\<lparr>se_rerank := Some (\<lambda>q ds l. fst (rerank (overflowing_endpoint (2 ^ 1024)) q ds l demo_provider_state))\<rparr>)
     ''f'' 10 [] ''thorough'' = Inl (OverflowError ''int too large to convert to float'')"
proof -
  let ?env = "demo_search_env\<lparr>se_rerank := Some (\<lambda>q ds l. fst (rerank (overflowing_endpoint (2 ^ 1024)) q ds l demo_provider_state))\<rparr>"
  have "case search ?env ''f'' 10 [] ''fast'' of Inr r \<Rightarrow> rs_matches r \<noteq> [] | Inl _ \<Rightarrow> False" by code_simp
  then obtain r where r: "search ?env ''f'' 10 [] ''fast'' = Inr r" "rs_matches r \<noteq> []" by (auto split: sum.splits)
  have "se_rerank ?env = Some (\<lambda>q ds l. fst (rerank (overflowing_endpoint (2 ^ 1024)) q ds l demo_provider_state))" by simp
  from huge_score_breaks_search [OF order_refl this r] show ?thesis by blast
qed

end
