(* ===== verification/Embedding_Provider.thy ===== *)
theory Embedding_Provider
  imports Provider_Contract Ingest_Pipeline
begin

text \<open>
  The adapter of an OpenAI-compatible embedding endpoint
  (\<open>src/src/scs/providers/openai_compatible.py\<close>) and the adapter of a local MLX model
  (\<open>mlx.py\<close>).  Sending a request, loading a model and running it are actions on the world;
  texts are code points, whose number is what the request limit counts.
\<close>

section \<open>Requests\<close>

record embed_config =
  ec_model :: string
  ec_dimension :: nat
  ec_batch :: nat
  ec_provider :: string
  ec_key :: "string option"

record embed_request =
  er_model :: string
  er_input :: "text_points list"
  er_headers :: "(string \<times> string) list"

definition max_request_characters :: nat where
  "max_request_characters = 120000"

text \<open>The constructor: the configuration and the failure known from the start.\<close>

definition new_embedding_provider ::
  "string \<Rightarrow> int \<Rightarrow> int \<Rightarrow> string \<Rightarrow> string option \<Rightarrow> exc + embed_config \<times> string option" where
  "new_embedding_provider model dimension batch provider key =
     (if batch < 1 then Inl (ValueError ''batch_size must be positive'')
      else Inr (\<lparr>ec_model = model, ec_dimension = nat dimension, ec_batch = nat batch, ec_provider = provider, ec_key = key\<rparr>,
                if provider = ''openai'' \<and> key = None then Some ''OPENAI_API_KEY is not configured'' else None))"

fun bounded_batches_from :: "nat \<Rightarrow> text_points list list \<Rightarrow> text_points list \<Rightarrow> nat \<Rightarrow> text_points list
    \<Rightarrow> exc + text_points list list" where
  "bounded_batches_from size_limit batches batch characters [] =
     Inr (if batch \<noteq> [] then batches @ [batch] else batches)"
| "bounded_batches_from size_limit batches batch characters (t # ts) =
     (if length t > max_request_characters
      then Inl (ValueError (''embedding input is too large: '' @ nat_digits (length t) @
        '' characters exceeds the '' @ nat_digits max_request_characters @ '' character limit''))
      else if batch \<noteq> [] \<and> (length batch = size_limit \<or> characters + length t > max_request_characters)
      then bounded_batches_from size_limit (batches @ [batch]) [t] (length t) ts
      else bounded_batches_from size_limit batches (batch @ [t]) (characters + length t) ts)"

definition bounded_batches :: "nat \<Rightarrow> text_points list \<Rightarrow> exc + text_points list list" where
  "bounded_batches size_limit inputs = bounded_batches_from size_limit [] [] 0 inputs"

section \<open>Replies\<close>

definition finite_component :: "decoded \<Rightarrow> exc + rat" where
  "finite_component value =
     (let infinite = Inl (ValueError ''embedding components must be finite'') in
      case numeric value of
        None \<Rightarrow> Inl (ValueError ''embedding components must be numeric'')
      | Some (Inl e) \<Rightarrow> (case e of OverflowError _ \<Rightarrow> infinite | _ \<Rightarrow> Inl e)
      | Some (Inr x) \<Rightarrow> (case x of Finite r \<Rightarrow> Inr r | _ \<Rightarrow> infinite))"

definition parse_vector :: "nat \<Rightarrow> decoded \<Rightarrow> exc + vector" where
  "parse_vector dm raw =
     (case raw of
        DList components \<Rightarrow>
          and_then (gather finite_component components) (\<lambda>v.
            if length v \<noteq> dm
            then Inl (ValueError (''embedding dimension mismatch: expected '' @ nat_digits dm @ '', got '' @ nat_digits (length v)))
            else Inr v)
      | _ \<Rightarrow> Inl (ValueError ''embedding response entry must contain an embedding list''))"

definition place_item :: "nat \<Rightarrow> vector option list \<Rightarrow> decoded \<Rightarrow> exc + vector option list" where
  "place_item dm ordered item =
     (case item of
        DObj kvs \<Rightarrow>
          (let bad_index = Inl (ValueError ''embedding response indexes must be unique and contiguous'') in
           case field kvs ''index'' of
             DInt i \<Rightarrow>
               if i < 0 \<or> int (length ordered) \<le> i \<or> ordered ! nat i \<noteq> None then bad_index
               else and_then (parse_vector dm (field kvs ''embedding'')) (\<lambda>v. Inr (ordered[nat i := Some v]))
           | _ \<Rightarrow> bad_index)
      | _ \<Rightarrow> Inl (ValueError ''embedding response data must contain objects''))"

fun place_items :: "nat \<Rightarrow> vector option list \<Rightarrow> decoded list \<Rightarrow> exc + vector option list" where
  "place_items dm ordered [] = Inr ordered"
| "place_items dm ordered (item # items) =
     and_then (place_item dm ordered item) (\<lambda>ordered'. place_items dm ordered' items)"

definition parse_embeddings :: "nat \<Rightarrow> decoded \<Rightarrow> nat \<Rightarrow> exc + vector list" where
  "parse_embeddings dm response expected =
     (case response of
        DObj kvs \<Rightarrow>
          (let mismatch = Inl (ValueError ''embedding response count does not match request'') in
           case field kvs ''data'' of
             DList items \<Rightarrow>
               if length items \<noteq> expected then mismatch
               else and_then (place_items dm (replicate expected None) items) (\<lambda>ordered.
                 if None \<in> set ordered
                 then Inl (ValueError ''embedding response indexes must be contiguous'')
                 else Inr (map the ordered))
           | _ \<Rightarrow> mismatch)
      | _ \<Rightarrow> Inl (ValueError ''embedding response must be an object''))"

text \<open>\<open>_http_error_message\<close>, for a detail whose JSON parses to \<open>body\<close>, if it does.\<close>

definition http_error_message :: "(string \<Rightarrow> decoded option) \<Rightarrow> string \<Rightarrow> string \<Rightarrow> string" where
  "http_error_message loads detail reason =
     (let stripped = strip detail; plain = (if stripped \<noteq> [] then stripped else reason) in
      case loads stripped of
        Some (DObj kvs) \<Rightarrow> (case field kvs ''detail'' of DStr s \<Rightarrow> if s \<noteq> [] then s else plain | _ \<Rightarrow> plain)
      | _ \<Rightarrow> plain)"

section \<open>Embedding\<close>

type_synonym 'w post = "embed_request \<Rightarrow> ('w, decoded) act"

definition request_of :: "embed_config \<Rightarrow> text_points list \<Rightarrow> embed_request" where
  "request_of cfg batch =
     \<lparr>er_model = ec_model cfg, er_input = batch,
      er_headers = (case ec_key cfg of Some k \<Rightarrow> [(''Authorization'', ''Bearer '' @ k)] | None \<Rightarrow> [])\<rparr>"

definition embed_request_batch :: "embed_config \<Rightarrow> 'w post \<Rightarrow> text_points list \<Rightarrow> ('w provider_state, vector list) act" where
  "embed_request_batch cfg post batch =
     act_bind (on_world (post (request_of cfg batch))) (\<lambda>response.
       act_lift (parse_embeddings (ec_dimension cfg) response (length batch)))"

definition prefixed :: "string \<Rightarrow> text_points \<Rightarrow> text_points" where
  "prefixed task text = text_of (task @ '': '') @ text"

definition embed_texts :: "embed_config \<Rightarrow> 'w post \<Rightarrow> string \<Rightarrow> text_points list \<Rightarrow> ('w provider_state, vector list) act" where
  "embed_texts cfg post task texts =
     (if texts = [] then act_return []
      else if ec_provider cfg = ''openai'' \<and> ec_key cfg = None
      then act_raise (ProviderUnavailableError ''OPENAI_API_KEY is not configured'')
      else reported ''OpenAI-compatible embedding provider''
        (act_bind (act_lift (bounded_batches (ec_batch cfg) (map (prefixed task) texts))) (\<lambda>batches.
         act_bind (act_map (embed_request_batch cfg post) batches) (\<lambda>parts.
           act_return (concat parts)))))"

definition embed_documents :: "embed_config \<Rightarrow> 'w post \<Rightarrow> text_points list \<Rightarrow> ('w provider_state, vector list) act" where
  "embed_documents cfg post texts = embed_texts cfg post ''search_document'' texts"

definition embed_query :: "embed_config \<Rightarrow> 'w post \<Rightarrow> text_points \<Rightarrow> ('w provider_state, vector) act" where
  "embed_query cfg post text =
     act_bind (embed_texts cfg post ''search_query'' [text]) (\<lambda>vectors. act_lift (py_index vectors 0))"

section \<open>Batches\<close>

definition characters_of :: "text_points list \<Rightarrow> nat" where
  "characters_of batch = sum_list (map length batch)"

definition within_limits :: "nat \<Rightarrow> text_points list \<Rightarrow> bool" where
  "within_limits size_limit batch =
     (batch \<noteq> [] \<and> length batch \<le> size_limit \<and> characters_of batch \<le> max_request_characters)"

text \<open>A batch was closed because the next input would not have fitted.\<close>

fun closed_for_cause :: "nat \<Rightarrow> text_points list list \<Rightarrow> bool" where
  "closed_for_cause size_limit (b # c # bs) =
     ((length b = size_limit \<or> characters_of b + length (hd c) > max_request_characters)
      \<and> closed_for_cause size_limit (c # bs))"
| "closed_for_cause size_limit bs = True"

lemma closed_for_cause_snoc:
  "closed_for_cause n (bs @ [b, c]) \<longleftrightarrow>
   closed_for_cause n (bs @ [b]) \<and> (length b = n \<or> characters_of b + length (hd c) > max_request_characters)"
  by (induction bs rule: induct_list012) auto

lemma closed_for_cause_grow:
  "b \<noteq> [] \<Longrightarrow> closed_for_cause n (bs @ [b @ [t]]) = closed_for_cause n (bs @ [b])"
  by (induction bs rule: induct_list012) auto

lemma bounded_batches_from_Inr:
  assumes "bounded_batches_from n batches batch characters ts = Inr result" "0 < n"
    and "characters = characters_of batch" "list_all (within_limits n) batches" "length batch \<le> n"
    and "characters \<le> max_request_characters" "batches \<noteq> [] \<longrightarrow> batch \<noteq> []"
    and "closed_for_cause n (batches @ (if batch = [] then [] else [batch]))"
  shows "concat result = concat batches @ batch @ ts \<and> list_all (within_limits n) result \<and> closed_for_cause n result"
  using assms
proof (induction n batches batch characters ts rule: bounded_batches_from.induct)
  case (1 n batches batch characters)
  then show ?case by (auto simp: within_limits_def split: if_splits)
next
  case (2 n batches batch characters t ts)
  have t: "length t \<le> max_request_characters" using "2.prems"(1) by (simp split: if_splits)
  have fits: "\<not> max_request_characters < length t" using t by simp
  show ?case
  proof (cases "batch \<noteq> [] \<and> (length batch = n \<or> characters + length t > max_request_characters)")
    case True
    have step: "bounded_batches_from n (batches @ [batch]) [t] (length t) ts = Inr result"
      using "2.prems"(1) True fits by simp
    have "closed_for_cause n ((batches @ [batch]) @ (if [t] = [] then [] else [[t]]))"
      using True "2.prems"(3,8) by (simp add: closed_for_cause_snoc)
    moreover have "list_all (within_limits n) (batches @ [batch])"
      using True "2.prems"(3-6) by (simp add: within_limits_def [of n batch])
    ultimately show ?thesis
      using "2.IH"(1) [OF fits True step "2.prems"(2)] t "2.prems"(2) by (simp add: characters_of_def)
  next
    case False
    have step: "bounded_batches_from n batches (batch @ [t]) (characters + length t) ts = Inr result"
      using "2.prems"(1) False fits by simp
    have "length (batch @ [t]) \<le> n" using False "2.prems"(2,5) by (cases "batch = []") auto
    moreover have "closed_for_cause n (batches @ (if batch @ [t] = [] then [] else [batch @ [t]]))"
      using "2.prems"(7,8) by (cases "batch = []") (auto simp: closed_for_cause_grow)
    moreover have "characters + length t \<le> max_request_characters"
      using False t "2.prems"(3) by (cases "batch = []") (auto simp: characters_of_def)
    ultimately show ?thesis
      using "2.IH"(2) [OF fits False step "2.prems"(2)] "2.prems"(3,4) by (simp add: characters_of_def)
  qed
qed

lemma bounded_batches_Inr:
  assumes "bounded_batches n inputs = Inr batches" "0 < n"
  shows "concat batches = inputs" "list_all (within_limits n) batches" "closed_for_cause n batches"
  using bounded_batches_from_Inr [OF assms(1) [unfolded bounded_batches_def] assms(2)] by (simp_all add: characters_of_def)

text \<open>The only failure is an input that no request could carry.\<close>

lemma bounded_batches_from_Inl:
  "is_raise (bounded_batches_from n batches batch characters ts) \<longleftrightarrow> list_ex (\<lambda>t. length t > max_request_characters) ts"
  by (induction n batches batch characters ts rule: bounded_batches_from.induct) auto

section \<open>Replies in the order of the inputs\<close>

text \<open>The item of a reply that answers input \<open>i\<close>, and the vector it carries.\<close>

definition entry_of :: "nat \<Rightarrow> nat \<Rightarrow> decoded \<Rightarrow> vector \<Rightarrow> bool" where
  "entry_of dm i item v =
     (case item of
        DObj kvs \<Rightarrow> field kvs ''index'' = DInt (int i) \<and> parse_vector dm (field kvs ''embedding'') = Inr v
      | _ \<Rightarrow> False)"

definition reply_items :: "decoded \<Rightarrow> decoded list" where
  "reply_items reply =
     (case reply of DObj kvs \<Rightarrow> (case field kvs ''data'' of DList items \<Rightarrow> items | _ \<Rightarrow> []) | _ \<Rightarrow> [])"

text \<open>The reply has one item per input, and the item with index \<open>i\<close> carries vector \<open>i\<close>.\<close>

definition answered_by :: "nat \<Rightarrow> decoded \<Rightarrow> vector list \<Rightarrow> bool" where
  "answered_by dm reply vs =
     (length (reply_items reply) = length vs
      \<and> (\<forall>i<length vs. \<exists>item\<in>set (reply_items reply). entry_of dm i item (vs ! i)))"

lemma parse_vector_length: "parse_vector dm raw = Inr v \<Longrightarrow> length v = dm"
  by (auto simp: parse_vector_def and_then_Inr_iff split: decoded.splits if_splits)

lemma entry_of_length: "entry_of dm i item v \<Longrightarrow> length v = dm"
  by (cases item) (auto simp: entry_of_def dest: parse_vector_length)

lemma place_item_Inr:
  assumes "place_item dm ordered item = Inr ordered'"
  shows "\<exists>i v. i < length ordered \<and> ordered ! i = None \<and> ordered' = ordered[i := Some v] \<and> entry_of dm i item v"
proof -
  obtain kvs i v where "item = DObj kvs" "field kvs ''index'' = DInt i" "0 \<le> i" "i < int (length ordered)"
    "ordered ! nat i = None" "parse_vector dm (field kvs ''embedding'') = Inr v" "ordered' = ordered[nat i := Some v]"
    using assms by (auto simp: place_item_def Let_def and_then_Inr_iff split: decoded.splits if_splits)
  then show ?thesis by (intro exI [of _ "nat i"] exI [of _ v]) (simp add: entry_of_def nat_less_iff)
qed

lemma place_items_Inr:
  assumes "place_items dm ordered items = Inr ordered'"
  shows "length ordered' = length ordered
    \<and> (\<forall>i<length ordered. ordered ! i \<noteq> None \<longrightarrow> ordered' ! i = ordered ! i)
    \<and> (\<forall>i<length ordered. \<forall>v. ordered' ! i = Some v \<longrightarrow> ordered ! i = Some v \<or> (\<exists>item\<in>set items. entry_of dm i item v))"
  using assms
proof (induction dm ordered items rule: place_items.induct)
  case (1 dm ordered)
  then show ?case by simp
next
  case (2 dm ordered item items)
  from "2.prems" obtain mid where m: "place_item dm ordered item = Inr mid" "place_items dm mid items = Inr ordered'"
    by (auto simp: and_then_Inr_iff)
  obtain k v where k: "k < length ordered" "ordered ! k = None" "mid = ordered[k := Some v]" "entry_of dm k item v"
    using place_item_Inr [OF m(1)] by blast
  note ih = "2.IH" [OF m(2)]
  have len: "length mid = length ordered" using k(3) by simp
  have "ordered' ! i = ordered ! i" if "i < length ordered" "ordered ! i \<noteq> None" for i
    using ih that k len by (cases "i = k") auto
  moreover have "ordered ! i = Some u \<or> (\<exists>x\<in>set (item # items). entry_of dm i x u)"
    if "i < length ordered" "ordered' ! i = Some u" for i u
  proof (cases "i = k")
    case True
    then have "mid ! i = Some v" using k by simp
    then have "ordered' ! i = Some v" using ih that(1) len by auto
    then show ?thesis using True k(4) that(2) by auto
  next
    case False
    then have "mid ! i = ordered ! i" using k(3) by simp
    then show ?thesis using ih that len by auto
  qed
  ultimately show ?case using ih len by simp
qed

lemma parse_embeddings_Inr:
  assumes "parse_embeddings dm reply n = Inr vs"
  shows "length vs = n" "list_all (\<lambda>v. length v = dm) vs" "answered_by dm reply vs"
proof -
  obtain kvs items ordered where p: "reply = DObj kvs" "field kvs ''data'' = DList items" "length items = n"
    "place_items dm (replicate n None) items = Inr ordered" "None \<notin> set ordered" "vs = map the ordered"
    using assms by (auto simp: parse_embeddings_def Let_def and_then_Inr_iff split: decoded.splits if_splits)
  note placed = place_items_Inr [OF p(4)]
  show len: "length vs = n" using placed p(6) by simp
  have entry: "\<exists>item\<in>set items. entry_of dm i item (vs ! i)" if "i < n" for i
  proof -
    have i: "i < length ordered" using placed that by simp
    then have "ordered ! i \<noteq> None" using p(5) by (metis nth_mem)
    then obtain v where v: "ordered ! i = Some v" by blast
    then show ?thesis using placed that i p(6) by fastforce
  qed
  then show "answered_by dm reply vs"
    using len p(1-3) by (simp add: answered_by_def reply_items_def)
  have "length v = dm" if v: "v \<in> set vs" for v
  proof -
    obtain i where "i < n" "vs ! i = v" using v len by (metis in_set_conv_nth)
    then show ?thesis using entry [of i] entry_of_length by metis
  qed
  then show "list_all (\<lambda>v. length v = dm) vs" by (simp add: list_all_iff)
qed

section \<open>Embedding all texts\<close>

text \<open>A batch was sent in some state of the world and its vectors are those of the reply.\<close>

definition batch_served :: "embed_config \<Rightarrow> 'w post \<Rightarrow> text_points list \<Rightarrow> vector list \<Rightarrow> bool" where
  "batch_served cfg post batch vs =
     (length vs = length batch
      \<and> (\<exists>w w' reply. post (request_of cfg batch) w = (Inr reply, w') \<and> answered_by (ec_dimension cfg) reply vs))"

lemma on_world_Inr_iff: "on_world m s = (Inr x, t) \<longleftrightarrow> (\<exists>w. m (ps_world s) = (Inr x, w) \<and> t = s\<lparr>ps_world := w\<rparr>)"
  by (cases "m (ps_world s)") (auto simp: on_world_def)

lemma embed_request_batch_Inr:
  assumes "embed_request_batch cfg post batch s = (Inr vs, t)"
  shows "batch_served cfg post batch vs" "list_all (\<lambda>v. length v = ec_dimension cfg) vs"
proof -
  obtain w reply where r: "post (request_of cfg batch) (ps_world s) = (Inr reply, w)"
    "parse_embeddings (ec_dimension cfg) reply (length batch) = Inr vs"
    using assms by (auto simp: embed_request_batch_def act_bind_Inr_iff on_world_Inr_iff act_lift_def)
  note parsed = parse_embeddings_Inr [OF r(2)]
  show "batch_served cfg post batch vs" using r(1) parsed by (auto simp: batch_served_def)
  show "list_all (\<lambda>v. length v = ec_dimension cfg) vs" by (rule parsed(2))
qed

lemma embed_batches_Inr:
  "act_map (embed_request_batch cfg post) batches s = (Inr parts, t) \<Longrightarrow>
   list_all2 (batch_served cfg post) batches parts \<and> list_all (\<lambda>v. length v = ec_dimension cfg) (concat parts)"
proof (induction batches arbitrary: s parts)
  case Nil
  then show ?case by (simp add: act_return_def)
next
  case (Cons b bs)
  then obtain vs s' rest where "embed_request_batch cfg post b s = (Inr vs, s')"
    "act_map (embed_request_batch cfg post) bs s' = (Inr rest, t)" "parts = vs # rest"
    by (auto simp: act_bind_Inr_iff act_return_def)
  then show ?case using Cons.IH embed_request_batch_Inr by fastforce
qed

lemma embed_texts_Inr:
  assumes "embed_texts cfg post task texts s = (Inr vs, t)" "0 < ec_batch cfg"
  shows "\<exists>batches parts. concat batches = map (prefixed task) texts \<and> vs = concat parts
     \<and> list_all (within_limits (ec_batch cfg)) batches \<and> closed_for_cause (ec_batch cfg) batches
     \<and> list_all2 (batch_served cfg post) batches parts \<and> list_all (\<lambda>v. length v = ec_dimension cfg) vs"
proof (cases "texts = []")
  case True
  then show ?thesis using assms(1)
    by (intro exI [of _ "[]"]) (simp add: embed_texts_def act_return_def)
next
  case False
  then obtain batches parts s' s'' where b: "bounded_batches (ec_batch cfg) (map (prefixed task) texts) = Inr batches"
    "act_map (embed_request_batch cfg post) batches s' = (Inr parts, s'')" "vs = concat parts"
    using assms(1)
    by (auto simp: embed_texts_def act_raise_def reported_Inr_iff act_bind_Inr_iff act_lift_def act_return_def
        split: if_splits)
  note batches = bounded_batches_Inr [OF b(1) assms(2)] and served = embed_batches_Inr [OF b(2)]
  show ?thesis
    by (rule exI [of _ batches], rule exI [of _ parts]) (use b(3) batches served in simp)
qed

lemma batch_served_lengths:
  "list_all2 (batch_served cfg post) batches parts \<Longrightarrow> length (concat parts) = length (concat batches)"
  by (induction rule: list_all2_induct) (simp_all add: batch_served_def)

lemma embed_texts_length:
  assumes "embed_texts cfg post task texts s = (Inr vs, t)" "0 < ec_batch cfg"
  shows "length vs = length texts"
  using embed_texts_Inr [OF assms] batch_served_lengths by (metis length_map)

lemma constructed_config:
  assumes "new_embedding_provider model dimension batch provider key = Inr (cfg, reason)"
  shows "0 < ec_batch cfg" "ec_batch cfg = nat batch" "ec_dimension cfg = nat dimension"
  using assms by (auto simp: new_embedding_provider_def split: if_splits)

text \<open>C29: Embeddings belong to their inputs.  A provider that was constructed sends the prefixed texts in
  order, each exactly once, in requests of at most the configured number of inputs and 120000
  characters, and starts a new request only when the next input would not fit.  If it returns, every
  request got a reply with one item per input, vector \<open>i\<close> is the one the item with index \<open>i\<close>
  carries in whatever order the items came, and all vectors have the configured dimension.\<close>

theorem embeddings_match_inputs:
  assumes "new_embedding_provider model dimension batch provider key = Inr (cfg, reason)"
    and "embed_documents cfg post texts s = (Inr vs, t)"
  shows "length vs = length texts \<and> list_all (\<lambda>v. length v = nat dimension) vs
     \<and> (\<exists>batches parts. concat batches = map (prefixed ''search_document'') texts \<and> vs = concat parts
          \<and> list_all (within_limits (nat batch)) batches \<and> closed_for_cause (nat batch) batches
          \<and> list_all2 (batch_served cfg post) batches parts)"
proof -
  note cfg = constructed_config [OF assms(1)]
  note made = assms(2) [unfolded embed_documents_def]
  show ?thesis
    using embed_texts_Inr [OF made cfg(1)] embed_texts_length [OF made cfg(1)] unfolding cfg(2,3) by blast
qed

definition demo_embed_config :: embed_config where
  "demo_embed_config = \<lparr>ec_model = ''m'', ec_dimension = 1, ec_batch = 2, ec_provider = ''local'', ec_key = None\<rparr>"

text \<open>An endpoint that answers the inputs in reverse order with their lengths.\<close>

definition demo_embed_post :: "unit post" where
  "demo_embed_post request =
     act_return (DObj [(''data'', DList (rev (map (\<lambda>(i, t). DObj [(''index'', DInt (int i)),
        (''embedding'', DList [DFloat (Finite (of_nat (length t)))])]) (enumerate 0 (er_input request)))))])"

lemma demo_embedded:
  "fst (embed_documents demo_embed_config demo_embed_post [[97], [98, 99], []] \<lparr>ps_world = (), ps_unavailable = None\<rparr>) =
     Inr [[18], [19], [17]]"
proof -
  define p where "p = prefixed ''search_document''"
  have "length (p t) = 17 + length t" for t by (simp add: p_def prefixed_def text_of_def)
  then have batches: "bounded_batches 2 [p [97], p [98, 99], p []] = Inr [[p [97], p [98, 99]], [p []]]"
    by (simp add: bounded_batches_def max_request_characters_def)
  have reply: "embed_request_batch demo_embed_config demo_embed_post [p [97], p [98, 99]] s = (Inr [[18], [19]], s)"
    "embed_request_batch demo_embed_config demo_embed_post [p []] s = (Inr [[17]], s)" for s
    by (cases s, simp add: p_def, code_simp)+
  show ?thesis
    by (simp add: embed_documents_def embed_texts_def p_def [symmetric] batches reply reported_def note_failure_def act_defs
        demo_embed_config_def [THEN arg_cong, of ec_batch] demo_embed_config_def [THEN arg_cong, of ec_provider])
qed

theorem embeddings_match_inputs_witness:
  "\<exists>vs t. embed_documents demo_embed_config demo_embed_post [[97], [98, 99], []] \<lparr>ps_world = (), ps_unavailable = None\<rparr> = (Inr vs, t)
     \<and> vs = [[18], [19], [17]]
     \<and> (\<exists>batches. concat batches = map (prefixed ''search_document'') [[97], [98, 99], []] \<and> closed_for_cause 2 batches)"
proof -
  let ?run = "embed_documents demo_embed_config demo_embed_post [[97], [98, 99], []] \<lparr>ps_world = (), ps_unavailable = None\<rparr>"
  have new: "new_embedding_provider ''m'' 1 2 ''local'' None = Inr (demo_embed_config, None)"
    by (simp add: new_embedding_provider_def demo_embed_config_def)
  have run: "?run = (Inr [[18], [19], [17]], snd ?run)" using demo_embedded by (metis prod.collapse)
  from embeddings_match_inputs [OF new run] obtain batches where
    "concat batches = map (prefixed ''search_document'') [[97], [98, 99], []]" "closed_for_cause (nat 2) batches" by blast
  then show ?thesis using run by (metis nat_numeral)
qed

lemma embed_texts_dimension:
  "embed_texts cfg post task texts s = (Inr vs, t) \<Longrightarrow> list_all (\<lambda>v. length v = ec_dimension cfg) vs"
  by (auto simp: embed_texts_def act_raise_def reported_Inr_iff act_bind_Inr_iff act_lift_def act_return_def
      dest: embed_batches_Inr split: if_splits)

lemma embed_query_dimension: "embed_query cfg post text s = (Inr v, t) \<Longrightarrow> length v = ec_dimension cfg"
  by (auto simp: embed_query_def act_bind_Inr_iff act_lift_def py_index_def list_all_length
      dest: embed_texts_dimension split: if_splits)

section \<open>A local model\<close>

text \<open>
  The model is third-party code: loading it, running it, what its result is as nested values (None
  where a list or an iterable is required and something else was found) and the conversion of a
  scalar of its own to a float are given.
\<close>

record ('w, 'm) mlx_state =
  mx_world :: 'w
  mx_model :: "'m option"
  mx_unavailable :: "string option"

record ('w, 'm, 'v, 'c) mlx_config =
  mc_name :: string
  mc_dimension :: nat
  mc_batch :: int
  mc_load :: "string \<Rightarrow> ('w, 'm) act"
  mc_encode :: "'m \<Rightarrow> text_points list \<Rightarrow> ('w, 'v) act"
  mc_rows :: "'v \<Rightarrow> 'c list option list option"
  mc_float :: "'c \<Rightarrow> exc + pyfloat"

definition on_mlx :: "('w, 'a) act \<Rightarrow> (('w, 'm) mlx_state, 'a) act" where
  "on_mlx m s = (case m (mx_world s) of (r, w) \<Rightarrow> (r, s\<lparr>mx_world := w\<rparr>))"

text \<open>\<open>except (ImportError, OSError, RuntimeError)\<close>\<close>

definition load_failure :: "exc \<Rightarrow> bool" where
  "load_failure e = (provider_failure e \<or> (case e of ImportError _ \<Rightarrow> True | _ \<Rightarrow> False))"

definition mlx_load :: "('w, 'm, 'v, 'c) mlx_config \<Rightarrow> (('w, 'm) mlx_state, 'm) act" where
  "mlx_load cfg s =
     (case mx_model s of
        Some m \<Rightarrow> (Inr m, s)
      | None \<Rightarrow>
          act_handle
            (act_bind (on_mlx (mc_load cfg (mc_name cfg))) (\<lambda>m.
               act_seq (act_modify (\<lambda>s. s\<lparr>mx_model := Some m\<rparr>)) (act_return m)))
            (\<lambda>e. if load_failure e
                 then act_seq (act_modify (\<lambda>s. s\<lparr>mx_unavailable := Some (exc_str e)\<rparr>))
                        (act_raise (ProviderUnavailableError (''MLX embedding provider is unavailable: '' @ exc_str e)))
                 else act_raise e) s)"

definition mlx_rows :: "('w, 'm, 'v, 'c) mlx_config \<Rightarrow> 'v \<Rightarrow> exc + pyfloat list list" where
  "mlx_rows cfg result =
     (case mc_rows cfg result of
        None \<Rightarrow> Inl (TypeError ''Embedding model returned a non-sequence result'')
      | Some rows \<Rightarrow>
          gather (\<lambda>row. case row of
              None \<Rightarrow> Inl (TypeError ''Embedding model returned a non-sequence row'')
            | Some cells \<Rightarrow> gather (mc_float cfg) cells) rows)"

definition validate_dimensions :: "nat \<Rightarrow> 'a list list \<Rightarrow> exc + unit" where
  "validate_dimensions dm rows =
     (case find (\<lambda>row. length row \<noteq> dm) rows of
        None \<Rightarrow> Inr ()
      | Some row \<Rightarrow> Inl (ValueError (''Embedding dimension mismatch: expected '' @ nat_digits dm @ '', got '' @ nat_digits (length row))))"

definition mlx_encode ::
  "('w, 'm, 'v, 'c) mlx_config \<Rightarrow> 'm \<Rightarrow> string \<Rightarrow> text_points list \<Rightarrow> (('w, 'm) mlx_state, pyfloat list list) act" where
  "mlx_encode cfg m task texts =
     act_bind (on_mlx (mc_encode cfg m (map (prefixed task) texts))) (\<lambda>result. act_lift (mlx_rows cfg result))"

definition mlx_embed_documents ::
  "('w, 'm, 'v, 'c) mlx_config \<Rightarrow> text_points list \<Rightarrow> (('w, 'm) mlx_state, pyfloat list list) act" where
  "mlx_embed_documents cfg texts =
     (if texts = [] then act_return []
      else
        act_bind (mlx_load cfg) (\<lambda>m.
          if mc_batch cfg = 0 then act_raise (ValueError ''range() arg 3 must not be zero'')
          else
            act_bind (act_map (mlx_encode cfg m ''search_document'') (slices (nat (mc_batch cfg)) texts)) (\<lambda>parts.
              act_seq (act_lift (validate_dimensions (mc_dimension cfg) (concat parts)))
                (act_return (concat parts)))))"

definition mlx_embed_documents_as ::
  "('w, 'm, 'v, 'c) mlx_config \<Rightarrow> string \<Rightarrow> text_points list \<Rightarrow> (('w, 'm) mlx_state, pyfloat list list) act" where
  "mlx_embed_documents_as cfg task texts =
     act_bind (mlx_load cfg) (\<lambda>m.
     act_bind (mlx_encode cfg m task texts) (\<lambda>rows.
     act_seq (act_lift (validate_dimensions (mc_dimension cfg) rows)) (act_return rows)))"

definition mlx_embed_query :: "('w, 'm, 'v, 'c) mlx_config \<Rightarrow> text_points \<Rightarrow> (('w, 'm) mlx_state, pyfloat list) act" where
  "mlx_embed_query cfg text =
     act_bind (mlx_embed_documents_as cfg ''search_query'' [text]) (\<lambda>rows. act_lift (py_index rows 0))"

lemma validate_dimensions_Inr: "validate_dimensions dm rows = Inr u \<longleftrightarrow> list_all (\<lambda>row. length row = dm) rows"
  by (auto simp: validate_dimensions_def list_all_iff find_None_iff find_Some_iff split: option.splits)

lemma mlx_documents_dimension:
  "mlx_embed_documents cfg texts s = (Inr vs, t) \<Longrightarrow> list_all (\<lambda>v. length v = mc_dimension cfg) vs"
  by (auto simp: mlx_embed_documents_def act_bind_Inr_iff act_seq_def act_lift_def act_return_def act_raise_def
      validate_dimensions_Inr split: if_splits)

lemma mlx_query_dimension:
  "mlx_embed_query cfg text s = (Inr v, t) \<Longrightarrow> length v = mc_dimension cfg"
  by (auto simp: mlx_embed_query_def mlx_embed_documents_as_def act_bind_Inr_iff act_seq_def act_lift_def act_return_def
      validate_dimensions_Inr list_all_length py_index_def split: if_splits)

interpretation local_model: embedder "mlx_embed_documents cfg" "mlx_embed_query cfg" "mc_dimension cfg"
  for cfg :: "('w, 'm, 'v, 'c) mlx_config"
  by unfold_locales (rule mlx_documents_dimension mlx_query_dimension, assumption)+

text \<open>A failed load is remembered for good: no later success clears the reason.\<close>

lemma mlx_load_remembers:
  assumes "mlx_load cfg s = (r, t)" "mx_unavailable s \<noteq> None"
  shows "mx_unavailable t \<noteq> None"
  using assms
  by (cases "mc_load cfg (mc_name cfg) (mx_world s)"; cases "fst (mc_load cfg (mc_name cfg) (mx_world s))")
    (auto simp: mlx_load_def on_mlx_def act_defs split: option.splits if_splits)

section \<open>Ingestion over an endpoint\<close>

text \<open>An embedder whose vectors are finite, as the store of vectors requires.\<close>

locale finite_embedder = embedder embed_documents embed_query dimension
  for embed_documents :: "text_points list \<Rightarrow> ('s, vector list) act"
    and embed_query :: "text_points \<Rightarrow> ('s, vector) act"
    and dimension :: nat
begin

lemma sliced_dimension:
  "act_map embed_documents xss s = (Inr parts, t) \<Longrightarrow> list_all (\<lambda>v. length v = dimension) (concat parts)"
proof (induction xss arbitrary: s parts)
  case Nil
  then show ?case by (simp add: act_return_def)
next
  case (Cons xs xss)
  then show ?case by (auto simp: act_bind_Inr_iff act_return_def dest: documents)
qed

text \<open>What the pipeline stores for a batch: one vector per entity, of the dimension of the index.\<close>

lemma stored_vectors:
  assumes "embed_vectors embed_documents texts s = (Inr (Inr vs), t)"
  shows "length vs = length texts \<and> list_all (\<lambda>v. length v = dimension) vs"
  using assms sliced_dimension
  by (auto simp: embed_vectors_def act_handle_Inr_iff act_bind_Inr_iff act_return_def act_raise_def split: if_splits)

end

interpretation endpoint: finite_embedder "embed_documents cfg post" "embed_query cfg post" "ec_dimension cfg"
  for cfg :: embed_config and post :: "'w post"
  by unfold_locales (simp add: embed_documents_def embed_texts_dimension, rule embed_query_dimension)

end
