(* ===== verification/Event_Broker.thy ===== *)
theory Event_Broker
  imports Scs_Prelude
begin

text \<open>
  The event broker (\<open>src/src/scs/wire/events.py\<close>): topics, subscriptions with bounded queues, and
  publishers that wait on a full queue.  A task switch can happen only where the code waits: in
  \<open>queue.put\<close> on a full queue and in \<open>queue.get\<close> on an empty one.  Publishing is therefore cut
  into its start, one delivery per queue, and its return; \<open>broker_act\<close> is one of these steps and a
  list of actions is a schedule.
\<close>

section \<open>State\<close>

record wire_event =
  we_topic :: string
  we_sequence :: nat
  we_terminal :: bool
  we_payload :: dict

text \<open>
  A subscription with its queue; the flag says that \<open>__anext__\<close> waits in \<open>queue.get\<close>.  What it has
  returned so far, and the sequence number of its topic at its start, are kept for the properties.
\<close>

record subscription =
  su_topic :: string
  su_closed :: bool
  su_waiting :: bool
  su_queue :: "wire_event list"
  su_received :: "wire_event list"
  su_base :: nat

text \<open>A task outside \<open>publish\<close>, or in it with the queues that its event has still to reach.\<close>

datatype publisher = Resting | Delivering wire_event "nat list"

record broker =
  br_sequences :: "string \<Rightarrow> nat"
  br_subscribers :: "string \<Rightarrow> nat list"
  br_subscriptions :: "subscription list"
  br_tasks :: "publisher list"

definition new_broker :: "nat \<Rightarrow> broker" where
  "new_broker tasks =
     \<lparr>br_sequences = \<lambda>_. 0, br_subscribers = \<lambda>_. [], br_subscriptions = [], br_tasks = replicate tasks Resting\<rparr>"

definition event_queue_capacity :: nat where
  "event_queue_capacity = 256"

section \<open>Operations\<close>

definition subscribe :: "string \<Rightarrow> broker \<Rightarrow> exc + broker" where
  "subscribe topic b =
     (if topic = [] then Inl (ValueError ''event topic must be non-empty'')
      else
        Inr (b\<lparr>br_subscribers := (br_subscribers b)(topic := br_subscribers b topic @ [length (br_subscriptions b)]),
               br_subscriptions := br_subscriptions b @
                 [\<lparr>su_topic = topic, su_closed = False, su_waiting = False, su_queue = [], su_received = [],
                   su_base = br_sequences b topic\<rparr>]\<rparr>))"

definition subscriber_count :: "string \<Rightarrow> broker \<Rightarrow> nat" where
  "subscriber_count topic b = length (br_subscribers b topic)"

definition remove_subscriber :: "string \<Rightarrow> nat \<Rightarrow> broker \<Rightarrow> broker" where
  "remove_subscriber topic q b =
     b\<lparr>br_subscribers := (br_subscribers b)(topic := filter (\<lambda>x. x \<noteq> q) (br_subscribers b topic))\<rparr>"

definition set_subscription :: "nat \<Rightarrow> subscription \<Rightarrow> broker \<Rightarrow> broker" where
  "set_subscription i s b = b\<lparr>br_subscriptions := (br_subscriptions b)[i := s]\<rparr>"

definition close_subscription :: "nat \<Rightarrow> broker \<Rightarrow> broker" where
  "close_subscription i b =
     (let s = br_subscriptions b ! i in
      if su_closed s then b
      else remove_subscriber (su_topic s) i (set_subscription i (s\<lparr>su_closed := True\<rparr>) b))"

text \<open>\<open>__anext__\<close>: the check, and the return of the next event once the queue has one.\<close>

definition ask_next :: "nat \<Rightarrow> broker \<Rightarrow> broker option" where
  "ask_next i b =
     (let s = br_subscriptions b ! i in
      if su_closed s \<or> su_waiting s then None else Some (set_subscription i (s\<lparr>su_waiting := True\<rparr>) b))"

definition take_next :: "nat \<Rightarrow> broker \<Rightarrow> broker option" where
  "take_next i b =
     (let s = br_subscriptions b ! i in
      case su_queue s of
        [] \<Rightarrow> None
      | e # es \<Rightarrow>
          if \<not> su_waiting s then None
          else
            (let b' = set_subscription i (s\<lparr>su_waiting := False, su_queue := es, su_received := su_received s @ [e]\<rparr>) b in
             Some (if we_terminal e then close_subscription i b' else b')))"

text \<open>The iteration order of the set of subscribers is any order of its members.\<close>

definition start_publish :: "nat \<Rightarrow> string \<Rightarrow> dict \<Rightarrow> bool \<Rightarrow> nat list \<Rightarrow> broker \<Rightarrow> broker option" where
  "start_publish t topic payload terminal order b =
     (if br_tasks b ! t \<noteq> Resting \<or> \<not> (distinct order \<and> set order = set (br_subscribers b topic)) then None
      else
        (let n = Suc (br_sequences b topic);
             e = \<lparr>we_topic = topic, we_sequence = n, we_terminal = terminal, we_payload = payload\<rparr> in
         Some (b\<lparr>br_tasks := (br_tasks b)[t := Delivering e order], br_sequences := (br_sequences b)(topic := n)\<rparr>)))"

definition put_event :: "nat \<Rightarrow> broker \<Rightarrow> broker option" where
  "put_event t b =
     (case br_tasks b ! t of
        Delivering e (q # qs) \<Rightarrow>
          (let s = br_subscriptions b ! q in
           if event_queue_capacity \<le> length (su_queue s) then None
           else Some (set_subscription q (s\<lparr>su_queue := su_queue s @ [e]\<rparr>) b\<lparr>br_tasks := (br_tasks b)[t := Delivering e qs]\<rparr>))
      | _ \<Rightarrow> None)"

definition return_publish :: "nat \<Rightarrow> broker \<Rightarrow> broker option" where
  "return_publish t b =
     (case br_tasks b ! t of
        Delivering e [] \<Rightarrow> Some (b\<lparr>br_tasks := (br_tasks b)[t := Resting]\<rparr>)
      | _ \<Rightarrow> None)"

section \<open>Schedules\<close>

datatype action =
    Subscribe string
  | Publish nat string dict bool "nat list"
  | Put nat
  | Return nat
  | Ask nat
  | Take nat
  | Close nat

fun broker_act :: "action \<Rightarrow> broker \<Rightarrow> broker option" where
  "broker_act (Subscribe topic) b = (case subscribe topic b of Inl _ \<Rightarrow> Some b | Inr b' \<Rightarrow> Some b')"
| "broker_act (Publish t topic payload terminal order) b =
     (if t < length (br_tasks b) then start_publish t topic payload terminal order b else None)"
| "broker_act (Put t) b = (if t < length (br_tasks b) then put_event t b else None)"
| "broker_act (Return t) b = (if t < length (br_tasks b) then return_publish t b else None)"
| "broker_act (Ask i) b = (if i < length (br_subscriptions b) then ask_next i b else None)"
| "broker_act (Take i) b = (if i < length (br_subscriptions b) then take_next i b else None)"
| "broker_act (Close i) b = (if i < length (br_subscriptions b) then Some (close_subscription i b) else None)"

fun schedule :: "action list \<Rightarrow> broker \<Rightarrow> broker option" where
  "schedule [] b = Some b"
| "schedule (a # as) b = (case broker_act a b of None \<Rightarrow> None | Some b' \<Rightarrow> schedule as b')"

lemma schedule_induct [consumes 2, case_names act]:
  assumes "schedule as b = Some b'" "P b"
    and "\<And>a b c. P b \<Longrightarrow> broker_act a b = Some c \<Longrightarrow> P c"
  shows "P b'"
  using assms(1,2)
proof (induction as arbitrary: b)
  case Nil
  then show ?case by simp
next
  case (Cons a as)
  then show ?case using assms(3) by (auto split: option.splits)
qed

section \<open>Consistency of the broker\<close>

definition task_ok :: "nat \<Rightarrow> publisher \<Rightarrow> bool" where
  "task_ok n p = (case p of Resting \<Rightarrow> True | Delivering e qs \<Rightarrow> distinct qs \<and> set qs \<subseteq> {..<n})"

definition broker_ok :: "broker \<Rightarrow> bool" where
  "broker_ok b =
     ((\<forall>topic. distinct (br_subscribers b topic)
        \<and> set (br_subscribers b topic) =
            {i. i < length (br_subscriptions b) \<and> su_topic (br_subscriptions b ! i) = topic
                \<and> \<not> su_closed (br_subscriptions b ! i)})
      \<and> (\<forall>i<length (br_subscriptions b). length (su_queue (br_subscriptions b ! i)) \<le> event_queue_capacity)
      \<and> list_all (task_ok (length (br_subscriptions b))) (br_tasks b))"

lemma nth_set_subscription:
  "i < length (br_subscriptions b) \<Longrightarrow>
   br_subscriptions (set_subscription i s b) ! j = (if j = i then s else br_subscriptions b ! j)"
  by (auto simp: set_subscription_def nth_list_update)

lemma nth_set_other: "i \<noteq> j \<Longrightarrow> br_subscriptions (set_subscription i s b) ! j = br_subscriptions b ! j"
  by (simp add: set_subscription_def)

lemma set_subscription_simps [simp]:
  "length (br_subscriptions (set_subscription i s b)) = length (br_subscriptions b)"
  "br_subscribers (set_subscription i s b) = br_subscribers b"
  "br_sequences (set_subscription i s b) = br_sequences b"
  "br_tasks (set_subscription i s b) = br_tasks b"
  by (simp_all add: set_subscription_def)

lemma close_subscription_simps [simp]:
  "length (br_subscriptions (close_subscription i b)) = length (br_subscriptions b)"
  "br_sequences (close_subscription i b) = br_sequences b"
  "br_tasks (close_subscription i b) = br_tasks b"
  by (simp_all add: close_subscription_def Let_def remove_subscriber_def)

lemma nth_close_subscription:
  "i < length (br_subscriptions b) \<Longrightarrow>
   br_subscriptions (close_subscription i b) ! j =
     (if j = i then (br_subscriptions b ! i)\<lparr>su_closed := True\<rparr> else br_subscriptions b ! j)"
  by (cases "br_subscriptions b ! i")
    (auto simp: close_subscription_def Let_def remove_subscriber_def nth_set_subscription)

text \<open>Changing a subscription in its queue and flags only.\<close>

lemma broker_ok_set:
  assumes "broker_ok b" "i < length (br_subscriptions b)" "su_topic s = su_topic (br_subscriptions b ! i)"
    "su_closed s = su_closed (br_subscriptions b ! i)" "length (su_queue s) \<le> event_queue_capacity"
  shows "broker_ok (set_subscription i s b)"
proof -
  let ?subs = "br_subscriptions (set_subscription i s b)"
  have same: "su_topic (?subs ! j) = su_topic (br_subscriptions b ! j)" "su_closed (?subs ! j) = su_closed (br_subscriptions b ! j)"
    for j using assms by (auto simp: nth_set_subscription)
  have "length (su_queue (?subs ! j)) \<le> event_queue_capacity" if "j < length (br_subscriptions b)" for j
    using assms that by (auto simp: nth_set_subscription broker_ok_def)
  then show ?thesis using assms(1) by (simp add: broker_ok_def same)
qed

lemma broker_ok_close:
  assumes "broker_ok b" "i < length (br_subscriptions b)"
  shows "broker_ok (close_subscription i b)"
proof (cases "su_closed (br_subscriptions b ! i)")
  case True
  then show ?thesis using assms by (simp add: close_subscription_def)
next
  case False
  let ?c = "close_subscription i b"
  have members: "br_subscribers ?c topic =
      (if topic = su_topic (br_subscriptions b ! i) then filter (\<lambda>x. x \<noteq> i) (br_subscribers b topic) else br_subscribers b topic)"
    for topic using False by (simp add: close_subscription_def Let_def remove_subscriber_def)
  have "set (br_subscribers ?c topic) =
      {j. j < length (br_subscriptions ?c) \<and> su_topic (br_subscriptions ?c ! j) = topic \<and> \<not> su_closed (br_subscriptions ?c ! j)}"
    for topic using assms by (auto simp: members broker_ok_def nth_close_subscription)
  moreover have "distinct (br_subscribers ?c topic)" for topic using assms(1) by (simp add: members broker_ok_def)
  moreover have "length (su_queue (br_subscriptions ?c ! j)) \<le> event_queue_capacity" if "j < length (br_subscriptions b)" for j
    using assms that by (simp add: broker_ok_def nth_close_subscription)
  ultimately show ?thesis using assms(1) by (simp add: broker_ok_def)
qed

lemma broker_ok_tasks:
  "broker_ok b \<Longrightarrow> task_ok (length (br_subscriptions b)) p \<Longrightarrow> broker_ok (b\<lparr>br_tasks := (br_tasks b)[t := p]\<rparr>)"
  by (auto simp: broker_ok_def list_all_iff dest!: set_update_subset_insert [THEN subsetD])

lemma broker_ok_sequences: "broker_ok (b\<lparr>br_sequences := f\<rparr>) = broker_ok b"
  by (simp add: broker_ok_def)

lemma task_ok_mono: "task_ok n p \<Longrightarrow> n \<le> m \<Longrightarrow> task_ok m p"
  by (cases p) (auto simp: task_ok_def)

lemma broker_ok_subscribe:
  assumes "broker_ok b" "subscribe topic b = Inr c"
  shows "broker_ok c"
proof -
  have c: "br_subscribers c = (br_subscribers b)(topic := br_subscribers b topic @ [length (br_subscriptions b)])"
    "br_subscriptions c = br_subscriptions b @
       [\<lparr>su_topic = topic, su_closed = False, su_waiting = False, su_queue = [], su_received = [], su_base = br_sequences b topic\<rparr>]"
    "br_tasks c = br_tasks b"
    using assms(2) by (auto simp: subscribe_def split: if_splits)
  have "list_all (task_ok (Suc (length (br_subscriptions b)))) (br_tasks b)"
    using assms(1) by (auto simp: broker_ok_def list_all_iff intro: task_ok_mono)
  then show ?thesis using assms(1) by (auto simp: broker_ok_def c nth_append less_Suc_eq)
qed

lemma broker_ok_act:
  assumes ok: "broker_ok b" and act: "broker_act a b = Some c"
  shows "broker_ok c"
proof (cases a)
  case (Subscribe topic)
  then show ?thesis using act ok by (auto intro: broker_ok_subscribe split: sum.splits)
next
  case (Publish t topic payload terminal order)
  have members: "set (br_subscribers b topic) \<subseteq> {..<length (br_subscriptions b)}" using ok by (auto simp: broker_ok_def)
  obtain e n where c: "c = b\<lparr>br_tasks := (br_tasks b)[t := Delivering e order], br_sequences := n\<rparr>"
    and order: "distinct order" "set order = set (br_subscribers b topic)"
    using act Publish by (auto simp: start_publish_def Let_def split: if_splits)
  have "task_ok (length (br_subscriptions b)) (Delivering e order)" using order members by (simp add: task_ok_def)
  from broker_ok_tasks [OF ok this, of t] show ?thesis unfolding c broker_ok_sequences .
next
  case (Put t)
  then obtain e q qs where t: "t < length (br_tasks b)" "br_tasks b ! t = Delivering e (q # qs)"
    "length (su_queue (br_subscriptions b ! q)) < event_queue_capacity"
    "c = set_subscription q ((br_subscriptions b ! q)\<lparr>su_queue := su_queue (br_subscriptions b ! q) @ [e]\<rparr>) b
           \<lparr>br_tasks := (br_tasks b)[t := Delivering e qs]\<rparr>"
    using act by (auto simp: put_event_def Let_def split: if_splits publisher.splits list.splits)
  have task: "task_ok (length (br_subscriptions b)) (br_tasks b ! t)" using ok t(1) by (simp add: broker_ok_def list_all_length)
  let ?b = "set_subscription q ((br_subscriptions b ! q)\<lparr>su_queue := su_queue (br_subscriptions b ! q) @ [e]\<rparr>) b"
  have "broker_ok ?b" using task t(2,3) by (intro broker_ok_set ok) (auto simp: task_ok_def)
  from broker_ok_tasks [OF this, of "Delivering e qs" t] show ?thesis using task t(2) by (simp add: t(4) task_ok_def)
next
  case (Return t)
  then show ?thesis using act broker_ok_tasks [OF ok, of Resting t]
    by (auto simp: return_publish_def task_ok_def split: if_splits publisher.splits list.splits)
next
  case (Ask i)
  then have i: "i < length (br_subscriptions b)"
    and c: "c = set_subscription i ((br_subscriptions b ! i)\<lparr>su_waiting := True\<rparr>) b"
    using act by (auto simp: ask_next_def Let_def split: if_splits)
  have "length (su_queue (br_subscriptions b ! i)) \<le> event_queue_capacity" using ok i by (simp add: broker_ok_def)
  then show ?thesis unfolding c using i by (intro broker_ok_set ok) simp_all
next
  case (Take i)
  then obtain e es where i: "i < length (br_subscriptions b)" "su_queue (br_subscriptions b ! i) = e # es"
    "c = (let b' = set_subscription i ((br_subscriptions b ! i)\<lparr>su_waiting := False, su_queue := es,
              su_received := su_received (br_subscriptions b ! i) @ [e]\<rparr>) b
          in if we_terminal e then close_subscription i b' else b')"
    using act by (auto simp: take_next_def Let_def split: if_splits list.splits)
  let ?b = "set_subscription i ((br_subscriptions b ! i)\<lparr>su_waiting := False, su_queue := es,
              su_received := su_received (br_subscriptions b ! i) @ [e]\<rparr>) b"
  have "length (su_queue (br_subscriptions b ! i)) \<le> event_queue_capacity" using ok i(1) by (simp add: broker_ok_def)
  then have "broker_ok ?b" using i(1,2) by (intro broker_ok_set ok) simp_all
  then show ?thesis using i(1) by (simp add: i(3) Let_def broker_ok_close)
next
  case (Close i)
  then show ?thesis using act ok by (auto intro: broker_ok_close split: if_splits)
qed

lemma broker_ok_new: "broker_ok (new_broker n)"
  by (simp add: broker_ok_def new_broker_def list_all_iff task_ok_def)

lemma broker_ok_schedule: "schedule as (new_broker n) = Some b \<Longrightarrow> broker_ok b"
  by (rule schedule_induct [where P = broker_ok], assumption, rule broker_ok_new, rule broker_ok_act)

section \<open>One publisher\<close>

text \<open>
  With one task that publishes, what a subscription has returned, what its queue holds and the
  event still on its way to it form one sequence of events.
\<close>

definition on_the_way :: "publisher list \<Rightarrow> nat \<Rightarrow> wire_event list" where
  "on_the_way tasks i = (case tasks of [Delivering e qs] \<Rightarrow> if i \<in> set qs then [e] else [] | _ \<Rightarrow> [])"

definition offered :: "broker \<Rightarrow> nat \<Rightarrow> wire_event list" where
  "offered b i = su_received (br_subscriptions b ! i) @ su_queue (br_subscriptions b ! i) @ on_the_way (br_tasks b) i"

definition consecutive :: "string \<Rightarrow> nat \<Rightarrow> wire_event list \<Rightarrow> bool" where
  "consecutive topic k es =
     (map we_sequence es = [Suc k..<Suc (k + length es)] \<and> (\<forall>e\<in>set es. we_topic e = topic))"

definition stream_ok :: "broker \<Rightarrow> nat \<Rightarrow> bool" where
  "stream_ok b i =
     (let s = br_subscriptions b ! i; es = offered b i in
      consecutive (su_topic s) (su_base s) es
      \<and> (\<not> su_closed s \<longrightarrow> su_base s + length es = br_sequences b (su_topic s)))"

definition streams_ok :: "broker \<Rightarrow> bool" where
  "streams_ok b = (broker_ok b \<and> length (br_tasks b) = 1 \<and> (\<forall>i<length (br_subscriptions b). stream_ok b i))"

lemma consecutive_Nil [simp]: "consecutive topic k []"
  by (simp add: consecutive_def)

lemma consecutive_snoc:
  "consecutive topic k (es @ [e]) \<longleftrightarrow>
   consecutive topic k es \<and> we_sequence e = Suc (k + length es) \<and> we_topic e = topic"
  by (auto simp: consecutive_def)

lemma consecutive_prefix: "consecutive topic k (xs @ ys) \<Longrightarrow> consecutive topic k xs"
proof (induction ys rule: rev_induct)
  case Nil
  then show ?case by simp
next
  case (snoc y ys)
  then show ?case by (simp flip: append_assoc add: consecutive_snoc)
qed

lemma stream_ok_cong:
  assumes "stream_ok b i" "offered c i = offered b i" "br_sequences c = br_sequences b"
    and "su_topic (br_subscriptions c ! i) = su_topic (br_subscriptions b ! i)"
      "su_base (br_subscriptions c ! i) = su_base (br_subscriptions b ! i)"
      "su_closed (br_subscriptions b ! i) \<longrightarrow> su_closed (br_subscriptions c ! i)"
  shows "stream_ok c i"
  using assms by (auto simp: stream_ok_def Let_def)

lemma single_task: "length ts = 1 \<Longrightarrow> t < length ts \<Longrightarrow> ts = [ts ! 0] \<and> t = 0"
  by (cases ts) auto

lemma streams_ok_act:
  assumes ok: "streams_ok b" and act: "broker_act a b = Some c"
  shows "streams_ok c"
proof -
  have bok: "broker_ok b" and one: "length (br_tasks b) = 1"
    and st: "\<And>i. i < length (br_subscriptions b) \<Longrightarrow> stream_ok b i"
    using ok by (auto simp: streams_ok_def)
  have cok: "broker_ok c" by (rule broker_ok_act [OF bok act])
  show ?thesis
  proof (cases a)
    case (Subscribe topic)
    show ?thesis
    proof (cases "topic = []")
      case True
      then show ?thesis using Subscribe act ok by (simp add: subscribe_def)
    next
      case False
      let ?new = "\<lparr>su_topic = topic, su_closed = False, su_waiting = False, su_queue = [], su_received = [],
          su_base = br_sequences b topic\<rparr>"
      have c: "br_subscriptions c = br_subscriptions b @ [?new]" "br_tasks c = br_tasks b" "br_sequences c = br_sequences b"
        using Subscribe act False by (auto simp: subscribe_def)
      have away: "on_the_way (br_tasks b) (length (br_subscriptions b)) = []"
        using bok one by (auto simp: on_the_way_def broker_ok_def task_ok_def length_Suc_conv split: publisher.splits)
      have "stream_ok c i" if i: "i < Suc (length (br_subscriptions b))" for i
      proof (cases "i = length (br_subscriptions b)")
        case True
        then show ?thesis using away by (simp add: stream_ok_def offered_def c)
      next
        case False
        then have "br_subscriptions c ! i = br_subscriptions b ! i" using i by (simp add: c nth_append)
        then show ?thesis using st [of i] False i by (simp add: stream_ok_def offered_def c)
      qed
      then show ?thesis using cok one by (simp add: streams_ok_def c)
    qed
  next
    case (Publish t topic payload terminal order)
    let ?e = "\<lparr>we_topic = topic, we_sequence = Suc (br_sequences b topic), we_terminal = terminal, we_payload = payload\<rparr>"
    have t: "br_tasks b = [Resting]" "t = 0" and order: "set order = set (br_subscribers b topic)"
      and c: "c = b\<lparr>br_tasks := [Delivering ?e order], br_sequences := (br_sequences b)(topic := Suc (br_sequences b topic))\<rparr>"
      using act Publish single_task [OF one, of t] by (auto simp: start_publish_def Let_def split: if_splits)
    have "stream_ok c i" if i: "i < length (br_subscriptions b)" for i
    proof -
      have member: "i \<in> set order \<longleftrightarrow> su_topic (br_subscriptions b ! i) = topic \<and> \<not> su_closed (br_subscriptions b ! i)"
        using bok i by (simp add: order broker_ok_def)
      have "offered c i = offered b i @ (if i \<in> set order then [?e] else [])"
        by (simp add: offered_def c t on_the_way_def)
      then show ?thesis using st [OF i] member
        by (auto simp: stream_ok_def Let_def c consecutive_snoc)
    qed
    then show ?thesis using cok by (simp add: streams_ok_def c)
  next
    case (Put t)
    then obtain e q qs where t: "br_tasks b = [Delivering e (q # qs)]" "t = 0"
      and c: "c = set_subscription q ((br_subscriptions b ! q)\<lparr>su_queue := su_queue (br_subscriptions b ! q) @ [e]\<rparr>) b
             \<lparr>br_tasks := [Delivering e qs]\<rparr>"
      using act single_task [OF one, of t]
      by (auto simp: put_event_def Let_def split: if_splits publisher.splits list.splits)
    have q: "q < length (br_subscriptions b)" "q \<notin> set qs" using bok by (auto simp: broker_ok_def t task_ok_def)
    have "stream_ok c i" if i: "i < length (br_subscriptions b)" for i
      by (rule stream_ok_cong [OF st [OF i]]) (use q in \<open>auto simp: offered_def c t on_the_way_def nth_set_subscription\<close>)
    then show ?thesis using cok by (simp add: streams_ok_def c)
  next
    case (Return t)
    then obtain e where "br_tasks b = [Delivering e []]" "c = b\<lparr>br_tasks := [Resting]\<rparr>"
      using act single_task [OF one, of t]
      by (auto simp: return_publish_def split: if_splits publisher.splits list.splits)
    then show ?thesis using cok st by (auto simp: streams_ok_def stream_ok_def offered_def on_the_way_def)
  next
    case (Ask i)
    then have c: "i < length (br_subscriptions b)" "c = set_subscription i ((br_subscriptions b ! i)\<lparr>su_waiting := True\<rparr>) b"
      using act by (auto simp: ask_next_def Let_def split: if_splits)
    have "stream_ok c j" if j: "j < length (br_subscriptions b)" for j
      by (rule stream_ok_cong [OF st [OF j]]) (use c in \<open>auto simp: offered_def nth_set_subscription\<close>)
    then show ?thesis using cok one c by (simp add: streams_ok_def)
  next
    case (Take i)
    then obtain e es where i: "i < length (br_subscriptions b)" "su_queue (br_subscriptions b ! i) = e # es"
      "c = (let b' = set_subscription i ((br_subscriptions b ! i)\<lparr>su_waiting := False, su_queue := es,
                su_received := su_received (br_subscriptions b ! i) @ [e]\<rparr>) b
            in if we_terminal e then close_subscription i b' else b')"
      using act by (auto simp: take_next_def Let_def split: if_splits list.splits)
    have "stream_ok c j" if j: "j < length (br_subscriptions b)" for j
      by (rule stream_ok_cong [OF st [OF j]])
        (use i in \<open>auto simp: offered_def nth_set_subscription nth_close_subscription Let_def\<close>)
    moreover have "length (br_subscriptions c) = length (br_subscriptions b)" "br_tasks c = br_tasks b"
      using i(3) by (simp_all add: Let_def)
    ultimately show ?thesis using cok one by (simp add: streams_ok_def)
  next
    case (Close i)
    then have c: "i < length (br_subscriptions b)" "c = close_subscription i b" using act by (auto split: if_splits)
    have "stream_ok c j" if j: "j < length (br_subscriptions b)" for j
      by (rule stream_ok_cong [OF st [OF j]]) (use c in \<open>auto simp: offered_def nth_close_subscription\<close>)
    then show ?thesis using cok one c by (simp add: streams_ok_def)
  qed
qed

lemma streams_ok_schedule: "schedule as (new_broker 1) = Some b \<Longrightarrow> streams_ok b"
  by (rule schedule_induct [where P = streams_ok], assumption, simp add: streams_ok_def broker_ok_new, simp add: new_broker_def,
      rule streams_ok_act)

text \<open>C34: With one publishing task a subscriber sees every event in order.  However reading, closing,
  subscribing and publishing are scheduled, what a subscription has returned is a gapless sequence
  of events of its topic that starts with the first one published after it subscribed; while it is
  open, the returned events, its queue and the event still being delivered are all of them; and no
  queue holds more than 256 events.\<close>

theorem subscriber_sees_every_event:
  assumes "schedule as (new_broker 1) = Some b" "i < length (br_subscriptions b)"
  shows "consecutive (su_topic (br_subscriptions b ! i)) (su_base (br_subscriptions b ! i)) (su_received (br_subscriptions b ! i))
     \<and> consecutive (su_topic (br_subscriptions b ! i)) (su_base (br_subscriptions b ! i)) (offered b i)
     \<and> (su_closed (br_subscriptions b ! i)
        \<or> su_base (br_subscriptions b ! i) + length (offered b i) = br_sequences b (su_topic (br_subscriptions b ! i)))
     \<and> length (su_queue (br_subscriptions b ! i)) \<le> event_queue_capacity"
proof -
  have ok: "streams_ok b" by (rule streams_ok_schedule [OF assms(1)])
  then have stream: "stream_ok b i" using assms(2) by (simp add: streams_ok_def)
  then have all: "consecutive (su_topic (br_subscriptions b ! i)) (su_base (br_subscriptions b ! i)) (offered b i)"
    by (simp add: stream_ok_def Let_def)
  then have "consecutive (su_topic (br_subscriptions b ! i)) (su_base (br_subscriptions b ! i)) (su_received (br_subscriptions b ! i))"
    unfolding offered_def by (rule consecutive_prefix)
  then show ?thesis using all stream ok assms(2) by (auto simp: stream_ok_def Let_def streams_ok_def broker_ok_def)
qed

definition demo_schedule :: "action list" where
  "demo_schedule =
     [Subscribe ''t'', Ask 0, Publish 0 ''t'' [] False [0], Put 0, Subscribe ''t'', Return 0, Take 0,
      Publish 0 ''t'' [] True [1, 0], Put 0, Ask 0, Put 0, Take 0]"

theorem subscriber_sees_every_event_witness:
  "\<exists>b. schedule demo_schedule (new_broker 1) = Some b
     \<and> map we_sequence (su_received (br_subscriptions b ! 0)) = [1, 2] \<and> su_closed (br_subscriptions b ! 0)
     \<and> su_base (br_subscriptions b ! 1) + length (offered b 1) = br_sequences b ''t''"
proof -
  have run: "case schedule demo_schedule (new_broker 1) of
      Some b \<Rightarrow> map we_sequence (su_received (br_subscriptions b ! 0)) = [1, 2] \<and> su_closed (br_subscriptions b ! 0)
        \<and> length (br_subscriptions b) = 2 \<and> \<not> su_closed (br_subscriptions b ! 1) \<and> su_topic (br_subscriptions b ! 1) = ''t''
    | None \<Rightarrow> False"
    by (simp add: demo_schedule_def new_broker_def subscribe_def ask_next_def set_subscription_def start_publish_def put_event_def
        return_publish_def take_next_def close_subscription_def remove_subscriber_def event_queue_capacity_def Let_def insert_commute)
  then obtain b where b: "schedule demo_schedule (new_broker 1) = Some b" by (auto split: option.splits)
  note run = run [unfolded b option.case]
  show ?thesis using run b subscriber_sees_every_event [OF b, of 1] by (intro exI [of _ b]) auto
qed

section \<open>A closed subscription\<close>

text \<open>The publisher waits for room in the full queue of a subscription that nobody reads any more.\<close>

definition stuck_publisher :: "nat \<Rightarrow> broker \<Rightarrow> bool" where
  "stuck_publisher t b =
     (t < length (br_tasks b)
      \<and> (case br_tasks b ! t of
           Delivering e (q # qs) \<Rightarrow>
             q < length (br_subscriptions b) \<and> su_closed (br_subscriptions b ! q) \<and> \<not> su_waiting (br_subscriptions b ! q)
             \<and> event_queue_capacity \<le> length (su_queue (br_subscriptions b ! q))
         | _ \<Rightarrow> False))"

lemma stuck_publisher_act:
  assumes stuck: "stuck_publisher t b" and act: "broker_act a b = Some c"
  shows "stuck_publisher t c \<and> br_tasks c ! t = br_tasks b ! t"
proof -
  obtain e q qs where t: "t < length (br_tasks b)" "br_tasks b ! t = Delivering e (q # qs)"
    and q: "q < length (br_subscriptions b)" "su_closed (br_subscriptions b ! q)" "\<not> su_waiting (br_subscriptions b ! q)"
      "event_queue_capacity \<le> length (su_queue (br_subscriptions b ! q))"
    using stuck by (auto simp: stuck_publisher_def split: publisher.splits list.splits)
  have other: "p \<noteq> q" if "\<not> event_queue_capacity \<le> length (su_queue (br_subscriptions b ! p))" for p
    using q that by auto
  have "length (br_tasks c) = length (br_tasks b) \<and> br_tasks c ! t = br_tasks b ! t
      \<and> length (br_subscriptions b) \<le> length (br_subscriptions c) \<and> br_subscriptions c ! q = br_subscriptions b ! q"
    using act t q
    by (cases a)
      (auto simp: other nth_set_other subscribe_def start_publish_def put_event_def return_publish_def ask_next_def take_next_def Let_def
        nth_set_subscription nth_close_subscription nth_list_update nth_append
        split: if_splits publisher.splits list.splits sum.splits)
  then show ?thesis using t q by (auto simp: stuck_publisher_def)
qed

text \<open>C35: A publisher can wait for ever.  Closing a subscription neither empties its queue nor wakes who
  waits for room in it: a publisher that has still to deliver to the full queue of a closed
  subscription stays there, with the same queues before it, whatever anybody does.\<close>

theorem closed_subscription_blocks_publisher:
  assumes "stuck_publisher t b" "schedule as b = Some c"
  shows "br_tasks c ! t = br_tasks b ! t \<and> stuck_publisher t c"
  by (rule schedule_induct [where P = "\<lambda>c. br_tasks c ! t = br_tasks b ! t \<and> stuck_publisher t c", OF assms(2)])
    (use assms(1) stuck_publisher_act in \<open>simp, metis\<close>)

text \<open>Such a state is reached: 256 events nobody reads, one more, and the subscription is closed.\<close>

definition fill_schedule :: "nat \<Rightarrow> action list" where
  "fill_schedule n = concat (replicate n [Publish 0 ''t'' [] False [0], Put 0, Return 0])"

definition filled :: "nat \<Rightarrow> broker \<Rightarrow> bool" where
  "filled n b =
     (br_tasks b = [Resting] \<and> br_subscribers b ''t'' = [0]
      \<and> (case br_subscriptions b of [s] \<Rightarrow> \<not> su_closed s \<and> \<not> su_waiting s \<and> su_topic s = ''t'' \<and> length (su_queue s) = n | _ \<Rightarrow> False))"

lemma schedule_append: "schedule (as @ bs) b = (case schedule as b of None \<Rightarrow> None | Some c \<Rightarrow> schedule bs c)"
  by (induction as b rule: schedule.induct) (auto split: option.splits)

lemma fill_one: "filled n b \<Longrightarrow> n < event_queue_capacity \<Longrightarrow> \<exists>c. schedule (fill_schedule 1) b = Some c \<and> filled (Suc n) c"
  by (auto simp: filled_def fill_schedule_def start_publish_def put_event_def return_publish_def Let_def set_subscription_def
      split: list.splits)

lemma fill_many:
  "filled 0 b \<Longrightarrow> n \<le> event_queue_capacity \<Longrightarrow> \<exists>c. schedule (fill_schedule n) b = Some c \<and> filled n c"
proof (induction n)
  case 0
  then show ?case by (simp add: fill_schedule_def)
next
  case (Suc n)
  then obtain c where c: "schedule (fill_schedule n) b = Some c" "filled n c" by auto
  have "fill_schedule (Suc n) = fill_schedule n @ fill_schedule 1"
    by (simp only: fill_schedule_def replicate_Suc replicate_append_same [symmetric] concat_append) simp
  then show ?case using fill_one [OF c(2)] Suc.prems(2) by (simp add: schedule_append c(1))
qed

lemma blocked_publisher:
  "\<exists>b. schedule (Subscribe ''t'' # fill_schedule 256 @ [Publish 0 ''t'' [] True [0], Close 0]) (new_broker 1) = Some b
     \<and> stuck_publisher 0 b"
proof -
  obtain b where b: "schedule [Subscribe ''t''] (new_broker 1) = Some b" "filled 0 b"
    by (simp add: subscribe_def new_broker_def filled_def)
  obtain c where c: "schedule (fill_schedule 256) b = Some c" "filled 256 c"
    using fill_many [OF b(2), of 256] by (auto simp: event_queue_capacity_def)
  obtain s where s: "br_subscriptions c = [s]" "\<not> su_closed s" "\<not> su_waiting s" "su_topic s = ''t''" "length (su_queue s) = 256"
    "br_tasks c = [Resting]" "br_subscribers c ''t'' = [0]"
    using c(2) by (auto simp: filled_def split: list.splits)
  obtain d where d: "schedule [Publish 0 ''t'' [] True [0], Close 0] c = Some d" "stuck_publisher 0 d"
    using s by (simp add: start_publish_def close_subscription_def remove_subscriber_def set_subscription_def stuck_publisher_def
        event_queue_capacity_def Let_def)
  have "schedule ([Subscribe ''t''] @ fill_schedule 256 @ [Publish 0 ''t'' [] True [0], Close 0]) (new_broker 1) = Some d"
    by (simp only: schedule_append b(1) c(1) d(1) option.case)
  then show ?thesis using d(2) unfolding append_Cons append_Nil by blast
qed

theorem closed_subscription_blocks_publisher_witness:
  "\<exists>b c. schedule (Subscribe ''t'' # fill_schedule 256 @ [Publish 0 ''t'' [] True [0], Close 0]) (new_broker 1) = Some b
     \<and> schedule [Subscribe ''t'', Subscribe ''u''] b = Some c \<and> br_tasks c ! 0 = br_tasks b ! 0 \<and> stuck_publisher 0 c"
proof -
  obtain b where b: "schedule (Subscribe ''t'' # fill_schedule 256 @ [Publish 0 ''t'' [] True [0], Close 0]) (new_broker 1) = Some b"
    "stuck_publisher 0 b"
    using blocked_publisher by blast
  obtain c where c: "schedule [Subscribe ''t'', Subscribe ''u''] b = Some c" by (simp add: subscribe_def)
  show ?thesis using b c closed_subscription_blocks_publisher [OF b(2) c] by blast
qed

end
