(* ===== verification/Native_Graph.thy ===== *)
theory Native_Graph
  imports Provider_Contract Graph_Gate Route_Reads
begin

text \<open>
  The adapter over the native graph extension (\<open>src/src/scs/graph/native.py\<close>): the check of the
  vector index against the provider that is configured now, and the reads behind the mutation
  gate.  The extension, \<open>json.loads\<close> and the pydantic models are parameters; the contents of the
  vector index are a type variable.
\<close>

section \<open>The vector index and its recorded provider\<close>

record provider_metadata =
  pm_provider :: string
  pm_model :: string
  pm_dimension :: int
  pm_available :: bool
  pm_reason :: "string option"

record vector_state =
  vs_available :: bool
  vs_reason :: "string option"
  vs_quarantined :: "string option"

text \<open>
  Reading the metadata file: the \<open>OSError\<close> and \<open>JSONDecodeError\<close> that the code catches, bytes that
  are no UTF-8 (a \<open>UnicodeDecodeError\<close>, which it does not), or a value.
\<close>

datatype metadata_file = Unreadable | Undecodable string | Recorded decoded

text \<open>The files: the index, its metadata, and what lies beside it under other names.\<close>

record 'v vector_files =
  vf_vectors :: "'v option"
  vf_metadata :: metadata_file
  vf_aside :: "(string \<times> 'v) list"

text \<open>The clock, and how moving, opening and writing go.\<close>

record vector_env =
  ve_name :: string
  ve_stamp :: string
  ve_move :: "exc + unit"
  ve_native :: "exc + unit"
  ve_write :: "exc + unit"

definition quarantine_suffix :: string where
  "quarantine_suffix = ''.quarantine''"

definition numbered_name :: "string \<Rightarrow> nat \<Rightarrow> string" where
  "numbered_name base n = base @ ''-'' @ nat_digits n"

lemma nat_digits_step: "\<not> n < 10 \<Longrightarrow> nat_digits n = nat_digits (n div 10) @ [digit_char (n mod 10)]"
  by (subst nat_digits.simps) simp

lemma nat_digits_base: "n < 10 \<Longrightarrow> nat_digits n = [digit_char n]"
  by (subst nat_digits.simps) simp

lemma digit_char_inj: "m < 10 \<Longrightarrow> n < 10 \<Longrightarrow> digit_char m = digit_char n \<Longrightarrow> m = n"
proof -
  assume "m < 10" "n < 10" and eq: "digit_char m = digit_char n"
  have "(of_char (digit_char m) :: nat) = of_char (digit_char n)" using eq by simp
  then show "m = n" using \<open>m < 10\<close> \<open>n < 10\<close> by (simp add: digit_char_def)
qed

lemma nat_digits_nonempty: "nat_digits n \<noteq> []"
  by (cases "n < 10") (simp_all add: nat_digits_base nat_digits_step)

lemma nat_digits_inj: "nat_digits m = nat_digits n \<Longrightarrow> m = n"
proof (induction m arbitrary: n rule: nat_digits.induct)
  case (1 m)
  show ?case
  proof (cases "m < 10")
    case True
    then show ?thesis using 1(2) nat_digits_nonempty [of "n div 10"]
      by (cases "n < 10") (auto simp: nat_digits_base nat_digits_step intro: digit_char_inj)
  next
    case False
    show ?thesis
    proof (cases "n < 10")
      case True
      then show ?thesis using 1(2) False nat_digits_nonempty [of "m div 10"]
        by (auto simp: nat_digits_base nat_digits_step)
    next
      case nge: False
      then have "m div 10 = n div 10" "digit_char (m mod 10) = digit_char (n mod 10)"
        using 1 False by (auto simp: nat_digits_step)
      then show ?thesis using digit_char_inj [of "m mod 10" "n mod 10"] by (metis div_mod_decomp mod_less_divisor zero_less_numeral)
    qed
  qed
qed

text \<open>\<open>_quarantine\<close> counts up to a name that is free; there are only finitely many others.\<close>

function free_name :: "string list \<Rightarrow> string \<Rightarrow> nat \<Rightarrow> string" where
  "free_name taken base n =
     (if numbered_name base n \<in> set taken then free_name taken base (n + 1) else numbered_name base n)"
  by pat_completeness auto
termination
proof (relation "measure (\<lambda>(taken, base, n). card {x \<in> set taken. \<exists>m\<ge>n. x = numbered_name base m})", simp)
  fix taken base and n :: nat
  assume here: "numbered_name base n \<in> set taken"
  have "{x \<in> set taken. \<exists>m\<ge>n + 1. x = numbered_name base m} \<subset> {x \<in> set taken. \<exists>m\<ge>n. x = numbered_name base m}"
  proof
    show "{x \<in> set taken. \<exists>m\<ge>n + 1. x = numbered_name base m} \<subseteq> {x \<in> set taken. \<exists>m\<ge>n. x = numbered_name base m}"
      by (blast dest: add_leD1)
    have "numbered_name base n \<noteq> numbered_name base m" if "n + 1 \<le> m" for m
      using that nat_digits_inj [of n m] by (auto simp: numbered_name_def)
    then show "{x \<in> set taken. \<exists>m\<ge>n + 1. x = numbered_name base m} \<noteq> {x \<in> set taken. \<exists>m\<ge>n. x = numbered_name base m}"
      using here by blast
  qed
  then have "card {x \<in> set taken. \<exists>m\<ge>n + 1. x = numbered_name base m}
      < card {x \<in> set taken. \<exists>m\<ge>n. x = numbered_name base m}"
    by (rule psubset_card_mono [rotated]) simp
  then show "((taken, base, n + 1), taken, base, n)
      \<in> measure (\<lambda>(taken, base, n). card {x \<in> set taken. \<exists>m\<ge>n. x = numbered_name base m})" by simp
qed

declare free_name.simps [simp del]

definition quarantine_name :: "string list \<Rightarrow> string \<Rightarrow> string" where
  "quarantine_name taken base = (if base \<in> set taken then free_name taken base 1 else base)"

definition quarantine :: "vector_env \<Rightarrow> ('v vector_files, string) act" where
  "quarantine env f =
     (let destination = quarantine_name (map fst (vf_aside f)) (ve_name env @ quarantine_suffix @ ''-'' @ ve_stamp env) in
      case (ve_move env, vf_vectors f) of
        (Inr _, Some v) \<Rightarrow>
          (Inr destination, f\<lparr>vf_vectors := None, vf_aside := vf_aside f @ [(destination, v)]\<rparr>)
      | (Inl e, _) \<Rightarrow> (Inl e, f)
      | (Inr _, None) \<Rightarrow> (Inl (OSError ''No such file or directory''), f))"

text \<open>\<open>persisted.get(key) != expected[key]\<close>: numbers are equal across their types.\<close>

definition equals_string :: "decoded \<Rightarrow> string \<Rightarrow> bool" where
  "equals_string v s = (v = DStr s)"

definition equals_int :: "decoded \<Rightarrow> int \<Rightarrow> bool" where
  "equals_int v i =
     (case v of DInt j \<Rightarrow> j = i | DFloat (Finite r) \<Rightarrow> r = of_int i | DBool b \<Rightarrow> of_bool b = i | _ \<Rightarrow> False)"

definition records_provider :: "(string \<times> decoded) list \<Rightarrow> provider_metadata \<Rightarrow> bool" where
  "records_provider kvs p =
     (equals_string (field kvs ''provider'') (pm_provider p) \<and> equals_string (field kvs ''model'') (pm_model p)
      \<and> equals_int (field kvs ''dimension'') (pm_dimension p))"

definition decoded_type :: "decoded \<Rightarrow> string" where
  "decoded_type v =
     (case v of DNull \<Rightarrow> ''NoneType'' | DBool _ \<Rightarrow> ''bool'' | DInt _ \<Rightarrow> ''int'' | DFloat _ \<Rightarrow> ''float'' | DStr _ \<Rightarrow> ''str''
      | DList _ \<Rightarrow> ''list'' | DObj _ \<Rightarrow> ''dict'')"

definition usable :: vector_state where
  "usable = \<lparr>vs_available = True, vs_reason = None, vs_quarantined = None\<rparr>"

definition set_aside :: "vector_env \<Rightarrow> string \<Rightarrow> ('v vector_files, vector_state) act" where
  "set_aside env reason =
     act_bind (quarantine env) (\<lambda>path.
       act_return \<lparr>vs_available = False, vs_reason = Some reason, vs_quarantined = Some path\<rparr>)"

definition prepare_vector_state :: "vector_env \<Rightarrow> provider_metadata \<Rightarrow> ('v vector_files, vector_state) act" where
  "prepare_vector_state env p f =
     (if \<not> pm_available p
      then (Inr \<lparr>vs_available = False,
                 vs_reason = Some (case pm_reason p of
                     Some r \<Rightarrow> if r \<noteq> [] then r else ''embedding provider unavailable''
                   | None \<Rightarrow> ''embedding provider unavailable''),
                 vs_quarantined = None\<rparr>, f)
      else if vf_vectors f = None then (Inr usable, f)
      else
        (case vf_metadata f of
           Unreadable \<Rightarrow> set_aside env ''vector provider metadata is missing or invalid'' f
         | Undecodable m \<Rightarrow> (Inl (ValueError m), f)
         | Recorded (DObj kvs) \<Rightarrow>
             if records_provider kvs p then (Inr usable, f)
             else set_aside env ''vector provider metadata does not match active provider'' f
         | Recorded v \<Rightarrow>
             (Inl (AttributeError ([CHR 0x27] @ decoded_type v @ ''' object has no attribute 'get'' @ [CHR 0x27])), f)))"

definition metadata_record :: "provider_metadata \<Rightarrow> (string \<times> decoded) list" where
  "metadata_record p =
     [(''available'', DBool (pm_available p)), (''dimension'', DInt (pm_dimension p)), (''model'', DStr (pm_model p)),
      (''provider'', DStr (pm_provider p)),
      (''reason'', case pm_reason p of None \<Rightarrow> DNull | Some r \<Rightarrow> DStr r), (''schema_version'', DInt 1)]"

text \<open>The constructor: check the index, open the native handle, record the provider.\<close>

definition open_native_graph :: "vector_env \<Rightarrow> provider_metadata \<Rightarrow> ('v vector_files, vector_state) act" where
  "open_native_graph env p =
     act_bind (prepare_vector_state env p) (\<lambda>vs.
     act_bind (act_lift (ve_native env)) (\<lambda>_.
       if \<not> pm_available p then act_return vs
       else act_bind (act_lift (ve_write env)) (\<lambda>_.
              act_seq (act_modify (\<lambda>f. f\<lparr>vf_metadata := Recorded (DObj (metadata_record p))\<rparr>)) (act_return vs))))"

section \<open>Reads\<close>

text \<open>What a native method answers: a JSON text or a value.\<close>

datatype raw = RawText string | RawValue decoded

text \<open>
  The native handle at one moment, with \<open>json.loads\<close>, the three pydantic models, and what the callers
  read out of values that the code casts without a check.
\<close>

record native =
  na_loads :: "string \<Rightarrow> exc + decoded"
  na_node :: "decoded \<Rightarrow> exc + node"
  na_edge :: "decoded \<Rightarrow> exc + edge"
  na_result :: "decoded \<Rightarrow> exc + node \<times> rat"
  na_dicts :: "decoded \<Rightarrow> exc + dict list"
  na_counts :: "decoded \<Rightarrow> exc + (string \<times> int) list"
  na_stats :: "decoded \<Rightarrow> exc + (string \<times> dict) list"
  na_resolve_repo_id :: "string \<Rightarrow> exc + int option"
  na_node_ids_for_file :: "string \<Rightarrow> string \<Rightarrow> exc + string list"
  na_search_by_name :: "string \<Rightarrow> string option \<Rightarrow> int \<Rightarrow> int option \<Rightarrow> exc + raw"
  na_search_by_vector :: "rat list \<Rightarrow> string option \<Rightarrow> int \<Rightarrow> int option \<Rightarrow> exc + raw"
  na_get_node :: "string \<Rightarrow> exc + raw option"
  na_batch_get_nodes :: "string list \<Rightarrow> exc + raw"
  na_list_nodes :: "string option \<Rightarrow> int \<Rightarrow> int \<Rightarrow> int option \<Rightarrow> exc + raw"
  na_count_nodes :: "string option \<Rightarrow> int option \<Rightarrow> exc + int"
  na_count_by_type :: "int option \<Rightarrow> exc + raw"
  na_count_embeddings :: "exc + int"
  na_count_unembedded :: "string option \<Rightarrow> int option \<Rightarrow> exc + int"
  na_list_unembedded :: "string option \<Rightarrow> int \<Rightarrow> int \<Rightarrow> int option \<Rightarrow> exc + raw"
  na_get_edges :: "string \<Rightarrow> string option \<Rightarrow> string \<Rightarrow> exc + raw"
  na_batch_get_edges :: "string list \<Rightarrow> string \<Rightarrow> exc + raw"
  na_get_neighbors :: "string \<Rightarrow> string option \<Rightarrow> string \<Rightarrow> int \<Rightarrow> exc + raw"
  na_traverse :: "string \<Rightarrow> int \<Rightarrow> string option \<Rightarrow> string \<Rightarrow> exc + raw"
  na_ingestion_stats :: "exc + raw"

definition json_value :: "native \<Rightarrow> raw \<Rightarrow> exc + decoded" where
  "json_value na r = (case r of RawText t \<Rightarrow> na_loads na t | RawValue v \<Rightarrow> Inr v)"

text \<open>\<open>for item in cast(list[object], raw)\<close>: the cast checks nothing.\<close>

definition iterated :: "decoded \<Rightarrow> exc + decoded list" where
  "iterated v =
     (case v of
        DList xs \<Rightarrow> Inr xs
      | DObj kvs \<Rightarrow> Inr (map (DStr \<circ> fst) kvs)
      | DStr s \<Rightarrow> Inr (map (\<lambda>c. DStr [c]) s)
      | _ \<Rightarrow> Inl (TypeError ([CHR 0x27] @ decoded_type v @ ''' object is not iterable'')))"

definition decoded_items :: "native \<Rightarrow> (decoded \<Rightarrow> exc + 'a) \<Rightarrow> raw \<Rightarrow> exc + 'a list" where
  "decoded_items na f r = and_then (json_value na r) (\<lambda>v. and_then (iterated v) (gather f))"

text \<open>\<open>graph_read\<close>: the method runs inside the read section of the gate.\<close>

definition graph_read :: "gate \<Rightarrow> exc + 'a \<Rightarrow> exc + 'a" where
  "graph_read g m = and_then (enter_read g) (\<lambda>_. m)"

definition type_value :: "node_type option \<Rightarrow> string option" where
  "type_value t = map_option node_type_value t"

definition search_by_name :: "native \<Rightarrow> gate \<Rightarrow> string \<Rightarrow> node_type option \<Rightarrow> int \<Rightarrow> int option \<Rightarrow> exc + node list" where
  "search_by_name na g query t limit repo =
     graph_read g (and_then (na_search_by_name na query (type_value t) limit repo) (decoded_items na (na_node na)))"

definition search_by_vector ::
  "native \<Rightarrow> gate \<Rightarrow> vector_state \<Rightarrow> rat list \<Rightarrow> node_type option \<Rightarrow> int \<Rightarrow> int option \<Rightarrow> exc + (node \<times> rat) list" where
  "search_by_vector na g vs v t limit repo =
     graph_read g
       (if \<not> vs_available vs then Inr []
        else and_then (na_search_by_vector na v (type_value t) limit repo) (decoded_items na (na_result na)))"

definition get_node :: "native \<Rightarrow> gate \<Rightarrow> string \<Rightarrow> exc + node option" where
  "get_node na g i =
     graph_read g
       (and_then (na_get_node na i) (\<lambda>raw.
          case raw of
            None \<Rightarrow> Inr None
          | Some r \<Rightarrow> and_then (json_value na r) (\<lambda>v. and_then (na_node na v) (\<lambda>n. Inr (Some n)))))"

definition batch_get_nodes :: "native \<Rightarrow> gate \<Rightarrow> string list \<Rightarrow> exc + node list" where
  "batch_get_nodes na g ids = graph_read g (and_then (na_batch_get_nodes na ids) (decoded_items na (na_node na)))"

definition list_nodes :: "native \<Rightarrow> node_type option \<Rightarrow> int \<Rightarrow> int \<Rightarrow> int option \<Rightarrow> exc + node list" where
  "list_nodes na t limit offset repo =
     and_then (na_list_nodes na (type_value t) limit offset repo) (decoded_items na (na_node na))"

definition count_nodes :: "native \<Rightarrow> node_type option \<Rightarrow> int option \<Rightarrow> exc + int" where
  "count_nodes na t repo = na_count_nodes na (type_value t) repo"

definition count_nodes_by_type :: "native \<Rightarrow> int option \<Rightarrow> exc + (string \<times> int) list" where
  "count_nodes_by_type na repo =
     and_then (na_count_by_type na repo) (\<lambda>r. and_then (json_value na r) (na_counts na))"

definition count_nodes_without_embeddings :: "native \<Rightarrow> node_type option \<Rightarrow> int option \<Rightarrow> exc + int" where
  "count_nodes_without_embeddings na t repo = na_count_unembedded na (type_value t) repo"

definition metadata_path :: "node \<Rightarrow> string option" where
  "metadata_path n = (case dict_get (nd_metadata n) ''file_path'' JNull of JStr s \<Rightarrow> Some s | _ \<Rightarrow> None)"

definition paths_with_missing_embeddings :: "native \<Rightarrow> int \<Rightarrow> exc + string list" where
  "paths_with_missing_embeddings na repo =
     and_then (na_count_unembedded na None (Some repo)) (\<lambda>n.
       if n = 0 then Inr []
       else
         and_then (na_list_unembedded na None n 0 (Some repo)) (\<lambda>r.
         and_then (decoded_items na (na_node na) r) (\<lambda>nodes.
           Inr (sorted_set (List.map_filter metadata_path nodes)))))"

definition get_edges :: "native \<Rightarrow> gate \<Rightarrow> string \<Rightarrow> string option \<Rightarrow> string \<Rightarrow> exc + edge list" where
  "get_edges na g i relationship direction =
     graph_read g (and_then (na_get_edges na i relationship direction) (decoded_items na (na_edge na)))"

text \<open>\<open>raw.items()\<close> of a value that must be an object.\<close>

definition batch_get_edges :: "native \<Rightarrow> gate \<Rightarrow> string list \<Rightarrow> string \<Rightarrow> exc + (string \<times> edge list) list" where
  "batch_get_edges na g ids direction =
     graph_read g
       (and_then (na_batch_get_edges na ids direction) (\<lambda>r.
        and_then (json_value na r) (\<lambda>v.
          case v of
            DObj kvs \<Rightarrow>
              gather (\<lambda>(k, es). and_then (iterated es) (\<lambda>es. and_then (gather (na_edge na) es) (\<lambda>es. Inr (k, es)))) kvs
          | _ \<Rightarrow> Inl (AttributeError ([CHR 0x27] @ decoded_type v @ ''' object has no attribute 'items'' @ [CHR 0x27])))))"

definition get_neighbors :: "native \<Rightarrow> string \<Rightarrow> string option \<Rightarrow> string \<Rightarrow> int \<Rightarrow> exc + node list" where
  "get_neighbors na i relationship direction limit =
     and_then (na_get_neighbors na i relationship direction limit) (decoded_items na (na_node na))"

definition traverse :: "native \<Rightarrow> gate \<Rightarrow> string \<Rightarrow> int \<Rightarrow> string option \<Rightarrow> string \<Rightarrow> exc + dict list" where
  "traverse na g i depth relationship direction =
     graph_read g
       (and_then (na_traverse na i depth relationship direction) (\<lambda>r. and_then (json_value na r) (na_dicts na)))"

definition get_node_ids_for_file :: "native \<Rightarrow> gate \<Rightarrow> string \<Rightarrow> string \<Rightarrow> exc + string list" where
  "get_node_ids_for_file na g repo path = graph_read g (na_node_ids_for_file na repo path)"

definition get_ingestion_stats :: "native \<Rightarrow> exc + (string \<times> dict) list" where
  "get_ingestion_stats na = and_then (na_ingestion_stats na) (\<lambda>r. and_then (json_value na r) (na_stats na))"

section \<open>The graph that search and the routes read\<close>

text \<open>\<open>CodeSearchService\<close> over the adapter, the providers and a filter.\<close>

definition native_search_env ::
  "native \<Rightarrow> gate \<Rightarrow> vector_state \<Rightarrow> (string \<Rightarrow> exc + rat list) option
   \<Rightarrow> (string \<Rightarrow> string list \<Rightarrow> int \<Rightarrow> exc + (int \<times> rat) list) option \<Rightarrow> node_type option \<Rightarrow> int option \<Rightarrow> search_env" where
  "native_search_env na g vs vector_of rerank t repo =
     \<lparr>se_lexical = \<lambda>query limit. search_by_name na g query t limit repo,
      se_embed = vector_of,
      se_vector = \<lambda>v limit. search_by_vector na g vs v t limit repo,
      se_rerank = rerank\<rparr>"

definition native_code_graph ::
  "native \<Rightarrow> gate \<Rightarrow> vector_state \<Rightarrow> (string \<Rightarrow> exc + rat list) option
   \<Rightarrow> (string \<Rightarrow> string list \<Rightarrow> int \<Rightarrow> exc + (int \<times> rat) list) option \<Rightarrow> (exc + int) \<Rightarrow> code_graph" where
  "native_code_graph na g vs vector_of rerank bytes =
     \<lparr>cg_repo_id = na_resolve_repo_id na,
      cg_list = \<lambda>t limit offset repo. list_nodes na (Some t) limit offset repo,
      cg_count = \<lambda>t repo. count_nodes na (Some t) repo,
      cg_file_ids = get_node_ids_for_file na g,
      cg_node = get_node na g,
      cg_nodes = batch_get_nodes na g,
      cg_node_edges = \<lambda>i direction. get_edges na g i None direction,
      cg_edges = batch_get_edges na g,
      cg_by_name = \<lambda>query t limit repo. search_by_name na g query (Some t) limit repo,
      cg_neighbors = \<lambda>i limit. get_neighbors na i None ''outgoing'' limit,
      cg_traverse = traverse na g,
      cg_search = \<lambda>t repo. Inr (native_search_env na g vs vector_of rerank t repo),
      cg_counts = count_nodes_by_type na,
      cg_unembedded = count_nodes_without_embeddings na None,
      cg_embeddings = na_count_embeddings na,
      cg_ingestion = get_ingestion_stats na,
      cg_vectors = (vs_available vs, vs_reason vs),
      cg_bytes = bytes\<rparr>"

section \<open>An index of another provider\<close>

definition recorded_for :: "provider_metadata \<Rightarrow> metadata_file \<Rightarrow> bool" where
  "recorded_for p file = (case file of Recorded (DObj kvs) \<Rightarrow> records_provider kvs p | _ \<Rightarrow> False)"

lemma prepare_unusable:
  assumes "prepare_vector_state env p f = (Inr vs, f')" "vf_vectors f = Some v" "\<not> recorded_for p (vf_metadata f)"
  shows "\<not> vs_available vs"
    and "pm_available p \<Longrightarrow> \<exists>path. vf_vectors f' = None \<and> vf_aside f' = vf_aside f @ [(path, v)] \<and> vs_quarantined vs = Some path
           \<and> path \<notin> fst ` set (vf_aside f)"
proof -
  have fresh: "quarantine_name taken base \<notin> set taken" for taken base
  proof -
    have "free_name taken base n \<notin> set taken" for n
      by (induction taken base n rule: free_name.induct) (subst free_name.simps, simp)
    then show ?thesis by (simp add: quarantine_name_def)
  qed
  show "\<not> vs_available vs"
    using assms
    by (auto simp: prepare_vector_state_def recorded_for_def set_aside_def act_bind_Inr_iff act_return_def
        split: if_splits metadata_file.splits decoded.splits)
  assume "pm_available p"
  then obtain reason where "set_aside env reason f = (Inr vs, f')"
    using assms
    by (auto simp: prepare_vector_state_def recorded_for_def split: if_splits metadata_file.splits decoded.splits)
  then show "\<exists>path. vf_vectors f' = None \<and> vf_aside f' = vf_aside f @ [(path, v)] \<and> vs_quarantined vs = Some path
           \<and> path \<notin> fst ` set (vf_aside f)"
    using assms(2) fresh [of "map fst (vf_aside f)"]
    by (auto simp: set_aside_def act_bind_Inr_iff act_return_def quarantine_def Let_def split: sum.splits)
qed

lemma open_graph_Inr:
  assumes "open_native_graph env p f = (Inr vs, f')"
  shows "\<exists>g. prepare_vector_state env p f = (Inr vs, g)
     \<and> f' = (if pm_available p then g\<lparr>vf_metadata := Recorded (DObj (metadata_record p))\<rparr> else g)"
  using assms
  by (auto simp: open_native_graph_def act_bind_Inr_iff act_seq_def act_lift_def act_return_def act_modify_def split: if_splits)

text \<open>A search over a graph whose vectors may not be used finds lexically or not at all.\<close>

lemma no_semantic_candidates:
  assumes "\<not> vs_available vs"
    and "semantic_candidates (native_search_env na g vs vector_of rerank t repo) query limit = Inr (found, available, reason)"
  shows "found = []"
  using assms
  by (auto simp: semantic_candidates_def native_search_env_def search_by_vector_def graph_read_def degrade_def
      and_then_Inr_iff split: option.splits sum.splits if_splits)

lemma gather_elem: "gather f xs = Inr ys \<Longrightarrow> y \<in> set ys \<Longrightarrow> \<exists>x\<in>set xs. f x = Inr y"
  by (induction xs arbitrary: ys) (auto simp: and_then_Inr_iff)

lemma respond_matches:
  assumes "respond env l sm qs results = Inr r" "m \<in> set (rs_matches r)"
  shows "ma_id m \<in> ma_id ` set (merge_matches (map qr_matches results))"
proof -
  let ?fused = "merge_matches (map qr_matches results)"
  have top: "ma_id m \<in> ma_id ` set ?fused" if "m \<in> set (take (nat l) ?fused)"
    using that in_set_takeD by fastforce
  have pick: "ma_id x \<in> ma_id ` set ?fused"
    if picked: "gather (\<lambda>(i, score). and_then (py_index ?fused i) (\<lambda>x. Inr (x\<lparr>ma_rerank := Some score\<rparr>))) ranked = Inr ms" "x \<in> set ms"
    for ranked ms x
  proof -
    obtain i score where "and_then (py_index ?fused i) (\<lambda>x. Inr (x\<lparr>ma_rerank := Some score\<rparr>)) = Inr x"
      using gather_elem [OF picked] by auto
    then obtain y where "py_index ?fused i = Inr y" "x = y\<lparr>ma_rerank := Some score\<rparr>" by (auto simp: and_then_Inr_iff)
    moreover from this(1) have "y \<in> set ?fused" by (auto simp: py_index_def split: if_splits)
    ultimately show ?thesis by (auto simp: ma_id_def)
  qed
  show ?thesis
    using assms top pick
    by (auto simp: respond_def Let_def plain_response_def and_then_Inr_iff split: if_splits option.splits sum.splits exc.splits)
qed


definition demo_native :: native where
  "demo_native =
     \<lparr>na_loads = \<lambda>_. Inr (DList [DNull]), na_node = \<lambda>_. Inr (demo_node ''a''), na_edge = \<lambda>_. Inl (ValidationError ''edge''),
      na_result = \<lambda>_. Inr (demo_node ''b'', 0), na_dicts = \<lambda>_. Inr [], na_counts = \<lambda>_. Inr [], na_stats = \<lambda>_. Inr [],
      na_resolve_repo_id = \<lambda>_. Inr (Some 1), na_node_ids_for_file = \<lambda>_ _. Inr [],
      na_search_by_name = \<lambda>_ _ _ _. Inr (RawText ''[null]''), na_search_by_vector = \<lambda>_ _ _ _. Inr (RawText ''[null]''),
      na_get_node = \<lambda>_. Inr None, na_batch_get_nodes = \<lambda>_. Inr (RawText ''''), na_list_nodes = \<lambda>_ _ _ _. Inr (RawText ''''),
      na_count_nodes = \<lambda>_ _. Inr 1, na_count_by_type = \<lambda>_. Inr (RawText ''''), na_count_embeddings = Inr 0,
      na_count_unembedded = \<lambda>_ _. Inr 0, na_list_unembedded = \<lambda>_ _ _ _. Inr (RawText ''''),
      na_get_edges = \<lambda>_ _ _. Inr (RawText ''''), na_batch_get_edges = \<lambda>_ _. Inr (RawText ''''),
      na_get_neighbors = \<lambda>_ _ _ _. Inr (RawText ''''), na_traverse = \<lambda>_ _ _ _. Inr (RawText ''''),
      na_ingestion_stats = Inr (RawText '''')\<rparr>"

definition demo_provider :: "string \<Rightarrow> bool \<Rightarrow> provider_metadata" where
  "demo_provider model available =
     \<lparr>pm_provider = ''local'', pm_model = model, pm_dimension = 3, pm_available = available, pm_reason = None\<rparr>"

definition demo_vector_env :: vector_env where
  "demo_vector_env = \<lparr>ve_name = ''vectors'', ve_stamp = ''T'', ve_move = Inr (), ve_native = Inr (), ve_write = Inr ()\<rparr>"

definition demo_files :: "nat vector_files" where
  "demo_files =
     \<lparr>vf_vectors = Some 7, vf_metadata = Recorded (DObj (metadata_record (demo_provider ''m1'' True))),
      vf_aside = [(''vectors.quarantine-T'', 5)]\<rparr>"

lemma demo_open:
  "open_native_graph demo_vector_env (demo_provider ''m2'' True) demo_files =
     (Inr \<lparr>vs_available = False, vs_reason = Some ''vector provider metadata does not match active provider'',
           vs_quarantined = Some ''vectors.quarantine-T-1''\<rparr>,
      \<lparr>vf_vectors = None, vf_metadata = Recorded (DObj (metadata_record (demo_provider ''m2'' True))),
       vf_aside = [(''vectors.quarantine-T'', 5), (''vectors.quarantine-T-1'', 7)]\<rparr>)"
proof -
  have "quarantine_name [''vectors.quarantine-T''] ''vectors.quarantine-T'' = ''vectors.quarantine-T-1''"
    by (simp add: quarantine_name_def free_name.simps [of _ _ "Suc 0"] numbered_name_def nat_digits_base digit_char_def; code_simp)
  then show ?thesis
    by (simp add: open_native_graph_def prepare_vector_state_def demo_vector_env_def demo_provider_def demo_files_def metadata_record_def
        records_provider_def field_def equals_string_def set_aside_def quarantine_def quarantine_suffix_def act_defs Let_def)
qed


text \<open>C33: Search does not say that the vectors are unusable.  When the vector index was set aside or the
  provider was unavailable at the opening, the statistics of the graph report its vectors as
  unavailable, but a fast search whose query can be embedded reports semantic search as available and
  gives no reason for the missing semantic matches.\<close>

theorem unusable_vectors_look_available:
  assumes "\<not> vs_available vs" "\<And>q. \<exists>v. vector_of q = Inr v"
    and "search (native_search_env na g vs (Some vector_of) rerank t repo) query limit queries ''fast'' = Inr r"
  shows "rs_available r \<and> rs_reason r = None \<and> rs_stage r = None
     \<and> fst (cg_vectors (native_code_graph na g vs (Some vector_of) rerank bytes)) = False"
proof -
  let ?env = "native_search_env na g vs (Some vector_of) rerank t repo"
  obtain qs results where s: "gather (retrieve_query ?env (candidate_limit (clamp_limit limit))) (enumerate 0 qs) = Inr results"
    "respond ?env (clamp_limit limit) ''fast'' qs results = Inr r"
    using search_Inr [OF assms(3)] by metis
  have quiet: "qr_available x \<and> qr_reason x = None" if mem: "x \<in> set results" for x
  proof -
    obtain iq where iq: "retrieve_query ?env (candidate_limit (clamp_limit limit)) iq = Inr x"
      using gather_elem [OF s(1) mem] by blast
    obtain q query' where "iq = (q, query')" by (cases iq)
    moreover obtain v where "vector_of query' = Inr v" using assms(2) by blast
    ultimately show ?thesis using iq assms(1)
      by (cases "enter_read g")
        (auto simp: retrieve_query_def semantic_candidates_def native_search_env_def search_by_vector_def search_by_name_def
          graph_read_def and_then_Inr_iff)
  qed
  then have all: "list_all qr_available results" by (simp add: list_all_iff)
  have none: "List.map_filter qr_reason results = []"
    using quiet by (induction results) (auto simp: List.map_filter_simps)
  have "first_reason results = None" by (simp add: first_reason_def none)
  then show ?thesis using s(2) all
    by (auto simp: respond_def Let_def plain_response_def native_code_graph_def assms(1) split: if_splits)
qed

theorem unusable_vectors_look_available_witness:
  "\<exists>r. search (native_search_env demo_native new_gate \<lparr>vs_available = False, vs_reason = Some ''mismatch'', vs_quarantined = None\<rparr>
       (Some (\<lambda>_. Inr [0, 0, 0])) None None None) ''f'' 10 [] ''fast'' = Inr r \<and> rs_available r \<and> rs_reason r = None"
proof -
  let ?vs = "\<lparr>vs_available = False, vs_reason = Some ''mismatch'', vs_quarantined = None\<rparr>"
  let ?env = "native_search_env demo_native new_gate ?vs (Some (\<lambda>_. Inr [0, 0, 0])) None None None"
  have "effective_queries ''f'' [] = Inr [''f'']" by code_simp
  then have "\<exists>r. search ?env ''f'' 10 [] ''fast'' = Inr r"
    by (simp add: search_def native_search_env_def retrieve_query_def semantic_candidates_def respond_def Let_def
        plain_response_def search_by_name_def search_by_vector_def graph_read_def enter_read_def new_gate_def demo_native_def
        decoded_items_def json_value_def iterated_def)
  then obtain r where r: "search ?env ''f'' 10 [] ''fast'' = Inr r" by blast
  have "\<not> vs_available ?vs" by simp
  from unusable_vectors_look_available [OF this _ r] r show ?thesis by blast
qed

section \<open>Whose vectors an index holds\<close>

text \<open>
  The provider a vector came from is kept here as the content of the index.  A process opens the
  graph, stores vectors of the provider it was opened with, and ends at any time; an opening can
  end in an exception between any two of its effects.
\<close>

type_synonym provider_identity = "string \<times> string \<times> int"

definition identity_of :: "provider_metadata \<Rightarrow> provider_identity" where
  "identity_of p = (pm_provider p, pm_model p, pm_dimension p)"

datatype vector_action = OpenGraph vector_env provider_metadata | StoreVector | EndProcess

record vector_history =
  vh_files :: "provider_identity list vector_files"
  vh_open :: "(provider_metadata \<times> vector_state) option"

fun vector_act :: "vector_action \<Rightarrow> vector_history \<Rightarrow> vector_history" where
  "vector_act (OpenGraph env p) h =
     (if vh_open h \<noteq> None then h
      else (case open_native_graph env p (vh_files h) of
              (Inl _, f) \<Rightarrow> h\<lparr>vh_files := f\<rparr>
            | (Inr vs, f) \<Rightarrow> h\<lparr>vh_files := f, vh_open := Some (p, vs)\<rparr>))"
| "vector_act StoreVector h =
     (case vh_open h of
        None \<Rightarrow> h
      | Some (p, _) \<Rightarrow>
          h\<lparr>vh_files := (vh_files h)\<lparr>vf_vectors := Some (identity_of p #
             (case vf_vectors (vh_files h) of None \<Rightarrow> [] | Some origins \<Rightarrow> origins))\<rparr>\<rparr>)"
| "vector_act EndProcess h = h\<lparr>vh_open := None\<rparr>"

definition new_history :: vector_history where
  "new_history = \<lparr>vh_files = \<lparr>vf_vectors = None, vf_metadata = Unreadable, vf_aside = []\<rparr>, vh_open = None\<rparr>"

text \<open>The record and the index agree, and an open graph has recorded its provider.\<close>

definition history_ok :: "vector_history \<Rightarrow> bool" where
  "history_ok h =
     (let f = vh_files h in
      (\<forall>origins p. vf_vectors f = Some origins \<longrightarrow> recorded_for p (vf_metadata f) \<longrightarrow> set origins \<subseteq> {identity_of p})
      \<and> (case vh_open h of None \<Rightarrow> True | Some (p, vs) \<Rightarrow> vf_metadata f = Recorded (DObj (metadata_record p))))"

lemma recorded_identity:
  "recorded_for q (Recorded (DObj (metadata_record p))) \<longleftrightarrow> identity_of q = identity_of p"
  by (auto simp: recorded_for_def records_provider_def metadata_record_def field_def equals_string_def equals_int_def identity_of_def)

lemma prepare_metadata: "prepare_vector_state env p f = (r, f') \<Longrightarrow> vf_metadata f' = vf_metadata f"
  by (auto simp: prepare_vector_state_def set_aside_def act_bind_def act_return_def quarantine_def Let_def
      split: if_splits metadata_file.splits decoded.splits sum.splits option.splits prod.splits)

lemma prepare_vectors: "prepare_vector_state env p f = (r, f') \<Longrightarrow> vf_vectors f' = None \<or> vf_vectors f' = vf_vectors f"
  by (auto simp: prepare_vector_state_def set_aside_def act_bind_def act_return_def quarantine_def Let_def
      split: if_splits metadata_file.splits decoded.splits sum.splits option.splits prod.splits)

lemma open_graph_cases:
  assumes "open_native_graph env p f = (r, f')" "pm_available p"
  obtains (failed) e g where "prepare_vector_state env p f = (e, g)" "f' = g" "is_raise r"
    | (opened) vs g where "prepare_vector_state env p f = (Inr vs, g)" "r = Inr vs"
        "f' = g\<lparr>vf_metadata := Recorded (DObj (metadata_record p))\<rparr>"
  using assms
  by (cases "prepare_vector_state env p f"; cases "fst (prepare_vector_state env p f)"; cases "ve_native env"; cases "ve_write env")
    (auto simp: open_native_graph_def act_bind_def act_seq_def act_lift_def act_return_def act_modify_def)

lemma history_ok_act:
  assumes ok: "history_ok h" and available: "\<And>env p. a = OpenGraph env p \<Longrightarrow> pm_available p"
  shows "history_ok (vector_act a h)"
proof (cases a)
  case (OpenGraph env p)
  note p = available [OF OpenGraph]
  show ?thesis
  proof (cases "vh_open h")
    case (Some x)
    then show ?thesis using OpenGraph ok by simp
  next
    case None
    obtain r f' where o: "open_native_graph env p (vh_files h) = (r, f')" by fastforce
    have kept: "set origins \<subseteq> {identity_of q}"
      if "prepare_vector_state env p (vh_files h) = (e, g)" "vf_vectors g = Some origins" "recorded_for q (vf_metadata (vh_files h))"
      for e g origins q
      using prepare_vectors [OF that(1)] ok that(2,3) by (auto simp: history_ok_def Let_def)
    from o p show ?thesis
    proof (cases rule: open_graph_cases)
      case (failed e g)
      then show ?thesis using OpenGraph None o kept prepare_metadata [OF failed(1)]
        by (cases r) (auto simp: history_ok_def Let_def)
    next
      case (opened vs g)
      have "set origins \<subseteq> {identity_of p}" if here: "vf_vectors g = Some origins" for origins
      proof -
        have "vf_vectors (vh_files h) = Some origins" using prepare_vectors [OF opened(1)] here by auto
        moreover from this have "recorded_for p (vf_metadata (vh_files h))"
          using prepare_unusable(2) [OF opened(1) _ _ p] here by fastforce
        ultimately show ?thesis using ok by (simp add: history_ok_def Let_def)
      qed
      then show ?thesis using OpenGraph None o opened
        by (auto simp: history_ok_def Let_def recorded_identity)
    qed
  qed
next
  case StoreVector
  show ?thesis
  proof (cases "vh_open h")
    case None
    then show ?thesis using StoreVector ok by simp
  next
    case (Some x)
    obtain p vs where x: "x = (p, vs)" by (cases x)
    have meta: "vf_metadata (vh_files h) = Recorded (DObj (metadata_record p))"
      using ok Some x by (simp add: history_ok_def Let_def)
    have "set origins \<subseteq> {identity_of p}" if "vf_vectors (vh_files h) = Some origins" for origins
      using ok that meta recorded_identity [of p p] by (simp add: history_ok_def Let_def)
    then show ?thesis using StoreVector Some x meta
      by (cases "vf_vectors (vh_files h)") (auto simp: history_ok_def Let_def recorded_identity)
  qed
next
  case EndProcess
  then show ?thesis using ok by (simp add: history_ok_def Let_def)
qed

lemma history_ok_run:
  assumes "\<And>env p. OpenGraph env p \<in> set as \<Longrightarrow> pm_available p" "history_ok h"
  shows "history_ok (fold vector_act as h)"
  using assms
proof (induction as arbitrary: h)
  case Nil
  then show ?case by simp
next
  case (Cons a as)
  have "history_ok (vector_act a h)" by (rule history_ok_act) (use Cons.prems in auto)
  then show ?case using Cons.IH [of "vector_act a h"] Cons.prems(1) by auto
qed


definition demo_history :: "vector_action list" where
  "demo_history =
     [OpenGraph demo_vector_env (demo_provider ''m1'' True), StoreVector, EndProcess,
      OpenGraph demo_vector_env (demo_provider ''m2'' True), StoreVector, StoreVector]"

lemmas history_simps = open_native_graph_def prepare_vector_state_def demo_vector_env_def demo_provider_def metadata_record_def
  records_provider_def field_def equals_string_def equals_int_def set_aside_def quarantine_def quarantine_suffix_def
  quarantine_name_def act_defs new_history_def usable_def identity_of_def Let_def


text \<open>Aux: A graph opened while its provider is unavailable mixes vectors.  Then nothing is set aside and
  nothing is recorded, yet vectors can be stored once the provider is back; when the old provider is
  configured again its record matches, and the index it searches holds vectors of both.\<close>

theorem unavailable_opening_mixes_vectors:
  "\<exists>h vs. h = fold vector_act
        [OpenGraph demo_vector_env (demo_provider ''m1'' True), StoreVector, EndProcess,
         OpenGraph demo_vector_env (demo_provider ''m2'' False), StoreVector, EndProcess,
         OpenGraph demo_vector_env (demo_provider ''m1'' True)] new_history
     \<and> vh_open h = Some (demo_provider ''m1'' True, vs) \<and> vs_available vs
     \<and> vf_vectors (vh_files h) = Some [(''local'', ''m2'', 3), (''local'', ''m1'', 3)]"
  by (simp add: history_simps)

end
