(* ===== verification/Operation_Metrics.thy ===== *)
theory Operation_Metrics
  imports Complex_Main Sha256 "HOL-Library.Multiset"
begin

text \<open>
  Aggregate operation metrics (\<open>src/src/scs/metrics.py\<close>): one row per hour and allowlisted bucket,
  kept within a retention time and a number of rows.  Instants are microseconds; the code compares
  their ISO texts, whose order is that of the instants.  Durations are exact rationals.
\<close>

section \<open>Buckets\<close>

record metric =
  mt_id :: nat
  mt_hour :: nat
  mt_method :: string
  mt_repo :: string
  mt_mode :: string
  mt_detail :: string
  mt_status :: string
  mt_calls :: nat
  mt_total :: rat
  mt_max :: rat
  mt_errors :: nat

text \<open>An aggregate store: its key and its two bounds.\<close>

record metrics_store =
  ms_key :: "nat list"
  ms_retention_days :: nat
  ms_max_rows :: nat

definition key_bytes :: nat where
  "key_bytes = 32"

definition allowed_search_modes :: "string list" where
  "allowed_search_modes = [''fast'', ''balanced'', ''thorough'']"

definition allowed_result_details :: "string list" where
  "allowed_result_details = [''full'', ''compact'']"

definition microseconds_per_hour :: nat where
  "microseconds_per_hour = 3600000000"

definition days_before :: "nat \<Rightarrow> nat \<Rightarrow> nat" where
  "days_before now days = now - days * 24 * microseconds_per_hour"

text \<open>The key file: created with random bytes, otherwise read and checked.\<close>

definition load_or_create_key :: "nat list \<Rightarrow> (nat list option, nat list) act" where
  "load_or_create_key random file =
     (let bytes = (case file of None \<Rightarrow> random | Some bs \<Rightarrow> bs) in
      (if length bytes \<noteq> key_bytes then Inl (ValueError ''metrics key must contain exactly 32 bytes'') else Inr bytes,
       Some bytes))"

definition new_metrics :: "nat list \<Rightarrow> int \<Rightarrow> int \<Rightarrow> (nat list option, metrics_store) act" where
  "new_metrics random retention_days max_rows =
     (if retention_days < 1 \<or> max_rows < 1
      then act_raise (ValueError ''metrics retention and row bounds must be positive'')
      else act_bind (load_or_create_key random) (\<lambda>key.
        act_return \<lparr>ms_key = key, ms_retention_days = nat retention_days, ms_max_rows = nat max_rows\<rparr>))"

text \<open>\<open>hmac.new(key, message, sha256).hexdigest()\<close> for a key within the block of 64 bytes.\<close>

definition sha256_digest :: "nat list \<Rightarrow> nat list" where
  "sha256_digest bs = concat (map (\<lambda>w. be_bytes 4 (unat w)) (sha_blocks sha_h0 (be_words (sha_pad bs))))"

definition hmac_sha256 :: "nat list \<Rightarrow> nat list \<Rightarrow> string" where
  "hmac_sha256 key message =
     (let block = key @ replicate (64 - length key) 0 in
      sha256_bytes (map (\<lambda>b. Bit_Operations.xor b 92) block
        @ sha256_digest (map (\<lambda>b. Bit_Operations.xor b 54) block @ message)))"

definition metric_repo :: "nat list \<Rightarrow> json \<Rightarrow> string" where
  "metric_repo key value =
     (case value of
        JStr s \<Rightarrow> if s = [] then '''' else take 16 (hmac_sha256 key (utf8 s))
      | _ \<Rightarrow> '''')"

definition allowed_string :: "json \<Rightarrow> string list \<Rightarrow> string" where
  "allowed_string value allowed = (case value of JStr s \<Rightarrow> if s \<in> set allowed then s else '''' | _ \<Rightarrow> '''')"

section \<open>Recording\<close>

text \<open>One observed call.\<close>

record observed =
  ob_now :: nat
  ob_method :: string
  ob_params :: dict
  ob_status :: string
  ob_duration :: rat

type_synonym bucket = "nat \<times> string \<times> string \<times> string \<times> string \<times> string"

definition bucket_of :: "metrics_store \<Rightarrow> observed \<Rightarrow> bucket" where
  "bucket_of ms c =
     (ob_now c - ob_now c mod microseconds_per_hour, ob_method c,
      metric_repo (ms_key ms) (dict_get (ob_params c) ''repo_path'' JNull),
      allowed_string (dict_get (ob_params c) ''search_mode'' JNull) allowed_search_modes,
      allowed_string (dict_get (ob_params c) ''result_detail'' JNull) allowed_result_details,
      if ob_status c = ''error'' then ''error'' else ''ok'')"

definition row_bucket :: "metric \<Rightarrow> bucket" where
  "row_bucket r = (mt_hour r, mt_method r, mt_repo r, mt_mode r, mt_detail r, mt_status r)"

definition failed_call :: "observed \<Rightarrow> bool" where
  "failed_call c = (ob_status c = ''error'')"

text \<open>A fresh rowid is one above the greatest in the table.\<close>

definition next_rowid :: "metric list \<Rightarrow> nat" where
  "next_rowid rows = Suc (fold max (map mt_id rows) 0)"

definition new_row :: "metrics_store \<Rightarrow> observed \<Rightarrow> metric list \<Rightarrow> metric" where
  "new_row ms c rows =
     (case bucket_of ms c of (hour, method, repo, mode, detail, status) \<Rightarrow>
        \<lparr>mt_id = next_rowid rows, mt_hour = hour, mt_method = method, mt_repo = repo, mt_mode = mode, mt_detail = detail,
         mt_status = status, mt_calls = 1, mt_total = max 0 (ob_duration c), mt_max = max 0 (ob_duration c),
         mt_errors = of_bool (failed_call c)\<rparr>)"

definition count_call :: "observed \<Rightarrow> metric \<Rightarrow> metric" where
  "count_call c r =
     r\<lparr>mt_calls := mt_calls r + 1, mt_total := mt_total r + max 0 (ob_duration c),
       mt_max := max (mt_max r) (max 0 (ob_duration c)), mt_errors := mt_errors r + of_bool (failed_call c)\<rparr>"

text \<open>\<open>INSERT ... ON CONFLICT ... DO UPDATE\<close>\<close>

definition upsert_call :: "metrics_store \<Rightarrow> observed \<Rightarrow> metric list \<Rightarrow> metric list" where
  "upsert_call ms c rows =
     (if list_ex (\<lambda>r. row_bucket r = bucket_of ms c) rows
      then update_where (\<lambda>r. row_bucket r = bucket_of ms c) (count_call c) rows
      else rows @ [new_row ms c rows])"

definition delete_expired :: "metrics_store \<Rightarrow> nat \<Rightarrow> metric list \<Rightarrow> metric list" where
  "delete_expired ms now rows = filter (\<lambda>r. days_before now (ms_retention_days ms) \<le> mt_hour r) rows"

definition delete_oldest :: "metrics_store \<Rightarrow> metric list \<Rightarrow> metric list" where
  "delete_oldest ms rows =
     (let doomed = take (length rows - ms_max_rows ms) (order_by (\<lambda>r. (mt_hour r, mt_id r)) rows) in
      filter (\<lambda>r. mt_id r \<notin> mt_id ` set doomed) rows)"

definition record_call :: "metrics_store \<Rightarrow> observed \<Rightarrow> metric list \<Rightarrow> metric list" where
  "record_call ms c rows = delete_oldest ms (delete_expired ms (ob_now c) (upsert_call ms c rows))"

section \<open>Reporting\<close>

record metrics_summary =
  su_days :: int
  su_calls :: nat
  su_errors :: nat
  su_operations :: "metric list"

definition report_metrics :: "metrics_store \<Rightarrow> int \<Rightarrow> nat \<Rightarrow> metric list \<Rightarrow> metrics_summary" where
  "report_metrics ms days now rows =
     (let bounded = max 1 (min days (int (ms_retention_days ms)));
          shown = order_by (\<lambda>r. (- int (mt_hour r), mt_method r, mt_repo r))
            (filter (\<lambda>r. days_before now (nat bounded) \<le> mt_hour r) rows) in
      \<lparr>su_days = bounded, su_calls = sum_list (map mt_calls shown), su_errors = sum_list (map mt_errors shown),
       su_operations = shown\<rparr>)"

text \<open>The \<open>metrics.report\<close> method of the daemon, with or without a store.\<close>

definition metrics_report :: "(metrics_store \<times> metric list) option \<Rightarrow> nat \<Rightarrow> dict \<Rightarrow> exc + metrics_summary" where
  "metrics_report metrics now params =
     (case dict_get params ''days'' (JInt 7) of
        JInt days \<Rightarrow>
          Inr (case metrics of
                 None \<Rightarrow> \<lparr>su_days = max 1 (min days 30), su_calls = 0, su_errors = 0, su_operations = []\<rparr>
               | Some (ms, rows) \<Rightarrow> report_metrics ms days now rows)
      | _ \<Rightarrow> Inl (ValueError ''days must be an integer''))"

section \<open>What the table may hold\<close>

definition bucket_allowed :: "bucket \<Rightarrow> bool" where
  "bucket_allowed b =
     (case b of (hour, method, repo, mode, detail, status) \<Rightarrow>
        microseconds_per_hour dvd hour \<and> (repo = '''' \<or> length repo = 16 \<and> list_all lower_hex repo)
        \<and> (mode = '''' \<or> mode \<in> set allowed_search_modes) \<and> (detail = '''' \<or> detail \<in> set allowed_result_details)
        \<and> (status = ''ok'' \<or> status = ''error''))"

definition metric_ok :: "metric \<Rightarrow> bool" where
  "metric_ok r =
     (bucket_allowed (row_bucket r) \<and> 0 < mt_calls r \<and> mt_errors r = (if mt_status r = ''error'' then mt_calls r else 0)
      \<and> 0 \<le> mt_max r \<and> mt_max r \<le> mt_total r)"

definition metrics_ok :: "metric list \<Rightarrow> bool" where
  "metrics_ok rows = (distinct (map mt_id rows) \<and> distinct (map row_bucket rows) \<and> list_all metric_ok rows)"

lemma bucket_of_allowed: "bucket_allowed (bucket_of ms c)"
proof -
  have "length (take 16 (hmac_sha256 k m)) = 16 \<and> list_all lower_hex (take 16 (hmac_sha256 k m))" for k m
    using sha256_bytes_shape by (auto simp: hmac_sha256_def Let_def list_all_iff dest: in_set_takeD)
  then show ?thesis
    by (auto simp: bucket_allowed_def bucket_of_def metric_repo_def allowed_string_def microseconds_per_hour_def
        minus_mod_eq_mult_div split: json.splits)
qed

lemma row_bucket_new: "row_bucket (new_row ms c rows) = bucket_of ms c"
  by (simp add: new_row_def row_bucket_def split: prod.splits)

lemma row_bucket_count [simp]: "row_bucket (count_call c r) = row_bucket r"
  by (simp add: count_call_def row_bucket_def)

lemma count_call_id [simp]: "mt_id (count_call c r) = mt_id r"
  by (simp add: count_call_def)

lemma fold_max_ge: "x \<in> set xs \<or> x \<le> a \<Longrightarrow> x \<le> fold max xs (a::nat)"
  by (induction xs arbitrary: a) fastforce+

lemma next_rowid_fresh: "next_rowid rows \<notin> mt_id ` set rows"
  using fold_max_ge [of _ "map mt_id rows" 0] by (fastforce simp: next_rowid_def)

lemma bucket_status: "bucket_of ms c = (hour, method, repo, mode, detail, status) \<Longrightarrow> (status = ''error'') = failed_call c"
  by (auto simp: bucket_of_def failed_call_def split: if_splits)

lemma metric_ok_count:
  assumes "metric_ok r" "row_bucket r = bucket_of ms c"
  shows "metric_ok (count_call c r)"
proof -
  have "(mt_status r = ''error'') = failed_call c"
    using assms(2) bucket_status [of ms c] by (metis row_bucket_def)
  then show ?thesis using assms(1) by (auto simp: metric_ok_def count_call_def row_bucket_def)
qed

lemma metric_ok_new: "metric_ok (new_row ms c rows)"
  using bucket_of_allowed [of ms c] bucket_status [of ms c] row_bucket_new [of ms c rows]
  by (auto simp: metric_ok_def new_row_def split: prod.splits)

lemma upsert_ok:
  assumes ok: "metrics_ok rows"
  shows "metrics_ok (upsert_call ms c rows)"
proof (cases "list_ex (\<lambda>r. row_bucket r = bucket_of ms c) rows")
  case True
  have "list_all metric_ok (update_where (\<lambda>r. row_bucket r = bucket_of ms c) (count_call c) rows)"
    using ok by (auto simp: metrics_ok_def update_where_def list_all_iff intro: metric_ok_count)
  then show ?thesis using ok True by (simp add: upsert_call_def metrics_ok_def map_update_where)
next
  case False
  then show ?thesis using ok next_rowid_fresh [of rows] metric_ok_new [of ms c rows]
    by (auto simp: upsert_call_def metrics_ok_def row_bucket_new list_ex_iff)
      (simp add: new_row_def split: prod.splits)+
qed

lemma metrics_ok_filter: "metrics_ok rows \<Longrightarrow> metrics_ok (filter P rows)"
  by (auto simp: metrics_ok_def distinct_map list_all_iff intro: inj_on_subset)

lemma delete_oldest_bounded:
  assumes "distinct (map mt_id rows)"
  shows "length (delete_oldest ms rows) \<le> ms_max_rows ms"
proof -
  let ?sorted = "order_by (\<lambda>r. (mt_hour r, mt_id r)) rows" and ?k = "length rows - ms_max_rows ms"
  have perm: "mset (map mt_id ?sorted) = mset (map mt_id rows)" by (simp only: order_by_def mset_map mset_sort)
  have distinct: "distinct (map mt_id ?sorted)" by (simp only: mset_eq_imp_distinct_iff [OF perm] assms)
  have len: "length ?sorted = length rows" by (simp add: order_by_def)
  define doomed where "doomed = mt_id ` set (take ?k ?sorted)"
  have "doomed = set (take ?k (map mt_id ?sorted))" by (simp add: doomed_def take_map)
  then have "card doomed = length (take ?k (map mt_id ?sorted))" using distinct_card [OF distinct_take [OF distinct]] by simp
  then have card: "card doomed = ?k" by (simp add: len)
  have sub: "doomed \<subseteq> set (map mt_id rows)"
    using set_take_subset [of ?k ?sorted] by (auto simp: doomed_def)
  have ids: "map mt_id (delete_oldest ms rows) = filter (\<lambda>i. i \<notin> doomed) (map mt_id rows)"
    by (simp add: delete_oldest_def Let_def filter_map comp_def doomed_def)
  have "length (delete_oldest ms rows) = card (set (map mt_id (delete_oldest ms rows)))"
    using distinct_card [of "map mt_id (delete_oldest ms rows)"] assms by (simp only: ids distinct_filter length_map) (metis ids length_map)
  also have "set (map mt_id (delete_oldest ms rows)) = set (map mt_id rows) - doomed" unfolding ids by auto
  also have "card (set (map mt_id rows) - doomed) = card (set (map mt_id rows)) - card doomed"
    by (rule card_Diff_subset [OF finite_subset [OF sub finite_set] sub])
  also have "\<dots> = length rows - ?k" using distinct_card [OF assms] by (simp add: card)
  finally show ?thesis by simp
qed

lemma metrics_ok_record: "metrics_ok rows \<Longrightarrow> metrics_ok (record_call ms c rows)"
  by (simp add: record_call_def delete_oldest_def delete_expired_def Let_def metrics_ok_filter upsert_ok)

lemma record_call_bounded: "metrics_ok rows \<Longrightarrow> length (record_call ms c rows) \<le> ms_max_rows ms"
  unfolding record_call_def
  by (rule delete_oldest_bounded) (simp add: upsert_ok metrics_ok_filter delete_expired_def metrics_ok_def [THEN iffD1, THEN conjunct1])

lemma record_call_fresh: "r \<in> set (record_call ms c rows) \<Longrightarrow> days_before (ob_now c) (ms_retention_days ms) \<le> mt_hour r"
  by (auto simp: record_call_def delete_oldest_def delete_expired_def Let_def)

text \<open>Two calls that differ in nothing that is recorded.\<close>

definition alike :: "metrics_store \<Rightarrow> observed \<Rightarrow> observed \<Rightarrow> bool" where
  "alike ms c d =
     (ob_now c = ob_now d \<and> bucket_of ms c = bucket_of ms d \<and> max 0 (ob_duration c) = max 0 (ob_duration d))"

lemma alike_failed: "alike ms c d \<Longrightarrow> failed_call c = failed_call d"
  by (auto simp: alike_def bucket_of_def failed_call_def split: if_splits)

lemma alike_record: "alike ms c d \<Longrightarrow> record_call ms c rows = record_call ms d rows"
proof -
  assume a: "alike ms c d"
  then have "count_call c = count_call d" using alike_failed [OF a] by (simp add: fun_eq_iff count_call_def alike_def)
  moreover have "new_row ms c rows = new_row ms d rows" using a alike_failed [OF a] by (simp add: new_row_def alike_def)
  ultimately show ?thesis using a by (simp add: record_call_def upsert_call_def alike_def)
qed

definition recorded :: "metrics_store \<Rightarrow> observed list \<Rightarrow> metric list" where
  "recorded ms cs = fold (record_call ms) cs []"

lemma recorded_snoc: "recorded ms (cs @ [c]) = record_call ms c (recorded ms cs)"
  by (simp add: recorded_def)

lemma no_calls_recorded [simp]: "recorded ms [] = []"
  by (simp add: recorded_def)

lemma recorded_ok: "metrics_ok (recorded ms cs)"
  by (induction cs rule: rev_induct) (simp_all add: recorded_snoc metrics_ok_record, simp add: metrics_ok_def)

text \<open>C36: Metrics stay small and say nothing about a request.  Whatever calls are observed, the table has
  at most the configured number of rows, one per bucket, no row before the retention time of the last
  call, and each row's bucket consists of an hour, the method, allowlisted strings, a keyed digest of 16
  hexadecimal digits or nothing, and the status; requests that differ in anything else leave the same
  table.\<close>

theorem metrics_are_bounded_and_anonymous:
  assumes "list_all2 (alike ms) cs ds"
  shows "recorded ms cs = recorded ms ds \<and> length (recorded ms cs) \<le> ms_max_rows ms
     \<and> distinct (map row_bucket (recorded ms cs))
     \<and> list_all (\<lambda>r. metric_ok r \<and> days_before (ob_now (last cs)) (ms_retention_days ms) \<le> mt_hour r) (recorded ms cs)"
proof -
  have same: "fold (record_call ms) cs rows = fold (record_call ms) ds rows" for rows
    using assms by (induction cs ds arbitrary: rows rule: list_all2_induct) (simp_all add: alike_record)
  have ok: "metrics_ok (recorded ms cs)" by (rule recorded_ok)
  show ?thesis
  proof (cases cs rule: rev_cases)
    case Nil
    then show ?thesis using assms by (simp add: recorded_def)
  next
    case (snoc xs x)
    have "length (recorded ms cs) \<le> ms_max_rows ms"
      unfolding snoc recorded_snoc by (rule record_call_bounded [OF recorded_ok])
    moreover have "list_all (\<lambda>r. days_before (ob_now x) (ms_retention_days ms) \<le> mt_hour r) (recorded ms cs)"
      unfolding snoc recorded_snoc using record_call_fresh by (fastforce simp: list_all_iff)
    ultimately show ?thesis using same ok snoc by (auto simp: recorded_def metrics_ok_def list_all_iff)
  qed
qed

definition demo_store :: metrics_store where
  "demo_store = \<lparr>ms_key = replicate 32 1, ms_retention_days = 30, ms_max_rows = 2\<rparr>"

definition demo_call :: "string \<Rightarrow> string \<Rightarrow> nat \<Rightarrow> observed" where
  "demo_call mode text minute =
     \<lparr>ob_now = minute * 60000000, ob_method = ''knowledge.search'',
      ob_params = [(''query'', JStr text), (''search_mode'', JStr mode)], ob_status = ''ok'', ob_duration = 5\<rparr>"

theorem metrics_are_bounded_and_anonymous_witness:
  "recorded demo_store [demo_call ''fast'' ''secret'' 1, demo_call ''private'' ''a'' 2] =
     recorded demo_store [demo_call ''fast'' ''other'' 1, demo_call ''hidden'' ''b'' 2]"
proof -
  have "list_all2 (alike demo_store) [demo_call ''fast'' ''secret'' 1, demo_call ''private'' ''a'' 2]
      [demo_call ''fast'' ''other'' 1, demo_call ''hidden'' ''b'' 2]"
    by (simp add: alike_def demo_call_def bucket_of_def dict_get_def metric_repo_def allowed_string_def
        allowed_search_modes_def)
  from metrics_are_bounded_and_anonymous [OF this] show ?thesis by blast
qed

section \<open>Exact counts\<close>

definition total_calls :: "metric list \<Rightarrow> nat" where
  "total_calls rows = sum_list (map mt_calls rows)"

definition total_errors :: "metric list \<Rightarrow> nat" where
  "total_errors rows = sum_list (map mt_errors rows)"

lemma update_one:
  assumes "distinct (map row_bucket rows)" "r \<in> set rows" "row_bucket r = b"
    and "\<And>r. g (f r) = g r + (d :: nat)"
  shows "sum_list (map g (update_where (\<lambda>r. row_bucket r = b) f rows)) = sum_list (map g rows) + d"
  using assms
proof (induction rows)
  case Nil
  then show ?case by simp
next
  case (Cons x xs)
  have rest: "update_where (\<lambda>r. row_bucket r = b) f xs = xs" if "b \<notin> row_bucket ` set xs"
    using that by (induction xs) (auto simp: update_where_def)
  show ?case
  proof (cases "row_bucket x = b")
    case True
    then have "b \<notin> row_bucket ` set xs" using Cons.prems(1) by auto
    then show ?thesis using rest True Cons.prems(4) by (simp add: update_where_def)
  next
    case False
    then have "r \<in> set xs" using Cons.prems(2,3) by auto
    then show ?thesis using Cons.IH [OF _ _ Cons.prems(3,4)] Cons.prems(1) False by (simp add: update_where_def)
  qed
qed

lemma upsert_totals:
  assumes "metrics_ok rows"
  shows "total_calls (upsert_call ms c rows) = total_calls rows + 1"
    "total_errors (upsert_call ms c rows) = total_errors rows + of_bool (failed_call c)"
    "row_bucket ` set (upsert_call ms c rows) = insert (bucket_of ms c) (row_bucket ` set rows)"
proof -
  have counts: "mt_calls (count_call c r) = mt_calls r + 1" "mt_errors (count_call c r) = mt_errors r + of_bool (failed_call c)"
    for r by (simp_all add: count_call_def)
  have fresh: "mt_calls (new_row ms c rows) = 1" "mt_errors (new_row ms c rows) = of_bool (failed_call c)"
    by (simp_all add: new_row_def split: prod.splits)
  show "total_calls (upsert_call ms c rows) = total_calls rows + 1"
    "total_errors (upsert_call ms c rows) = total_errors rows + of_bool (failed_call c)"
  proof (atomize (full), cases "list_ex (\<lambda>r. row_bucket r = bucket_of ms c) rows")
    case True
    then obtain r where r: "r \<in> set rows" "row_bucket r = bucket_of ms c" by (auto simp: list_ex_iff)
    have distinct: "distinct (map row_bucket rows)" using assms by (simp add: metrics_ok_def)
    show "total_calls (upsert_call ms c rows) = total_calls rows + 1 \<and>
        total_errors (upsert_call ms c rows) = total_errors rows + of_bool (failed_call c)"
      using update_one [where g = mt_calls and f = "count_call c", OF distinct r counts(1)]
        update_one [where g = mt_errors and f = "count_call c", OF distinct r counts(2)] True
      by (simp add: upsert_call_def total_calls_def total_errors_def)
  next
    case False
    then show "total_calls (upsert_call ms c rows) = total_calls rows + 1 \<and>
        total_errors (upsert_call ms c rows) = total_errors rows + of_bool (failed_call c)"
      by (simp add: upsert_call_def total_calls_def total_errors_def fresh)
  qed
  have "set (map row_bucket (upsert_call ms c rows)) = insert (bucket_of ms c) (set (map row_bucket rows))"
  proof (cases "list_ex (\<lambda>r. row_bucket r = bucket_of ms c) rows")
    case True
    then have "bucket_of ms c \<in> set (map row_bucket rows)" by (force simp: list_ex_iff)
    then show ?thesis
      by (simp only: upsert_call_def True if_True map_update_where [of row_bucket, OF row_bucket_count] insert_absorb)
  next
    case False
    then show ?thesis by (simp add: upsert_call_def row_bucket_new)
  qed
  then show "row_bucket ` set (upsert_call ms c rows) = insert (bucket_of ms c) (row_bucket ` set rows)" by simp
qed

text \<open>No row is evicted while the buckets fit and every call is within the retention time of every other.\<close>

definition nothing_evicted :: "metrics_store \<Rightarrow> observed list \<Rightarrow> bool" where
  "nothing_evicted ms cs =
     (card (bucket_of ms ` set cs) \<le> ms_max_rows ms
      \<and> (\<forall>c\<in>set cs. \<forall>d\<in>set cs. days_before (ob_now c) (ms_retention_days ms) \<le> fst (bucket_of ms d)))"

lemma nothing_evicted_prefix: "nothing_evicted ms (cs @ [c]) \<Longrightarrow> nothing_evicted ms cs"
proof -
  assume ne: "nothing_evicted ms (cs @ [c])"
  have "card (bucket_of ms ` set cs) \<le> card (bucket_of ms ` set (cs @ [c]))" by (intro card_mono) auto
  then show ?thesis using ne by (auto simp: nothing_evicted_def)
qed

lemma recorded_totals:
  "nothing_evicted ms cs \<Longrightarrow>
   row_bucket ` set (recorded ms cs) = bucket_of ms ` set cs \<and> total_calls (recorded ms cs) = length cs
   \<and> total_errors (recorded ms cs) = how_many failed_call cs"
proof (induction cs rule: rev_induct)
  case Nil
  then show ?case by (simp add: total_calls_def total_errors_def how_many_def)
next
  case (snoc c cs)
  let ?up = "upsert_call ms c (recorded ms cs)"
  note ih = snoc.IH [OF nothing_evicted_prefix [OF snoc.prems]]
  note totals = upsert_totals [OF recorded_ok, of ms c ms cs]
  have buckets: "row_bucket ` set ?up = bucket_of ms ` set (cs @ [c])" using totals(3) ih by simp
  have hour: "mt_hour r = fst (row_bucket r)" for r by (simp add: row_bucket_def)
  have "days_before (ob_now c) (ms_retention_days ms) \<le> mt_hour r" if "r \<in> set ?up" for r
  proof -
    obtain d where "d \<in> set (cs @ [c])" "row_bucket r = bucket_of ms d" using buckets \<open>r \<in> set ?up\<close> by (metis imageE imageI)
    then show ?thesis using snoc.prems unfolding nothing_evicted_def hour by auto
  qed
  then have fresh: "delete_expired ms (ob_now c) ?up = ?up" by (simp add: delete_expired_def filter_id_conv)
  have "distinct (map row_bucket ?up)" using upsert_ok [OF recorded_ok] by (simp add: metrics_ok_def)
  then have "length ?up = card (row_bucket ` set ?up)" by (metis distinct_card length_map set_map)
  also have "\<dots> \<le> ms_max_rows ms" unfolding buckets using snoc.prems by (simp add: nothing_evicted_def)
  finally have "delete_oldest ms ?up = ?up" by (simp add: delete_oldest_def)
  then have "recorded ms (cs @ [c]) = ?up" by (simp add: recorded_snoc record_call_def fresh)
  then show ?case using buckets totals(1,2) ih by (simp add: how_many_def)
qed

text \<open>Aux: The report counts every call.  As long as the buckets fit into the table and the calls lie within
  the retention time, a report over a window that reaches back to all of them says exactly how many calls
  there were and how many of them failed, whatever the order of the calls and however they share
  buckets.\<close>

theorem report_counts_every_call:
  assumes "nothing_evicted ms cs"
    and "\<forall>c\<in>set cs. days_before now (nat (max 1 (min days (int (ms_retention_days ms))))) \<le> fst (bucket_of ms c)"
  shows "su_calls (report_metrics ms days now (recorded ms cs)) = length cs
     \<and> su_errors (report_metrics ms days now (recorded ms cs)) = how_many failed_call cs"
proof -
  note totals = recorded_totals [OF assms(1)]
  let ?since = "days_before now (nat (max 1 (min days (int (ms_retention_days ms)))))"
  have "?since \<le> mt_hour r" if mem: "r \<in> set (recorded ms cs)" for r
  proof -
    have "row_bucket r \<in> bucket_of ms ` set cs" using totals mem by blast
    then obtain c where "c \<in> set cs" "row_bucket r = bucket_of ms c" by blast
    then show ?thesis using assms(2) by (metis fst_conv row_bucket_def)
  qed
  then have all: "filter (\<lambda>r. ?since \<le> mt_hour r) (recorded ms cs) = recorded ms cs" by (simp add: filter_id_conv)
  have perm: "sum_list (map g (order_by k rows)) = sum_list (map g rows)" for g :: "metric \<Rightarrow> nat" and k :: "metric \<Rightarrow> 'b::linorder" and rows
    by (simp only: order_by_def sum_mset_sum_list [symmetric] mset_map mset_sort)
  show ?thesis using totals
    by (simp add: report_metrics_def Let_def all perm total_calls_def total_errors_def)
qed

lemma demo_bucket:
  "m < 60 \<Longrightarrow> bucket_of demo_store ((demo_call ''fast'' t m)\<lparr>ob_status := st\<rparr>) =
     (0, ''knowledge.search'', '''', ''fast'', '''', if st = ''error'' then ''error'' else ''ok'')"
  by (simp add: bucket_of_def demo_call_def microseconds_per_hour_def dict_get_def metric_repo_def allowed_string_def
      allowed_search_modes_def)

lemma demo_status: "(demo_call md t m)\<lparr>ob_status := ''ok''\<rparr> = demo_call md t m"
  by (simp add: demo_call_def)

theorem report_counts_every_call_witness:
  "su_calls (report_metrics demo_store 7 0 (recorded demo_store
      [demo_call ''fast'' ''x'' 1, (demo_call ''fast'' ''y'' 2)\<lparr>ob_status := ''error''\<rparr>, demo_call ''fast'' ''z'' 3])) = 3"
proof -
  let ?cs = "[demo_call ''fast'' ''x'' 1, (demo_call ''fast'' ''y'' 2)\<lparr>ob_status := ''error''\<rparr>, demo_call ''fast'' ''z'' 3]"
  have buckets: "bucket_of demo_store ` set ?cs =
      {(0, ''knowledge.search'', '''', ''fast'', '''', ''ok''), (0, ''knowledge.search'', '''', ''fast'', '''', ''error'')}"
  proof -
    have b: "bucket_of demo_store (demo_call ''fast'' ''x'' 1) = (0, ''knowledge.search'', '''', ''fast'', '''', ''ok'')"
      "bucket_of demo_store ((demo_call ''fast'' ''y'' 2)\<lparr>ob_status := ''error''\<rparr>) =
         (0, ''knowledge.search'', '''', ''fast'', '''', ''error'')"
      "bucket_of demo_store (demo_call ''fast'' ''z'' 3) = (0, ''knowledge.search'', '''', ''fast'', '''', ''ok'')"
      using demo_bucket [where m = 1 and t = "''x''" and st = "''ok''"] demo_bucket [where m = 2 and t = "''y''" and st = "''error''"] demo_bucket [where m = 3 and t = "''z''" and st = "''ok''"]
      by (simp_all add: demo_status)
    show ?thesis by (simp only: list.set image_insert image_empty b) blast
  qed
  have "days_before (ob_now c) (ms_retention_days demo_store) = 0" if "c \<in> set ?cs" for c
    using that by (auto simp: days_before_def demo_store_def demo_call_def microseconds_per_hour_def)
  then have "nothing_evicted demo_store ?cs"
    unfolding nothing_evicted_def buckets by (simp add: demo_store_def)
  moreover have "\<forall>c\<in>set ?cs. days_before 0 (nat (max 1 (min 7 (int (ms_retention_days demo_store))))) \<le> fst (bucket_of demo_store c)"
    by (simp add: days_before_def)
  ultimately show ?thesis using report_counts_every_call [of demo_store ?cs 0 7] by simp
qed

end
