(* ===== verification/Ranking_Gain.thy ===== *)
theory Ranking_Gain
  imports Complex_Main "HOL-Library.Multiset" Scs_Prelude
begin

text \<open>
  Arithmetic of the evaluation harness (\<open>src/src/scs/evaluation\<close>): discounted cumulative gain
  with its maximum over all rankings, means, and nearest-rank percentiles.  Scores are exact
  reals where the code rounds to binary floats.
\<close>

section \<open>Discounted gain\<close>

definition gain :: "nat \<Rightarrow> nat \<Rightarrow> real" where
  "gain grade rank = (2 ^ grade - 1) / log 2 (real rank + 1)"

definition total_gain :: "nat list \<Rightarrow> real" where
  "total_gain grades = (\<Sum>(rank, grade) \<leftarrow> enumerate 1 grades. gain grade rank)"

text \<open>The grades in the order of an ideal ranking: \<open>sorted(..., reverse=True)\<close>.\<close>

definition ideal_order :: "nat list \<Rightarrow> nat list" where
  "ideal_order grades = rev (sort grades)"

lemma set_ideal_order [simp]: "set (ideal_order grades) = set grades"
  by (simp add: ideal_order_def)

lemma length_ideal_order [simp]: "length (ideal_order grades) = length grades"
  by (simp add: ideal_order_def)

definition normalized_gain :: "nat list \<Rightarrow> nat list \<Rightarrow> real" where
  "normalized_gain grades best = (if total_gain best \<noteq> 0 then total_gain grades / total_gain best else 0)"

section \<open>Means and percentiles\<close>

definition mean :: "real list \<Rightarrow> real" where
  "mean xs = sum_list xs / real (length xs)"

text \<open>
  \<open>ordered[max(0, ceil(len(ordered) * fraction) - 1)]\<close> for a fraction in percent.  The code
  multiplies floats; for 0.5 and 0.95 the ceiling is that of the exact product for every length
  below \<open>2 ^ 49\<close>.
\<close>

definition percentile :: "nat \<Rightarrow> 'a::linorder list \<Rightarrow> 'a" where
  "percentile percent xs = sort xs ! ((length xs * percent + 99) div 100 - 1)"

section \<open>No ranking gains more than the ideal one\<close>

lemma gain_weight_antimono: "i \<le> j \<Longrightarrow> 1 / log 2 (real (Suc j) + 1) \<le> 1 / log 2 (real (Suc i) + 1)"
  by (rule divide_left_mono) auto

lemma gain_nonneg: "0 \<le> gain g (Suc i)"
  unfolding gain_def by (rule divide_nonneg_nonneg) (auto simp: self_le_power)

lemma gain_pos: "0 < g \<Longrightarrow> 0 < gain g (Suc i)"
proof -
  assume "0 < g"
  then have "(1::real) < 2 ^ g" by (simp add: one_less_power)
  then show ?thesis unfolding gain_def by (intro divide_pos_pos) auto
qed

lemma total_gain_nth: "total_gain gs = (\<Sum>i<length gs. gain (gs ! i) (Suc i))"
  unfolding total_gain_def
  by (subst sum_list_sum_nth) (auto simp: nth_enumerate_eq atLeast0LessThan intro!: sum.cong)

lemma total_gain_nonneg: "0 \<le> total_gain gs"
  unfolding total_gain_nth by (intro sum_nonneg gain_nonneg)

lemma total_gain_zero_iff: "total_gain gs = 0 \<longleftrightarrow> set gs \<subseteq> {0}"
proof
  assume zero: "total_gain gs = 0"
  have "\<forall>i\<in>{..<length gs}. gain (gs ! i) (Suc i) = 0"
    using zero unfolding total_gain_nth by (subst (asm) sum_nonneg_eq_0_iff) (simp_all add: gain_nonneg)
  then have none: "gs ! i = 0" if "i < length gs" for i
    using gain_pos [of "gs ! i" i] that by (cases "gs ! i = 0") auto
  show "set gs \<subseteq> {0}"
  proof
    fix g
    assume "g \<in> set gs"
    then obtain i where "i < length gs" "gs ! i = g" by (auto simp: in_set_conv_nth)
    then show "g \<in> {0}" using none by auto
  qed
next
  assume "set gs \<subseteq> {0}"
  then have "gs ! i = 0" if "i < length gs" for i using that nth_mem by blast
  then show "total_gain gs = 0" unfolding total_gain_nth by (intro sum.neutral) (simp add: gain_def)
qed

text \<open>Summation by parts: decreasing weights turn larger prefix sums into a larger weighted sum.\<close>

lemma weighted_by_parts:
  fixes w x :: "nat \<Rightarrow> real"
  shows "(\<Sum>i<n. w i * x i) = w n * (\<Sum>i<n. x i) + (\<Sum>i<n. (w i - w (Suc i)) * (\<Sum>j<Suc i. x j))"
  by (induction n) (simp_all add: algebra_simps)

lemma weighted_mono:
  fixes w x y :: "nat \<Rightarrow> real"
  assumes "\<And>i. w (Suc i) \<le> w i" "\<And>i. 0 \<le> w i" "\<And>m. (\<Sum>i<m. x i) \<le> (\<Sum>i<m. y i)"
  shows "(\<Sum>i<n. w i * x i) \<le> (\<Sum>i<n. w i * y i)"
  unfolding weighted_by_parts [of w _ n]
  by (intro add_mono sum_mono mult_left_mono assms(3)) (use assms(1,2) in auto)

text \<open>A selection of a multiset sums up to at most its largest elements.\<close>

lemma selection_sum_le:
  fixes xs ys :: "real list"
  assumes "mset (filter (\<lambda>x. x \<noteq> 0) xs) \<subseteq># mset ys" "sorted_wrt (\<ge>) ys" "\<forall>y\<in>set ys. 0 \<le> y"
  shows "sum_list xs \<le> sum_list (take (length xs) ys)"
  using assms
proof (induction ys arbitrary: xs)
  case Nil
  then have "\<forall>x\<in>set xs. x = 0" by (auto simp: filter_empty_conv)
  then have "sum_list xs = 0" by (induction xs) auto
  then show ?case by simp
next
  case (Cons y ys)
  have ih: "sum_list zs \<le> sum_list (take (length zs) ys)" if "mset (filter (\<lambda>x. x \<noteq> 0) zs) \<subseteq># mset ys" for zs
    using Cons.IH [OF that] Cons.prems by auto
  show ?case
  proof (cases "y \<noteq> 0 \<and> y \<in> set xs")
    case True
    let ?zs = "remove1 y xs"
    have "mset (filter (\<lambda>x. x \<noteq> 0) xs) = add_mset y (mset (filter (\<lambda>x. x \<noteq> 0) ?zs))"
      using True by (subst filter_remove1) simp
    then have "add_mset y (mset (filter (\<lambda>x. x \<noteq> 0) ?zs)) \<subseteq># add_mset y (mset ys)"
      using Cons.prems(1) by (simp only: mset.simps)
    then have "mset (filter (\<lambda>x. x \<noteq> 0) ?zs) \<subseteq># mset ys" by (simp only: mset_subset_eq_add_mset_cancel)
    then have "sum_list ?zs \<le> sum_list (take (length ?zs) ys)" by (rule ih)
    moreover have "sum_list xs = y + sum_list ?zs" using True by (simp add: sum_list_map_remove1 [of y xs "\<lambda>x. x", simplified])
    moreover have "length xs = Suc (length ?zs)"
      using True length_pos_if_in_set [of y xs] by (simp add: length_remove1)
    ultimately show ?thesis by simp
  next
    case False
    have small: "x \<le> y" if "x \<in> set xs" for x
    proof (cases "x = 0")
      case True
      then show ?thesis using Cons.prems(3) by simp
    next
      case False
      then have "x \<in># mset (y # ys)" using that mset_subset_eqD [OF Cons.prems(1)] by auto
      then show ?thesis using Cons.prems(2) by auto
    qed
    show ?thesis
    proof (cases xs)
      case Nil
      then show ?thesis by simp
    next
      case (Cons x zs)
      have "y \<notin># mset (filter (\<lambda>x. x \<noteq> 0) xs)" using False by auto
      then have "mset (filter (\<lambda>x. x \<noteq> 0) xs) \<subseteq># mset ys"
        using Cons.prems(1) by (metis diff_single_trivial mset.simps(2) subset_eq_diff_conv union_mset_add_mset_right add.right_neutral)
      moreover have "mset (filter (\<lambda>x. x \<noteq> 0) zs) \<subseteq># mset (filter (\<lambda>x. x \<noteq> 0) xs)" using Cons by simp
      ultimately have "mset (filter (\<lambda>x. x \<noteq> 0) zs) \<subseteq># mset ys" by (rule subset_mset.trans [rotated])
      then show ?thesis using ih [of zs] small [of x] Cons by simp
    qed
  qed
qed

definition grade_at :: "nat list \<Rightarrow> nat \<Rightarrow> real" where
  "grade_at grades i = (if i < length grades then 2 ^ (grades ! i) - 1 else 0)"

lemma total_gain_weighted:
  assumes "length grades \<le> n"
  shows "total_gain grades = (\<Sum>i<n. 1 / log 2 (real (Suc i) + 1) * grade_at grades i)"
proof -
  have "(\<Sum>i<n. 1 / log 2 (real (Suc i) + 1) * grade_at grades i)
      = (\<Sum>i<length grades. 1 / log 2 (real (Suc i) + 1) * grade_at grades i)"
    by (rule sum.mono_neutral_right) (use assms in \<open>auto simp: grade_at_def\<close>)
  then show ?thesis unfolding total_gain_nth by (simp add: gain_def grade_at_def)
qed

lemma prefix_sum: "(\<Sum>i<m. grade_at grades i) = sum_list (map (\<lambda>g. 2 ^ g - 1 :: real) (take m grades))"
proof -
  have "(\<Sum>i<m. grade_at grades i) = (\<Sum>i<min m (length grades). grade_at grades i)"
    by (rule sum.mono_neutral_right) (auto simp: grade_at_def)
  also have "\<dots> = sum_list (map (\<lambda>g. 2 ^ g - 1 :: real) (take m grades))"
    by (subst sum_list_sum_nth) (auto simp: grade_at_def atLeast0LessThan min.commute intro!: sum.cong)
  finally show ?thesis .
qed

lemma sorted_grades: "sorted_wrt (\<ge>) (map (\<lambda>g. 2 ^ g - 1 :: real) (ideal_order grades))"
  by (simp add: ideal_order_def sorted_wrt_map sorted_wrt_rev sorted_wrt_mono_rel [OF _ sorted_sort])

text \<open>
  The cut-off discounted gain of a ranking that finds every judged item at most once is at most
  that of the ideal ranking.
\<close>

lemma ideal_gain_is_maximal:
  assumes "mset (filter (\<lambda>g. g \<noteq> 0) grades) \<subseteq># mset judged" "length grades \<le> k"
  shows "total_gain grades \<le> total_gain (take k (ideal_order judged))"
proof -
  let ?v = "\<lambda>g::nat. 2 ^ g - 1 :: real"
  let ?best = "ideal_order judged"
  have nonzero: "(?v g \<noteq> 0) = (g \<noteq> 0)" for g
  proof
    assume "?v g \<noteq> 0"
    then show "g \<noteq> 0" by (cases g) auto
  next
    assume "g \<noteq> 0"
    then have "(1::real) < 2 ^ g" by (simp add: one_less_power)
    then show "?v g \<noteq> 0" by simp
  qed
  have prefix: "(\<Sum>i<m. grade_at grades i) \<le> (\<Sum>i<m. grade_at (take k ?best) i)" for m
  proof -
    have "filter (\<lambda>x. x \<noteq> 0) (map ?v (take m grades)) = map ?v (filter (\<lambda>g. g \<noteq> 0) (take m grades))"
      unfolding filter_map comp_def nonzero ..
    moreover have "mset (filter (\<lambda>g. g \<noteq> 0) (take m grades)) \<subseteq># mset (filter (\<lambda>g. g \<noteq> 0) grades)"
    proof -
      have "mset (filter (\<lambda>g. g \<noteq> 0) grades)
          = mset (filter (\<lambda>g. g \<noteq> 0) (take m grades)) + mset (filter (\<lambda>g. g \<noteq> 0) (drop m grades))"
        by (metis append_take_drop_id filter_append mset_append)
      then show ?thesis by simp
    qed
    then have "mset (filter (\<lambda>g. g \<noteq> 0) (take m grades)) \<subseteq># mset ?best"
      using assms(1) by (simp add: ideal_order_def)
    ultimately have "mset (filter (\<lambda>x. x \<noteq> 0) (map ?v (take m grades))) \<subseteq># mset (map ?v ?best)"
      by (simp only: mset_map image_mset_subseteq_mono)
    then have "sum_list (map ?v (take m grades)) \<le> sum_list (take (length (take m grades)) (map ?v ?best))"
      using selection_sum_le [OF _ sorted_grades [of judged], of "map ?v (take m grades)"]
      by (simp add: self_le_power)
    also have "\<dots> \<le> sum_list (map ?v (take m (take k ?best)))"
    proof -
      have "length (take m grades) \<le> min m k" using assms(2) by simp
      then have "take (min m k) (map ?v ?best) =
          take (length (take m grades)) (map ?v ?best) @ drop (length (take m grades)) (take (min m k) (map ?v ?best))"
        by (metis append_take_drop_id min.absorb1 take_take)
      moreover have "0 \<le> sum_list (drop (length (take m grades)) (take (min m k) (map ?v ?best)))"
        by (rule sum_list_nonneg) (auto dest!: in_set_dropD in_set_takeD)
      ultimately have "sum_list (take (length (take m grades)) (map ?v ?best)) \<le> sum_list (take (min m k) (map ?v ?best))"
        by (metis add.right_neutral add_left_mono sum_list_append)
      then show ?thesis by (simp add: take_map take_take)
    qed
    finally show ?thesis unfolding prefix_sum .
  qed
  let ?n = "max (length grades) (length (take k ?best))"
  show ?thesis
    unfolding total_gain_weighted [of grades ?n, OF max.cobounded1] total_gain_weighted [of "take k ?best" ?n, OF max.cobounded2]
    by (rule weighted_mono [OF gain_weight_antimono _ prefix]) simp_all
qed

lemma normalized_gain_bounds:
  assumes "mset (filter (\<lambda>g. g \<noteq> 0) grades) \<subseteq># mset judged" "length grades \<le> k"
  shows "0 \<le> normalized_gain grades (take k (ideal_order judged))"
    "normalized_gain grades (take k (ideal_order judged)) \<le> 1"
  using ideal_gain_is_maximal [OF assms] total_gain_nonneg [of grades] total_gain_nonneg [of "take k (ideal_order judged)"]
  by (auto simp: normalized_gain_def divide_le_eq_1)

section \<open>Bounds of means, rank of percentiles\<close>

lemma mean_bounds:
  assumes "xs \<noteq> []" "\<forall>x\<in>set xs. a \<le> x \<and> x \<le> b"
  shows "a \<le> mean xs" "mean xs \<le> b"
proof -
  have "a * real (length xs) \<le> sum_list xs \<and> sum_list xs \<le> b * real (length xs)"
    using assms(2) by (induction xs) (auto simp: algebra_simps)
  then show "a \<le> mean xs" "mean xs \<le> b"
    using assms(1) by (simp_all add: mean_def field_simps)
qed

text \<open>The percentile is one of the values, and at least its share of the values is not above it.\<close>

lemma percentile_rank:
  assumes "xs \<noteq> []" "p \<le> 100"
  shows "percentile p xs \<in> set xs" "length xs * p \<le> 100 * length (filter (\<lambda>x. x \<le> percentile p xs) xs)"
proof -
  let ?i = "(length xs * p + 99) div 100 - 1"
  have "length xs * p \<le> length xs * 100" using assms(2) by simp
  then have "(length xs * p + 99) div 100 \<le> length xs" by linarith
  then have i: "?i < length xs" using assms(1) by (cases xs) auto
  then show "percentile p xs \<in> set xs" unfolding percentile_def
    by (metis length_sort nth_mem set_sort)
  have "Suc ?i \<le> length (filter (\<lambda>x. x \<le> sort xs ! ?i) (sort xs))"
  proof -
    have "filter (\<lambda>x. x \<le> sort xs ! ?i) (take (Suc ?i) (sort xs)) = take (Suc ?i) (sort xs)"
      using i by (auto simp: filter_id_conv in_set_conv_nth intro!: sorted_nth_mono)
    moreover have "length (filter (\<lambda>x. x \<le> sort xs ! ?i) (take (Suc ?i) (sort xs)))
        \<le> length (filter (\<lambda>x. x \<le> sort xs ! ?i) (sort xs))"
      by (metis append_take_drop_id filter_append le_add1 length_append)
    ultimately show ?thesis using i by simp
  qed
  moreover have "length (filter (\<lambda>x. x \<le> sort xs ! ?i) (sort xs)) = length (filter (\<lambda>x. x \<le> sort xs ! ?i) xs)"
    by (metis mset_filter mset_sort size_mset)
  ultimately show "length xs * p \<le> 100 * length (filter (\<lambda>x. x \<le> percentile p xs) xs)"
    unfolding percentile_def by linarith
qed

end
