(* ===== verification/Poll_Loop.thy ===== *)
theory Poll_Loop
  imports Complex_Main Scs_Prelude
begin

text \<open>
  Loops that poll until they have a result: what such a loop keeps and returns, and when it
  ends.  The waits of the evaluation and of the daemon controller are written with it.
\<close>

text \<open>
  One turn returns \<open>Some x\<close> to stop with \<open>x\<close>.  The loop may not end, so not ending is the
  value None.
\<close>

partial_function (option) poll_until :: "('w, 'a option) act \<Rightarrow> 'w \<Rightarrow> ((exc + 'a) \<times> 'w) option" where
  "poll_until turn w =
     (case turn w of
        (Inl e, w') \<Rightarrow> Some (Inl e, w')
      | (Inr result, w') \<Rightarrow> (case result of Some x \<Rightarrow> Some (Inr x, w') | None \<Rightarrow> poll_until turn w'))"

text \<open>A loop ends if some measure decreases with every turn that goes on.\<close>

lemma poll_until_ends:
  fixes left :: "'w \<Rightarrow> nat"
  assumes "\<And>w w'. turn w = (Inr None, w') \<Longrightarrow> left w' < left w"
  shows "\<exists>r. poll_until turn w = Some r"
proof (induction "left w" arbitrary: w rule: less_induct)
  case less
  obtain r w' where turn: "turn w = (r, w')" by (cases "turn w")
  show ?case
  proof (cases r)
    case (Inl e)
    then show ?thesis using turn by (simp add: poll_until.simps)
  next
    case (Inr result)
    then show ?thesis
      using turn assms [of w w'] less.hyps [of w'] by (cases result) (auto simp: poll_until.simps [of turn w])
  qed
qed

text \<open>What every turn keeps holds at the end, with what the last turn promises.\<close>

lemma poll_until_ensures:
  assumes "act_ensures I turn (\<lambda>y s. case y of None \<Rightarrow> I s | Some x \<Rightarrow> Q x s) E"
    "poll_until turn w = Some (r, w')" "I w"
  shows "case r of Inl e \<Rightarrow> E e w' | Inr x \<Rightarrow> Q x w'"
proof -
  define P where "P turn w out \<longleftrightarrow>
      (act_ensures I turn (\<lambda>y s. case y of None \<Rightarrow> I s | Some x \<Rightarrow> Q x s) E \<longrightarrow> I w \<longrightarrow>
        (case fst out of Inl e \<Rightarrow> E e (snd out) | Inr x \<Rightarrow> Q x (snd out)))"
    for turn :: "('a, 'b option) act" and w out
  have "P turn w (r, w')"
  proof (rule poll_until.raw_induct [where P = P, OF _ assms(2)])
    fix loop :: "('a, 'b option) act \<Rightarrow> 'a \<Rightarrow> ((exc + 'b) \<times> 'a) option" and turn w out
    assume ih: "\<And>turn w out. loop turn w = Some out \<Longrightarrow> P turn w out"
      and body: "(case turn w of
          (Inl e, w') \<Rightarrow> Some (Inl e, w')
        | (Inr result, w') \<Rightarrow> (case result of Some x \<Rightarrow> Some (Inr x, w') | None \<Rightarrow> loop turn w')) = Some out"
    obtain y v where turn: "turn w = (y, v)" by (cases "turn w")
    show "P turn w out"
      unfolding P_def
    proof (intro impI)
      assume ok: "act_ensures I turn (\<lambda>y s. case y of None \<Rightarrow> I s | Some x \<Rightarrow> Q x s) E" and "I w"
      show "case fst out of Inl e \<Rightarrow> E e (snd out) | Inr x \<Rightarrow> Q x (snd out)"
      proof (cases y)
        case (Inl e)
        then show ?thesis using body turn ensures_Inl [OF ok \<open>I w\<close>] by auto
      next
        case (Inr result)
        note after = ensures_Inr [OF ok \<open>I w\<close>, of result v]
        show ?thesis
        proof (cases result)
          case None
          then have "P turn v out" using body turn Inr by (intro ih) simp
          then show ?thesis using ok after turn Inr None by (simp add: P_def)
        next
          case (Some x)
          then show ?thesis using body turn Inr after by auto
        qed
      qed
    qed
  qed
  then show ?thesis using assms(1,3) by (cases r) (simp_all add: P_def)
qed

text \<open>Turns left before a deadline, when every turn takes at least one interval.\<close>

definition turns_left :: "('w \<Rightarrow> real) \<Rightarrow> real \<Rightarrow> real \<Rightarrow> 'w \<Rightarrow> nat" where
  "turns_left now interval deadline w = nat \<lceil>(deadline - now w) / interval\<rceil>"

lemma turns_left_decreases:
  assumes "0 < interval" "now w < deadline" "now w + interval \<le> now w'"
  shows "turns_left now interval deadline w' < turns_left now interval deadline w"
proof -
  have "(deadline - now w') / interval \<le> (deadline - now w - interval) / interval"
    using assms by (intro divide_right_mono) auto
  also have "\<dots> = (deadline - now w) / interval - 1" using assms(1) by (simp add: diff_divide_distrib)
  finally have "(deadline - now w') / interval \<le> (deadline - now w) / interval - 1" .
  then have "\<lceil>(deadline - now w') / interval\<rceil> \<le> \<lceil>(deadline - now w) / interval\<rceil> - 1"
    by (metis ceiling_diff_one ceiling_mono)
  moreover have "0 < \<lceil>(deadline - now w) / interval\<rceil>" using assms by simp
  ultimately show ?thesis using assms(2) unfolding turns_left_def by (auto simp: nat_less_iff)
qed


text \<open>Loops in sequence with actions.\<close>

type_synonym ('w, 'a) running = "'w \<Rightarrow> ((exc + 'a) \<times> 'w) option"

definition then_run :: "('w, 'a) act \<Rightarrow> ('a \<Rightarrow> ('w, 'b) running) \<Rightarrow> ('w, 'b) running" where
  "then_run m f w = (case m w of (Inl e, w') \<Rightarrow> Some (Inl e, w') | (Inr x, w') \<Rightarrow> f x w')"

definition run_ensures ::
  "('w \<Rightarrow> bool) \<Rightarrow> ('w, 'a) running \<Rightarrow> ('a \<Rightarrow> 'w \<Rightarrow> bool) \<Rightarrow> (exc \<Rightarrow> 'w \<Rightarrow> bool) \<Rightarrow> bool" where
  "run_ensures P m Q E =
     (\<forall>s. P s \<longrightarrow> (\<exists>r s'. m s = Some (r, s') \<and> (case r of Inl e \<Rightarrow> E e s' | Inr x \<Rightarrow> Q x s')))"

lemma run_ensuresD:
  "run_ensures P m Q E \<Longrightarrow> P s \<Longrightarrow> \<exists>r s'. m s = Some (r, s') \<and> (case r of Inl e \<Rightarrow> E e s' | Inr x \<Rightarrow> Q x s')"
  by (simp add: run_ensures_def)

lemma run_ensures_then:
  assumes "act_ensures P m R E" "\<And>x. run_ensures (R x) (f x) Q E"
  shows "run_ensures P (then_run m f) Q E"
  unfolding run_ensures_def
proof (intro allI impI)
  fix s
  assume "P s"
  obtain r t where m: "m s = (r, t)" by (cases "m s")
  show "\<exists>r s'. then_run m f s = Some (r, s') \<and> (case r of Inl e \<Rightarrow> E e s' | Inr x \<Rightarrow> Q x s')"
  proof (cases r)
    case (Inl e)
    then show ?thesis using m ensures_Inl [OF assms(1) \<open>P s\<close>] by (simp add: then_run_def)
  next
    case (Inr x)
    then show ?thesis using m ensures_Inr [OF assms(1) \<open>P s\<close>] run_ensuresD [OF assms(2)] by (simp add: then_run_def)
  qed
qed

lemma run_ensures_act: "act_ensures P m Q E \<Longrightarrow> run_ensures P (\<lambda>s. Some (m s)) Q E"
  unfolding run_ensures_def act_ensures_def by (metis (no_types, lifting) case_prod_conv surj_pair)

lemma run_ensures_poll:
  fixes left :: "'w \<Rightarrow> nat"
  assumes "\<And>w w'. turn w = (Inr None, w') \<Longrightarrow> left w' < left w"
    "act_ensures I turn (\<lambda>y s. case y of None \<Rightarrow> I s | Some x \<Rightarrow> Q x s) E"
  shows "run_ensures I (poll_until turn) Q E"
  unfolding run_ensures_def
proof (intro allI impI)
  fix s
  assume "I s"
  obtain r s' where "poll_until turn s = Some (r, s')" using poll_until_ends [of turn left] assms(1) by fastforce
  then show "\<exists>r s'. poll_until turn s = Some (r, s') \<and> (case r of Inl e \<Rightarrow> E e s' | Inr x \<Rightarrow> Q x s')"
    using poll_until_ensures [OF assms(2) _ \<open>I s\<close>] by blast
qed

lemma run_ensures_weaken:
  assumes "run_ensures P m Q E" "\<And>s. P' s \<Longrightarrow> P s" "\<And>x s. Q x s \<Longrightarrow> Q' x s" "\<And>e s. E e s \<Longrightarrow> E' e s"
  shows "run_ensures P' m Q' E'"
  unfolding run_ensures_def
proof (intro allI impI)
  fix s
  assume "P' s"
  then obtain r s' where "m s = Some (r, s')" "case r of Inl e \<Rightarrow> E e s' | Inr x \<Rightarrow> Q x s'"
    using run_ensuresD [OF assms(1) assms(2)] by blast
  then show "\<exists>r s'. m s = Some (r, s') \<and> (case r of Inl e \<Rightarrow> E' e s' | Inr x \<Rightarrow> Q' x s')"
    using assms(3,4) by (cases r) auto
qed

end
