(* ===== verification/Search_Evaluation.thy ===== *)
theory Search_Evaluation
  imports Ranking_Gain Py_Floats Poll_Loop
begin

text \<open>
  The search evaluation (\<open>src/src/scs/evaluation/search.py\<close>): loading a suite of graded
  judgments, scoring one response, aggregation, the run over all cases, and the two bounded
  waits.  The service routes, the daemon controller and the clocks act on a world; replies are
  decoded JSON.
\<close>

type_synonym mapping = "(string \<times> decoded) list"

section \<open>Suites\<close>

record relevance_judgment =
  rj_name :: string
  rj_path :: "string option"
  rj_relevance :: nat

record evaluation_case =
  ec_query :: string
  ec_relevant :: "relevance_judgment list"

record evaluation_suite =
  es_name :: string
  es_cases :: "evaluation_case list"

text \<open>
  Strict validation: unknown fields are refused, and a value has exactly the declared type
  (a \<open>bool\<close> or a \<open>float\<close> is no \<open>int\<close>).  None stands for a validation error.
\<close>

definition only_fields :: "string list \<Rightarrow> mapping \<Rightarrow> bool" where
  "only_fields names kvs = list_all (\<lambda>kv. fst kv \<in> set names) kvs"

definition nonempty_text :: "decoded option \<Rightarrow> string option" where
  "nonempty_text v = (case v of Some (DStr s) \<Rightarrow> if s \<noteq> [] then Some s else None | _ \<Rightarrow> None)"

definition validate_judgment :: "decoded \<Rightarrow> relevance_judgment option" where
  "validate_judgment v =
     (case v of
        DObj kvs \<Rightarrow>
          if \<not> only_fields [''qualified_name'', ''file_path'', ''relevance''] kvs then None
          else Option.bind (nonempty_text (map_of kvs ''qualified_name'')) (\<lambda>name.
            Option.bind
              (case map_of kvs ''file_path'' of
                 None \<Rightarrow> Some None | Some DNull \<Rightarrow> Some None | Some (DStr s) \<Rightarrow> Some (Some s) | _ \<Rightarrow> None) (\<lambda>path.
            Option.bind
              (case map_of kvs ''relevance'' of
                 None \<Rightarrow> Some 1 | Some (DInt i) \<Rightarrow> (if 1 \<le> i then Some (nat i) else None) | _ \<Rightarrow> None) (\<lambda>relevance.
            Some \<lparr>rj_name = name, rj_path = path, rj_relevance = relevance\<rparr>)))
      | _ \<Rightarrow> None)"

fun validate_each :: "(decoded \<Rightarrow> 'a option) \<Rightarrow> decoded list \<Rightarrow> 'a list option" where
  "validate_each f [] = Some []"
| "validate_each f (v # vs) =
     Option.bind (f v) (\<lambda>x. Option.bind (validate_each f vs) (\<lambda>xs. Some (x # xs)))"

definition validate_nonempty_list :: "(decoded \<Rightarrow> 'a option) \<Rightarrow> decoded option \<Rightarrow> 'a list option" where
  "validate_nonempty_list f v =
     (case v of Some (DList vs) \<Rightarrow> (if vs = [] then None else validate_each f vs) | _ \<Rightarrow> None)"

definition validate_case :: "decoded \<Rightarrow> evaluation_case option" where
  "validate_case v =
     (case v of
        DObj kvs \<Rightarrow>
          if \<not> only_fields [''query'', ''relevant''] kvs then None
          else Option.bind (nonempty_text (map_of kvs ''query'')) (\<lambda>query.
            Option.bind (validate_nonempty_list validate_judgment (map_of kvs ''relevant'')) (\<lambda>relevant.
            Some \<lparr>ec_query = query, ec_relevant = relevant\<rparr>))
      | _ \<Rightarrow> None)"

definition validate_suite :: "decoded \<Rightarrow> evaluation_suite option" where
  "validate_suite v =
     (case v of
        DObj kvs \<Rightarrow>
          if \<not> only_fields [''schema_version'', ''name'', ''cases''] kvs \<or> map_of kvs ''schema_version'' \<noteq> Some (DInt 1)
          then None
          else Option.bind (nonempty_text (map_of kvs ''name'')) (\<lambda>name.
            Option.bind (validate_nonempty_list validate_case (map_of kvs ''cases'')) (\<lambda>cases.
            Some \<lparr>es_name = name, es_cases = cases\<rparr>))
      | _ \<Rightarrow> None)"

text \<open>
  Reading the file is an \<open>OSError\<close> or the text, or the failure of decoding it as UTF-8;
  \<open>json.loads\<close> returns None for a text that is not JSON.  All four failures become one
  \<open>ValueError\<close>.
\<close>

definition load_evaluation_suite :: "exc + string option \<Rightarrow> (string \<Rightarrow> decoded option) \<Rightarrow> exc + evaluation_suite" where
  "load_evaluation_suite content loads =
     (let invalid = Inl (ValueError ''invalid search evaluation suite'') in
      case content of
        Inl (OSError _) \<Rightarrow> invalid
      | Inl e \<Rightarrow> Inl e
      | Inr None \<Rightarrow> invalid
      | Inr (Some s) \<Rightarrow>
          (case Option.bind (loads s) validate_suite of None \<Rightarrow> invalid | Some suite \<Rightarrow> Inr suite))"

definition judged :: "relevance_judgment list \<Rightarrow> bool" where
  "judged js \<longleftrightarrow> js \<noteq> [] \<and> (\<forall>j\<in>set js. 1 \<le> rj_relevance j)"

section \<open>One response\<close>

definition string_of :: "decoded \<Rightarrow> string option" where
  "string_of v = (case v of DStr s \<Rightarrow> Some s | _ \<Rightarrow> None)"

text \<open>\<open>result.get(key, metadata.get(key))\<close>: an explicit null hides the metadata.\<close>

definition result_identity :: "mapping \<Rightarrow> string option \<times> string option" where
  "result_identity result =
     (let metadata = (case field result ''metadata'' of DObj kvs \<Rightarrow> kvs | _ \<Rightarrow> []);
          get = (\<lambda>k. case map_of result k of Some v \<Rightarrow> v | None \<Rightarrow> field metadata k) in
      (string_of (get ''qualified_name''), string_of (get ''file_path'')))"

definition matching_judgment :: "relevance_judgment list \<Rightarrow> string option \<Rightarrow> string option \<Rightarrow> nat list \<Rightarrow> nat option" where
  "matching_judgment js name path excluded =
     find (\<lambda>i. i \<notin> set excluded \<and> name = Some (rj_name (js ! i))
             \<and> (rj_path (js ! i) = None \<or> rj_path (js ! i) = path)) [0..<length js]"

record scan =
  sc_matched :: "nat list"
  sc_grades :: "nat list"
  sc_first :: "nat option"
  sc_retrieved :: nat

definition empty_scan :: scan where
  "empty_scan = \<lparr>sc_matched = [], sc_grades = [], sc_first = None, sc_retrieved = 0\<rparr>"

definition scan_result :: "relevance_judgment list \<Rightarrow> int \<Rightarrow> scan \<Rightarrow> nat \<times> mapping \<Rightarrow> scan" where
  "scan_result js k s ranked =
     (case ranked of (rank, result) \<Rightarrow>
        let (name, path) = result_identity result in
        case matching_judgment js name path (sc_matched s) of
          None \<Rightarrow> s\<lparr>sc_grades := sc_grades s @ [0]\<rparr>
        | Some i \<Rightarrow>
            s\<lparr>sc_matched := sc_matched s @ [i],
              sc_grades := sc_grades s @ [rj_relevance (js ! i)],
              sc_first := (case sc_first s of None \<Rightarrow> Some rank | r \<Rightarrow> r),
              sc_retrieved := (if int rank \<le> k then sc_retrieved s + 1 else sc_retrieved s)\<rparr>)"

definition scan_results :: "relevance_judgment list \<Rightarrow> int \<Rightarrow> mapping list \<Rightarrow> scan" where
  "scan_results js k results = foldl (scan_result js k) empty_scan (enumerate 1 results)"

text \<open>\<open>(2 ** grade - 1) / log2(...)\<close> converts the numerator to a float, below \<open>2 ^ 1024\<close>.\<close>

definition discounted_gain :: "nat list \<Rightarrow> exc + real" where
  "discounted_gain grades =
     (if list_ex (\<lambda>g. 1024 \<le> g) grades then Inl (OverflowError ''int too large to convert to float'')
      else Inr (total_gain grades))"

record query_metrics =
  qm_query :: string
  qm_recall :: real
  qm_reciprocal_rank :: real
  qm_ndcg :: real
  qm_retrieved :: nat
  qm_total :: nat
  qm_latency :: real
  qm_samples :: "real list"
  qm_bytes :: nat
  qm_mode :: string

definition evaluate_case ::
  "evaluation_case \<Rightarrow> mapping list \<Rightarrow> int \<Rightarrow> real \<Rightarrow> nat \<Rightarrow> string \<Rightarrow> real list option \<Rightarrow> exc + query_metrics" where
  "evaluate_case c results k latency bytes mode latency_samples =
     (if k < 1 then Inl (ValueError ''evaluation cutoff k must be positive'')
      else
        let s = scan_results (ec_relevant c) k results;
            ideal = take (nat k) (ideal_order (map rj_relevance (ec_relevant c)));
            samples = (case latency_samples of None \<Rightarrow> [latency] | Some xs \<Rightarrow> xs) in
        and_then (discounted_gain ideal) (\<lambda>best.
        and_then (if best \<noteq> 0 then and_then (discounted_gain (take (nat k) (sc_grades s))) (\<lambda>g. Inr (g / best)) else Inr 0)
          (\<lambda>ndcg.
        if samples = [] then Inl (ValueError ''latency samples cannot be empty'')
        else Inr
          \<lparr>qm_query = ec_query c,
           qm_recall = real (sc_retrieved s) / real (length (ec_relevant c)),
           qm_reciprocal_rank = (case sc_first s of None \<Rightarrow> 0 | Some r \<Rightarrow> 1 / real r),
           qm_ndcg = ndcg, qm_retrieved = sc_retrieved s, qm_total = length (ec_relevant c),
           qm_latency = latency, qm_samples = samples, qm_bytes = bytes, qm_mode = mode\<rparr>)))"

section \<open>Aggregation\<close>

record aggregate_summary =
  ag_count :: nat
  ag_recall :: real
  ag_reciprocal_rank :: real
  ag_ndcg :: real
  ag_bytes :: real
  ag_mean_latency :: real
  ag_p95_latency :: real

definition aggregate_metrics :: "query_metrics list \<Rightarrow> aggregate_summary" where
  "aggregate_metrics ms =
     (if ms = []
      then \<lparr>ag_count = 0, ag_recall = 0, ag_reciprocal_rank = 0, ag_ndcg = 0, ag_bytes = 0,
            ag_mean_latency = 0, ag_p95_latency = 0\<rparr>
      else
        let latencies = concat (map qm_samples ms) in
        \<lparr>ag_count = length ms, ag_recall = mean (map qm_recall ms),
         ag_reciprocal_rank = mean (map qm_reciprocal_rank ms), ag_ndcg = mean (map qm_ndcg ms),
         ag_bytes = mean (map (\<lambda>m. real (qm_bytes m)) ms),
         ag_mean_latency = mean latencies, ag_p95_latency = percentile 95 latencies\<rparr>)"

section \<open>The run\<close>

definition response_results :: "mapping \<Rightarrow> exc + mapping list" where
  "response_results response =
     (case field response ''results'' of
        DList vs \<Rightarrow>
          if list_all (\<lambda>v. case v of DObj _ \<Rightarrow> True | _ \<Rightarrow> False) vs
          then Inr (map (\<lambda>v. case v of DObj kvs \<Rightarrow> kvs | _ \<Rightarrow> []) vs)
          else Inl (TypeError ''knowledge.search results must contain objects'')
      | _ \<Rightarrow> Inl (TypeError ''knowledge.search response results must be a list''))"

text \<open>The client, \<open>perf_counter\<close>, \<open>monotonic\<close>, \<open>sleep\<close>, and the encoded length of a reply.\<close>

record 'w evaluation_world =
  ew_call :: "string \<Rightarrow> mapping \<Rightarrow> ('w, mapping) act"
  ew_counter :: "('w, real) act"
  ew_monotonic :: "('w, real) act"
  ew_sleep :: "real \<Rightarrow> ('w, unit) act"
  ew_size :: "mapping \<Rightarrow> nat"

record evaluation_options =
  eo_repo :: string
  eo_k :: int
  eo_repeats :: int
  eo_detail :: string
  eo_reranker :: "string option"

record search_report =
  sr_suite :: string
  sr_repo :: string
  sr_k :: int
  sr_repeats :: int
  sr_detail :: string
  sr_graph_stats :: mapping
  sr_reranker :: "string option"
  sr_queries :: "query_metrics list"
  sr_aggregate :: aggregate_summary

definition search_params :: "evaluation_options \<Rightarrow> evaluation_case \<Rightarrow> mapping" where
  "search_params opts c =
     [(''query'', DStr (ec_query c)), (''limit'', DInt (eo_k opts)), (''repo_path'', DStr (eo_repo opts)),
      (''result_detail'', DStr (eo_detail opts))]"

definition timed_search ::
  "'w evaluation_world \<Rightarrow> evaluation_options \<Rightarrow> evaluation_case \<Rightarrow> ('w, real \<times> nat \<times> mapping) act" where
  "timed_search ew opts c =
     act_bind (ew_counter ew) (\<lambda>started.
     act_bind (ew_call ew ''knowledge.search'' (search_params opts c)) (\<lambda>response.
     act_bind (ew_counter ew) (\<lambda>ended.
     act_return ((ended - started) * 1000, ew_size ew response, response))))"

text \<open>\<open>round\<close> of the mean of natural numbers: to the nearest one, ties to even.\<close>

definition rounded_mean :: "nat list \<Rightarrow> nat" where
  "rounded_mean ns =
     (let q = sum_list ns div length ns; r = sum_list ns mod length ns in
      if length ns < 2 * r \<or> (2 * r = length ns \<and> odd q) then q + 1 else q)"

definition evaluate_responses ::
  "evaluation_options \<Rightarrow> evaluation_case \<Rightarrow> (real \<times> nat \<times> mapping) list \<Rightarrow> exc + query_metrics" where
  "evaluate_responses opts c runs =
     (let response = snd (snd (List.last runs)) in
      and_then (response_results response) (\<lambda>results.
      evaluate_case c results (eo_k opts) (mean (map fst runs)) (rounded_mean (map (fst \<circ> snd) runs))
        (case string_of (field response ''retrieval_mode'') of Some mode \<Rightarrow> mode | None \<Rightarrow> ''unknown'')
        (Some (map fst runs))))"

definition observe_case ::
  "'w evaluation_world \<Rightarrow> evaluation_options \<Rightarrow> evaluation_case \<Rightarrow> ('w, query_metrics) act" where
  "observe_case ew opts c =
     act_bind (act_map (\<lambda>_. timed_search ew opts c) [0..<nat (eo_repeats opts)]) (\<lambda>runs.
     act_lift (evaluate_responses opts c runs))"

definition run_search_evaluation ::
  "'w evaluation_world \<Rightarrow> evaluation_suite \<Rightarrow> evaluation_options \<Rightarrow> ('w, search_report) act" where
  "run_search_evaluation ew suite opts =
     (if eo_k opts < 1 then act_raise (ValueError ''evaluation cutoff k must be positive'')
      else if eo_repeats opts < 1 then act_raise (ValueError ''evaluation repeats must be positive'')
      else
        act_bind (ew_call ew ''knowledge.stats'' [(''repo_path'', DStr (eo_repo opts))]) (\<lambda>stats.
        act_bind (act_map (observe_case ew opts) (es_cases suite)) (\<lambda>observations.
        act_return
          \<lparr>sr_suite = es_name suite, sr_repo = eo_repo opts, sr_k = eo_k opts, sr_repeats = eo_repeats opts,
           sr_detail = eo_detail opts, sr_graph_stats = stats, sr_reranker = eo_reranker opts,
           sr_queries = observations, sr_aggregate = aggregate_metrics observations\<rparr>)))"

section \<open>Waits\<close>

definition waiting_statuses :: "string list" where
  "waiting_statuses = [''queued'', ''retrying'', ''running'', ''cancelling'']"

text \<open>Membership in the set of statuses hashes the value, which a list or an object refuses.\<close>

fun any_active :: "decoded list \<Rightarrow> exc + bool" where
  "any_active [] = Inr False"
| "any_active (DObj kvs # vs) =
     (case field kvs ''status'' of
        DStr s \<Rightarrow> if s \<in> set waiting_statuses then Inr True else any_active vs
      | DList _ \<Rightarrow> Inl (TypeError ''unhashable type: list'')
      | DObj _ \<Rightarrow> Inl (TypeError ''unhashable type: dict'')
      | _ \<Rightarrow> any_active vs)"
| "any_active (_ # vs) = any_active vs"

definition has_active_job :: "mapping \<Rightarrow> exc + bool" where
  "has_active_job response =
     (case field response ''jobs'' of
        DList vs \<Rightarrow>
          if list_all (\<lambda>v. case v of DObj _ \<Rightarrow> True | _ \<Rightarrow> False) vs then any_active vs
          else Inl (TypeError ''jobs.recent jobs must contain objects'')
      | _ \<Rightarrow> Inl (TypeError ''jobs.recent response jobs must be a list''))"

definition index_turn :: "'w evaluation_world \<Rightarrow> string \<Rightarrow> real \<Rightarrow> real \<Rightarrow> ('w, unit option) act" where
  "index_turn ew repo interval deadline =
     act_bind (ew_call ew ''jobs.recent'' [(''repo_path'', DStr repo), (''limit'', DInt 20)]) (\<lambda>response.
     act_bind (act_lift (has_active_job response)) (\<lambda>active.
     if \<not> active then act_return (Some ())
     else act_bind (ew_monotonic ew) (\<lambda>now.
       if deadline \<le> now
       then act_raise (TimeoutError ''timed out waiting for repository indexing to become idle'')
       else act_seq (ew_sleep ew interval) (act_return None))))"

definition wait_for_stable_index ::
  "'w evaluation_world \<Rightarrow> string \<Rightarrow> real \<Rightarrow> real \<Rightarrow> 'w \<Rightarrow> ((exc + unit) \<times> 'w) option" where
  "wait_for_stable_index ew repo timeout interval w =
     (if timeout \<le> 0 then Some (Inl (ValueError ''index wait timeout must be positive''), w)
      else if interval < 0 then Some (Inl (ValueError ''index poll interval cannot be negative''), w)
      else case ew_monotonic ew w of
        (Inl e, w') \<Rightarrow> Some (Inl e, w')
      | (Inr now, w') \<Rightarrow> poll_until (index_turn ew repo interval (now + timeout)) w')"

text \<open>The controller: \<open>ensure_started\<close> and \<open>status\<close>, each reduced to its \<open>ready\<close>.\<close>

definition daemon_turn :: "'w evaluation_world \<Rightarrow> ('w, bool) act \<Rightarrow> real \<Rightarrow> real \<Rightarrow> ('w, unit option) act" where
  "daemon_turn ew status interval deadline =
     act_bind (ew_monotonic ew) (\<lambda>now.
     if now < deadline
     then act_bind status (\<lambda>ready.
       if ready then act_return (Some ()) else act_seq (ew_sleep ew interval) (act_return None))
     else act_raise (TimeoutError ''timed out waiting for the SCS evaluation daemon''))"

definition wait_for_evaluation_daemon ::
  "'w evaluation_world \<Rightarrow> ('w, bool) act \<Rightarrow> ('w, bool) act \<Rightarrow> real \<Rightarrow> real \<Rightarrow> 'w \<Rightarrow> ((exc + unit) \<times> 'w) option" where
  "wait_for_evaluation_daemon ew ensure_started status timeout interval w =
     (if timeout \<le> 0 then Some (Inl (ValueError ''daemon wait timeout must be positive''), w)
      else if interval < 0 then Some (Inl (ValueError ''daemon poll interval cannot be negative''), w)
      else case ew_monotonic ew w of
        (Inl e, w1) \<Rightarrow> Some (Inl e, w1)
      | (Inr now, w1) \<Rightarrow>
          let rest = poll_until (daemon_turn ew status interval (now + timeout)) in
          (case ensure_started w1 of
             (Inl (TimeoutError _), w2) \<Rightarrow> rest w2
           | (Inl e, w2) \<Rightarrow> Some (Inl e, w2)
           | (Inr ready, w2) \<Rightarrow> if ready then Some (Inr (), w2) else rest w2))"

section \<open>Validation yields judged cases\<close>

lemma validate_each_all: "validate_each f vs = Some xs \<Longrightarrow> (\<And>v x. f v = Some x \<Longrightarrow> P x) \<Longrightarrow> \<forall>x\<in>set xs. P x"
  by (induction vs arbitrary: xs) (auto simp: bind_eq_Some_conv)

lemma validate_each_length: "validate_each f vs = Some xs \<Longrightarrow> length xs = length vs"
  by (induction vs arbitrary: xs) (auto simp: bind_eq_Some_conv)

lemma validated_nonempty:
  assumes "validate_nonempty_list f v = Some xs" "\<And>v x. f v = Some x \<Longrightarrow> P x"
  shows "xs \<noteq> [] \<and> (\<forall>x\<in>set xs. P x)"
  using assms validate_each_all [of f _ xs P] validate_each_length [of f _ xs]
  by (auto simp: validate_nonempty_list_def split: option.splits decoded.splits if_splits)

lemma validated_judgment: "validate_judgment v = Some j \<Longrightarrow> 1 \<le> rj_relevance j"
  by (auto simp: validate_judgment_def bind_eq_Some_conv split: decoded.splits if_splits option.splits)

lemma validated_case:
  assumes "validate_case v = Some c"
  shows "judged (ec_relevant c)"
proof -
  obtain kvs where "validate_nonempty_list validate_judgment (map_of kvs ''relevant'') = Some (ec_relevant c)"
    using assms by (auto simp: validate_case_def bind_eq_Some_conv split: decoded.splits if_splits)
  then show ?thesis using validated_nonempty [of validate_judgment _ _ "\<lambda>j. 1 \<le> rj_relevance j"] validated_judgment
    by (auto simp: judged_def)
qed

lemma loaded_suite:
  assumes "load_evaluation_suite content loads = Inr suite"
  shows "es_cases suite \<noteq> [] \<and> (\<forall>c\<in>set (es_cases suite). judged (ec_relevant c))"
proof -
  obtain v where "validate_suite v = Some suite"
  proof (cases content)
    case (Inl e)
    then show ?thesis using assms by (cases e) (simp_all add: load_evaluation_suite_def Let_def)
  next
    case (Inr content)
    then show ?thesis using assms that
      by (auto simp: load_evaluation_suite_def Let_def bind_eq_Some_conv split: option.splits)
  qed
  then obtain kvs where "validate_nonempty_list validate_case (map_of kvs ''cases'') = Some (es_cases suite)"
    by (auto simp: validate_suite_def bind_eq_Some_conv split: decoded.splits if_splits)
  then show ?thesis using validated_nonempty [of validate_case _ _ "\<lambda>c. judged (ec_relevant c)"] validated_case
    by auto
qed

section \<open>Scanning a response\<close>

text \<open>
  What is known after a prefix of the results: every judgment is matched at most once, the
  positive grades are those of the matched judgments in order, and the count and the first
  rank are read off the grades.
\<close>

definition scan_ok :: "relevance_judgment list \<Rightarrow> int \<Rightarrow> nat \<Rightarrow> scan \<Rightarrow> bool" where
  "scan_ok js k n s \<longleftrightarrow>
     length (sc_grades s) = n \<and> distinct (sc_matched s) \<and> set (sc_matched s) \<subseteq> {..<length js}
     \<and> filter (\<lambda>g. g \<noteq> 0) (sc_grades s) = map (\<lambda>i. rj_relevance (js ! i)) (sc_matched s)
     \<and> sc_retrieved s = length (filter (\<lambda>g. g \<noteq> 0) (take (nat k) (sc_grades s)))
     \<and> (case sc_first s of None \<Rightarrow> sc_matched s = [] | Some r \<Rightarrow> 1 \<le> r \<and> r \<le> n \<and> sc_matched s \<noteq> [])"

lemma matching_judgment_Some:
  "matching_judgment js name path excluded = Some i \<Longrightarrow>
   i < length js \<and> i \<notin> set excluded \<and> name = Some (rj_name (js ! i))"
  by (auto simp: matching_judgment_def find_Some_iff)

lemma scan_ok_step:
  assumes "scan_ok js k n s" "\<forall>j\<in>set js. 1 \<le> rj_relevance j" "1 \<le> k"
  shows "scan_ok js k (Suc n) (scan_result js k s (Suc n, result))"
proof -
  obtain name path where ident: "result_identity result = (name, path)" by (cases "result_identity result")
  show ?thesis
  proof (cases "matching_judgment js name path (sc_matched s)")
    case None
    then show ?thesis using assms(1) by (auto simp: scan_result_def ident scan_ok_def take_Cons' split: option.splits)
  next
    case (Some i)
    have found: "i < length js" "i \<notin> set (sc_matched s)" using matching_judgment_Some [OF Some] by simp_all
    have "rj_relevance (js ! i) \<noteq> 0" using assms(2) found(1) by (metis not_one_le_zero nth_mem)
    moreover have "scan_result js k s (Suc n, result) =
        s\<lparr>sc_matched := sc_matched s @ [i], sc_grades := sc_grades s @ [rj_relevance (js ! i)],
          sc_first := (case sc_first s of None \<Rightarrow> Some (Suc n) | r \<Rightarrow> r),
          sc_retrieved := (if int (Suc n) \<le> k then sc_retrieved s + 1 else sc_retrieved s)\<rparr>"
      by (simp add: scan_result_def ident Some)
    ultimately show ?thesis using assms(1,3) found
      by (auto simp: scan_ok_def take_Cons' split: option.splits)
  qed
qed

lemma scan_results_ok:
  assumes "\<forall>j\<in>set js. 1 \<le> rj_relevance j" "1 \<le> k"
  shows "scan_ok js k (length results) (scan_results js k results)"
proof (induction results rule: rev_induct)
  case Nil
  then show ?case by (simp add: scan_results_def scan_ok_def empty_scan_def)
next
  case (snoc x xs)
  have "scan_results js k (xs @ [x]) = scan_result js k (scan_results js k xs) (Suc (length xs), x)"
    by (simp add: scan_results_def enumerate_append_eq)
  then show ?case using scan_ok_step [OF snoc assms] by simp
qed

lemma matched_grades_subset:
  assumes "distinct is" "set is \<subseteq> {..<length js}"
  shows "mset (map (\<lambda>i. rj_relevance (js ! i)) is) \<subseteq># mset (map rj_relevance js)"
proof -
  have "mset is \<subseteq># mset [0..<length js]"
    using assms by (metis atLeast_upt distinct_upt mset_set_set set_upt subset_imp_msubset_mset_set finite_set)
  then have "image_mset (\<lambda>i. rj_relevance (js ! i)) (mset is) \<subseteq># image_mset (\<lambda>i. rj_relevance (js ! i)) (mset [0..<length js])"
    by (rule image_mset_subseteq_mono)
  moreover have "map (\<lambda>i. rj_relevance (js ! i)) [0..<length js] = map rj_relevance js"
    by (rule nth_equalityI) auto
  ultimately show ?thesis by (metis mset_map)
qed

section \<open>Scores of one case\<close>

definition normalised :: "query_metrics \<Rightarrow> bool" where
  "normalised m \<longleftrightarrow>
     0 \<le> qm_recall m \<and> qm_recall m \<le> 1 \<and> 0 \<le> qm_reciprocal_rank m \<and> qm_reciprocal_rank m \<le> 1
     \<and> 0 \<le> qm_ndcg m \<and> qm_ndcg m \<le> 1"

definition representable :: "relevance_judgment list \<Rightarrow> bool" where
  "representable js \<longleftrightarrow> (\<forall>j\<in>set js. rj_relevance j < 1024)"

lemma discounted_gain_small: "\<forall>g\<in>set gs. g < 1024 \<Longrightarrow> discounted_gain gs = Inr (total_gain gs)"
  by (auto simp: discounted_gain_def list_ex_iff)

lemma ideal_gain_positive:
  assumes "judged js" "1 \<le> k"
  shows "total_gain (take (nat k) (ideal_order (map rj_relevance js))) \<noteq> 0"
proof
  let ?best = "take (nat k) (ideal_order (map rj_relevance js))"
  assume "total_gain ?best = 0"
  then have "set ?best \<subseteq> {0}" by (simp only: total_gain_zero_iff)
  moreover have "set ?best \<subseteq> rj_relevance ` set js" by (auto dest!: in_set_takeD)
  moreover have "?best \<noteq> []" using assms by (cases js) (auto simp: judged_def simp flip: length_0_conv)
  ultimately show False using assms(1) by (cases ?best) (auto simp: judged_def)
qed

lemma scanned_grades:
  assumes "scan_ok js k n s"
  shows "set (sc_grades s) \<subseteq> insert 0 (rj_relevance ` set js)"
    "mset (filter (\<lambda>g. g \<noteq> 0) (take (nat k) (sc_grades s))) \<subseteq># mset (map rj_relevance js)"
    "sc_retrieved s \<le> length js"
proof -
  have all: "mset (filter (\<lambda>g. g \<noteq> 0) (sc_grades s)) \<subseteq># mset (map rj_relevance js)"
  proof -
    have "distinct (sc_matched s)" "set (sc_matched s) \<subseteq> {..<length js}"
      and "filter (\<lambda>g. g \<noteq> 0) (sc_grades s) = map (\<lambda>i. rj_relevance (js ! i)) (sc_matched s)"
      using assms unfolding scan_ok_def by simp_all
    then show ?thesis using matched_grades_subset by (simp only:)
  qed
  show "set (sc_grades s) \<subseteq> insert 0 (rj_relevance ` set js)"
  proof
    fix g
    assume g: "g \<in> set (sc_grades s)"
    have found: "set (filter (\<lambda>g. g \<noteq> 0) (sc_grades s)) \<subseteq> rj_relevance ` set js"
      using set_mset_mono [OF all] by (simp only: set_mset_mset set_map)
    show "g \<in> insert 0 (rj_relevance ` set js)"
    proof (cases "g = 0")
      case False
      then have "g \<in> set (filter (\<lambda>g. g \<noteq> 0) (sc_grades s))" using g by (simp only: set_filter mem_Collect_eq not_False_eq_True simp_thms)
      then show ?thesis using found by blast
    qed simp
  qed
  have "mset (filter (\<lambda>g. g \<noteq> 0) (take (nat k) (sc_grades s))) \<subseteq># mset (filter (\<lambda>g. g \<noteq> 0) (sc_grades s))"
    using mset_subset_eq_add_left [of "mset (filter (\<lambda>g. g \<noteq> 0) (take (nat k) (sc_grades s)))"
        "mset (filter (\<lambda>g. g \<noteq> 0) (drop (nat k) (sc_grades s)))"]
    by (simp only: mset_append [symmetric] filter_append [symmetric] append_take_drop_id)
  then show cut: "mset (filter (\<lambda>g. g \<noteq> 0) (take (nat k) (sc_grades s))) \<subseteq># mset (map rj_relevance js)"
    using all by (rule subset_mset.trans)
  have "length (filter (\<lambda>g. g \<noteq> 0) (take (nat k) (sc_grades s))) \<le> length (map rj_relevance js)"
    using size_mset_mono [OF cut] by (simp only: size_mset)
  moreover have "sc_retrieved s = length (filter (\<lambda>g. g \<noteq> 0) (take (nat k) (sc_grades s)))"
    using assms unfolding scan_ok_def by (elim conjE)
  ultimately show "sc_retrieved s \<le> length js" by (simp only: length_map)
qed

lemma evaluate_case_scores:
  assumes "judged (ec_relevant c)" "representable (ec_relevant c)" "1 \<le> k" "samples \<noteq> Some []"
  shows "\<exists>m. evaluate_case c results k latency bytes mode samples = Inr m \<and> normalised m
    \<and> qm_samples m \<noteq> [] \<and> qm_retrieved m \<le> nat k \<and> qm_query m = ec_query c \<and> qm_bytes m = bytes
    \<and> qm_samples m = (case samples of None \<Rightarrow> [latency] | Some xs \<Rightarrow> xs)"
proof -
  define js where "js = ec_relevant c"
  define s where "s = scan_results js k results"
  define best where "best = take (nat k) (ideal_order (map rj_relevance js))"
  define cut where "cut = take (nat k) (sc_grades s)"
  have rel: "\<forall>j\<in>set js. 1 \<le> rj_relevance j" "js \<noteq> []" using assms(1) by (auto simp: judged_def js_def)
  have ok: "scan_ok js k (length results) s" unfolding s_def by (rule scan_results_ok [OF rel(1) assms(3)])
  note grades = scanned_grades [OF ok]
  have best: "discounted_gain best = Inr (total_gain best)"
    using assms(2) by (intro discounted_gain_small) (auto simp: best_def representable_def js_def dest!: in_set_takeD)
  have cut: "discounted_gain cut = Inr (total_gain cut)"
    using assms(2) grades(1) by (intro discounted_gain_small) (fastforce simp: cut_def representable_def js_def dest: in_set_takeD)
  have positive: "total_gain best \<noteq> 0" using ideal_gain_positive assms(1,3) by (simp add: best_def js_def)
  have ndcg: "0 \<le> normalized_gain cut best" "normalized_gain cut best \<le> 1"
    using normalized_gain_bounds [of cut "map rj_relevance js" "nat k"] grades(2) by (simp_all add: cut_def best_def)
  have rank: "0 \<le> r \<and> r \<le> 1" if "r = (case sc_first s of None \<Rightarrow> 0 | Some r \<Rightarrow> 1 / real r)" for r
    using ok that by (auto simp: scan_ok_def divide_le_eq_1 split: option.splits)
  have few: "sc_retrieved s \<le> nat k" using ok by (auto simp: scan_ok_def intro: le_trans [OF length_filter_le])
  have samples: "(case samples of None \<Rightarrow> [latency] | Some xs \<Rightarrow> xs) \<noteq> []" using assms(4) by (auto split: option.splits)
  have "evaluate_case c results k latency bytes mode samples = Inr
      \<lparr>qm_query = ec_query c, qm_recall = real (sc_retrieved s) / real (length js),
       qm_reciprocal_rank = (case sc_first s of None \<Rightarrow> 0 | Some r \<Rightarrow> 1 / real r),
       qm_ndcg = normalized_gain cut best, qm_retrieved = sc_retrieved s, qm_total = length js,
       qm_latency = latency, qm_samples = (case samples of None \<Rightarrow> [latency] | Some xs \<Rightarrow> xs), qm_bytes = bytes, qm_mode = mode\<rparr>"
    using assms(3) positive samples
    by (simp add: evaluate_case_def js_def [symmetric] s_def [symmetric] best_def [symmetric] cut_def [symmetric] best cut
        normalized_gain_def Let_def del: One_nat_def)
  moreover have "real (sc_retrieved s) / real (length js) \<le> 1" using grades(3) rel(2) by (simp add: divide_le_eq_1)
  ultimately show ?thesis using ndcg rank [OF refl] few samples by (auto simp: normalised_def)
qed

section \<open>The report\<close>

lemma act_map_length: "act_map f xs s = (Inr ys, t) \<Longrightarrow> length ys = length xs"
  by (induction xs arbitrary: s ys t) (auto simp: act_return_def act_bind_Inr_iff)

lemma act_map_related:
  assumes "act_map f xs s = (Inr ys, t)" "\<And>x s y t. x \<in> set xs \<Longrightarrow> f x s = (Inr y, t) \<Longrightarrow> R x y"
  shows "list_all2 R xs ys"
  using assms
proof (induction xs arbitrary: s ys t)
  case Nil
  then show ?case by (simp add: act_return_def)
next
  case (Cons x xs)
  then obtain y s' zs where "f x s = (Inr y, s')" "act_map f xs s' = (Inr zs, t)" "ys = y # zs"
    by (auto simp: act_return_def act_bind_Inr_iff)
  then show ?case using Cons.IH [of s' zs t] Cons.prems(2) by simp
qed

definition aggregate_ok :: "query_metrics list \<Rightarrow> aggregate_summary \<Rightarrow> bool" where
  "aggregate_ok ms a \<longleftrightarrow>
     ag_count a = length ms \<and> 0 \<le> ag_recall a \<and> ag_recall a \<le> 1
     \<and> 0 \<le> ag_reciprocal_rank a \<and> ag_reciprocal_rank a \<le> 1 \<and> 0 \<le> ag_ndcg a \<and> ag_ndcg a \<le> 1
     \<and> (let samples = concat (map qm_samples ms) in
          ag_p95_latency a \<in> set samples
          \<and> 95 * length samples \<le> 100 * length (filter (\<lambda>x. x \<le> ag_p95_latency a) samples))"

lemma aggregate_metrics_ok:
  assumes "ms \<noteq> []" "\<forall>m\<in>set ms. normalised m \<and> qm_samples m \<noteq> []"
  shows "aggregate_ok ms (aggregate_metrics ms)"
proof -
  have means: "0 \<le> mean (map f ms) \<and> mean (map f ms) \<le> 1" if "\<And>m. normalised m \<Longrightarrow> 0 \<le> f m \<and> f m \<le> 1" for f
    using mean_bounds [of "map f ms" 0 1] that assms by auto
  have "concat (map qm_samples ms) \<noteq> []" using assms by (cases ms) auto
  from percentile_rank [OF this, of 95] show ?thesis
    using assms(1) means [of qm_recall] means [of qm_reciprocal_rank] means [of qm_ndcg]
    by (simp add: aggregate_ok_def aggregate_metrics_def normalised_def Let_def mult.commute)
qed

definition observed_for :: "evaluation_options \<Rightarrow> evaluation_case \<Rightarrow> query_metrics \<Rightarrow> bool" where
  "observed_for opts c m \<longleftrightarrow>
     qm_query m = ec_query c \<and> normalised m \<and> qm_retrieved m \<le> nat (eo_k opts)
     \<and> length (qm_samples m) = nat (eo_repeats opts)"

lemma observe_case_ok:
  assumes "observe_case ew opts c s = (Inr m, t)" "judged (ec_relevant c)" "representable (ec_relevant c)"
    "1 \<le> eo_k opts" "1 \<le> eo_repeats opts"
  shows "observed_for opts c m"
proof -
  obtain runs where runs: "length runs = nat (eo_repeats opts)" and m: "evaluate_responses opts c runs = Inr m"
    using assms(1) act_map_length by (fastforce simp: observe_case_def act_bind_Inr_iff act_lift_def)
  then have "map fst runs \<noteq> []" using assms(5) by auto
  then have samples: "Some (map fst runs) \<noteq> Some []" by simp
  obtain results latency bytes mode
    where "evaluate_case c results (eo_k opts) latency bytes mode (Some (map fst runs)) = Inr m"
    using m by (auto simp: evaluate_responses_def Let_def and_then_Inr_iff)
  then show ?thesis using runs evaluate_case_scores [OF assms(2,3,4) samples, of results latency bytes mode]
    by (auto simp: observed_for_def)
qed


section \<open>A run on a concrete service\<close>

text \<open>A service whose replies repeat one result; the world counts the readings of the clock.\<close>

definition demo_suite_text :: decoded where
  "demo_suite_text =
     DObj [(''schema_version'', DInt 1), (''name'', DStr ''s''),
       (''cases'', DList [DObj [(''query'', DStr ''q''),
          (''relevant'', DList [DObj [(''qualified_name'', DStr ''m.f'')],
             DObj [(''qualified_name'', DStr ''m.g''), (''file_path'', DStr ''m.py''), (''relevance'', DInt 3)]])]])]"

definition demo_search_reply :: mapping where
  "demo_search_reply =
     [(''results'', DList [DObj [(''qualified_name'', DStr ''m.f'')], DObj [(''qualified_name'', DStr ''m.f'')],
        DObj [(''metadata'', DObj [(''qualified_name'', DStr ''m.g''), (''file_path'', DStr ''m.py'')])]])]"

definition demo_evaluation :: "nat evaluation_world" where
  "demo_evaluation =
     \<lparr>ew_call = (\<lambda>name params w. (Inr (if name = ''knowledge.search'' then demo_search_reply else []), w)),
      ew_counter = (\<lambda>w. (Inr (real w), Suc w)), ew_monotonic = (\<lambda>w. (Inr (real w), Suc w)),
      ew_sleep = (\<lambda>interval w. (Inr (), w + nat \<lceil>interval\<rceil>)), ew_size = length\<rparr>"

definition demo_evaluation_options :: evaluation_options where
  "demo_evaluation_options =
     \<lparr>eo_repo = ''/r'', eo_k = 2, eo_repeats = 2, eo_detail = ''compact'', eo_reranker = None\<rparr>"

definition demo_suite :: evaluation_suite where
  "demo_suite =
     \<lparr>es_name = ''s'',
      es_cases = [\<lparr>ec_query = ''q'',
         ec_relevant = [\<lparr>rj_name = ''m.f'', rj_path = None, rj_relevance = 1\<rparr>,
           \<lparr>rj_name = ''m.g'', rj_path = Some ''m.py'', rj_relevance = 3\<rparr>]\<rparr>]\<rparr>"

lemma demo_suite_loads: "load_evaluation_suite (Inr (Some ''x'')) (\<lambda>_. Some demo_suite_text) = Inr demo_suite"
  by (simp add: load_evaluation_suite_def Let_def demo_suite_text_def demo_suite_def validate_suite_def
      validate_nonempty_list_def validate_case_def validate_judgment_def only_fields_def nonempty_text_def)

lemma demo_case_observed:
  "\<exists>m. observe_case demo_evaluation demo_evaluation_options (hd (es_cases demo_suite)) 0 = (Inr m, 4)"
proof -
  let ?c = "hd (es_cases demo_suite)"
  let ?results = "[[(''qualified_name'', DStr ''m.f'')], [(''qualified_name'', DStr ''m.f'')],
      [(''metadata'', DObj [(''qualified_name'', DStr ''m.g''), (''file_path'', DStr ''m.py'')])]]"
  have good: "judged (ec_relevant ?c)" "representable (ec_relevant ?c)"
    by (simp_all add: judged_def representable_def demo_suite_def)
  have runs: "act_map (\<lambda>_. timed_search demo_evaluation demo_evaluation_options ?c) [0..<nat 2] 0
      = (Inr [(1000, 1, demo_search_reply), (1000, 1, demo_search_reply)], 4)"
    by (simp add: numeral_2_eq_2 timed_search_def demo_evaluation_def act_bind_def act_return_def demo_search_reply_def)
  have results: "response_results demo_search_reply = Inr ?results"
    by (simp add: response_results_def demo_search_reply_def field_def)
  obtain m where "evaluate_responses demo_evaluation_options ?c [(1000, 1, demo_search_reply), (1000, 1, demo_search_reply)] = Inr m"
    using evaluate_case_scores [OF good, of 2 "Some [1000, 1000]" ?results "mean [1000, 1000]" "rounded_mean [1, 1]" "''unknown''"]
    by (auto simp: evaluate_responses_def results demo_evaluation_options_def)
      (simp add: demo_search_reply_def field_def string_of_def)
  then have "observe_case demo_evaluation demo_evaluation_options ?c 0 = (Inr m, 4)"
    using runs by (simp add: observe_case_def act_bind_def act_lift_def demo_evaluation_options_def)
  then show ?thesis ..
qed


section \<open>The waits end\<close>

text \<open>
  A monotonic clock: the calls of the client let time pass, reading it tells the time, and a
  sleep lasts at least as long as asked.
\<close>

definition clock_monotonic :: "'w evaluation_world \<Rightarrow> ('w \<Rightarrow> real) \<Rightarrow> bool" where
  "clock_monotonic ew now \<longleftrightarrow>
     (\<forall>w name params r w'. ew_call ew name params w = (r, w') \<longrightarrow> now w \<le> now w')
     \<and> (\<forall>w. \<exists>w'. ew_monotonic ew w = (Inr (now w), w') \<and> now w \<le> now w')
     \<and> (\<forall>interval w. \<exists>w'. ew_sleep ew interval w = (Inr (), w') \<and> now w + interval \<le> now w')"

lemma index_turn_goes_on:
  assumes "clock_monotonic ew now" "index_turn ew repo interval deadline w = (Inr (None :: unit option), w')"
  shows "now w < deadline \<and> now w + interval \<le> now w'"
proof -
  obtain response w1 where reply: "ew_call ew ''jobs.recent'' [(''repo_path'', DStr repo), (''limit'', DInt 20)] w = (Inr response, w1)"
    and go: "act_bind (act_lift (has_active_job response)) (\<lambda>active.
       if \<not> active then act_return (Some ())
       else act_bind (ew_monotonic ew) (\<lambda>t.
         if deadline \<le> t then act_raise (TimeoutError ''timed out waiting for repository indexing to become idle'')
         else act_seq (ew_sleep ew interval) (act_return None))) w1 = (Inr (None :: unit option), w')"
    using assms(2) by (auto simp: index_turn_def act_bind_Inr_iff)
  have first: "now w \<le> now w1" using assms(1) reply unfolding clock_monotonic_def by blast
  obtain t w2 where tick: "ew_monotonic ew w1 = (Inr t, w2)" and time: "t < deadline"
    and rest: "act_seq (ew_sleep ew interval) (act_return None) w2 = (Inr (None :: unit option), w')"
    using go by (auto simp: act_bind_Inr_iff act_lift_def act_return_def act_raise_def split: if_splits)
  have second: "t = now w1" "now w1 \<le> now w2" using assms(1) tick unfolding clock_monotonic_def
    by (metis Pair_inject sum.inject(2))+
  have "ew_sleep ew interval w2 = (Inr (), w')" using rest by (auto simp: act_seq_def act_bind_Inr_iff act_return_def)
  then have "now w2 + interval \<le> now w'" using assms(1) unfolding clock_monotonic_def by (metis Pair_inject)
  then show ?thesis using first second time by simp
qed

lemma daemon_turn_goes_on:
  assumes "clock_monotonic ew now" "\<And>w r w'. status w = (r, w') \<Longrightarrow> now w \<le> now w'"
    "daemon_turn ew status interval deadline w = (Inr (None :: unit option), w')"
  shows "now w < deadline \<and> now w + interval \<le> now w'"
proof -
  obtain t w1 where tick: "ew_monotonic ew w = (Inr t, w1)" and time: "t < deadline"
    and rest: "act_bind status (\<lambda>ready. if ready then act_return (Some ())
       else act_seq (ew_sleep ew interval) (act_return None)) w1 = (Inr (None :: unit option), w')"
    using assms(3) by (cases "ew_monotonic ew w"; cases "fst (ew_monotonic ew w)")
      (auto simp: daemon_turn_def act_bind_def act_raise_def split: if_splits)
  have first: "t = now w" "now w \<le> now w1" using assms(1) tick unfolding clock_monotonic_def
    by (metis Pair_inject sum.inject(2))+
  obtain w2 where poll: "status w1 = (Inr False, w2)"
    and sleep: "act_seq (ew_sleep ew interval) (act_return None) w2 = (Inr (None :: unit option), w')"
    using rest by (cases "status w1"; cases "fst (status w1)") (auto simp: act_bind_def act_return_def split: if_splits)
  have "ew_sleep ew interval w2 = (Inr (), w')" using sleep by (auto simp: act_seq_def act_bind_Inr_iff act_return_def)
  then have "now w2 + interval \<le> now w'" using assms(1) unfolding clock_monotonic_def by (metis Pair_inject)
  then show ?thesis using first assms(2) [OF poll] time by simp
qed

text \<open>Aux: Both waits of the evaluation end, with an answer or an exception, whatever the service and
  the controller answer, once the poll interval is positive: the clock then passes the deadline
  after finitely many turns.
\<close>

theorem evaluation_waits_end:
  assumes "clock_monotonic ew now" "0 < interval"
    and "\<And>w r w'. status w = (r, w') \<Longrightarrow> now w \<le> now w'"
  shows "(\<exists>r. wait_for_stable_index ew repo timeout interval w = Some r)
    \<and> (\<exists>r. wait_for_evaluation_daemon ew ensure_started status timeout interval w = Some r)"
proof -
  have index: "\<exists>r. poll_until (index_turn ew repo interval deadline) v = Some r" for deadline v
    by (rule poll_until_ends [where left = "turns_left now interval deadline"])
      (meson index_turn_goes_on [OF assms(1)] turns_left_decreases [OF assms(2)])
  have daemon: "\<exists>r. poll_until (daemon_turn ew status interval deadline) v = Some r" for deadline v
  proof (rule poll_until_ends [where left = "turns_left now interval deadline"])
    fix v v'
    assume "daemon_turn ew status interval deadline v = (Inr None, v')"
    then have "now v < deadline \<and> now v + interval \<le> now v'"
      by (rule daemon_turn_goes_on [OF assms(1), rotated]) (rule assms(3))
    then show "turns_left now interval deadline v' < turns_left now interval deadline v"
      by (intro turns_left_decreases [OF assms(2)]) simp_all
  qed
  have "\<exists>r. wait_for_evaluation_daemon ew ensure_started status timeout interval w = Some r"
  proof (cases "ew_monotonic ew w")
    case (Pair clock w1)
    obtain answer w2 where started: "ensure_started w1 = (answer, w2)" by (cases "ensure_started w1")
    show ?thesis
    proof (cases answer)
      case (Inl e)
      then show ?thesis using Pair started daemon
        by (cases e; cases clock) (simp_all add: wait_for_evaluation_daemon_def)
    next
      case (Inr ready)
      then show ?thesis using Pair started daemon
        by (cases clock) (simp_all add: wait_for_evaluation_daemon_def)
    qed
  qed
  moreover have "\<exists>r. wait_for_stable_index ew repo timeout interval w = Some r"
    using index by (simp add: wait_for_stable_index_def split: prod.split sum.split)
  ultimately show ?thesis by simp
qed

theorem evaluation_waits_end_witness:
  "(\<exists>r. wait_for_stable_index demo_evaluation ''/r'' 5 1 0 = Some r)
    \<and> (\<exists>r. wait_for_evaluation_daemon demo_evaluation (\<lambda>w. (Inl (TimeoutError ''''), w)) (\<lambda>w. (Inr False, w)) 5 1 0 = Some r)"
proof (rule evaluation_waits_end [where now = real])
  show "clock_monotonic demo_evaluation real" 
    by (simp add: clock_monotonic_def demo_evaluation_def real_nat_ceiling_ge)
qed simp_all

end
