(* ===== verification/Query_Evaluation.thy ===== *)
theory Query_Evaluation
  imports Search_Evaluation Query_Orchestration
begin

text \<open>
  The query evaluation (\<open>src/src/scs/evaluation/query.py\<close>): suites of judged goals, scores of
  one observation, the summary with its calibration error, the extraction of identities from
  replies, and the run that compares unified queries with the earlier call sequences.
\<close>

section \<open>Suites\<close>

definition playbook_name :: "playbook \<Rightarrow> string" where
  "playbook_name p =
     (case p of Discover \<Rightarrow> ''DISCOVER'' | Understand \<Rightarrow> ''UNDERSTAND'' | Relationships \<Rightarrow> ''RELATIONSHIPS''
      | ReferencesOf \<Rightarrow> ''REFERENCES'' | InspectFiles \<Rightarrow> ''INSPECT_FILES'' | Impact \<Rightarrow> ''IMPACT''
      | Inventory \<Rightarrow> ''INVENTORY'')"

record query_case =
  qc_goal :: string
  qc_anchors :: mapping
  qc_expected :: playbook
  qc_relevant :: "(string \<times> nat) list"
  qc_baseline :: "(string \<times> mapping) list"

record query_suite =
  qs_name :: string
  qs_cases :: "query_case list"

definition validate_evidence :: "decoded \<Rightarrow> (string \<times> nat) option" where
  "validate_evidence v =
     (case v of
        DObj kvs \<Rightarrow>
          if \<not> only_fields [''identity'', ''grade''] kvs then None
          else Option.bind (nonempty_text (map_of kvs ''identity'')) (\<lambda>identity.
            (case map_of kvs ''grade'' of
               Some (DInt g) \<Rightarrow> if 1 \<le> g \<and> g \<le> 3 then Some (identity, nat g) else None
             | _ \<Rightarrow> None))
      | _ \<Rightarrow> None)"

definition baseline_methods :: "string list" where
  "baseline_methods =
     [''knowledge.search'', ''knowledge.related'', ''knowledge.inspect_file'', ''knowledge.nodes.list'',
      ''knowledge.composite.regression_risk'', ''lsp.references'', ''knowledge.graph_context'']"

definition validate_call :: "decoded \<Rightarrow> (string \<times> mapping) option" where
  "validate_call v =
     (case v of
        DObj kvs \<Rightarrow>
          (case (map_of kvs ''method'', map_of kvs ''params'') of
             (Some (DStr name), Some (DObj params)) \<Rightarrow>
               if only_fields [''method'', ''params''] kvs \<and> name \<in> set baseline_methods then Some (name, params) else None
           | _ \<Rightarrow> None)
      | _ \<Rightarrow> None)"

definition parse_playbook :: "decoded \<Rightarrow> playbook option" where
  "parse_playbook v = (case v of DStr s \<Rightarrow> find (\<lambda>p. playbook_name p = s) playbooks | _ \<Rightarrow> None)"

definition allowed_anchors :: "string list" where
  "allowed_anchors = [''node_type'', ''symbol_name'', ''node_ids'', ''file_paths'', ''source_position'']"

definition validate_query_case :: "decoded \<Rightarrow> query_case option" where
  "validate_query_case v =
     (case v of
        DObj kvs \<Rightarrow>
          if \<not> only_fields [''goal'', ''anchors'', ''expected_playbook'', ''relevant'', ''baseline''] kvs then None
          else Option.bind (nonempty_text (map_of kvs ''goal'')) (\<lambda>goal.
            Option.bind
              (case map_of kvs ''anchors'' of
                 None \<Rightarrow> Some []
               | Some (DObj anchors) \<Rightarrow> (if only_fields allowed_anchors anchors then Some anchors else None)
               | _ \<Rightarrow> None) (\<lambda>anchors.
            Option.bind (Option.bind (map_of kvs ''expected_playbook'') parse_playbook) (\<lambda>expected.
            Option.bind (validate_nonempty_list validate_evidence (map_of kvs ''relevant'')) (\<lambda>relevant.
            Option.bind (validate_nonempty_list validate_call (map_of kvs ''baseline'')) (\<lambda>baseline.
            Some \<lparr>qc_goal = goal, qc_anchors = anchors, qc_expected = expected,
                  qc_relevant = relevant, qc_baseline = baseline\<rparr>)))))
      | _ \<Rightarrow> None)"

definition validate_query_suite :: "decoded \<Rightarrow> query_suite option" where
  "validate_query_suite v =
     (case v of
        DObj kvs \<Rightarrow>
          if \<not> only_fields [''schema_version'', ''name'', ''cases''] kvs \<or> map_of kvs ''schema_version'' \<noteq> Some (DInt 1)
          then None
          else Option.bind (nonempty_text (map_of kvs ''name'')) (\<lambda>name.
            Option.bind (validate_nonempty_list validate_query_case (map_of kvs ''cases'')) (\<lambda>cases.
            Some \<lparr>qs_name = name, qs_cases = cases\<rparr>))
      | _ \<Rightarrow> None)"

definition load_query_suite :: "exc + string \<Rightarrow> (string \<Rightarrow> decoded option) \<Rightarrow> exc + query_suite" where
  "load_query_suite content loads =
     and_then content (\<lambda>s.
     (case Option.bind (loads s) validate_query_suite of
        None \<Rightarrow> Inl (ValidationError ''QueryEvaluationSuite'') | Some suite \<Rightarrow> Inr suite))"

section \<open>One observation\<close>

text \<open>\<open>{item.identity: item.grade for item in case.relevant}\<close>: the last grade of an identity counts.\<close>

definition grades_of :: "(string \<times> nat) list \<Rightarrow> (string \<times> nat) list" where
  "grades_of relevant = foldl (\<lambda>d (identity, grade). AList.update identity grade d) [] relevant"

fun first_positive :: "nat \<Rightarrow> nat list \<Rightarrow> nat option" where
  "first_positive rank [] = None"
| "first_positive rank (g # gs) = (if 0 < g then Some rank else first_positive (Suc rank) gs)"

record scores =
  so_recall :: real
  so_reciprocal_rank :: real
  so_ndcg :: real
  so_unsupported :: real

definition score_at_k :: "string list \<Rightarrow> (string \<times> nat) list \<Rightarrow> int \<Rightarrow> scores" where
  "score_at_k identities grades k =
     (let ranked = take (nat k) (dedup identities);
          hits = map (\<lambda>i. case map_of grades i of None \<Rightarrow> 0 | Some g \<Rightarrow> g) ranked in
      \<lparr>so_recall = real (length (filter (\<lambda>g. 0 < g) hits)) / real (length grades),
       so_reciprocal_rank = (case first_positive 1 hits of None \<Rightarrow> 0 | Some rank \<Rightarrow> 1 / real rank),
       so_ndcg = normalized_gain hits (take (nat k) (ideal_order (map snd grades))),
       so_unsupported = (if hits \<noteq> [] then real (length (filter (\<lambda>g. g = 0) hits)) / real (length hits) else 0)\<rparr>)"

text \<open>What the runner passes on beside the identities.\<close>

record query_run =
  qn_playbook :: string
  qn_confidence :: pyfloat
  qn_provider :: string
  qn_model :: string
  qn_calls :: nat
  qn_bytes :: nat
  qn_latency :: real
  qn_classifier :: pyfloat
  qn_fallback :: bool
  qn_timeout :: bool
  qn_truncated :: bool
  qn_degraded :: bool

record observation =
  ob_goal :: string
  ob_expected :: playbook
  ob_correct :: bool
  ob_confidence :: real
  ob_scores :: scores
  ob_brier :: real
  ob_run :: query_run

definition evaluate_observation :: "query_case \<Rightarrow> string list \<Rightarrow> int \<Rightarrow> query_run \<Rightarrow> exc + observation" where
  "evaluate_observation c identities k run =
     (let invalid = Inl (ValueError ''invalid evaluation cutoff, call count, or confidence'') in
      if k < 1 \<or> qn_calls run < 1 then invalid
      else case qn_confidence run of
        Finite q \<Rightarrow>
          if q < 0 \<or> 1 < q then invalid
          else
            let correct = (qn_playbook run = playbook_name (qc_expected c)) in
            Inr \<lparr>ob_goal = qc_goal c, ob_expected = qc_expected c, ob_correct = correct,
                 ob_confidence = of_rat q, ob_scores = score_at_k identities (grades_of (qc_relevant c)) k,
                 ob_brier = (of_rat q - of_bool correct) ^ 2, ob_run = run\<rparr>
      | _ \<Rightarrow> invalid)"

section \<open>The summary\<close>

text \<open>The bucket of the exact tenfold confidence; the code multiplies floats.\<close>

definition confidence_bucket :: "observation \<Rightarrow> nat" where
  "confidence_bucket ob = min 9 (nat \<lfloor>ob_confidence ob * 10\<rfloor>)"

definition buckets :: "observation list \<Rightarrow> observation list list" where
  "buckets obs = map (\<lambda>b. filter (\<lambda>ob. confidence_bucket ob = b) obs) (dedup (map confidence_bucket obs))"

definition mean_of :: "(observation \<Rightarrow> real) \<Rightarrow> observation list \<Rightarrow> real" where
  "mean_of f obs = mean (map f obs)"

definition calibration_error :: "observation list \<Rightarrow> real" where
  "calibration_error obs =
     (\<Sum>part \<leftarrow> buckets obs. real (length part) / real (length obs)
        * \<bar>mean_of (\<lambda>ob. of_bool (ob_correct ob)) part - mean_of ob_confidence part\<bar>)"

text \<open>
  Sorting floats is a parameter: a NaN, which a reply may contain, compares with nothing, and
  the place it gets depends on the algorithm.
\<close>

definition float_percentile :: "(pyfloat list \<Rightarrow> pyfloat list) \<Rightarrow> nat \<Rightarrow> pyfloat list \<Rightarrow> pyfloat" where
  "float_percentile ordered percent xs = ordered xs ! ((length xs * percent + 99) div 100 - 1)"

record summary =
  su_count :: nat
  su_accuracy :: real
  su_per_playbook :: "(string \<times> real) list"
  su_recall :: real
  su_reciprocal_rank :: real
  su_ndcg :: real
  su_unsupported :: real
  su_calls :: real
  su_bytes :: real
  su_p50_latency :: real
  su_p95_latency :: real
  su_p95_classifier :: pyfloat
  su_fallback :: real
  su_timeout :: real
  su_truncation :: real
  su_degradation :: real
  su_calibration :: real
  su_brier :: real

definition summarize_observations :: "(pyfloat list \<Rightarrow> pyfloat list) \<Rightarrow> observation list \<Rightarrow> exc + summary" where
  "summarize_observations ordered obs =
     (if obs = [] then Inl (ValueError ''evaluation requires observations'')
      else
        let rate = (\<lambda>f. mean_of (\<lambda>ob. of_bool (f ob)) obs) in
        Inr \<lparr>su_count = length obs, su_accuracy = rate ob_correct,
          su_per_playbook =
            map (\<lambda>name. (name, mean_of (\<lambda>ob. of_bool (ob_correct ob)) (filter (\<lambda>ob. playbook_name (ob_expected ob) = name) obs)))
              (sorted_set (map (playbook_name \<circ> ob_expected) obs)),
          su_recall = mean_of (so_recall \<circ> ob_scores) obs,
          su_reciprocal_rank = mean_of (so_reciprocal_rank \<circ> ob_scores) obs,
          su_ndcg = mean_of (so_ndcg \<circ> ob_scores) obs,
          su_unsupported = mean_of (so_unsupported \<circ> ob_scores) obs,
          su_calls = mean_of (real \<circ> qn_calls \<circ> ob_run) obs,
          su_bytes = mean_of (real \<circ> qn_bytes \<circ> ob_run) obs,
          su_p50_latency = percentile 50 (map (qn_latency \<circ> ob_run) obs),
          su_p95_latency = percentile 95 (map (qn_latency \<circ> ob_run) obs),
          su_p95_classifier = float_percentile ordered 95 (map (qn_classifier \<circ> ob_run) obs),
          su_fallback = rate (qn_fallback \<circ> ob_run), su_timeout = rate (qn_timeout \<circ> ob_run),
          su_truncation = rate (qn_truncated \<circ> ob_run), su_degradation = rate (qn_degraded \<circ> ob_run),
          su_calibration = calibration_error obs, su_brier = mean_of ob_brier obs\<rparr>)"

section \<open>Identities in a reply\<close>

definition evidence_categories :: "string list" where
  "evidence_categories = [''symbols'', ''files'', ''references'', ''relationships'', ''test_targets'']"

definition own_identity :: "mapping \<Rightarrow> string list" where
  "own_identity item =
     (let nested = (case field item ''metadata'' of DObj kvs \<Rightarrow> field kvs ''file_path'' | _ \<Rightarrow> DNull) in
      (case List.map_filter (\<lambda>v. case v of DStr s \<Rightarrow> if s \<noteq> [] then Some s else None | _ \<Rightarrow> None)
              [field item ''file_path'', nested, field item ''qualified_name'', field item ''id''] of
         [] \<Rightarrow> [] | s # _ \<Rightarrow> [s]))"

text \<open>The keys of an object are distinct, so the inner selection picks the value of one key.\<close>

fun identities :: "decoded \<Rightarrow> string list" where
  "identities (DObj kvs) =
     (if set evidence_categories \<subseteq> fst ` set kvs
      then dedup (concat (map (\<lambda>category.
             concat (map (\<lambda>kv. if fst kv = category then identities (snd kv) else []) kvs)) evidence_categories))
      else dedup (own_identity kvs @ concat (map (\<lambda>kv.
             if fst kv \<in> {''routing'', ''trace'', ''timings'', ''metadata''} then [] else identities (snd kv)) kvs)))"
| "identities (DList vs) = dedup (concat (map identities vs))"
| "identities _ = []"

section \<open>The run\<close>

record 'w query_world =
  qw_call :: "string \<Rightarrow> mapping \<Rightarrow> ('w, mapping) act"
  qw_counter :: "('w, real) act"
  qw_size :: "mapping \<Rightarrow> nat"
  qw_str :: "decoded \<Rightarrow> string"
  qw_sorted :: "pyfloat list \<Rightarrow> pyfloat list"

record query_options =
  qo_repo :: string
  qo_mode :: query_mode
  qo_k :: int
  qo_repeats :: int

definition updated :: "mapping \<Rightarrow> mapping \<Rightarrow> mapping" where
  "updated base extra = foldl (\<lambda>d kv. AList.update (fst kv) (snd kv) d) base extra"

definition query_params :: "query_options \<Rightarrow> query_case \<Rightarrow> mapping" where
  "query_params opts c =
     updated (qc_anchors c)
       [(''goal'', DStr (qc_goal c)), (''repo_path'', DStr (qo_repo opts)),
        (''mode'', DStr (mode_name (qo_mode opts))), (''limit'', DInt (qo_k opts))]"

text \<open>\<open>float(v) if isinstance(v, (int, float)) else 0\<close>, where a \<open>bool\<close> is an \<open>int\<close>.\<close>

definition float_or_zero :: "decoded \<Rightarrow> exc + pyfloat" where
  "float_or_zero v =
     (case v of DBool b \<Rightarrow> Inr (Finite (of_bool b))
      | _ \<Rightarrow> (case numeric v of Some r \<Rightarrow> r | None \<Rightarrow> Inr (Finite 0)))"

definition decoded_truthy :: "decoded \<Rightarrow> bool" where
  "decoded_truthy v =
     (case v of DNull \<Rightarrow> False | DBool b \<Rightarrow> b | DInt i \<Rightarrow> i \<noteq> 0 | DFloat x \<Rightarrow> x \<noteq> Finite 0
      | DStr s \<Rightarrow> s \<noteq> [] | DList vs \<Rightarrow> vs \<noteq> [] | DObj kvs \<Rightarrow> kvs \<noteq> [])"

definition object_of :: "decoded \<Rightarrow> mapping" where
  "object_of v = (case v of DObj kvs \<Rightarrow> kvs | _ \<Rightarrow> [])"

definition str_or :: "'w query_world \<Rightarrow> mapping \<Rightarrow> string \<Rightarrow> string" where
  "str_or qw chosen key =
     (case map_of chosen key of None \<Rightarrow> ''unknown'' | Some (DStr s) \<Rightarrow> s | Some v \<Rightarrow> qw_str qw v)"

definition unified_run :: "'w query_world \<Rightarrow> mapping \<Rightarrow> real \<Rightarrow> exc + query_run" where
  "unified_run qw response latency =
     (let chosen = object_of (field response ''routing''); times = object_of (field response ''timings'');
          stages = (case field response ''trace'' of DList vs \<Rightarrow> vs | _ \<Rightarrow> []) in
      and_then (float_or_zero (field chosen ''confidence'')) (\<lambda>confidence.
      and_then (float_or_zero (field times ''classification_ms'')) (\<lambda>classifier.
      Inr \<lparr>qn_playbook = str_or qw chosen ''playbook'', qn_confidence = confidence,
           qn_provider = str_or qw chosen ''provider'', qn_model = str_or qw chosen ''model'',
           qn_calls = 1, qn_bytes = qw_size qw response, qn_latency = latency, qn_classifier = classifier,
           qn_fallback = (field chosen ''fallback_applied'' = DBool True),
           qn_timeout = list_ex (\<lambda>v. field (object_of v) ''status'' = DStr ''timeout'') stages,
           qn_truncated = (field response ''truncated'' = DBool True),
           qn_degraded = (decoded_truthy (field response ''degraded_stages'') \<or> decoded_truthy (field chosen ''degraded_reason''))\<rparr>)))"

definition observe_unified :: "'w query_world \<Rightarrow> query_options \<Rightarrow> query_case \<Rightarrow> ('w, observation) act" where
  "observe_unified qw opts c =
     act_bind (qw_counter qw) (\<lambda>started.
     act_bind (qw_call qw ''knowledge.query'' (query_params opts c)) (\<lambda>response.
     act_bind (qw_counter qw) (\<lambda>ended.
     act_lift (and_then (unified_run qw response ((ended - started) * 1000)) (\<lambda>run.
       evaluate_observation c (identities (field response ''evidence'')) (qo_k opts) run)))))"

definition baseline_step :: "'w query_world \<Rightarrow> query_options \<Rightarrow> string \<times> mapping \<Rightarrow> ('w, mapping) act" where
  "baseline_step qw opts step =
     qw_call qw (fst step) (updated (snd step) [(''repo_path'', DStr (qo_repo opts))])"

definition baseline_run :: "'w query_world \<Rightarrow> query_case \<Rightarrow> mapping list \<Rightarrow> real \<Rightarrow> query_run" where
  "baseline_run qw c responses latency =
     \<lparr>qn_playbook = playbook_name (qc_expected c), qn_confidence = Finite 1, qn_provider = ''legacy'', qn_model = ''none'',
      qn_calls = length (qc_baseline c), qn_bytes = sum_list (map (qw_size qw) responses), qn_latency = latency,
      qn_classifier = Finite 0, qn_fallback = False, qn_timeout = False, qn_truncated = False, qn_degraded = False\<rparr>"

definition observe_baseline :: "'w query_world \<Rightarrow> query_options \<Rightarrow> query_case \<Rightarrow> ('w, observation) act" where
  "observe_baseline qw opts c =
     act_bind (qw_counter qw) (\<lambda>started.
     act_bind (act_map (baseline_step qw opts) (qc_baseline c)) (\<lambda>responses.
     act_bind (qw_counter qw) (\<lambda>ended.
     act_lift (evaluate_observation c (concat (map (\<lambda>r. identities (DObj r)) responses)) (qo_k opts)
       (baseline_run qw c responses ((ended - started) * 1000))))))"

definition observe_both :: "'w query_world \<Rightarrow> query_options \<Rightarrow> query_case \<Rightarrow> ('w, observation \<times> observation) act" where
  "observe_both qw opts c =
     act_bind (observe_unified qw opts c) (\<lambda>u. act_bind (observe_baseline qw opts c) (\<lambda>b. act_return (u, b)))"

definition warm_up :: "'w query_world \<Rightarrow> query_options \<Rightarrow> query_case \<Rightarrow> ('w, unit) act" where
  "warm_up qw opts c =
     act_seq (qw_call qw ''knowledge.query'' (query_params opts c))
       (act_seq (act_map (baseline_step qw opts) (qc_baseline c)) (act_return ()))"

record query_gates =
  ga_routing :: bool
  ga_recall :: bool
  ga_ndcg :: bool
  ga_calls :: bool
  ga_bytes :: bool
  ga_per_playbook :: bool
  ga_latency :: bool
  ga_classifier :: bool

definition gates :: "query_mode \<Rightarrow> summary \<Rightarrow> summary \<Rightarrow> query_gates" where
  "gates mode u b =
     \<lparr>ga_routing = (9 / 10 \<le> su_accuracy u),
      ga_recall = (su_recall b - 1 / 50 \<le> su_recall u), ga_ndcg = (su_ndcg b - 1 / 50 \<le> su_ndcg u),
      ga_calls = (su_calls u \<le> su_calls b / 2), ga_bytes = (su_bytes u \<le> su_bytes b * 3 / 4),
      ga_per_playbook = list_all (\<lambda>kv. 4 / 5 \<le> snd kv) (su_per_playbook u),
      ga_latency = (mode \<noteq> Balanced \<or> su_p95_latency u < 5000),
      ga_classifier = float_less (su_p95_classifier u) (Finite 500)\<rparr>"

record query_report =
  re_suite :: string
  re_unified :: "observation list"
  re_baseline :: "observation list"
  re_unified_summary :: summary
  re_baseline_summary :: summary
  re_gates :: query_gates

definition run_query_evaluation :: "'w query_world \<Rightarrow> query_suite \<Rightarrow> query_options \<Rightarrow> ('w, query_report) act" where
  "run_query_evaluation qw suite opts =
     (if qo_repeats opts < 1 then act_raise (ValueError ''repeats must be positive'')
      else case qs_cases suite of
        [] \<Rightarrow> act_raise (IndexError ''list index out of range'')
      | c # _ \<Rightarrow>
          act_seq (warm_up qw opts c)
          (act_bind (act_map (observe_both qw opts) (concat (map (replicate (nat (qo_repeats opts))) (qs_cases suite)))) (\<lambda>pairs.
          let unified = map fst pairs; baseline = map snd pairs in
          act_bind (act_lift (summarize_observations (qw_sorted qw) unified)) (\<lambda>u.
          act_bind (act_lift (summarize_observations (qw_sorted qw) baseline)) (\<lambda>b.
          act_return \<lparr>re_suite = qs_name suite, re_unified = unified, re_baseline = baseline,
            re_unified_summary = u, re_baseline_summary = b, re_gates = gates (qo_mode opts) u b\<rparr>)))))"

section \<open>Scores are normalised\<close>

definition scores_ok :: "scores \<Rightarrow> bool" where
  "scores_ok s \<longleftrightarrow>
     0 \<le> so_recall s \<and> so_recall s \<le> 1 \<and> 0 \<le> so_reciprocal_rank s \<and> so_reciprocal_rank s \<le> 1
     \<and> 0 \<le> so_ndcg s \<and> so_ndcg s \<le> 1 \<and> 0 \<le> so_unsupported s \<and> so_unsupported s \<le> 1"

definition hits_of :: "(string \<times> nat) list \<Rightarrow> string list \<Rightarrow> nat list" where
  "hits_of grades ranked = map (\<lambda>i. case map_of grades i of None \<Rightarrow> 0 | Some g \<Rightarrow> g) ranked"

lemma first_positive_bounds: "first_positive rank gs = Some r \<Longrightarrow> rank \<le> r"
  by (induction rank gs rule: first_positive.induct) (auto split: if_splits)

lemma hits_Nil [simp]: "hits_of grades [] = []"
  by (simp add: hits_of_def)

lemma hits_Cons: "hits_of grades (i # is) = (case map_of grades i of None \<Rightarrow> 0 | Some g \<Rightarrow> g) # hits_of grades is"
  by (simp add: hits_of_def)

lemma grades_split:
  assumes "map_of grades i = Some g" "distinct (map fst grades)"
  shows "mset (map snd grades) = add_mset g (mset (map snd (filter (\<lambda>kv. fst kv \<noteq> i) grades)))"
  using assms
proof (induction grades)
  case Nil
  then show ?case by simp
next
  case (Cons kv grades)
  show ?case
  proof (cases "fst kv = i")
    case True
    then have "filter (\<lambda>kv. fst kv \<noteq> i) grades = grades"
      using Cons.prems(2) by (intro filter_True ballI notI) (metis distinct.simps(2) image_eqI list.set_map list.simps(9))
    then show ?thesis using True Cons.prems(1) by (cases kv) simp
  next
    case False
    then have "map_of grades i = Some g" using Cons.prems(1) by (cases kv) simp
    then have "mset (map snd grades) = add_mset g (mset (map snd (filter (\<lambda>kv. fst kv \<noteq> i) grades)))"
      using Cons.IH Cons.prems(2) by simp
    then show ?thesis using False by (simp only: filter.simps if_True list.map mset.simps not_False_eq_True add_mset_commute)
  qed
qed

text \<open>Distinct identities find every grade at most once.\<close>

lemma hits_subset:
  assumes "distinct ranked" "distinct (map fst grades)"
  shows "mset (filter (\<lambda>g. g \<noteq> 0) (hits_of grades ranked)) \<subseteq># mset (map snd grades)"
  using assms
proof (induction ranked arbitrary: grades)
  case Nil
  then show ?case by simp
next
  case (Cons i ranked)
  show ?case
  proof (cases "map_of grades i")
    case None
    then show ?thesis using Cons by (simp add: hits_Cons)
  next
    case (Some g)
    let ?rest = "filter (\<lambda>kv. fst kv \<noteq> i) grades"
    have "map_of ?rest j = map_of grades j" if "j \<noteq> i" for j
      using that by (induction grades) auto
    then have same: "hits_of grades ranked = hits_of ?rest ranked"
      using Cons.prems(1) unfolding hits_of_def by (intro map_cong) (simp_all only: refl distinct.simps, metis)
    have "mset (map snd grades) = add_mset g (mset (map snd ?rest))"
      using Some Cons.prems(2) by (rule grades_split)
    moreover have "distinct (map fst ?rest)" using Cons.prems(2) by (simp add: distinct_map_filter)
    then have "mset (filter (\<lambda>g. g \<noteq> 0) (hits_of ?rest ranked)) \<subseteq># mset (map snd ?rest)"
      using Cons.prems(1) by (intro Cons.IH) simp_all
    ultimately show ?thesis unfolding hits_Cons same Some
      by (cases "g = 0") (simp_all only: option.case filter.simps mset.simps if_True if_False simp_thms mset_subset_eq_add_mset_cancel
        subset_mset.trans [OF _ subset_mset.less_imp_le [OF multi_psub_of_add_self]])
  qed
qed

lemma distinct_updates: "distinct (map fst d) \<Longrightarrow> distinct (map fst (foldl (\<lambda>d (i, g). AList.update i g d) d xs))"
  by (induction xs arbitrary: d) (auto simp: distinct_update)

lemma distinct_grades: "distinct (map fst (grades_of relevant))"
  unfolding grades_of_def by (rule distinct_updates) simp

lemma length_filter_positive: "length (filter (\<lambda>g. 0 < g) gs) = size (mset (filter (\<lambda>g. g \<noteq> 0) gs))" for gs :: "nat list"
  by (simp only: size_mset neq0_conv)

lemma score_at_k_ok:
  assumes "distinct (map fst grades)"
  shows "scores_ok (score_at_k found grades k)"
proof -
  define ranked where "ranked = take (nat k) (dedup found)"
  define hits where "hits = hits_of grades ranked"
  have subset: "mset (filter (\<lambda>g. g \<noteq> 0) hits) \<subseteq># mset (map snd grades)"
    unfolding hits_def ranked_def by (rule hits_subset) (simp_all add: assms)
  then have "length (filter (\<lambda>g. 0 < g) hits) \<le> length grades"
    using size_mset_mono [OF subset] unfolding length_filter_positive by simp
  then have recall: "real (length (filter (\<lambda>g. 0 < g) hits)) / real (length grades) \<le> 1" by (simp add: divide_le_eq_1)
  have "length hits \<le> nat k" by (simp add: hits_def hits_of_def ranked_def)
  note ndcg = normalized_gain_bounds [OF subset this]
  have rank: "(case first_positive 1 hits of None \<Rightarrow> 0 | Some r \<Rightarrow> 1 / real r) \<le> 1"
    using first_positive_bounds [of 1 hits] by (auto simp: divide_le_eq_1 split: option.splits)
  have unsupported: "real (length (filter (\<lambda>g. g = 0) hits)) / real (length hits) \<le> 1"
    using length_filter_le [of "\<lambda>g. g = 0" hits] by (simp add: divide_le_eq_1)
  have nonneg: "0 \<le> (case first_positive 1 hits of None \<Rightarrow> 0 | Some r \<Rightarrow> 1 / real r)" by (simp split: option.split)
  have "score_at_k found grades k =
      \<lparr>so_recall = real (length (filter (\<lambda>g. 0 < g) hits)) / real (length grades),
       so_reciprocal_rank = (case first_positive 1 hits of None \<Rightarrow> 0 | Some r \<Rightarrow> 1 / real r),
       so_ndcg = normalized_gain hits (take (nat k) (ideal_order (map snd grades))),
       so_unsupported = (if hits \<noteq> [] then real (length (filter (\<lambda>g. g = 0) hits)) / real (length hits) else 0)\<rparr>"
    by (simp only: score_at_k_def hits_def hits_of_def ranked_def Let_def)
  then show ?thesis using recall ndcg rank unsupported nonneg unfolding scores_ok_def by simp
qed

definition observation_ok :: "observation \<Rightarrow> bool" where
  "observation_ok ob \<longleftrightarrow>
     scores_ok (ob_scores ob) \<and> 0 \<le> ob_confidence ob \<and> ob_confidence ob \<le> 1
     \<and> 0 \<le> ob_brier ob \<and> ob_brier ob \<le> 1 \<and> 1 \<le> qn_calls (ob_run ob)"

lemma evaluate_observation_ok:
  assumes "evaluate_observation c found k run = Inr ob"
  shows "observation_ok ob \<and> ob_goal ob = qc_goal c \<and> ob_expected ob = qc_expected c \<and> ob_run ob = run"
proof -
  obtain q where q: "qn_confidence run = Finite q" "0 \<le> q" "q \<le> 1" and calls: "1 \<le> qn_calls run"
    and ob: "ob = \<lparr>ob_goal = qc_goal c, ob_expected = qc_expected c,
      ob_correct = (qn_playbook run = playbook_name (qc_expected c)), ob_confidence = of_rat q,
      ob_scores = score_at_k found (grades_of (qc_relevant c)) k,
      ob_brier = (of_rat q - of_bool (qn_playbook run = playbook_name (qc_expected c))) ^ 2, ob_run = run\<rparr>"
    using assms by (auto simp: evaluate_observation_def Let_def split: if_splits pyfloat.splits)
  have "0 \<le> (of_rat q :: real)" "(of_rat q :: real) \<le> 1" using q by simp_all
  moreover from this have "\<bar>of_rat q - of_bool b\<bar> \<le> (1 :: real)" for b by (cases b) auto
  then have "(of_rat q - of_bool b) ^ 2 \<le> (1 :: real)" for b using abs_square_le_1 by blast
  ultimately show ?thesis using calls score_at_k_ok [OF distinct_grades] by (simp add: ob observation_ok_def)
qed

section \<open>The calibration error\<close>

lemma concat_buckets:
  assumes "distinct bs" "set bs = confidence_bucket ` set obs"
  shows "mset (concat (map (\<lambda>b. filter (\<lambda>ob. confidence_bucket ob = b) obs) bs)) = mset obs"
proof -
  have "mset (concat (map (\<lambda>b. filter (\<lambda>ob. confidence_bucket ob = b) obs) bs)) = (\<Sum>b\<in>set bs. {#ob \<in># mset obs. confidence_bucket ob = b#})"
    using assms(1) by (simp add: mset_concat comp_def sum_list_distinct_conv_sum_set)
  also have "\<dots> = mset obs"
  proof (rule multiset_eqI)
    fix x
    have "count (\<Sum>b\<in>set bs. {#ob \<in># mset obs. confidence_bucket ob = b#}) x
        = (\<Sum>b\<in>set bs. if confidence_bucket x = b then count (mset obs) x else 0)"
      unfolding count_sum by (rule sum.cong) simp_all
    also have "\<dots> = (if confidence_bucket x \<in> set bs then count (mset obs) x else 0)" by simp
    also have "\<dots> = count (mset obs) x" by (auto simp: assms(2) image_iff not_in_iff [symmetric])
    finally show "count (\<Sum>b\<in>set bs. {#ob \<in># mset obs. confidence_bucket ob = b#}) x = count (mset obs) x" .
  qed
  finally show ?thesis .
qed

lemma sum_over_buckets:
  fixes f :: "observation \<Rightarrow> real"
  shows "(\<Sum>part \<leftarrow> buckets obs. sum_list (map f part)) = sum_list (map f obs)"
proof -
  have "(\<Sum>part \<leftarrow> parts. sum_list (map f part)) = sum_list (map f (concat parts))" for parts
    by (induction parts) simp_all
  then have "(\<Sum>part \<leftarrow> buckets obs. sum_list (map f part)) = sum_list (map f (concat (buckets obs)))" .
  also have "\<dots> = sum_mset (image_mset f (mset (concat (buckets obs))))"
    by (simp flip: sum_mset_sum_list mset_map)
  also have "mset (concat (buckets obs)) = mset obs"
    unfolding buckets_def by (rule concat_buckets) simp_all
  finally show ?thesis by (simp flip: sum_mset_sum_list mset_map)
qed

lemma sum_list_over: "(\<Sum>x \<leftarrow> xs. f x / n) = (\<Sum>x \<leftarrow> xs. f x) / (n :: real)"
  by (induction xs) (simp_all add: add_divide_distrib)

lemma weighted_bucket:
  assumes "part \<noteq> []"
  shows "real (length part) / n * \<bar>mean_of f part - mean_of g part\<bar> = \<bar>sum_list (map f part) - sum_list (map g part)\<bar> / n"
proof -
  have "mean_of f part - mean_of g part = (sum_list (map f part) - sum_list (map g part)) / real (length part)"
    by (simp add: mean_of_def mean_def diff_divide_distrib)
  then show ?thesis using assms by (simp add: abs_divide)
qed

lemma buckets_nonempty: "part \<in> set (buckets obs) \<Longrightarrow> part \<noteq> []"
  by (auto simp: buckets_def filter_empty_conv)

text \<open>
  The calibration error lies between the distance of accuracy and mean confidence, which it
  refines, and the mean distance of single observations.
\<close>

lemma calibration_error_bounds:
  assumes "obs \<noteq> []" "\<forall>ob\<in>set obs. 0 \<le> ob_confidence ob \<and> ob_confidence ob \<le> 1"
  shows "\<bar>mean_of (\<lambda>ob. of_bool (ob_correct ob)) obs - mean_of ob_confidence obs\<bar> \<le> calibration_error obs"
    "calibration_error obs \<le> 1"
proof -
  let ?f = "\<lambda>ob. of_bool (ob_correct ob) :: real"
  let ?n = "real (length obs)"
  have n: "0 < ?n" using assms(1) by simp
  have error: "calibration_error obs = (\<Sum>part \<leftarrow> buckets obs. \<bar>sum_list (map ?f part) - sum_list (map ob_confidence part)\<bar> / ?n)"
    unfolding calibration_error_def
    by (rule arg_cong [where f = sum_list], rule map_cong [OF refl], rule weighted_bucket, erule buckets_nonempty)
  have diff: "sum_list (map ?f part) - sum_list (map ob_confidence part) = sum_list (map (\<lambda>ob. ?f ob - ob_confidence ob) part)" for part
    by (simp add: sum_list_subtractf)
  have "\<bar>mean_of ?f obs - mean_of ob_confidence obs\<bar> = \<bar>sum_list (map (\<lambda>ob. ?f ob - ob_confidence ob) obs)\<bar> / ?n"
    by (simp add: mean_of_def mean_def diff abs_divide flip: diff_divide_distrib)
  also have "\<dots> = \<bar>\<Sum>part \<leftarrow> buckets obs. sum_list (map (\<lambda>ob. ?f ob - ob_confidence ob) part)\<bar> / ?n"
    by (simp only: sum_over_buckets)
  also have "\<dots> \<le> (\<Sum>part \<leftarrow> buckets obs. \<bar>sum_list (map (\<lambda>ob. ?f ob - ob_confidence ob) part)\<bar>) / ?n"
    using sum_list_abs [of "map (\<lambda>part. sum_list (map (\<lambda>ob. ?f ob - ob_confidence ob) part)) (buckets obs)"] n
    by (intro divide_right_mono) (simp_all add: comp_def)
  also have "\<dots> = calibration_error obs"
    unfolding error diff by (simp only: sum_list_over)
  finally show "\<bar>mean_of ?f obs - mean_of ob_confidence obs\<bar> \<le> calibration_error obs" .
  have small: "\<bar>sum_list (map (\<lambda>ob. ?f ob - ob_confidence ob) part)\<bar> \<le> sum_list (map (\<lambda>_. 1) part)" if "set part \<subseteq> set obs" for part
    using that assms(2)
  proof (induction part)
    case (Cons ob part)
    then have "\<bar>?f ob - ob_confidence ob\<bar> \<le> 1" by (cases "ob_correct ob") auto
    then show ?case using Cons by (simp add: abs_le_iff)
  qed simp
  have "calibration_error obs \<le> (\<Sum>part \<leftarrow> buckets obs. sum_list (map (\<lambda>_. 1) part)) / ?n"
  proof -
    have "(\<Sum>part \<leftarrow> buckets obs. \<bar>sum_list (map (\<lambda>ob. ?f ob - ob_confidence ob) part)\<bar> / ?n)
        \<le> (\<Sum>part \<leftarrow> buckets obs. sum_list (map (\<lambda>_. 1) part) / ?n)"
      by (rule sum_list_mono, rule divide_right_mono, rule small) (auto simp: buckets_def)
    then show ?thesis unfolding error diff by (simp add: sum_list_over)
  qed
  also have "\<dots> = 1" using n unfolding sum_over_buckets by (simp add: sum_list_triv)
  finally show "calibration_error obs \<le> 1" .
qed

section \<open>The report\<close>

definition fraction :: "real \<Rightarrow> bool" where
  "fraction x \<longleftrightarrow> 0 \<le> x \<and> x \<le> 1"

definition summary_ok :: "observation list \<Rightarrow> summary \<Rightarrow> bool" where
  "summary_ok obs su \<longleftrightarrow>
     su_count su = length obs
     \<and> list_all fraction [su_accuracy su, su_recall su, su_reciprocal_rank su, su_ndcg su, su_unsupported su, su_brier su]
     \<and> list_all (fraction \<circ> snd) (su_per_playbook su) \<and> 1 \<le> su_calls su
     \<and> \<bar>su_accuracy su - mean_of ob_confidence obs\<bar> \<le> su_calibration su \<and> su_calibration su \<le> 1
     \<and> su_p50_latency su \<le> su_p95_latency su \<and> su_p95_latency su \<in> set (map (qn_latency \<circ> ob_run) obs)"

lemma mean_of_fraction:
  assumes "obs \<noteq> []" "\<And>ob. ob \<in> set obs \<Longrightarrow> fraction (f ob)"
  shows "fraction (mean_of f obs)"
  using mean_bounds [of "map f obs" 0 1] assms by (auto simp: mean_of_def fraction_def)

lemma percentile_mono: "xs \<noteq> [] \<Longrightarrow> p \<le> q \<Longrightarrow> q \<le> 100 \<Longrightarrow> percentile p xs \<le> percentile q xs"
proof -
  assume a: "xs \<noteq> []" "p \<le> q" "q \<le> 100"
  have less: "length xs * p \<le> length xs * q" "length xs * q \<le> length xs * 100" using a by simp_all
  then have "(length xs * p + 99) div 100 - 1 \<le> (length xs * q + 99) div 100 - 1"
    by (intro diff_le_mono div_le_mono add_right_mono)
  moreover have "(length xs * q + 99) div 100 - 1 < length (sort xs)"
  proof -
    have "(length xs * q + 99) div 100 \<le> length xs" using less(2) by linarith
    moreover have "0 < length xs" using a(1) by simp
    ultimately show ?thesis unfolding length_sort by (rule le_less_trans [OF diff_le_mono diff_less [OF zero_less_one]])
  qed
  ultimately show ?thesis unfolding percentile_def by (intro sorted_nth_mono sorted_sort)
qed

lemma summarize_observations_ok:
  assumes "summarize_observations ordered obs = Inr su" "\<forall>ob\<in>set obs. observation_ok ob"
  shows "summary_ok obs su"
proof -
  have obs: "obs \<noteq> []" using assms(1) by (auto simp: summarize_observations_def)
  have each: "fraction (so_recall (ob_scores ob))" "fraction (so_reciprocal_rank (ob_scores ob))"
    "fraction (so_ndcg (ob_scores ob))" "fraction (so_unsupported (ob_scores ob))" "fraction (ob_brier ob)"
    "0 \<le> ob_confidence ob \<and> ob_confidence ob \<le> 1" "1 \<le> qn_calls (ob_run ob)" if "ob \<in> set obs" for ob
    using assms(2) that by (auto simp: observation_ok_def scores_ok_def fraction_def)
  have means: "fraction (su_accuracy su)" "fraction (su_recall su)" "fraction (su_reciprocal_rank su)"
    "fraction (su_ndcg su)" "fraction (su_unsupported su)" "fraction (su_brier su)"
    using assms(1) obs each by (auto simp: summarize_observations_def Let_def intro!: mean_of_fraction) (auto simp: fraction_def)
  have parts: "list_all (fraction \<circ> snd) (su_per_playbook su)"
    using assms(1) obs
    by (auto simp: summarize_observations_def Let_def list_all_iff filter_empty_conv intro!: mean_of_fraction) (auto simp: fraction_def)
  have calls: "1 \<le> su_calls su"
  proof -
    have "real 1 \<le> mean (map (real \<circ> qn_calls \<circ> ob_run) obs)"
    proof (rule mean_bounds(1) [where b = "Max (insert 0 (set (map (real \<circ> qn_calls \<circ> ob_run) obs)))"])
      show "map (real \<circ> qn_calls \<circ> ob_run) obs \<noteq> []" using obs by simp
      show "\<forall>x\<in>set (map (real \<circ> qn_calls \<circ> ob_run) obs). real 1 \<le> x
          \<and> x \<le> Max (insert 0 (set (map (real \<circ> qn_calls \<circ> ob_run) obs)))"
        using each(7) by (auto intro!: Max_ge)
    qed
    then show ?thesis using assms(1) obs by (auto simp: summarize_observations_def Let_def mean_of_def)
  qed
  have "su_p50_latency su \<le> su_p95_latency su" "su_p95_latency su \<in> set (map (qn_latency \<circ> ob_run) obs)"
    using assms(1) obs percentile_mono [of "map (qn_latency \<circ> ob_run) obs" 50 95]
      percentile_rank(1) [of "map (qn_latency \<circ> ob_run) obs" 95]
    by (auto simp: summarize_observations_def Let_def)
  moreover have "\<bar>su_accuracy su - mean_of ob_confidence obs\<bar> \<le> su_calibration su" "su_calibration su \<le> 1"
    using calibration_error_bounds [OF obs] each(6) assms(1) obs by (auto simp: summarize_observations_def Let_def)
  moreover have "su_count su = length obs" using assms(1) obs by (auto simp: summarize_observations_def Let_def)
  ultimately show ?thesis using means parts calls unfolding summary_ok_def by simp
qed

lemma observe_both_ok:
  assumes "observe_both qw opts c s = (Inr pair, t)"
  shows "observation_ok (fst pair) \<and> ob_goal (fst pair) = qc_goal c \<and> qn_calls (ob_run (fst pair)) = 1
    \<and> observation_ok (snd pair) \<and> ob_goal (snd pair) = qc_goal c \<and> ob_correct (snd pair)
    \<and> qn_calls (ob_run (snd pair)) = length (qc_baseline c)"
proof -
  obtain s' where u: "observe_unified qw opts c s = (Inr (fst pair), s')" and b: "observe_baseline qw opts c s' = (Inr (snd pair), t)"
    using assms by (auto simp: observe_both_def act_bind_Inr_iff act_return_def)
  obtain response latency run found where "unified_run qw response latency = Inr run"
    and first: "evaluate_observation c found (qo_k opts) run = Inr (fst pair)"
    using u by (auto simp: observe_unified_def act_bind_Inr_iff act_lift_def and_then_Inr_iff)
  then have "qn_calls run = 1" by (auto simp: unified_run_def Let_def and_then_Inr_iff)
  moreover obtain found' responses latency'
    where second: "evaluate_observation c found' (qo_k opts) (baseline_run qw c responses latency') = Inr (snd pair)"
    using b by (auto simp: observe_baseline_def act_bind_Inr_iff act_lift_def)
  moreover have "ob_correct (snd pair)"
    using second by (cases "snd pair") (auto simp: evaluate_observation_def baseline_run_def Let_def split: if_splits)
  moreover have "qn_calls (baseline_run qw c responses latency') = length (qc_baseline c)"
    by (simp add: baseline_run_def)
  ultimately show ?thesis using evaluate_observation_ok [OF first] evaluate_observation_ok [OF second] by simp
qed

lemma list_all2_range: "list_all2 R xs ys \<Longrightarrow> (\<And>x y. R x y \<Longrightarrow> P y) \<Longrightarrow> \<forall>y\<in>set ys. P y"
  by (induction rule: list_all2_induct) auto


section \<open>A run on a concrete service\<close>

definition demo_query_case :: query_case where
  "demo_query_case =
     \<lparr>qc_goal = ''g'', qc_anchors = [], qc_expected = Discover, qc_relevant = [(''a'', 2), (''b'', 1)],
      qc_baseline = [(''knowledge.search'', [])]\<rparr>"

definition demo_query_world :: "nat query_world" where
  "demo_query_world =
     \<lparr>qw_call = (\<lambda>name params w. (Inr [(''evidence'', DList [DObj [(''id'', DStr ''b'')], DObj [(''id'', DStr ''c'')]])], w)),
      qw_counter = (\<lambda>w. (Inr (real w), Suc w)), qw_size = length, qw_str = (\<lambda>_. ''''), qw_sorted = (\<lambda>xs. xs)\<rparr>"

definition demo_query_options :: query_options where
  "demo_query_options = \<lparr>qo_repo = ''/r'', qo_mode = Fast, qo_k = 2, qo_repeats = 1\<rparr>"

lemma evaluate_observation_returns:
  assumes "1 \<le> k" "1 \<le> qn_calls run" "qn_confidence run = Finite q" "0 \<le> q" "q \<le> 1"
  shows "\<exists>ob. evaluate_observation c found k run = Inr ob"
  using assms by (simp add: evaluate_observation_def Let_def)

lemma demo_observed: "\<exists>pair. observe_both demo_query_world demo_query_options demo_query_case 0 = (Inr pair, 4)"
proof -
  let ?reply = "[(''evidence'', DList [DObj [(''id'', DStr ''b'')], DObj [(''id'', DStr ''c'')]])]"
  obtain run where run: "unified_run demo_query_world ?reply 1000 = Inr run" "qn_calls run = 1" "qn_confidence run = Finite 0"
    by (simp add: unified_run_def field_def object_of_def float_or_zero_def numeric_def Let_def)
  obtain u where u: "evaluate_observation demo_query_case (identities (field ?reply ''evidence'')) 2 run = Inr u"
    using evaluate_observation_returns [of 2 run 0] run by auto
  obtain b where b: "evaluate_observation demo_query_case (concat (map (\<lambda>r. identities (DObj r)) [?reply])) 2
      (baseline_run demo_query_world demo_query_case [?reply] 1000) = Inr b"
    using evaluate_observation_returns [of 2 "baseline_run demo_query_world demo_query_case [?reply] 1000" 1]
    by (auto simp: baseline_run_def demo_query_case_def)
  have world: "qw_counter demo_query_world n = (Inr (real n), Suc n)" "qw_call demo_query_world name params n = (Inr ?reply, n)"
    for n name params by (simp_all add: demo_query_world_def)
  have opts: "qo_k demo_query_options = 2" by (simp add: demo_query_options_def)
  have "observe_unified demo_query_world demo_query_options demo_query_case 0 = (Inr u, 2)"
    using run(1) u by (simp add: observe_unified_def act_bind_def act_lift_def world opts numeral_2_eq_2 del: identities.simps)
  moreover have "observe_baseline demo_query_world demo_query_options demo_query_case 2 = (Inr b, 4)"
  proof -
    have "act_map (baseline_step demo_query_world demo_query_options) (qc_baseline demo_query_case) 3 = (Inr [?reply], 3)"
      by (simp add: baseline_step_def world demo_query_case_def act_bind_def act_return_def)
    then show ?thesis using b world(1) [of 2] world(1) [of 3]
      by (simp add: observe_baseline_def act_bind_def act_lift_def opts del: identities.simps)
  qed
  ultimately show ?thesis by (simp add: observe_both_def act_bind_def act_return_def)
qed


end
