(* ===== verification/Daemon_Controller.thy ===== *)
theory Daemon_Controller
  imports Poll_Loop Py_Floats
begin

text \<open>
  The lazy start of the daemon (\<open>src/src/scs/daemon.py\<close>): probing it, starting it under the
  bootstrap lock, and stopping it until its writer lock is free.  The socket, the file system,
  the system's locks, the clock and the child process act on a world; the state adds the locks
  this process holds, what it held at each spawn, and the shutdowns it asked for.
\<close>

section \<open>World and state\<close>

type_synonym fields = "(string \<times> decoded) list"

record 'w controller_env =
  ce_health :: "('w, fields) act"
  ce_shutdown :: "fields \<Rightarrow> ('w, unit) act"
  ce_identity :: "('w, string option) act"
  ce_loads :: "string \<Rightarrow> decoded option"
  ce_type_name :: "exc \<Rightarrow> string"
  ce_ensure_paths :: "('w, unit) act"
  ce_try_lock :: "string \<Rightarrow> ('w, bool) act"
  ce_spawn :: "('w, unit) act"
  ce_exited :: "('w, bool) act"
  ce_monotonic :: "('w, real) act"
  ce_sleep :: "real \<Rightarrow> ('w, unit) act"

record 'w controller =
  ct_world :: 'w
  ct_locks :: "string list"
  ct_spawned :: "string list list"
  ct_shutdowns :: "fields list"

definition outside :: "('w, 'a) act \<Rightarrow> ('w controller, 'a) act" where
  "outside m c = (case m (ct_world c) of (r, w) \<Rightarrow> (r, c\<lparr>ct_world := w\<rparr>))"

definition start_timeout :: real where
  "start_timeout = 45"

definition stop_timeout :: real where
  "stop_timeout = 300"

definition poll_seconds :: real where
  "poll_seconds = 1 / 20"

definition bootstrap_lock :: string where
  "bootstrap_lock = ''.bootstrap.lock''"

definition writer_lock :: string where
  "writer_lock = ''.daemon.lock''"

section \<open>Locks\<close>

definition acquire_lock :: "'w controller_env \<Rightarrow> string \<Rightarrow> ('w controller, unit) act" where
  "acquire_lock env path =
     act_bind (act_gets ct_locks) (\<lambda>held.
     if path \<in> set held then act_raise (RuntimeError ''SCS process lock is already acquired'')
     else act_bind (outside (ce_try_lock env path)) (\<lambda>free.
       if free then act_modify (\<lambda>c. c\<lparr>ct_locks := path # ct_locks c\<rparr>)
       else act_raise (RuntimeError ''SCS daemon is already running for this storage root'')))"

definition release_lock :: "string \<Rightarrow> 'w controller \<Rightarrow> 'w controller" where
  "release_lock path c = c\<lparr>ct_locks := remove1 path (ct_locks c)\<rparr>"

definition writer_lock_available :: "'w controller_env \<Rightarrow> ('w controller, bool) act" where
  "writer_lock_available env =
     act_handle (act_seq (acquire_lock env writer_lock) (act_seq (act_modify (release_lock writer_lock)) (act_return True)))
       (\<lambda>e. case e of RuntimeError _ \<Rightarrow> act_return False | _ \<Rightarrow> act_raise e)"

section \<open>Probing\<close>

record daemon_state =
  da_available :: bool
  da_ready :: bool
  da_pid :: "int option"
  da_generation :: "string option"
  da_version :: "string option"
  da_error :: "string option"

text \<open>A text that is not UTF-8 raises a \<open>UnicodeDecodeError\<close>, a \<open>ValueError\<close> that is not caught.\<close>

definition read_identity :: "'w controller_env \<Rightarrow> ('w controller, fields) act" where
  "read_identity env =
     act_handle
       (act_bind (outside (ce_identity env)) (\<lambda>content.
        case content of
          None \<Rightarrow> act_raise (ValueError ''invalid utf-8'')
        | Some s \<Rightarrow> act_return (case ce_loads env s of Some (DObj kvs) \<Rightarrow> kvs | _ \<Rightarrow> [])))
       (\<lambda>e. case e of OSError _ \<Rightarrow> act_return [] | _ \<Rightarrow> act_raise e)"

definition string_field :: "fields \<Rightarrow> string \<Rightarrow> string option" where
  "string_field kvs key = (case field kvs key of DStr s \<Rightarrow> Some s | _ \<Rightarrow> None)"

text \<open>\<open>isinstance(pid, int)\<close> holds of a \<open>bool\<close> too.\<close>

definition pid_field :: "fields \<Rightarrow> int option" where
  "pid_field kvs = (case field kvs ''pid'' of DInt i \<Rightarrow> Some i | DBool b \<Rightarrow> Some (of_bool b) | _ \<Rightarrow> None)"

definition daemon_status :: "'w controller_env \<Rightarrow> ('w controller, daemon_state) act" where
  "daemon_status env =
     act_bind (act_handle (act_bind (outside (ce_health env)) (\<lambda>health. act_return (Inr health)))
                 (\<lambda>e. act_return (Inl (ce_type_name env e)))) (\<lambda>probe.
     case probe of
       Inl name \<Rightarrow> act_return
         \<lparr>da_available = False, da_ready = False, da_pid = None, da_generation = None, da_version = None, da_error = Some name\<rparr>
     | Inr health \<Rightarrow>
         act_bind (read_identity env) (\<lambda>identity.
         act_return
           \<lparr>da_available = True, da_ready = (field health ''ready'' = DBool True), da_pid = pid_field identity,
            da_generation = string_field health ''generation'', da_version = string_field health ''version'',
            da_error = None\<rparr>))"

section \<open>Starting\<close>

definition spawn_daemon :: "'w controller_env \<Rightarrow> ('w controller, unit) act" where
  "spawn_daemon env =
     act_seq (outside (ce_spawn env)) (act_modify (\<lambda>c. c\<lparr>ct_spawned := ct_spawned c @ [ct_locks c]\<rparr>))"

definition rest_turn :: "'w controller_env \<Rightarrow> ('w controller, 'a option) act" where
  "rest_turn env = act_seq (outside (ce_sleep env poll_seconds)) (act_return None)"

text \<open>One try for the bootstrap lock: \<open>Some None\<close> when it is held now, \<open>Some (Some s)\<close> to return.\<close>

definition bootstrap_turn :: "'w controller_env \<Rightarrow> real \<Rightarrow> ('w controller, daemon_state option option) act" where
  "bootstrap_turn env deadline =
     act_bind (act_handle (act_seq (acquire_lock env bootstrap_lock) (act_return True))
                 (\<lambda>e. case e of RuntimeError _ \<Rightarrow> act_return False | _ \<Rightarrow> act_raise e)) (\<lambda>acquired.
     if acquired then act_return (Some None)
     else act_bind (daemon_status env) (\<lambda>current.
       if da_ready current then act_return (Some (Some current))
       else act_bind (outside (ce_monotonic env)) (\<lambda>now.
         if deadline \<le> now then act_raise (TimeoutError ''timed out waiting for SCS daemon bootstrap'')
         else rest_turn env)))"

definition ready_turn :: "'w controller_env \<Rightarrow> real \<Rightarrow> bool \<Rightarrow> ('w controller, daemon_state option) act" where
  "ready_turn env deadline spawned =
     act_bind (outside (ce_monotonic env)) (\<lambda>now.
     if \<not> now < deadline then act_raise (TimeoutError ''SCS daemon did not become ready before timeout'')
     else act_bind (daemon_status env) (\<lambda>current.
       if da_ready current then act_return (Some current)
       else act_bind (if spawned then outside (ce_exited env) else act_return False) (\<lambda>ended.
         if ended then act_raise (RuntimeError ''SCS daemon exited before readiness'') else rest_turn env)))"

definition start_locked :: "'w controller_env \<Rightarrow> real \<Rightarrow> ('w controller, daemon_state) running" where
  "start_locked env deadline =
     then_run (daemon_status env) (\<lambda>current.
     if da_ready current then (\<lambda>c. Some (act_return current c))
     else then_run (if da_available current then act_return () else spawn_daemon env)
       (\<lambda>_. poll_until (ready_turn env deadline (\<not> da_available current))))"

definition start_from :: "'w controller_env \<Rightarrow> real \<Rightarrow> daemon_state option \<Rightarrow> ('w controller, daemon_state) running" where
  "start_from env deadline seen c =
     (case seen of
        Some current \<Rightarrow> Some (Inr current, c)
      | None \<Rightarrow> map_option (\<lambda>(r, c'). (r, release_lock bootstrap_lock c')) (start_locked env deadline c))"

definition contend :: "'w controller_env \<Rightarrow> real \<Rightarrow> ('w controller, daemon_state) running" where
  "contend env deadline c =
     (case poll_until (bootstrap_turn env deadline) c of
        None \<Rightarrow> None
      | Some (Inl e, c') \<Rightarrow> Some (Inl e, c')
      | Some (Inr seen, c') \<Rightarrow> start_from env deadline seen c')"

definition ensure_started :: "'w controller_env \<Rightarrow> ('w controller, daemon_state) running" where
  "ensure_started env =
     then_run (daemon_status env) (\<lambda>current.
     if da_ready current then (\<lambda>c. Some (act_return current c))
     else then_run (act_seq (outside (ce_ensure_paths env)) (outside (ce_monotonic env)))
       (\<lambda>now. contend env (now + start_timeout)))"

section \<open>Stopping\<close>

definition request_shutdown :: "'w controller_env \<Rightarrow> daemon_state \<Rightarrow> bool \<Rightarrow> ('w controller, unit) act" where
  "request_shutdown env current cancel =
     (let params = [(''generation'', case da_generation current of Some g \<Rightarrow> DStr g | None \<Rightarrow> DNull), (''cancel_active'', DBool cancel)]
      in act_seq (act_modify (\<lambda>c. c\<lparr>ct_shutdowns := ct_shutdowns c @ [params]\<rparr>)) (outside (ce_shutdown env params)))"

definition release_turn :: "'w controller_env \<Rightarrow> real \<Rightarrow> ('w controller, bool option) act" where
  "release_turn env deadline =
     act_bind (outside (ce_monotonic env)) (\<lambda>now.
     if \<not> now < deadline then act_raise (TimeoutError ''SCS daemon did not release its writer lock before timeout'')
     else act_bind (writer_lock_available env) (\<lambda>free.
       if free then act_return (Some True) else rest_turn env))"

definition stop_daemon :: "'w controller_env \<Rightarrow> bool \<Rightarrow> ('w controller, bool) running" where
  "stop_daemon env cancel =
     then_run (daemon_status env) (\<lambda>current.
     if \<not> da_available current
     then then_run (writer_lock_available env) (\<lambda>free c. Some
       (if free then act_return False c
        else act_raise (RuntimeError ''unreachable daemon retains the SCS writer lock; refusing unverified process recovery'') c))
     else then_run (act_seq (request_shutdown env current cancel) (outside (ce_monotonic env)))
       (\<lambda>now. poll_until (release_turn env (now + stop_timeout))))"

section \<open>What a step keeps\<close>

text \<open>
  No step of the world turns the clock back; reading the clock tells the time; a sleep lasts at
  least as long as asked.
\<close>

definition time_passes :: "('w \<Rightarrow> real) \<Rightarrow> ('w, 'a) act \<Rightarrow> bool" where
  "time_passes now m \<longleftrightarrow> (\<forall>w r w'. m w = (r, w') \<longrightarrow> now w \<le> now w')"

definition daemon_clock :: "'w controller_env \<Rightarrow> ('w \<Rightarrow> real) \<Rightarrow> bool" where
  "daemon_clock env now \<longleftrightarrow>
     time_passes now (ce_health env) \<and> (\<forall>params. time_passes now (ce_shutdown env params))
     \<and> time_passes now (ce_identity env) \<and> time_passes now (ce_ensure_paths env)
     \<and> (\<forall>path. time_passes now (ce_try_lock env path)) \<and> time_passes now (ce_spawn env) \<and> time_passes now (ce_exited env)
     \<and> (\<forall>w. \<exists>w'. ce_monotonic env w = (Inr (now w), w') \<and> now w \<le> now w')
     \<and> (\<forall>interval w. \<exists>w'. ce_sleep env interval w = (Inr (), w') \<and> now w + interval \<le> now w')"

text \<open>It is \<open>t\<close> or later, and locks, spawns and shutdowns are these.\<close>

definition stands :: "('w \<Rightarrow> real) \<Rightarrow> real \<Rightarrow> string list \<Rightarrow> string list list \<Rightarrow> fields list \<Rightarrow> 'w controller \<Rightarrow> bool" where
  "stands now t locks spawned shutdowns c \<longleftrightarrow>
     t \<le> now (ct_world c) \<and> ct_locks c = locks \<and> ct_spawned c = spawned \<and> ct_shutdowns c = shutdowns"

lemma keeps_outside: "time_passes now m \<Longrightarrow> act_keeps (stands now t L S H) (outside m)"
  by (rule keepsI) (auto simp: outside_def stands_def time_passes_def split: prod.splits intro: order_trans)

lemma clock_facts:
  assumes "daemon_clock env now"
  shows "time_passes now (ce_health env)" "time_passes now (ce_shutdown env params)" "time_passes now (ce_identity env)"
    "time_passes now (ce_ensure_paths env)" "time_passes now (ce_try_lock env path)" "time_passes now (ce_spawn env)"
    "time_passes now (ce_exited env)"
  using assms by (simp_all add: daemon_clock_def)

lemma ensures_monotonic:
  assumes "daemon_clock env now"
  shows "act_ensures (stands now t L S H) (outside (ce_monotonic env)) (\<lambda>u c. stands now u L S H c \<and> t \<le> u) E"
proof (rule ensuresI)
  fix c u c'
  assume c: "stands now t L S H c" and run: "outside (ce_monotonic env) c = (Inr u, c')"
  obtain w' where "ce_monotonic env (ct_world c) = (Inr (now (ct_world c)), w')" "now (ct_world c) \<le> now w'"
    using assms unfolding daemon_clock_def by blast
  then show "stands now u L S H c' \<and> t \<le> u" using c run by (auto simp: outside_def stands_def)
next
  fix c e c'
  assume "outside (ce_monotonic env) c = (Inl e, c')"
  moreover obtain w' where "ce_monotonic env (ct_world c) = (Inr (now (ct_world c)), w')"
    using assms unfolding daemon_clock_def by blast
  ultimately show "E e c'" by (simp add: outside_def)
qed

lemma ensures_rest:
  assumes "daemon_clock env now"
  shows "act_ensures (stands now t L S H) (rest_turn env) (\<lambda>y c. y = None \<and> stands now (t + poll_seconds) L S H c) E"
proof (rule ensuresI)
  fix c y c'
  assume c: "stands now t L S H c" and run: "rest_turn env c = (Inr y, c')"
  obtain w' where "ce_sleep env poll_seconds (ct_world c) = (Inr (), w')" "now (ct_world c) + poll_seconds \<le> now w'"
    using assms unfolding daemon_clock_def by blast
  then show "y = None \<and> stands now (t + poll_seconds) L S H c'"
    using c run by (auto simp: rest_turn_def outside_def stands_def act_seq_def act_bind_def act_return_def)
next
  fix c e c'
  assume "rest_turn env c = (Inl e, c')"
  moreover obtain w' where "ce_sleep env poll_seconds (ct_world c) = (Inr (), w')"
    using assms unfolding daemon_clock_def by blast
  ultimately show "E e c'" by (simp add: rest_turn_def outside_def act_seq_def act_bind_def act_return_def)
qed

lemma keeps_status:
  assumes "daemon_clock env now"
  shows "act_keeps (stands now t L S H) (daemon_status env)"
proof -
  have "act_keeps (stands now t L S H) (read_identity env)"
    unfolding read_identity_def
    by (intro keeps_handle keeps_bind keeps_outside clock_facts(3) [OF assms]) (auto split: option.split exc.split)
  then show ?thesis unfolding daemon_status_def
    by (intro keeps_bind keeps_handle keeps_outside clock_facts(1) [OF assms])
      (auto split: sum.split intro: keeps_bind)
qed

lemmas keeps_ensures = keeps_status [unfolded act_keeps_def] keeps_outside [unfolded act_keeps_def]

section \<open>Locks\<close>

lemma stands_mono: "stands now t L S H c \<Longrightarrow> t' \<le> t \<Longrightarrow> stands now t' L S H c"
  by (simp add: stands_def)

lemma acquire_ensures:
  assumes "daemon_clock env now"
  shows "act_ensures (stands now t L S H) (acquire_lock env path)
    (\<lambda>_ c. path \<notin> set L \<and> stands now t (path # L) S H c) (\<lambda>_. stands now t L S H)" (is "act_ensures ?P _ ?Q ?E")
  unfolding acquire_lock_def
proof (rule ensures_bind [where R = "\<lambda>held c. ?P c \<and> held = L"])
  show "act_ensures ?P (act_gets ct_locks) (\<lambda>held c. ?P c \<and> held = L) ?E"
    by (rule ensures_gets) (simp add: stands_def)
  fix held
  let ?taken = "act_raise (RuntimeError ''SCS daemon is already running for this storage root'')"
  let ?take = "act_modify (\<lambda>c. c\<lparr>ct_locks := path # ct_locks c\<rparr>)"
  have free: "act_ensures ?P (if free then ?take else ?taken) ?Q ?E" if "path \<notin> set L" for free
    using that by (cases free) (auto intro!: ensures_modify ensures_raise simp: stands_def)
  have "act_ensures ?P (act_bind (outside (ce_try_lock env path)) (\<lambda>free. if free then ?take else ?taken)) ?Q ?E"
    if "path \<notin> set L"
    by (rule ensures_bind [OF keeps_ensures(2) [OF clock_facts(5) [OF assms]] free [OF that]])
  then show "act_ensures (\<lambda>c. ?P c \<and> held = L)
      (if path \<in> set held then act_raise (RuntimeError ''SCS process lock is already acquired'')
       else act_bind (outside (ce_try_lock env path)) (\<lambda>free. if free then ?take else ?taken)) ?Q ?E"
    by (intro ensures_given) (simp add: ensures_raise)
qed

lemma attempt_ensures:
  assumes "daemon_clock env now"
  shows "act_ensures (stands now t L S H)
    (act_handle (act_seq (acquire_lock env path) (act_return True))
      (\<lambda>e. case e of RuntimeError _ \<Rightarrow> act_return False | _ \<Rightarrow> act_raise e))
    (\<lambda>acquired. stands now t (if acquired then path # L else L) S H) (\<lambda>_. stands now t L S H)"
proof (rule ensures_handle [where R = "\<lambda>_. stands now t L S H"])
  show "act_ensures (stands now t L S H) (act_seq (acquire_lock env path) (act_return True))
      (\<lambda>acquired. stands now t (if acquired then path # L else L) S H) (\<lambda>_. stands now t L S H)"
    by (rule ensures_seq [where R = "\<lambda>c. path \<notin> set L \<and> stands now t (path # L) S H c"])
      (auto intro: acquire_ensures [OF assms] ensures_return)
qed (auto intro: ensures_return ensures_raise split: exc.split)

lemma probe_ensures:
  assumes "daemon_clock env now"
  shows "act_ensures (stands now t L S H) (writer_lock_available env) (\<lambda>_. stands now t L S H) (\<lambda>_. stands now t L S H)"
  unfolding writer_lock_available_def
proof (rule ensures_handle [where R = "\<lambda>_. stands now t L S H"])
  show "act_ensures (stands now t L S H)
      (act_seq (acquire_lock env writer_lock) (act_seq (act_modify (release_lock writer_lock)) (act_return True)))
      (\<lambda>_. stands now t L S H) (\<lambda>_. stands now t L S H)"
    by (rule ensures_seq [OF acquire_ensures [OF assms]], rule ensures_seq [where R = "stands now t L S H"])
      (auto intro: ensures_modify ensures_return simp: release_lock_def stands_def)
qed (auto intro: ensures_return ensures_raise split: exc.split)

section \<open>Turns\<close>

definition bootstrapped ::
  "('w \<Rightarrow> real) \<Rightarrow> real \<Rightarrow> string list \<Rightarrow> string list list \<Rightarrow> fields list \<Rightarrow> daemon_state option \<Rightarrow> 'w controller \<Rightarrow> bool" where
  "bootstrapped now t L S H seen c =
     (case seen of None \<Rightarrow> stands now t (bootstrap_lock # L) S H c
      | Some current \<Rightarrow> da_ready current \<and> stands now t L S H c)"

lemma rest_goes_on:
  assumes "daemon_clock env now" "t < d"
  shows "act_ensures (stands now t L S H) (rest_turn env)
    (\<lambda>y c. case y of None \<Rightarrow> t < d \<and> stands now (t + poll_seconds) L S H c | Some x \<Rightarrow> Q x c) E"
  by (rule ensures_weaken [OF ensures_rest [OF assms(1)]]) (use assms(2) in auto)

lemma ensures_later:
  "t \<le> u \<Longrightarrow> act_ensures (stands now t L S H) m Q E \<Longrightarrow> act_ensures (stands now u L S H) m Q E"
  by (erule ensures_weaken) (auto elim: stands_mono)

lemma bootstrap_turn_ensures:
  assumes "daemon_clock env now"
  shows "act_ensures (stands now t L S H) (bootstrap_turn env d)
    (\<lambda>y c. case y of None \<Rightarrow> t < d \<and> stands now (t + poll_seconds) L S H c | Some seen \<Rightarrow> bootstrapped now t L S H seen c)
    (\<lambda>_. stands now t L S H)" (is "act_ensures ?P _ ?Q ?E")
  unfolding bootstrap_turn_def
proof (rule ensures_bind [OF attempt_ensures [OF assms]])
  fix acquired
  let ?wait = "act_bind (outside (ce_monotonic env)) (\<lambda>u. if d \<le> u
      then act_raise (TimeoutError ''timed out waiting for SCS daemon bootstrap'') else rest_turn env)"
  have wait: "act_ensures ?P ?wait ?Q ?E"
  proof (rule ensures_bind [OF ensures_monotonic [OF assms]], rule ensures_given, rule ensures_later, assumption)
    fix u
    assume "t \<le> u"
    show "act_ensures ?P (if d \<le> u then act_raise (TimeoutError ''timed out waiting for SCS daemon bootstrap'')
        else rest_turn env) ?Q ?E"
    proof (cases "d \<le> u")
      case True
      then show ?thesis by (simp add: ensures_raise)
    next
      case False
      then show ?thesis using \<open>t \<le> u\<close> rest_goes_on [OF assms, of t d] by simp
    qed
  qed
  have probe: "act_ensures ?P (if da_ready current then act_return (Some (Some current)) else ?wait) ?Q ?E" for current
    using wait by (cases "da_ready current") (simp_all add: ensures_return bootstrapped_def)
  show "act_ensures (stands now t (if acquired then bootstrap_lock # L else L) S H)
      (if acquired then act_return (Some None)
       else act_bind (daemon_status env) (\<lambda>current. if da_ready current then act_return (Some (Some current)) else ?wait)) ?Q ?E"
    using ensures_bind [OF keeps_ensures(1) [OF assms] probe]
    by (cases acquired) (simp_all add: ensures_return bootstrapped_def)
qed

lemma ready_turn_ensures:
  assumes "daemon_clock env now"
  shows "act_ensures (stands now t L S H) (ready_turn env d spawned)
    (\<lambda>y c. case y of None \<Rightarrow> t < d \<and> stands now (t + poll_seconds) L S H c | Some s \<Rightarrow> da_ready s \<and> stands now t L S H c)
    (\<lambda>_. stands now t L S H)" (is "act_ensures ?P _ ?Q ?E")
  unfolding ready_turn_def
proof (rule ensures_bind [OF ensures_monotonic [OF assms]], rule ensures_given, rule ensures_later, assumption)
  fix u
  assume "t \<le> u"
  let ?late = "act_raise (TimeoutError ''SCS daemon did not become ready before timeout'')"
  let ?on = "\<lambda>ended. if ended then act_raise (RuntimeError ''SCS daemon exited before readiness'') else rest_turn env"
  let ?exit = "if spawned then outside (ce_exited env) else act_return False"
  let ?look = "\<lambda>current. if da_ready current then act_return (Some current) else act_bind ?exit ?on"
  show "act_ensures ?P (if \<not> u < d then ?late else act_bind (daemon_status env) ?look) ?Q ?E"
  proof (cases "u < d")
    case True
    then have "t < d" using \<open>t \<le> u\<close> by simp
    then have on: "act_ensures ?P (?on ended) ?Q ?E" for ended
      using rest_goes_on [OF assms, of t d] by (cases ended) (simp_all add: ensures_raise)
    have exit: "act_ensures ?P ?exit (\<lambda>_. ?P) ?E"
      using keeps_ensures(2) [OF clock_facts(7) [OF assms]] by (cases spawned) (simp_all add: ensures_return)
    have "act_ensures ?P (?look current) ?Q ?E" for current
      using ensures_bind [OF exit on] by (cases "da_ready current") (simp_all add: ensures_return)
    then have "act_ensures ?P (act_bind (daemon_status env) ?look) ?Q ?E"
      by (rule ensures_bind [OF keeps_ensures(1) [OF assms]])
    then show ?thesis using True by (simp only: simp_thms if_False)
  next
    case False
    then show ?thesis by (simp add: ensures_raise)
  qed
qed

section \<open>Loops end\<close>

lemma turn_measure:
  assumes "daemon_clock env now"
    and "\<And>t L S H. act_ensures (stands now t L S H) turn
      (\<lambda>y c. case y of None \<Rightarrow> t < d \<and> stands now (t + poll_seconds) L S H c | Some x \<Rightarrow> Q t L S H x c) (E t L S H)"
    and "turn c = (Inr None, c')"
  shows "turns_left (now \<circ> ct_world) poll_seconds d c' < turns_left (now \<circ> ct_world) poll_seconds d c"
proof -
  have "stands now (now (ct_world c)) (ct_locks c) (ct_spawned c) (ct_shutdowns c) c" by (simp add: stands_def)
  from ensures_Inr [OF assms(2) this assms(3)]
  have "now (ct_world c) < d" "now (ct_world c) + poll_seconds \<le> now (ct_world c')" by (simp_all add: stands_def)
  then show ?thesis by (intro turns_left_decreases) (simp_all add: poll_seconds_def)
qed

lemma poll_stands:
  assumes "daemon_clock env now"
    and "\<And>t L S H. act_ensures (stands now t L S H) turn
      (\<lambda>y c. case y of None \<Rightarrow> t < d \<and> stands now (t + poll_seconds) L S H c | Some x \<Rightarrow> Q t L S H x c) (\<lambda>_. stands now t L S H)"
  shows "run_ensures (stands now t L S H) (poll_until turn) (Q t L S H) (\<lambda>_. stands now t L S H)"
proof (rule run_ensures_poll)
  show "turns_left (now \<circ> ct_world) poll_seconds d c' < turns_left (now \<circ> ct_world) poll_seconds d c"
    if "turn c = (Inr None, c')" for c c'
    by (rule turn_measure [OF assms that])
  show "act_ensures (stands now t L S H) turn
      (\<lambda>y s. case y of None \<Rightarrow> stands now t L S H s | Some x \<Rightarrow> Q t L S H x s) (\<lambda>_. stands now t L S H)"
  proof (rule ensures_weaken [OF assms(2)])
    fix y c
    assume "case y of None \<Rightarrow> t < d \<and> stands now (t + poll_seconds) L S H c | Some x \<Rightarrow> Q t L S H x c"
    then show "case y of None \<Rightarrow> stands now t L S H c | Some x \<Rightarrow> Q t L S H x c"
      using stands_mono [of now "t + poll_seconds" L S H c t] by (cases y) (simp_all add: poll_seconds_def)
  qed
qed

section \<open>At most one spawn, under the lock\<close>

definition started_within ::
  "('w \<Rightarrow> real) \<Rightarrow> real \<Rightarrow> string list \<Rightarrow> string list list \<Rightarrow> fields list \<Rightarrow> 'w controller \<Rightarrow> bool" where
  "started_within now t L S H c \<longleftrightarrow> (\<exists>new. (new = [] \<or> new = [bootstrap_lock # L]) \<and> stands now t L (S @ new) H c)"

lemma started_none: "stands now t L S H c \<Longrightarrow> started_within now t L S H c"
  unfolding started_within_def by (rule exI [of _ "[]"]) simp

definition starting_within ::
  "('w \<Rightarrow> real) \<Rightarrow> real \<Rightarrow> string list \<Rightarrow> string list list \<Rightarrow> fields list \<Rightarrow> 'w controller \<Rightarrow> bool" where
  "starting_within now t L S H c \<longleftrightarrow>
     stands now t (bootstrap_lock # L) S H c \<or> stands now t (bootstrap_lock # L) (S @ [bootstrap_lock # L]) H c"

lemma lock_released: "starting_within now t L S H c \<Longrightarrow> started_within now t L S H (release_lock bootstrap_lock c)"
  unfolding starting_within_def
proof (elim disjE)
  assume "stands now t (bootstrap_lock # L) S H c"
  then show ?thesis by (intro started_none) (simp add: release_lock_def stands_def)
next
  assume "stands now t (bootstrap_lock # L) (S @ [bootstrap_lock # L]) H c"
  then have "stands now t L (S @ [bootstrap_lock # L]) H (release_lock bootstrap_lock c)"
    by (simp add: release_lock_def stands_def)
  then show ?thesis unfolding started_within_def by blast
qed

lemma spawn_ensures:
  assumes "daemon_clock env now"
  shows "act_ensures (stands now t L S H) (spawn_daemon env) (\<lambda>_. stands now t L (S @ [L]) H) (\<lambda>_. stands now t L S H)"
  unfolding spawn_daemon_def
  by (rule ensures_seq [OF keeps_ensures(2) [OF clock_facts(6) [OF assms]]]) (rule ensures_modify, simp add: stands_def)

lemma start_locked_ensures:
  assumes "daemon_clock env now"
  shows "run_ensures (stands now t (bootstrap_lock # L) S H) (start_locked env d)
    (\<lambda>s c. da_ready s \<and> starting_within now t L S H c) (\<lambda>_. starting_within now t L S H)"
  unfolding start_locked_def
proof (rule run_ensures_then)
  show "act_ensures (stands now t (bootstrap_lock # L) S H) (daemon_status env)
      (\<lambda>_. stands now t (bootstrap_lock # L) S H) (\<lambda>_. starting_within now t L S H)"
    by (rule ensures_weaken [OF keeps_ensures(1) [OF assms]]) (auto simp: starting_within_def)
  fix current
  let ?P = "\<lambda>S. stands now t (bootstrap_lock # L) S H"
  have wait: "run_ensures (?P S') (poll_until (ready_turn env d b))
      (\<lambda>s c. da_ready s \<and> ?P S' c) (\<lambda>_. ?P S')" for S' b
    by (rule poll_stands [where Q = "\<lambda>t L S H s c. da_ready s \<and> stands now t L S H c", OF assms ready_turn_ensures [OF assms]])
  show "run_ensures (?P S)
      (if da_ready current then (\<lambda>c. Some (act_return current c))
       else then_run (if da_available current then act_return () else spawn_daemon env)
         (\<lambda>_. poll_until (ready_turn env d (\<not> da_available current))))
      (\<lambda>s c. da_ready s \<and> starting_within now t L S H c) (\<lambda>_. starting_within now t L S H)"
  proof (cases "da_ready current")
    case True
    then show ?thesis by (simp add: run_ensures_act ensures_return starting_within_def)
  next
    case False
    define S' where "S' = (if da_available current then S else S @ [bootstrap_lock # L])"
    have "act_ensures (?P S) (if da_available current then act_return () else spawn_daemon env) (\<lambda>_. ?P S')
        (\<lambda>_. starting_within now t L S H)"
      using ensures_weaken [OF spawn_ensures [OF assms, of t "bootstrap_lock # L" S H]]
      by (cases "da_available current") (simp_all add: S'_def ensures_return starting_within_def)
    moreover have "run_ensures (?P S') (poll_until (ready_turn env d (\<not> da_available current)))
        (\<lambda>s c. da_ready s \<and> starting_within now t L S H c) (\<lambda>_. starting_within now t L S H)"
      by (rule run_ensures_weaken [OF wait]) (auto simp: S'_def starting_within_def split: if_splits)
    ultimately have "run_ensures (?P S)
        (then_run (if da_available current then act_return () else spawn_daemon env)
          (\<lambda>_. poll_until (ready_turn env d (\<not> da_available current))))
        (\<lambda>s c. da_ready s \<and> starting_within now t L S H c) (\<lambda>_. starting_within now t L S H)"
      by (rule run_ensures_then)
    then show ?thesis using False by simp
  qed
qed

lemma contend_ensures:
  assumes "daemon_clock env now"
  shows "run_ensures (stands now t L S H) (contend env d)
    (\<lambda>s c. da_ready s \<and> started_within now t L S H c) (\<lambda>_. started_within now t L S H)"
  unfolding run_ensures_def
proof (intro allI impI)
  fix c
  assume "stands now t L S H c"
  from run_ensuresD [OF poll_stands [where Q = "bootstrapped now", OF assms bootstrap_turn_ensures [OF assms]] this]
  obtain r c' where polled: "poll_until (bootstrap_turn env d) c = Some (r, c')"
    and after: "case r of Inl e \<Rightarrow> stands now t L S H c' | Inr seen \<Rightarrow> bootstrapped now t L S H seen c'" by blast
  show "\<exists>r s'. contend env d c = Some (r, s') \<and> (case r of Inl e \<Rightarrow> started_within now t L S H s'
      | Inr s \<Rightarrow> da_ready s \<and> started_within now t L S H s')"
  proof (cases r)
    case (Inl e)
    then show ?thesis using polled after by (simp add: contend_def started_none)
  next
    case (Inr seen)
    show ?thesis
    proof (cases seen)
      case None
      then have "stands now t (bootstrap_lock # L) S H c'" using after Inr by (simp add: bootstrapped_def)
      from run_ensuresD [OF start_locked_ensures [OF assms] this]
      obtain q c'' where "start_locked env d c' = Some (q, c'')"
        and "case q of Inl e \<Rightarrow> starting_within now t L S H c'' | Inr s \<Rightarrow> da_ready s \<and> starting_within now t L S H c''" by blast
      then show ?thesis using polled Inr None by (cases q) (auto simp: contend_def start_from_def lock_released)
    next
      case (Some current)
      then show ?thesis using polled after Inr by (auto simp: contend_def start_from_def bootstrapped_def started_none)
    qed
  qed
qed

lemma ensure_started_ensures:
  assumes "daemon_clock env now"
  shows "run_ensures (stands now t L S H) (ensure_started env)
    (\<lambda>s c. da_ready s \<and> started_within now t L S H c) (\<lambda>_. started_within now t L S H)"
  unfolding ensure_started_def
proof (rule run_ensures_then)
  let ?P = "stands now t L S H"
  show "act_ensures ?P (daemon_status env) (\<lambda>_. ?P) (\<lambda>_. started_within now t L S H)"
    by (rule ensures_weaken [OF keeps_ensures(1) [OF assms]]) (auto intro: started_none)
  fix current
  have paths: "act_ensures ?P (act_seq (outside (ce_ensure_paths env)) (outside (ce_monotonic env))) (\<lambda>_. ?P)
      (\<lambda>_. started_within now t L S H)"
    by (rule ensures_weaken [OF ensures_seq [OF keeps_ensures(2) [OF clock_facts(4) [OF assms]] ensures_monotonic [OF assms]]])
      (auto elim: stands_mono started_none)
  then have "run_ensures ?P (then_run (act_seq (outside (ce_ensure_paths env)) (outside (ce_monotonic env)))
      (\<lambda>u. contend env (u + start_timeout)))
      (\<lambda>s c. da_ready s \<and> started_within now t L S H c) (\<lambda>_. started_within now t L S H)"
    by (rule run_ensures_then) (rule contend_ensures [OF assms])
  then show "run_ensures ?P (if da_ready current then (\<lambda>c. Some (act_return current c))
      else then_run (act_seq (outside (ce_ensure_paths env)) (outside (ce_monotonic env)))
        (\<lambda>u. contend env (u + start_timeout)))
      (\<lambda>s c. da_ready s \<and> started_within now t L S H c) (\<lambda>_. started_within now t L S H)"
    by (cases "da_ready current") (simp_all add: run_ensures_act ensures_return started_none)
qed

text \<open>C39: Starting the daemon lazily always ends, for a clock that runs and whatever the daemon, the
  locks and the file system do: with a ready daemon or an exception.  It spawns at most one
  process, only while this process holds the bootstrap lock, asks for no shutdown, and leaves no
  lock held, on every exit.\<close>

theorem daemon_start_is_single:
  assumes "daemon_clock env now" "ct_locks c = []"
  shows "\<exists>r c'. ensure_started env c = Some (r, c') \<and> ct_locks c' = []
    \<and> (ct_spawned c' = ct_spawned c \<or> ct_spawned c' = ct_spawned c @ [[bootstrap_lock]])
    \<and> ct_shutdowns c' = ct_shutdowns c \<and> (case r of Inl e \<Rightarrow> True | Inr s \<Rightarrow> da_ready s)"
proof -
  have "stands now (now (ct_world c)) [] (ct_spawned c) (ct_shutdowns c) c" using assms(2) by (simp add: stands_def)
  from run_ensuresD [OF ensure_started_ensures [OF assms(1)] this]
  obtain r c' where "ensure_started env c = Some (r, c')"
    and "case r of Inl e \<Rightarrow> started_within now (now (ct_world c)) [] (ct_spawned c) (ct_shutdowns c) c'
      | Inr s \<Rightarrow> da_ready s \<and> started_within now (now (ct_world c)) [] (ct_spawned c) (ct_shutdowns c) c'" by blast
  then show ?thesis by (cases r) (auto simp: started_within_def stands_def)
qed

section \<open>Stopping\<close>

lemma release_turn_ensures:
  assumes "daemon_clock env now"
  shows "act_ensures (stands now t L S H) (release_turn env d)
    (\<lambda>y c. case y of None \<Rightarrow> t < d \<and> stands now (t + poll_seconds) L S H c | Some b \<Rightarrow> b \<and> stands now t L S H c)
    (\<lambda>_. stands now t L S H)" (is "act_ensures ?P _ ?Q ?E")
  unfolding release_turn_def
proof (rule ensures_bind [OF ensures_monotonic [OF assms]], rule ensures_given, rule ensures_later, assumption)
  fix u
  assume "t \<le> u"
  let ?late = "act_raise (TimeoutError ''SCS daemon did not release its writer lock before timeout'')"
  let ?look = "\<lambda>free. if free then act_return (Some True) else rest_turn env"
  show "act_ensures ?P (if \<not> u < d then ?late else act_bind (writer_lock_available env) ?look) ?Q ?E"
  proof (cases "u < d")
    case True
    then have "t < d" using \<open>t \<le> u\<close> by simp
    then have "act_ensures ?P (?look free) ?Q ?E" for free
      using rest_goes_on [OF assms, of t d] by (cases free) (simp_all add: ensures_return)
    then have "act_ensures ?P (act_bind (writer_lock_available env) ?look) ?Q ?E"
      by (rule ensures_bind [OF probe_ensures [OF assms]])
    then show ?thesis using True by (simp only: simp_thms if_False)
  next
    case False
    then show ?thesis by (simp add: ensures_raise)
  qed
qed

definition stopped_within ::
  "('w \<Rightarrow> real) \<Rightarrow> real \<Rightarrow> string list \<Rightarrow> string list list \<Rightarrow> fields list \<Rightarrow> bool \<Rightarrow> 'w controller \<Rightarrow> bool" where
  "stopped_within now t L S H asked c \<longleftrightarrow> (\<exists>new. length new = of_bool asked \<and> stands now t L S (H @ new) c)"

lemma stopped_unasked: "stands now t L S H c \<Longrightarrow> stopped_within now t L S H False c"
  unfolding stopped_within_def by (rule exI [of _ "[]"]) simp

lemma request_ensures:
  assumes "daemon_clock env now"
  shows "act_ensures (stands now t L S H) (act_seq (request_shutdown env current cancel) (outside (ce_monotonic env)))
    (\<lambda>_. stopped_within now t L S H True) (\<lambda>_. stopped_within now t L S H True)"
proof -
  define params where "params =
    [(''generation'', case da_generation current of Some g \<Rightarrow> DStr g | None \<Rightarrow> DNull), (''cancel_active'', DBool cancel)]"
  let ?R = "stands now t L S (H @ [params])"
  have "act_ensures (stands now t L S H) (request_shutdown env current cancel) (\<lambda>_. ?R) (\<lambda>_. ?R)"
    unfolding request_shutdown_def Let_def params_def [symmetric]
    by (rule ensures_seq [where R = ?R], rule ensures_modify, simp add: stands_def)
      (rule keeps_ensures(2) [OF clock_facts(2) [OF assms]])
  then have "act_ensures (stands now t L S H) (act_seq (request_shutdown env current cancel) (outside (ce_monotonic env)))
      (\<lambda>_. ?R) (\<lambda>_. ?R)"
    by (rule ensures_seq) (rule ensures_weaken [OF ensures_monotonic [OF assms]], auto elim: stands_mono)
  then show ?thesis by (rule ensures_weaken) (auto simp: stopped_within_def intro!: exI [of _ "[params]"])
qed

lemma stop_polls:
  assumes "daemon_clock env now"
  shows "run_ensures (stopped_within now t L S H True) (poll_until (release_turn env d))
    (\<lambda>b c. b \<and> stopped_within now t L S H True c) (\<lambda>_. stopped_within now t L S H True)"
  unfolding run_ensures_def
proof (intro allI impI)
  fix c
  assume "stopped_within now t L S H True c"
  then obtain new where new: "length new = 1" "stands now t L S (H @ new) c" by (auto simp: stopped_within_def)
  from run_ensuresD [OF poll_stands [where Q = "\<lambda>t L S H b c. b \<and> stands now t L S H c", OF assms release_turn_ensures [OF assms]] new(2)]
  obtain r c' where "poll_until (release_turn env d) c = Some (r, c')"
    and "case r of Inl e \<Rightarrow> stands now t L S (H @ new) c' | Inr b \<Rightarrow> b \<and> stands now t L S (H @ new) c'" by blast
  then show "\<exists>r s'. poll_until (release_turn env d) c = Some (r, s') \<and>
      (case r of Inl e \<Rightarrow> stopped_within now t L S H True s' | Inr b \<Rightarrow> b \<and> stopped_within now t L S H True s')"
    using new(1) by (cases r) (auto simp: stopped_within_def)
qed

lemma stop_ensures:
  assumes "daemon_clock env now"
  shows "run_ensures (stands now t L S H) (stop_daemon env cancel)
    (\<lambda>b. stopped_within now t L S H b) (\<lambda>_ c. \<exists>asked. stopped_within now t L S H asked c)"
  unfolding stop_daemon_def
proof (rule run_ensures_then)
  let ?P = "stands now t L S H"
  let ?E = "\<lambda>_ c. \<exists>asked. stopped_within now t L S H asked c"
  show "act_ensures ?P (daemon_status env) (\<lambda>_. ?P) ?E"
    by (rule ensures_weaken [OF keeps_ensures(1) [OF assms]]) (auto intro: stopped_unasked)
  fix current
  have probe: "run_ensures ?P (then_run (writer_lock_available env) (\<lambda>free c. Some
        (if free then act_return False c
         else act_raise (RuntimeError ''unreachable daemon retains the SCS writer lock; refusing unverified process recovery'') c)))
      (\<lambda>b. stopped_within now t L S H b) ?E"
  proof (rule run_ensures_then [where R = "\<lambda>_. ?P"])
    show "act_ensures ?P (writer_lock_available env) (\<lambda>_. ?P) ?E"
      by (rule ensures_weaken [OF probe_ensures [OF assms]]) (auto intro: stopped_unasked)
    show "run_ensures ?P (\<lambda>c. Some (if free then act_return False c
        else act_raise (RuntimeError ''unreachable daemon retains the SCS writer lock; refusing unverified process recovery'') c))
      (\<lambda>b. stopped_within now t L S H b) ?E" for free
      by (cases free) (auto simp: run_ensures_def act_return_def act_raise_def intro: stopped_unasked)
  qed
  have "run_ensures ?P (then_run (act_seq (request_shutdown env current cancel) (outside (ce_monotonic env)))
      (\<lambda>u. poll_until (release_turn env (u + stop_timeout)))) (\<lambda>b. stopped_within now t L S H b) ?E"
  proof (rule run_ensures_then)
    show "act_ensures ?P (act_seq (request_shutdown env current cancel) (outside (ce_monotonic env)))
        (\<lambda>_. stopped_within now t L S H True) ?E"
      by (rule ensures_weaken [OF request_ensures [OF assms]]) auto
    show "run_ensures (stopped_within now t L S H True) (poll_until (release_turn env (u + stop_timeout)))
        (\<lambda>b. stopped_within now t L S H b) ?E" for u
      by (rule run_ensures_weaken [OF stop_polls [OF assms]]) auto
  qed
  with probe show "run_ensures ?P
      (if \<not> da_available current
       then then_run (writer_lock_available env) (\<lambda>free c. Some
        (if free then act_return False c
         else act_raise (RuntimeError ''unreachable daemon retains the SCS writer lock; refusing unverified process recovery'') c))
       else then_run (act_seq (request_shutdown env current cancel) (outside (ce_monotonic env)))
         (\<lambda>u. poll_until (release_turn env (u + stop_timeout)))) (\<lambda>b. stopped_within now t L S H b) ?E"
    by (cases "da_available current") simp_all
qed

text \<open>C40: Stopping the daemon always ends, spawns nothing and leaves no lock held, on every exit: it
  answers True after exactly one shutdown request and False without any, and an exception follows
  at most one.\<close>

theorem daemon_stop_settles:
  assumes "daemon_clock env now" "ct_locks c = []"
  shows "\<exists>r c' new. stop_daemon env cancel c = Some (r, c') \<and> ct_locks c' = [] \<and> ct_spawned c' = ct_spawned c
    \<and> ct_shutdowns c' = ct_shutdowns c @ new \<and> (case r of Inl e \<Rightarrow> length new \<le> 1 | Inr b \<Rightarrow> length new = of_bool b)"
proof -
  let ?N = "stopped_within now (now (ct_world c)) [] (ct_spawned c) (ct_shutdowns c)"
  have "stands now (now (ct_world c)) [] (ct_spawned c) (ct_shutdowns c) c" using assms(2) by (simp add: stands_def)
  from run_ensuresD [OF stop_ensures [OF assms(1)] this]
  obtain r c' where run: "stop_daemon env cancel c = Some (r, c')"
    and after: "case r of Inl e \<Rightarrow> \<exists>asked. ?N asked c' | Inr b \<Rightarrow> ?N b c'" by blast
  obtain asked where "?N asked c'" "\<forall>b. r = Inr b \<longrightarrow> asked = b" using after by (cases r) auto
  then obtain new where "length new = of_bool asked" "ct_locks c' = []" "ct_spawned c' = ct_spawned c"
    "ct_shutdowns c' = ct_shutdowns c @ new" "\<forall>b. r = Inr b \<longrightarrow> asked = b" by (auto simp: stopped_within_def stands_def)
  moreover from this have "case r of Inl e \<Rightarrow> length new \<le> 1 | Inr b \<Rightarrow> length new = of_bool b"
    by (cases r; cases asked) auto
  ultimately show ?thesis using run by blast
qed

section \<open>A concrete machine\<close>

text \<open>The world counts twentieths of a second; the daemon answers, ready, from the third on.\<close>

definition demo_machine :: "nat controller_env" where
  "demo_machine =
     \<lparr>ce_health = (\<lambda>w. (if w < 3 then Inl (OSError '''') else Inr [(''ready'', DBool True), (''generation'', DStr ''g'')], w)),
      ce_shutdown = (\<lambda>_ w. (Inr (), w)), ce_identity = (\<lambda>w. (Inr (Some ''x''), w)), ce_loads = (\<lambda>_. None),
      ce_type_name = (\<lambda>_. ''OSError''), ce_ensure_paths = (\<lambda>w. (Inr (), w)), ce_try_lock = (\<lambda>_ w. (Inr True, w)),
      ce_spawn = (\<lambda>w. (Inr (), w)), ce_exited = (\<lambda>w. (Inr False, w)), ce_monotonic = (\<lambda>w. (Inr (real w / 20), w)),
      ce_sleep = (\<lambda>s w. (Inr (), w + nat \<lceil>20 * s\<rceil>))\<rparr>"

definition demo_controller :: "nat controller" where
  "demo_controller = \<lparr>ct_world = 0, ct_locks = [], ct_spawned = [], ct_shutdowns = []\<rparr>"

lemma demo_clock: "daemon_clock demo_machine (\<lambda>w. real w / 20)"
proof -
  have "real w / 20 + s \<le> real (w + nat \<lceil>20 * s\<rceil>) / 20" for w :: nat and s :: real
  proof -
    have "20 * s \<le> real (nat \<lceil>20 * s\<rceil>)" by (rule real_nat_ceiling_ge)
    then show ?thesis by simp
  qed
  then show ?thesis by (simp add: daemon_clock_def time_passes_def demo_machine_def)
qed

theorem daemon_start_is_single_witness:
  "\<exists>r c'. ensure_started demo_machine demo_controller = Some (r, c') \<and> ct_locks c' = []
    \<and> (ct_spawned c' = [] \<or> ct_spawned c' = [[bootstrap_lock]])"
  using daemon_start_is_single [OF demo_clock, of demo_controller] by (auto simp: demo_controller_def)

theorem daemon_stop_settles_witness:
  "\<exists>r c' new. stop_daemon demo_machine False demo_controller = Some (r, c') \<and> ct_locks c' = []
    \<and> ct_spawned c' = [] \<and> ct_shutdowns c' = new"
  using daemon_stop_settles [OF demo_clock, of demo_controller False] by (auto simp: demo_controller_def)

end
